(* ===== verification/Prelude.thy ===== *)
theory Prelude
  imports Main "HOL-Library.Word" "HOL-Library.Monad_Syntax" "HOL-Library.Multiset"
begin

text \<open>
  Shared vocabulary of the development: the machine integer types of the server, the
  little-endian byte images that \<open>memcpy\<close> produces on its targets, decimal printing,
  fallible computations as \<open>option\<close>, and generic facts on lists that several components use.
\<close>

unbundle bit_operations_syntax

named_theorems net_simps \<open>unfolding rules of the message buffer operations\<close>
named_theorems party_simps \<open>effects of the party primitives on the observable state\<close>
named_theorems chat_simps \<open>unfolding rules of the chat channel operations\<close>

section \<open>Machine integers\<close>

type_synonym u8 = "8 word"
type_synonym u16 = "16 word"
type_synonym u32 = "32 word"
type_synonym u64 = "64 word"
type_synonym byte = "8 word"

lemma unat_u8_less [simp]: "unat (b :: u8) < 256"
  using unsigned_less [of b, where ?'a = nat] by simp

lemma unat_u16_less [simp]: "unat (w :: u16) < 65536"
  using unsigned_less [of w, where ?'a = nat] by simp

lemma unat_u32_less: "unat (w :: u32) < 4294967296"
  using unsigned_less [of w, where ?'a = nat] by simp

lemma unat_plus_no_wrap:
  fixes a b :: "'a :: len word"
  assumes "unat a + unat b < 2 ^ LENGTH('a)"
  shows "unat (a + b) = unat a + unat b"
  using assms by (simp add: unat_word_ariths)

lemma unat_of_nat_small:
  assumes "n < 2 ^ LENGTH('a)"
  shows "unat (of_nat n :: 'a :: len word) = n"
  using assms by (simp add: unat_of_nat take_bit_nat_eq_self)

lemma unat_ucast_u8_u32 [simp]: "unat (ucast (b :: u8) :: u32) = unat b"
proof -
  have "unat b < 4294967296" using unat_u8_less [of b] by linarith
  then have "unat b < 2 ^ 32" by simp
  then show ?thesis by (simp add: unsigned_ucast_eq take_bit_nat_eq_self)
qed

section \<open>Little-endian byte images\<close>

text \<open>
  \<open>to_le n v\<close> is the image of the unsigned value \<open>v\<close> in \<open>n\<close> bytes, as copied by
  \<open>memcpy(dst, &value, n)\<close>; \<open>from_le\<close> reads one back.
\<close>

fun to_le :: "nat \<Rightarrow> nat \<Rightarrow> byte list" where
  "to_le 0 v = []"
| "to_le (Suc n) v = of_nat (v mod 256) # to_le n (v div 256)"

fun from_le :: "byte list \<Rightarrow> nat" where
  "from_le [] = 0"
| "from_le (b # bs) = unat b + 256 * from_le bs"

lemma length_to_le [simp]: "length (to_le n v) = n"
  by (induction n arbitrary: v) auto

lemma from_le_bound: "from_le bs < 256 ^ length bs"
proof (induction bs)
  case Nil
  then show ?case by simp
next
  case (Cons b bs)
  have "unat b + 256 * from_le bs < 256 + 256 * from_le bs" by simp
  also have "\<dots> \<le> 256 * 256 ^ length bs" using Cons.IH by simp
  finally show ?case by simp
qed

lemma from_to_le: "from_le (to_le n v) = v mod 256 ^ n"
proof (induction n arbitrary: v)
  case 0
  then show ?case by simp
next
  case (Suc n)
  have "unat (of_nat (v mod 256) :: byte) = v mod 256"
    by (rule unat_of_nat_small) simp
  then have "from_le (to_le (Suc n) v) = v mod 256 + 256 * (v div 256 mod 256 ^ n)"
    using Suc.IH by simp
  also have "\<dots> = v mod (256 * 256 ^ n)"
    by (simp add: mod_mult2_eq)
  finally show ?case by simp
qed

lemma from_to_le_id [simp]: "v < 256 ^ n \<Longrightarrow> from_le (to_le n v) = v"
  by (simp add: from_to_le)

lemma to_from_le [simp]: "to_le (length bs) (from_le bs) = bs"
  by (induction bs) (auto simp: unat_of_nat)

lemma to_from_le_n: "length bs = n \<Longrightarrow> to_le n (from_le bs) = bs"
  using to_from_le by blast

section \<open>Decimal printing\<close>

text \<open>\<open>std::to_string\<close> on unsigned values.\<close>

definition digit_char :: "nat \<Rightarrow> char" where
  "digit_char d = char_of (48 + d)"

fun show_nat :: "nat \<Rightarrow> string" where
  "show_nat n = (if n < 10 then [digit_char n] else show_nat (n div 10) @ [digit_char (n mod 10)])"

declare show_nat.simps [simp del]

fun read_nat :: "string \<Rightarrow> nat" where
  "read_nat s = foldl (\<lambda>acc c. 10 * acc + (of_char c - 48)) 0 s"

lemma of_char_digit [simp]: "d < 10 \<Longrightarrow> (of_char (digit_char d) :: nat) = 48 + d"
  by (simp add: digit_char_def)

lemma read_show_nat: "read_nat (show_nat n) = n"
proof (induction n rule: show_nat.induct)
  case (1 n)
  show ?case
  proof (cases "n < 10")
    case True
    then show ?thesis by (simp add: show_nat.simps [of n])
  next
    case False
    with 1 have "read_nat (show_nat (n div 10)) = n div 10" by simp
    with False show ?thesis by (simp add: show_nat.simps [of n])
  qed
qed

lemma show_nat_inj: "show_nat m = show_nat n \<longleftrightarrow> m = n"
  by (metis read_show_nat)

section \<open>Lists\<close>

text \<open>
  \<open>std::find\<close> followed by \<open>erase\<close> on a vector removes the first occurrence, as
  \<open>remove1\<close> does; \<open>std::list::remove\<close> removes every occurrence, as \<open>removeAll\<close>.
\<close>

lemma set_remove1_distinct: "distinct xs \<Longrightarrow> set (remove1 x xs) = set xs - {x}"
  by (simp add: set_remove1_eq)

lemma removeAll_idem: "x \<notin> set xs \<Longrightarrow> removeAll x xs = xs"
  by (rule removeAll_id)

text \<open>
  Swap with the last element and pop: how the server removes from a vector whose order
  does not matter.
\<close>

definition swap_pop :: "'a list \<Rightarrow> 'a \<Rightarrow> 'a list" where
  "swap_pop xs x =
     (if x \<in> set xs
      then (let i = length (takeWhile ((\<noteq>) x) xs) in butlast (xs[i := last xs]))
      else xs)"

lemma length_takeWhile_neq: "x \<in> set xs \<Longrightarrow> length (takeWhile ((\<noteq>) x) xs) < length xs"
  by (induction xs) auto

lemma nth_takeWhile_neq: "x \<in> set xs \<Longrightarrow> xs ! length (takeWhile ((\<noteq>) x) xs) = x"
  by (induction xs) auto

lemma mset_swap_pop:
  assumes "x \<in> set xs"
  shows "mset (swap_pop xs x) = mset xs - {#x#}"
proof -
  let ?i = "length (takeWhile ((\<noteq>) x) xs)"
  have i: "?i < length xs" and xi: "xs ! ?i = x"
    using assms by (rule length_takeWhile_neq, rule nth_takeWhile_neq)
  have ne: "xs \<noteq> []" using i by auto
  have "mset (xs[?i := last xs]) = add_mset (last xs) (mset xs - {#x#})"
    using i xi by (simp add: mset_update)
  moreover have "xs[?i := last xs] \<noteq> []" using ne by simp
  moreover have "last (xs[?i := last xs]) = last xs"
    using ne by (simp add: last_list_update)
  ultimately have "mset (butlast (xs[?i := last xs])) = mset xs - {#x#}"
    by (metis add_mset_remove_trivial append_butlast_last_id mset_append mset_single_iff
        union_mset_add_mset_right add.right_neutral mset.simps(1) mset.simps(2))
  with assms show ?thesis by (simp add: swap_pop_def Let_def)
qed

lemma swap_pop_absent [simp]: "x \<notin> set xs \<Longrightarrow> swap_pop xs x = xs"
  by (simp add: swap_pop_def)

lemma set_swap_pop: "distinct xs \<Longrightarrow> set (swap_pop xs x) = set xs - {x}"
proof (cases "x \<in> set xs")
  case True
  assume d: "distinct xs"
  have "set_mset (mset (swap_pop xs x)) = set_mset (mset xs - {#x#})"
    using True by (simp add: mset_swap_pop)
  also have "\<dots> = set (remove1 x xs)" by (simp only: mset_remove1 [symmetric] set_mset_mset)
  finally show ?thesis using d by (simp add: set_remove1_eq)
next
  case False
  then show ?thesis by auto
qed

lemma distinct_swap_pop: "distinct xs \<Longrightarrow> distinct (swap_pop xs x)"
proof (cases "x \<in> set xs")
  case True
  assume "distinct xs"
  then have "distinct (remove1 x xs)" by simp
  moreover have "mset (swap_pop xs x) = mset (remove1 x xs)" using True by (simp add: mset_swap_pop)
  ultimately show ?thesis by (metis mset_eq_imp_distinct_iff)
qed simp

end
