(* ===== verification/Position.thy ===== *)
theory Position
  imports Prelude
begin

text \<open>
  Map coordinates and directions: \<open>src/src/game/movement/position.h\<close>,
  \<open>position.cpp\<close> and the direction functions of \<open>src/src/utils/tools.cpp\<close>.
  Coordinates keep their widths (16, 16 and 8 bits) and wrap as the C++ code does.
\<close>

section \<open>Data\<close>

datatype direction =
    DIRECTION_NORTH | DIRECTION_EAST | DIRECTION_SOUTH | DIRECTION_WEST
  | DIRECTION_SOUTHWEST | DIRECTION_SOUTHEAST | DIRECTION_NORTHWEST | DIRECTION_NORTHEAST
  | DIRECTION_NONE

fun dir_code :: "direction \<Rightarrow> u8" where
  "dir_code DIRECTION_NORTH = 0"
| "dir_code DIRECTION_EAST = 1"
| "dir_code DIRECTION_SOUTH = 2"
| "dir_code DIRECTION_WEST = 3"
| "dir_code DIRECTION_SOUTHWEST = 4 OR 0"
| "dir_code DIRECTION_SOUTHEAST = 4 OR 1"
| "dir_code DIRECTION_NORTHWEST = 4 OR 2"
| "dir_code DIRECTION_NORTHEAST = 4 OR 3"
| "dir_code DIRECTION_NONE = 8"

datatype position = Position (pos_x: u16) (pos_y: u16) (pos_z: u8)

section \<open>Distances\<close>

definition getX :: "position \<Rightarrow> int" where "getX p = uint (pos_x p)"
definition getY :: "position \<Rightarrow> int" where "getY p = uint (pos_y p)"
definition getZ :: "position \<Rightarrow> int" where "getZ p = uint (pos_z p)"

definition getOffsetX :: "position \<Rightarrow> position \<Rightarrow> int" where
  "getOffsetX p1 p2 = getX p1 - getX p2"
definition getOffsetY :: "position \<Rightarrow> position \<Rightarrow> int" where
  "getOffsetY p1 p2 = getY p1 - getY p2"
definition getOffsetZ :: "position \<Rightarrow> position \<Rightarrow> int" where
  "getOffsetZ p1 p2 = getZ p1 - getZ p2"

definition getDistanceX :: "position \<Rightarrow> position \<Rightarrow> int" where
  "getDistanceX p1 p2 = \<bar>getOffsetX p1 p2\<bar>"
definition getDistanceY :: "position \<Rightarrow> position \<Rightarrow> int" where
  "getDistanceY p1 p2 = \<bar>getOffsetY p1 p2\<bar>"
definition getDistanceZ :: "position \<Rightarrow> position \<Rightarrow> int" where
  "getDistanceZ p1 p2 = \<bar>getOffsetZ p1 p2\<bar>"

lemmas coord_defs = getX_def getY_def getZ_def getOffsetX_def getOffsetY_def getOffsetZ_def
  getDistanceX_def getDistanceY_def getDistanceZ_def

definition areInRange2 :: "int \<Rightarrow> int \<Rightarrow> position \<Rightarrow> position \<Rightarrow> bool" where
  "areInRange2 deltax deltay p1 p2 \<longleftrightarrow>
     getDistanceX p1 p2 \<le> deltax \<and> getDistanceY p1 p2 \<le> deltay"

definition areInRange3 :: "int \<Rightarrow> int \<Rightarrow> int \<Rightarrow> position \<Rightarrow> position \<Rightarrow> bool" where
  "areInRange3 deltax deltay deltaz p1 p2 \<longleftrightarrow>
     getDistanceX p1 p2 \<le> deltax \<and> getDistanceY p1 p2 \<le> deltay \<and> getDistanceZ p1 p2 \<le> deltaz"

lemma areInRange3_sym: "areInRange3 a b c p q = areInRange3 a b c q p"
  by (auto simp: areInRange3_def coord_defs)

section \<open>Comparison and arithmetic operators\<close>

definition pos_less :: "position \<Rightarrow> position \<Rightarrow> bool" where
  "pos_less p q =
     (if pos_z p < pos_z q then True
      else if pos_z p > pos_z q then False
      else if pos_y p < pos_y q then True
      else if pos_y p > pos_y q then False
      else if pos_x p < pos_x q then True
      else if pos_x p > pos_x q then False
      else False)"

definition pos_greater :: "position \<Rightarrow> position \<Rightarrow> bool" where
  "pos_greater p q \<longleftrightarrow> \<not> pos_less p q"

definition pos_eq :: "position \<Rightarrow> position \<Rightarrow> bool" where
  "pos_eq p q \<longleftrightarrow> pos_x q = pos_x p \<and> pos_y q = pos_y p \<and> pos_z q = pos_z p"

definition pos_neq :: "position \<Rightarrow> position \<Rightarrow> bool" where
  "pos_neq p q \<longleftrightarrow> pos_x q \<noteq> pos_x p \<or> pos_y q \<noteq> pos_y p \<or> pos_z q \<noteq> pos_z p"

definition pos_plus :: "position \<Rightarrow> position \<Rightarrow> position" where
  "pos_plus p q = Position (pos_x p + pos_x q) (pos_y p + pos_y q) (pos_z p + pos_z q)"

definition pos_minus :: "position \<Rightarrow> position \<Rightarrow> position" where
  "pos_minus p q = Position (pos_x p - pos_x q) (pos_y p - pos_y q) (pos_z p - pos_z q)"

lemma pos_eq_iff: "pos_eq p q \<longleftrightarrow> p = q"
  by (cases p; cases q) (auto simp: pos_eq_def)

lemma pos_neq_iff: "pos_neq p q \<longleftrightarrow> p \<noteq> q"
  by (cases p; cases q) (auto simp: pos_neq_def)

text \<open>\<open>operator<\<close> is a strict linear order, so positions can be keys of ordered containers.\<close>

instantiation position :: linorder
begin

definition less_position :: "position \<Rightarrow> position \<Rightarrow> bool" where
  "less_position p q = pos_less p q"

definition less_eq_position :: "position \<Rightarrow> position \<Rightarrow> bool" where
  "less_eq_position p q = (pos_less p q \<or> p = q)"

instance
proof
  fix p q r :: position
  show "(p < q) = (p \<le> q \<and> \<not> q \<le> p)"
    by (cases p; cases q)
      (auto simp: less_position_def less_eq_position_def pos_less_def split: if_splits)
  show "p \<le> p"
    by (simp add: less_eq_position_def)
  show "p \<le> q \<Longrightarrow> q \<le> r \<Longrightarrow> p \<le> r"
    by (cases p; cases q; cases r)
      (auto simp: less_eq_position_def pos_less_def split: if_splits)
  show "p \<le> q \<Longrightarrow> q \<le> p \<Longrightarrow> p = q"
    by (cases p; cases q) (auto simp: less_eq_position_def pos_less_def split: if_splits)
  show "p \<le> q \<or> q \<le> p"
    by (cases p; cases q) (auto simp: less_eq_position_def pos_less_def)
qed

end

section \<open>Printing\<close>

definition pos_toString :: "position \<Rightarrow> string" where
  "pos_toString p = ''( '' @ show_nat (unat (pos_x p)) @ '' / '' @ show_nat (unat (pos_y p)) @
     '' / '' @ show_nat (unat (pos_z p)) @ '' )''"

definition setw0 :: "nat \<Rightarrow> string \<Rightarrow> string" where
  "setw0 n s = replicate (n - length s) (CHR ''0'') @ s"

definition pos_print :: "position \<Rightarrow> string" where
  "pos_print p = ''( '' @ setw0 5 (show_nat (unat (pos_x p))) @
     '' / '' @ setw0 5 (show_nat (unat (pos_y p))) @
     '' / '' @ setw0 3 (show_nat (unat (pos_z p))) @ '' )''"

fun dir_print :: "direction \<Rightarrow> string" where
  "dir_print DIRECTION_NORTH = ''North''"
| "dir_print DIRECTION_EAST = ''East''"
| "dir_print DIRECTION_WEST = ''West''"
| "dir_print DIRECTION_SOUTH = ''South''"
| "dir_print DIRECTION_SOUTHWEST = ''South-West''"
| "dir_print DIRECTION_SOUTHEAST = ''South-East''"
| "dir_print DIRECTION_NORTHWEST = ''North-West''"
| "dir_print DIRECTION_NORTHEAST = ''North-East''"
| "dir_print DIRECTION_NONE = []"

section \<open>Directions\<close>

text \<open>
  \<open>std::shuffle\<close> on the static list is a parameter: a function that returns a permutation of
  its argument. The list keeps the shuffled order between calls.
\<close>

definition getRandomDirection ::
    "(direction list \<Rightarrow> direction list) \<Rightarrow> direction list \<Rightarrow> direction \<times> direction list" where
  "getRandomDirection shuffle dirList = (let l = shuffle dirList in (hd l, l))"

definition initialDirList :: "direction list" where
  "initialDirList = [DIRECTION_NORTH, DIRECTION_WEST, DIRECTION_EAST, DIRECTION_SOUTH]"

definition getDirection :: "string \<Rightarrow> direction" where
  "getDirection s =
     (if s = ''north'' \<or> s = ''n'' \<or> s = ''0'' then DIRECTION_NORTH
      else if s = ''east'' \<or> s = ''e'' \<or> s = ''1'' then DIRECTION_EAST
      else if s = ''south'' \<or> s = ''s'' \<or> s = ''2'' then DIRECTION_SOUTH
      else if s = ''west'' \<or> s = ''w'' \<or> s = ''3'' then DIRECTION_WEST
      else if s = ''southwest'' \<or> s = ''south west'' \<or> s = ''south-west'' \<or> s = ''sw'' \<or> s = ''4''
        then DIRECTION_SOUTHWEST
      else if s = ''southeast'' \<or> s = ''south east'' \<or> s = ''south-east'' \<or> s = ''se'' \<or> s = ''5''
        then DIRECTION_SOUTHEAST
      else if s = ''northwest'' \<or> s = ''north west'' \<or> s = ''north-west'' \<or> s = ''nw'' \<or> s = ''6''
        then DIRECTION_NORTHWEST
      else if s = ''northeast'' \<or> s = ''north east'' \<or> s = ''north-east'' \<or> s = ''ne'' \<or> s = ''7''
        then DIRECTION_NORTHEAST
      else DIRECTION_NORTH)"

fun getNextPosition :: "direction \<Rightarrow> position \<Rightarrow> position" where
  "getNextPosition DIRECTION_NORTH (Position x y z) = Position x (y - 1) z"
| "getNextPosition DIRECTION_SOUTH (Position x y z) = Position x (y + 1) z"
| "getNextPosition DIRECTION_WEST (Position x y z) = Position (x - 1) y z"
| "getNextPosition DIRECTION_EAST (Position x y z) = Position (x + 1) y z"
| "getNextPosition DIRECTION_SOUTHWEST (Position x y z) = Position (x - 1) (y + 1) z"
| "getNextPosition DIRECTION_NORTHWEST (Position x y z) = Position (x - 1) (y - 1) z"
| "getNextPosition DIRECTION_NORTHEAST (Position x y z) = Position (x + 1) (y - 1) z"
| "getNextPosition DIRECTION_SOUTHEAST (Position x y z) = Position (x + 1) (y + 1) z"
| "getNextPosition DIRECTION_NONE pos = pos"

definition getDirectionTo :: "position \<Rightarrow> position \<Rightarrow> direction" where
  "getDirectionTo pfrom pto =
     (let x0 = getOffsetX pfrom pto;
          (dir, x_offset) = (if x0 < 0 then (DIRECTION_EAST, \<bar>x0\<bar>) else (DIRECTION_WEST, x0));
          y0 = getOffsetY pfrom pto
      in if y0 \<ge> 0 then
           (if y0 > x_offset then DIRECTION_NORTH
            else if y0 = x_offset then
              (if dir = DIRECTION_EAST then DIRECTION_NORTHEAST else DIRECTION_NORTHWEST)
            else dir)
         else
           (let y_offset = \<bar>y0\<bar>
            in if y_offset > x_offset then DIRECTION_SOUTH
               else if y_offset = x_offset then
                 (if dir = DIRECTION_EAST then DIRECTION_SOUTHEAST else DIRECTION_SOUTHWEST)
               else dir))"

fun opposite :: "direction \<Rightarrow> direction" where
  "opposite DIRECTION_NORTH = DIRECTION_SOUTH"
| "opposite DIRECTION_SOUTH = DIRECTION_NORTH"
| "opposite DIRECTION_EAST = DIRECTION_WEST"
| "opposite DIRECTION_WEST = DIRECTION_EAST"
| "opposite DIRECTION_SOUTHWEST = DIRECTION_NORTHEAST"
| "opposite DIRECTION_NORTHEAST = DIRECTION_SOUTHWEST"
| "opposite DIRECTION_SOUTHEAST = DIRECTION_NORTHWEST"
| "opposite DIRECTION_NORTHWEST = DIRECTION_SOUTHEAST"
| "opposite DIRECTION_NONE = DIRECTION_NONE"

lemma getNextPosition_opposite:
  "getNextPosition (opposite d) (getNextPosition d p) = p"
  by (cases p; cases d) auto

lemma getNextPosition_z [simp]: "pos_z (getNextPosition d p) = pos_z p"
  by (cases p; cases d) auto

text \<open>The Chebyshev distance in the plane, the number of steps between two positions.\<close>

definition steps_to :: "position \<Rightarrow> position \<Rightarrow> int" where
  "steps_to p q = max (getDistanceX p q) (getDistanceY p q)"

lemma uint_dec: "0 < uint (a :: u16) \<Longrightarrow> uint (a - 1) = uint a - 1"
  by (simp add: uint_word_ariths mod_pos_pos_trivial) (use unsigned_less [of a, where ?'a = int] in simp)

lemma uint_inc: "uint (a :: u16) < 65535 \<Longrightarrow> uint (a + 1) = uint a + 1"
  by (simp add: uint_word_ariths mod_pos_pos_trivial)

lemma uint_u16_range: "0 \<le> uint (a :: u16) \<and> uint a < 65536"
  using unsigned_less [of a, where ?'a = int] by simp

text \<open>C39: stepping once in the direction computed by \<open>getDirectionTo\<close> from one tile towards
  a different tile of the plane brings the walker exactly one step closer, with no coordinate
  wrapping around.\<close>

theorem getDirectionTo_approaches:
  assumes "steps_to pfrom pto > 0"
  shows "steps_to (getNextPosition (getDirectionTo pfrom pto) pfrom) pto = steps_to pfrom pto - 1"
proof -
  obtain x y z where f: "pfrom = Position x y z" by (cases pfrom)
  obtain u v w where t: "pto = Position u v w" by (cases pto)
  note bnd = uint_u16_range [of x] uint_u16_range [of y] uint_u16_range [of u] uint_u16_range [of v]
  have xd: "uint x > uint u \<Longrightarrow> uint (x - 1) = uint x - 1"
    using uint_dec [of x] bnd by linarith
  have yd: "uint y > uint v \<Longrightarrow> uint (y - 1) = uint y - 1"
    using uint_dec [of y] bnd by linarith
  have xi: "uint x < uint u \<Longrightarrow> uint (x + 1) = uint x + 1"
    using uint_inc [of x] bnd by linarith
  have yi: "uint y < uint v \<Longrightarrow> uint (y + 1) = uint y + 1"
    using uint_inc [of y] bnd by linarith
  show ?thesis
    using assms xd yd xi yi
    unfolding f t getDirectionTo_def steps_to_def coord_defs Let_def
    by (cases "uint x < uint u"; cases "uint y < uint v";
        cases "\<bar>uint x - uint u\<bar>" "\<bar>uint y - uint v\<bar>" rule: linorder_cases)
      (simp_all add: abs_if max_def)
qed

theorem getDirectionTo_approaches_witness:
  "steps_to (getNextPosition (getDirectionTo (Position 100 100 7) (Position 103 98 7)) (Position 100 100 7))
     (Position 103 98 7) = 2"
proof -
  have "steps_to (Position 100 100 7) (Position 103 98 7) = 3"
    by (simp add: steps_to_def coord_defs)
  then show ?thesis
    using getDirectionTo_approaches [of "Position 100 100 7" "Position 103 98 7"] by simp
qed

text \<open>\<open>operator>\<close> of positions is not the converse of \<open>operator<\<close>: it is the
  reflexive order, so that \<open>p > p\<close> holds for every position and \<open>p > q\<close> means
  \<open>q \<le> p\<close>.\<close>

theorem pos_greater_is_not_strict: "pos_greater p q \<longleftrightarrow> q \<le> p"
  unfolding pos_greater_def less_position_def [symmetric] by (rule not_less)

end
