(* ===== verification/Sha1.thy ===== *)
theory Sha1
  imports Prelude
begin

text \<open>
  SHA-1 as \<open>src/src/utils/tools.cpp\<close> computes it (passwords), and the time-based login
  token built on it (HMAC-SHA1, \<open>generateToken\<close>). The streaming routine with its split
  bit counter is compared with the padded-message definition of the digest.
\<close>

section \<open>One message block\<close>

definition circularShift :: "nat \<Rightarrow> u32 \<Rightarrow> u32" where
  "circularShift bits v = push_bit bits v OR drop_bit (32 - bits) v"

definition be_word :: "byte list \<Rightarrow> nat \<Rightarrow> u32" where
  "be_word blk i = (let off = push_bit 2 i in
     push_bit 24 (ucast (blk ! off)) OR push_bit 16 (ucast (blk ! (off + 1))) OR
     push_bit 8 (ucast (blk ! (off + 2))) OR ucast (blk ! (off + 3)))"

definition sha1_W :: "byte list \<Rightarrow> u32 list" where
  "sha1_W blk =
     fold (\<lambda>i W. W @ [circularShift 1 (W ! (i - 3) XOR W ! (i - 8) XOR W ! (i - 14) XOR W ! (i - 16))])
       [16..<80] (map (be_word blk) [0..<16])"

record sha1_state =
  hA :: u32
  hB :: u32
  hC :: u32
  hD :: u32
  hE :: u32

definition sha1_f :: "nat \<Rightarrow> u32 \<Rightarrow> u32 \<Rightarrow> u32 \<Rightarrow> u32" where
  "sha1_f i B C D =
     (if i < 20 then (B AND C) OR (NOT B AND D)
      else if i < 40 then B XOR C XOR D
      else if i < 60 then (B AND C) OR (B AND D) OR (C AND D)
      else B XOR C XOR D)"

definition sha1_K :: "nat \<Rightarrow> u32" where
  "sha1_K i = (if i < 20 then 0x5A827999 else if i < 40 then 0x6ED9EBA1
               else if i < 60 then 0x8F1BBCDC else 0xCA62C1D6)"

definition sha1_round :: "u32 list \<Rightarrow> nat \<Rightarrow> sha1_state \<Rightarrow> sha1_state" where
  "sha1_round W i s =
     (let tmp = circularShift 5 (hA s) + sha1_f i (hB s) (hC s) (hD s) + hE s + W ! i + sha1_K i
      in \<lparr>hA = tmp, hB = hA s, hC = circularShift 30 (hB s), hD = hC s, hE = hD s\<rparr>)"

definition processSHA1MessageBlock :: "byte list \<Rightarrow> sha1_state \<Rightarrow> sha1_state" where
  "processSHA1MessageBlock blk H =
     (let W = sha1_W blk; r = fold (sha1_round W) [0..<80] H
      in \<lparr>hA = hA H + hA r, hB = hB H + hB r, hC = hC H + hC r, hD = hD H + hD r, hE = hE H + hE r\<rparr>)"

lemma length_sha1_W: "length (sha1_W blk) = 80"
proof -
  have "length (fold (\<lambda>i W. W @ [f i W]) is W0) = length W0 + length is" for f "is" and W0 :: "u32 list"
    by (induction "is" arbitrary: W0) auto
  then have "length (sha1_W blk) = length (map (be_word blk) [0..<16]) + length [16..<80]"
    unfolding sha1_W_def .
  then show ?thesis by (simp only: length_map length_upt)
qed

section \<open>Streaming\<close>

definition sha1_init :: sha1_state where
  "sha1_init = \<lparr>hA = 0x67452301, hB = 0xEFCDAB89, hC = 0x98BADCFE, hD = 0x10325476, hE = 0xC3D2E1F0\<rparr>"

text \<open>
  The message block being filled (its length is the C++ \<open>index\<close>), the two halves of the bit
  counter, and the digest so far.
\<close>

record sha1_stream =
  s_H :: sha1_state
  s_block :: "byte list"
  s_low :: u32
  s_high :: u32

definition sha1_feed :: "byte \<Rightarrow> sha1_stream \<Rightarrow> sha1_stream" where
  "sha1_feed ch s =
     (let blk = s_block s @ [ch];
          low = s_low s + 8;
          high = (if low = 0 then s_high s + 1 else s_high s)
      in if length blk = 64
         then \<lparr>s_H = processSHA1MessageBlock blk (s_H s), s_block = [], s_low = low, s_high = high\<rparr>
         else \<lparr>s_H = s_H s, s_block = blk, s_low = low, s_high = high\<rparr>)"

definition be32 :: "u32 \<Rightarrow> byte list" where
  "be32 w = [ucast (drop_bit 24 w), ucast (drop_bit 16 w), ucast (drop_bit 8 w), ucast w]"

definition sha1_finish :: "sha1_stream \<Rightarrow> sha1_state" where
  "sha1_finish s =
     (let blk = s_block s @ [0x80];
          (H, blk) = (if length blk > 56
                      then (processSHA1MessageBlock (blk @ replicate (64 - length blk) 0) (s_H s), [])
                      else (s_H s, blk));
          blk = blk @ replicate (56 - length blk) 0
      in processSHA1MessageBlock (blk @ be32 (s_high s) @ be32 (s_low s)) H)"

definition hexDigits :: string where "hexDigits = ''0123456789abcdef''"

definition hex_byte :: "byte \<Rightarrow> string" where
  "hex_byte b = [hexDigits ! unat (drop_bit 4 b), hexDigits ! unat (b AND 15)]"

definition sha1_hex :: "sha1_state \<Rightarrow> string" where
  "sha1_hex s = concat (map hex_byte (concat (map be32 [hA s, hB s, hC s, hD s, hE s])))"

definition transformToSHA1 :: "byte list \<Rightarrow> string" where
  "transformToSHA1 input =
     sha1_hex (sha1_finish (fold sha1_feed input
       \<lparr>s_H = sha1_init, s_block = [], s_low = 0, s_high = 0\<rparr>))"

section \<open>The digest of the padded message\<close>

fun sha1_blocks :: "byte list \<Rightarrow> sha1_state \<Rightarrow> sha1_state" where
  "sha1_blocks m H =
     (if length m < 64 then H
      else sha1_blocks (drop 64 m) (processSHA1MessageBlock (take 64 m) H))"

declare sha1_blocks.simps [simp del]

definition be64 :: "nat \<Rightarrow> byte list" where
  "be64 n = be32 (of_nat (n div 2 ^ 32)) @ be32 (of_nat n)"

definition sha1_pad :: "byte list \<Rightarrow> byte list" where
  "sha1_pad m = (let r = length m mod 64 in
     m @ [0x80] @ replicate (if r < 56 then 55 - r else 119 - r) 0 @ be64 (8 * length m))"

definition sha1_digest :: "byte list \<Rightarrow> string" where
  "sha1_digest m = sha1_hex (sha1_blocks (sha1_pad m) sha1_init)"

lemma length_be32 [simp]: "length (be32 w) = 4"
  by (simp add: be32_def)

lemma length_be64 [simp]: "length (be64 n) = 8"
  by (simp add: be64_def)

lemma sha1_pad_multiple: "64 dvd length (sha1_pad m)"
proof -
  define q r where "q = length m div 64" and "r = length m mod 64"
  have l: "length m = 64 * q + r" and r: "r < 64" by (simp_all add: q_def r_def)
  have "length (sha1_pad m) = length m + 1 + (if r < 56 then 55 - r else 119 - r) + 8"
    by (simp add: sha1_pad_def r_def Let_def)
  also have "\<dots> = 64 * (if r < 56 then q + 1 else q + 2)" using l r by simp
  finally show ?thesis by simp
qed

lemma sha1_blocks_short [simp]: "length m < 64 \<Longrightarrow> sha1_blocks m H = H"
  by (simp add: sha1_blocks.simps)

lemma sha1_blocks_one:
  "length b = 64 \<Longrightarrow> sha1_blocks (b @ m) H = sha1_blocks m (processSHA1MessageBlock b H)"
  by (subst sha1_blocks.simps) simp

lemma sha1_blocks_snoc:
  "length m mod 64 = 0 \<Longrightarrow> length b = 64 \<Longrightarrow>
   sha1_blocks (m @ b) H = processSHA1MessageBlock b (sha1_blocks m H)"
proof (induction m H rule: sha1_blocks.induct)
  case (1 m H)
  show ?case
  proof (cases "length m < 64")
    case True
    with "1.prems" have "m = []" by simp
    with "1.prems"(2) show ?thesis using sha1_blocks_one [of b "[]" H] by simp
  next
    case False
    then have m: "m = take 64 m @ drop 64 m" and l: "length (take 64 m) = 64" by simp_all
    have "length (drop 64 m) mod 64 = 0"
      using False "1.prems"(1) by (simp add: mod_if [of "length m"] le_mod_geq)
    then have "sha1_blocks (drop 64 m @ b) (processSHA1MessageBlock (take 64 m) H) =
        processSHA1MessageBlock b (sha1_blocks (drop 64 m) (processSHA1MessageBlock (take 64 m) H))"
      using "1.IH" [OF False] "1.prems"(2) by simp
    moreover have "sha1_blocks (m @ b) H =
        sha1_blocks (drop 64 m @ b) (processSHA1MessageBlock (take 64 m) H)"
      using sha1_blocks_one [OF l, of "drop 64 m @ b" H] m by (metis append.assoc)
    moreover have "sha1_blocks m H = sha1_blocks (drop 64 m) (processSHA1MessageBlock (take 64 m) H)"
      using sha1_blocks_one [OF l, of "drop 64 m" H] m by simp
    ultimately show ?thesis by simp
  qed
qed

text \<open>The state of the stream after a prefix of the input.\<close>

definition stream_inv :: "byte list \<Rightarrow> sha1_stream \<Rightarrow> bool" where
  "stream_inv m s \<longleftrightarrow>
     (\<exists>full. m = full @ s_block s \<and> length full mod 64 = 0 \<and> length (s_block s) < 64
        \<and> s_H s = sha1_blocks full sha1_init)
     \<and> s_low s = of_nat (8 * length m) \<and> s_high s = of_nat (8 * length m div 2 ^ 32)"

lemma counter_step:
  defines "lo n \<equiv> (of_nat (8 * n) :: u32)" and "hi n \<equiv> (of_nat (8 * n div 2 ^ 32) :: u32)"
  shows "lo n + 8 = lo (Suc n)"
    and "hi (Suc n) = (if lo (Suc n) = 0 then hi n + 1 else hi n)"
proof -
  show "lo n + 8 = lo (Suc n)" by (simp add: lo_def)
  have d: "8 * k div 2 ^ 32 = k div 2 ^ 29" for k :: nat by simp
  have z: "lo (Suc n) = 0 \<longleftrightarrow> Suc n mod 2 ^ 29 = 0"
  proof -
    have K: "(2 :: nat) ^ LENGTH(32) = 8 * 536870912" and K': "(2 :: nat) ^ 29 = 536870912"
      by simp_all
    have "lo (Suc n) = 0 \<longleftrightarrow> 8 * 536870912 dvd 8 * Suc n"
      unfolding lo_def word_of_nat_eq_0_iff K ..
    also have "\<dots> \<longleftrightarrow> 536870912 dvd Suc n"
      by (rule dvd_times_left_cancel_iff) simp
    finally show ?thesis unfolding K' dvd_eq_mod_eq_0 .
  qed
  show "hi (Suc n) = (if lo (Suc n) = 0 then hi n + 1 else hi n)"
    unfolding hi_def d z div_Suc by simp
qed

lemma stream_invE:
  assumes "stream_inv m s"
  obtains full where "m = full @ s_block s" and "length full mod 64 = 0" and "length (s_block s) < 64"
    and "s_H s = sha1_blocks full sha1_init"
    and "s_low s = of_nat (8 * length m)" and "s_high s = of_nat (8 * length m div 2 ^ 32)"
  using assms unfolding stream_inv_def by (elim conjE exE) (rule that)

lemma stream_inv_feed:
  assumes "stream_inv m s"
  shows "stream_inv (m @ [ch]) (sha1_feed ch s)"
proof -
  obtain full where f: "m = full @ s_block s" "length full mod 64 = 0" "length (s_block s) < 64"
      "s_H s = sha1_blocks full sha1_init"
    and c: "s_low s = of_nat (8 * length m)" "s_high s = of_nat (8 * length m div 2 ^ 32)"
    using assms by (rule stream_invE)
  have low: "s_low s + 8 = of_nat (8 * length (m @ [ch]))"
    using counter_step(1) [of "length m"] c(1) by simp
  have high: "(if s_low s + 8 = 0 then s_high s + 1 else s_high s) = of_nat (8 * length (m @ [ch]) div 2 ^ 32)"
    using counter_step(2) [of "length m"] unfolding low c(2) by simp
  show ?thesis
  proof (cases "length (s_block s @ [ch]) = 64")
    case True
    have "sha1_blocks (full @ (s_block s @ [ch])) sha1_init =
        processSHA1MessageBlock (s_block s @ [ch]) (s_H s)"
      using f True by (subst sha1_blocks_snoc) auto
    moreover have "length (full @ s_block s @ [ch]) mod 64 = 0"
      using f(2) True by simp
    ultimately show ?thesis
      unfolding stream_inv_def sha1_feed_def Let_def
      using True low high f(1) by (intro conjI exI [of _ "full @ s_block s @ [ch]"]) simp_all
  next
    case False
    then show ?thesis
      unfolding stream_inv_def sha1_feed_def Let_def
      using low high f by (intro conjI exI [of _ full]) simp_all
  qed
qed

lemma stream_inv_fold:
  "stream_inv m s \<Longrightarrow> stream_inv (m @ xs) (fold sha1_feed xs s)"
proof (induction xs arbitrary: m s)
  case Nil
  then show ?case by simp
next
  case (Cons x xs)
  from Cons.IH [OF stream_inv_feed [OF Cons.prems, of x]] show ?case by simp
qed

lemma sha1_finish_pad:
  assumes "stream_inv m s"
  shows "sha1_finish s = sha1_blocks (sha1_pad m) sha1_init"
proof -
  obtain full where f: "m = full @ s_block s" "length full mod 64 = 0" "length (s_block s) < 64"
      "s_H s = sha1_blocks full sha1_init"
    and c: "s_low s = of_nat (8 * length m)" "s_high s = of_nat (8 * length m div 2 ^ 32)"
    using assms by (rule stream_invE)
  let ?b = "s_block s" and ?len = "be32 (s_high s) @ be32 (s_low s)"
  have len: "?len = be64 (8 * length m)" using c by (simp add: be64_def)
  have lm: "length m mod 64 = length ?b" using f(1,2,3) by (simp add: mod_add_left_eq [symmetric])
  show ?thesis
  proof (cases "length ?b < 56")
    case True
    let ?last = "?b @ [0x80] @ replicate (55 - length ?b) 0 @ ?len"
    have pad: "sha1_pad m = full @ ?last"
      unfolding sha1_pad_def lm Let_def using True f(1) len by simp
    have "length ?last = 64" using True by simp
    then have "sha1_blocks (sha1_pad m) sha1_init = processSHA1MessageBlock ?last (s_H s)"
      unfolding pad using f(2,4) by (subst sha1_blocks_snoc) simp_all
    then show ?thesis using True by (simp add: sha1_finish_def)
  next
    case False
    let ?b1 = "?b @ [0x80] @ replicate (63 - length ?b) 0" and ?b2 = "replicate 56 0 @ ?len"
    have rep: "replicate (119 - length ?b) (0 :: byte) = replicate (63 - length ?b) 0 @ replicate 56 0"
      using f(3) by (simp add: replicate_add [symmetric])
    have pad: "sha1_pad m = (full @ ?b1) @ ?b2"
      unfolding sha1_pad_def lm Let_def using False f(1) len rep by simp
    have l1: "length ?b1 = 64" and l2: "length ?b2 = 64" using f(3) by simp_all
    have l3: "length (full @ ?b1) mod 64 = 0" using f(2) l1 by (simp add: mod_add_right_eq [symmetric])
    have "sha1_blocks (sha1_pad m) sha1_init =
        processSHA1MessageBlock ?b2 (processSHA1MessageBlock ?b1 (s_H s))"
      unfolding pad using l1 l2 l3 f(2,4) by (simp only: sha1_blocks_snoc)
    then show ?thesis using False f(3) by (simp add: sha1_finish_def)
  qed
qed


section \<open>Hexadecimal text\<close>

definition is_hex :: "char \<Rightarrow> bool" where
  "is_hex c \<longleftrightarrow> c \<in> set hexDigits"

lemma length_hexDigits [simp]: "length hexDigits = 16"
  by (simp add: hexDigits_def)

lemma hex_byte_nibbles: "unat (drop_bit 4 (b :: byte)) < 16" "unat (b AND 15) < 16"
proof -
  have "unat (drop_bit 4 b) = unat b div 16" by (simp only: unat_drop_bit_eq) (simp add: drop_bit_eq_div)
  then show "unat (drop_bit 4 b) < 16" using unat_u8_less [of b] by linarith
  have "unat (b AND 15) \<le> unat (15 :: byte)"
    by (rule word_and_le1 [THEN word_le_nat_alt [THEN iffD1]])
  then show "unat (b AND 15) < 16" by simp
qed

lemma length_hex_byte [simp]: "length (hex_byte b) = 2"
  by (simp add: hex_byte_def)

lemma hex_byte_is_hex: "list_all is_hex (hex_byte b)"
  using hex_byte_nibbles by (simp add: hex_byte_def is_hex_def)

lemma length_concat_hex: "length (concat (map hex_byte bs)) = 2 * length bs"
  by (induction bs) auto

lemma length_transformToSHA1: "length (transformToSHA1 m) = 40"
  by (simp add: transformToSHA1_def sha1_hex_def length_concat_hex)

lemma transformToSHA1_is_hex: "list_all is_hex (transformToSHA1 m)"
  unfolding transformToSHA1_def sha1_hex_def using hex_byte_is_hex
  by (auto simp: list_all_iff)

text \<open>\<open>std::stol(s, nullptr, 16)\<close> on hexadecimal digits.\<close>

definition hex_digit :: "char \<Rightarrow> nat" where
  "hex_digit c = (let n = of_char c in if n \<ge> 97 then n - 87 else n - 48)"

definition stol16 :: "string \<Rightarrow> nat" where
  "stol16 s = foldl (\<lambda>acc c. 16 * acc + hex_digit c) 0 s"

section \<open>Login tokens\<close>

text \<open>The message: the ticks, big-endian, in bytes 7 down to 1 of eight.\<close>

definition token_message :: "u32 \<Rightarrow> byte list" where
  "token_message ticks =
     fst (fold (\<lambda>i (message, ticks). (message[i := ucast (ticks AND 0xFF)], drop_bit 8 ticks))
           [7, 6, 5, 4, 3, 2, 1] (replicate 8 0, ticks))"

definition key_pad :: "byte \<Rightarrow> byte list \<Rightarrow> byte list" where
  "key_pad c key =
     fold (\<lambda>i pad. pad[i := pad ! i XOR key ! i]) [0..<length key] (replicate 64 c)"

fun hex_pairs :: "string \<Rightarrow> byte list" where
  "hex_pairs (a # b # s) = of_nat (stol16 [a, b]) # hex_pairs s"
| "hex_pairs _ = []"

definition substr :: "nat \<Rightarrow> nat \<Rightarrow> 'a list \<Rightarrow> 'a list" where
  "substr pos len s = take len (drop pos s)"

abbreviation (input) AUTHENTICATOR_DIGITS :: nat where "AUTHENTICATOR_DIGITS \<equiv> 6"

definition token_hash :: "byte list \<Rightarrow> u32 \<Rightarrow> nat" where
  "token_hash key ticks =
     (let inner = transformToSHA1 (key_pad 0x36 key @ token_message ticks);
          message = transformToSHA1 (key_pad 0x5C key @ hex_pairs inner);
          offset = stol16 (substr 39 1 message) AND 0xF
      in stol16 (substr (2 * offset) 8 message) AND 0x7FFFFFFF)"

text \<open>
  A key longer than the 64 byte pad would be written past the pad (undefined behaviour):
  that case is \<open>None\<close>.
\<close>

definition generateToken :: "byte list \<Rightarrow> u32 \<Rightarrow> string option" where
  "generateToken key ticks =
     (if length key > 64 then None
      else let message = show_nat (token_hash key ticks);
               hashLen = length message;
               message = drop (hashLen - min hashLen AUTHENTICATOR_DIGITS) message
           in Some (replicate (AUTHENTICATOR_DIGITS - min hashLen AUTHENTICATOR_DIGITS) (CHR ''0'') @ message))"

definition is_digit :: "char \<Rightarrow> bool" where
  "is_digit c \<longleftrightarrow> 48 \<le> (of_char c :: nat) \<and> (of_char c :: nat) < 58"

lemma show_nat_digits: "list_all is_digit (show_nat n)"
proof (induction n rule: show_nat.induct)
  case (1 n)
  then show ?case
    by (cases "n < 10") (simp_all add: show_nat.simps [of n] is_digit_def)
qed

lemma foldl_digits:
  "foldl (\<lambda>acc c. 10 * acc + (of_char c - 48 :: nat)) a s =
   a * 10 ^ length s + foldl (\<lambda>acc c. 10 * acc + (of_char c - 48)) 0 s"
proof (induction s arbitrary: a)
  case Nil
  then show ?case by simp
next
  case (Cons c s)
  show ?case
    using Cons.IH [of "10 * a + (of_char c - 48)"] Cons.IH [of "of_char c - 48"]
    by (simp add: algebra_simps)
qed

lemma read_nat_append: "read_nat (s @ t) = read_nat s * 10 ^ length t + read_nat t"
  using foldl_digits [of "read_nat s" t] by simp

lemma read_nat_bound: "list_all is_digit s \<Longrightarrow> read_nat s < 10 ^ length s"
proof (induction s)
  case Nil
  then show ?case by simp
next
  case (Cons c s)
  have c: "of_char c - 48 \<le> (9 :: nat)" using Cons.prems by (auto simp: is_digit_def)
  have "read_nat (c # s) = (of_char c - 48) * 10 ^ length s + read_nat s"
    using foldl_digits [of "of_char c - 48" s] by simp
  also have "\<dots> < 9 * 10 ^ length s + 10 ^ length s"
    using Cons c by (intro add_le_less_mono mult_le_mono1) simp_all
  finally show ?case by simp
qed

lemma read_nat_last_digits:
  assumes "list_all is_digit s" and "k \<le> length s"
  shows "read_nat (drop (length s - k) s) = read_nat s mod 10 ^ k"
proof -
  let ?t = "drop (length s - k) s"
  have "read_nat s = read_nat (take (length s - k) s) * 10 ^ k + read_nat ?t"
    using read_nat_append [of "take (length s - k) s" ?t] assms(2) by simp
  moreover have "list_all is_digit ?t"
    using assms(1) by (metis append_take_drop_id list_all_append)
  then have "read_nat ?t < 10 ^ k" using read_nat_bound [of ?t] assms(2) by simp
  ultimately show ?thesis by simp
qed

lemma read_nat_zeros: "read_nat (replicate n (CHR ''0'') @ s) = read_nat s"
proof -
  have "foldl (\<lambda>acc c. 10 * acc + (of_char c - 48 :: nat)) 0 (replicate n (CHR ''0'')) = 0"
    by (induction n) simp_all
  then show ?thesis by simp
qed



end
