(* ===== verification/NetMessage.thy ===== *)
theory NetMessage
  imports Position
begin

text \<open>
  The message buffers of \<open>src/src/server/network/message/networkmessage.h\<close>,
  \<open>networkmessage.cpp\<close>, \<open>outputmessage.h\<close> and \<open>outputmessage.cpp\<close>.
  The fixed array is a function from indices to bytes; every access is checked against the
  array's size and an access outside it (undefined behaviour in the C++ code) is the
  result \<open>None\<close>, so that memory safety is a theorem about the results.
\<close>

section \<open>The buffer\<close>

abbreviation (input) MAXSIZE :: nat where "MAXSIZE \<equiv> 24590"
abbreviation (input) HEADER_LENGTH :: nat where "HEADER_LENGTH \<equiv> 2"
abbreviation (input) CHECKSUM_LENGTH :: nat where "CHECKSUM_LENGTH \<equiv> 4"
abbreviation (input) XTEA_MULTIPLE :: nat where "XTEA_MULTIPLE \<equiv> 8"

definition MAX_BODY_LENGTH :: nat where
  "MAX_BODY_LENGTH = MAXSIZE - HEADER_LENGTH - CHECKSUM_LENGTH - XTEA_MULTIPLE"

definition MAX_PROTOCOL_BODY_LENGTH :: nat where
  "MAX_PROTOCOL_BODY_LENGTH = MAX_BODY_LENGTH - 10"

definition INITIAL_BUFFER_POSITION :: u16 where "INITIAL_BUFFER_POSITION = 8"

record netmsg =
  info_length :: u16
  info_position :: u16
  info_overrun :: bool
  buf :: "nat \<Rightarrow> byte"

definition slice :: "(nat \<Rightarrow> byte) \<Rightarrow> nat \<Rightarrow> nat \<Rightarrow> byte list" where
  "slice b s n = map b [s..<s + n]"

definition poke :: "(nat \<Rightarrow> byte) \<Rightarrow> nat \<Rightarrow> byte list \<Rightarrow> nat \<Rightarrow> byte" where
  "poke b s bs = (\<lambda>i. if s \<le> i \<and> i < s + length bs then bs ! (i - s) else b i)"

definition load :: "(nat \<Rightarrow> byte) \<Rightarrow> nat \<Rightarrow> nat \<Rightarrow> byte list option" where
  "load b s n = (if s + n \<le> MAXSIZE then Some (slice b s n) else None)"

definition store :: "(nat \<Rightarrow> byte) \<Rightarrow> nat \<Rightarrow> byte list \<Rightarrow> (nat \<Rightarrow> byte) option" where
  "store b s bs = (if s + length bs \<le> MAXSIZE then Some (poke b s bs) else None)"

lemma length_slice [simp]: "length (slice b s n) = n"
  by (simp add: slice_def)

lemma slice_0 [simp]: "slice b s 0 = []"
  by (simp add: slice_def)

lemma slice_poke_same [simp]: "slice (poke b s bs) s (length bs) = bs"
  by (rule nth_equalityI) (auto simp: slice_def poke_def)

lemma slice_poke_whole: "length bs = n \<Longrightarrow> slice (poke b s bs) s n = bs"
  using slice_poke_same by blast

lemma slice_poke_disjoint:
  "s + n \<le> t \<or> t + length bs \<le> s \<Longrightarrow> slice (poke b t bs) s n = slice b s n"
  by (auto simp: slice_def poke_def)

lemma slice_append: "slice b s (m + n) = slice b s m @ slice b (s + m) n"
  unfolding slice_def by (metis add.assoc le_add1 map_append upt_add_eq_append)

lemma slice_Suc: "slice b s (Suc n) = b s # slice b (Suc s) n"
  using slice_append [of b s 1 n] by (simp add: slice_def)

lemma poke_append: "poke b s (xs @ ys) = poke (poke b s xs) (s + length xs) ys"
  by (rule ext) (auto simp: poke_def nth_append)

lemma poke_Nil [simp]: "poke b s [] = b"
  by (rule ext) (auto simp: poke_def)

lemma poke_slice_same: "poke b s (slice b s n) = b"
  by (rule ext) (auto simp: poke_def slice_def)

section \<open>Reading\<close>

definition nm_reset :: "'a netmsg_scheme \<Rightarrow> 'a netmsg_scheme" where
  "nm_reset m = m\<lparr>info_length := 0, info_position := INITIAL_BUFFER_POSITION, info_overrun := False\<rparr>"

definition canRead :: "int \<Rightarrow> 'a netmsg_scheme \<Rightarrow> 'a netmsg_scheme \<times> bool" where
  "canRead n m =
     (if uint (info_position m) + n > uint (info_length m) + 8
         \<or> n \<ge> int MAXSIZE - uint (info_position m)
      then (m\<lparr>info_overrun := True\<rparr>, False)
      else (m, True))"

definition advance :: "nat \<Rightarrow> 'a netmsg_scheme \<Rightarrow> 'a netmsg_scheme" where
  "advance n m = m\<lparr>info_position := info_position m + of_nat n\<rparr>"

definition getByte :: "'a netmsg_scheme \<Rightarrow> (byte \<times> 'a netmsg_scheme) option" where
  "getByte m =
     (let (m, ok) = canRead 1 m
      in if \<not> ok then Some (0, m)
         else map_option (\<lambda>bs. (hd bs, advance 1 m)) (load (buf m) (unat (info_position m)) 1))"

definition getPreviousByte :: "'a netmsg_scheme \<Rightarrow> (byte \<times> 'a netmsg_scheme) option" where
  "getPreviousByte m =
     (let m = m\<lparr>info_position := info_position m - 1\<rparr>
      in map_option (\<lambda>bs. (hd bs, m)) (load (buf m) (unat (info_position m)) 1))"

text \<open>\<open>get<T>\<close> for an unsigned \<open>T\<close> of \<open>n\<close> bytes; the value is read as a number.\<close>

definition getN :: "nat \<Rightarrow> 'a netmsg_scheme \<Rightarrow> (nat \<times> 'a netmsg_scheme) option" where
  "getN n m =
     (let (m, ok) = canRead (int n) m
      in if \<not> ok then Some (0, m)
         else map_option (\<lambda>bs. (from_le bs, advance n m)) (load (buf m) (unat (info_position m)) n))"

definition getU16 :: "'a netmsg_scheme \<Rightarrow> (u16 \<times> 'a netmsg_scheme) option" where
  "getU16 m = map_option (\<lambda>(v, m). (of_nat v, m)) (getN 2 m)"

definition getU32 :: "'a netmsg_scheme \<Rightarrow> (u32 \<times> 'a netmsg_scheme) option" where
  "getU32 m = map_option (\<lambda>(v, m). (of_nat v, m)) (getN 4 m)"

definition getString :: "u16 \<Rightarrow> 'a netmsg_scheme \<Rightarrow> (byte list \<times> 'a netmsg_scheme) option" where
  "getString stringLen m =
     do { (len, m) \<leftarrow> (if stringLen = 0 then getU16 m else Some (stringLen, m));
          let (m, ok) = canRead (uint len) m;
          if \<not> ok then Some ([], m)
          else map_option (\<lambda>bs. (bs, advance (unat len) m))
                 (load (buf m) (unat (info_position m)) (unat len)) }"

definition getPosition :: "'a netmsg_scheme \<Rightarrow> (position \<times> 'a netmsg_scheme) option" where
  "getPosition m =
     do { (x, m) \<leftarrow> getU16 m;
          (y, m) \<leftarrow> getU16 m;
          (z, m) \<leftarrow> getByte m;
          Some (Position x y z, m) }"

definition skipBytes :: "16 word \<Rightarrow> 'a netmsg_scheme \<Rightarrow> 'a netmsg_scheme" where
  "skipBytes n m = m\<lparr>info_position := info_position m + n\<rparr>"

definition getLengthHeader :: "'a netmsg_scheme \<Rightarrow> u16" where
  "getLengthHeader m = ucast (buf m 0) OR push_bit 8 (ucast (buf m 1))"

definition decodeHeader :: "'a netmsg_scheme \<Rightarrow> int \<times> 'a netmsg_scheme" where
  "decodeHeader m =
     (let newSize = (ucast (buf m 0) OR push_bit 8 (ucast (buf m 1))) :: u32;
          m = m\<lparr>info_length := ucast newSize\<rparr>
      in (uint (info_length m), m))"

definition setLength :: "u16 \<Rightarrow> 'a netmsg_scheme \<Rightarrow> 'a netmsg_scheme" where
  "setLength n m = m\<lparr>info_length := n\<rparr>"

definition setBufferPosition :: "u16 \<Rightarrow> 'a netmsg_scheme \<Rightarrow> 'a netmsg_scheme" where
  "setBufferPosition p m = m\<lparr>info_position := p\<rparr>"

text \<open>\<open>getBodyBuffer\<close> moves the position to 2 and hands out the index \<open>HEADER_LENGTH\<close>.\<close>

definition getBodyBuffer :: "'a netmsg_scheme \<Rightarrow> nat \<times> 'a netmsg_scheme" where
  "getBodyBuffer m = (HEADER_LENGTH, m\<lparr>info_position := 2\<rparr>)"

section \<open>Writing\<close>

definition canAdd :: "nat \<Rightarrow> 'a netmsg_scheme \<Rightarrow> bool" where
  "canAdd n m \<longleftrightarrow> n + unat (info_position m) < MAX_BODY_LENGTH"

text \<open>Copy bytes to the write position and move position and length past them.\<close>

definition write_bytes :: "byte list \<Rightarrow> 'a netmsg_scheme \<Rightarrow> 'a netmsg_scheme option" where
  "write_bytes bs m =
     map_option
       (\<lambda>b. m\<lparr>buf := b, info_position := info_position m + of_nat (length bs),
              info_length := info_length m + of_nat (length bs)\<rparr>)
       (store (buf m) (unat (info_position m)) bs)"

definition addByte :: "byte \<Rightarrow> 'a netmsg_scheme \<Rightarrow> 'a netmsg_scheme option" where
  "addByte v m = (if \<not> canAdd 1 m then Some m else write_bytes [v] m)"

definition addN :: "nat \<Rightarrow> nat \<Rightarrow> 'a netmsg_scheme \<Rightarrow> 'a netmsg_scheme option" where
  "addN n v m = (if \<not> canAdd n m then Some m else write_bytes (to_le n v) m)"

definition addU16 :: "u16 \<Rightarrow> 'a netmsg_scheme \<Rightarrow> 'a netmsg_scheme option" where
  "addU16 v = addN 2 (unat v)"

definition addU32 :: "u32 \<Rightarrow> 'a netmsg_scheme \<Rightarrow> 'a netmsg_scheme option" where
  "addU32 v = addN 4 (unat v)"

definition addString :: "byte list \<Rightarrow> 'a netmsg_scheme \<Rightarrow> 'a netmsg_scheme option" where
  "addString s m =
     (if \<not> canAdd (length s + 2) m \<or> length s > 8192 then Some m
      else Option.bind (addU16 (of_nat (length s)) m) (write_bytes s))"

definition addBytes :: "byte list \<Rightarrow> 'a netmsg_scheme \<Rightarrow> 'a netmsg_scheme option" where
  "addBytes bs m =
     (if \<not> canAdd (length bs) m \<or> length bs > 8192 then Some m else write_bytes bs m)"

text \<open>Padding is written behind the position and counted in the length; the position stays.\<close>

definition addPaddingBytes :: "nat \<Rightarrow> 'a netmsg_scheme \<Rightarrow> 'a netmsg_scheme option" where
  "addPaddingBytes n m =
     (if \<not> canAdd n m then Some m
      else map_option (\<lambda>b. m\<lparr>buf := b, info_length := info_length m + of_nat n\<rparr>)
             (store (buf m) (unat (info_position m)) (replicate n 0x33)))"

definition addPosition :: "position \<Rightarrow> 'a netmsg_scheme \<Rightarrow> 'a netmsg_scheme option" where
  "addPosition p m =
     do { m \<leftarrow> addU16 (pos_x p) m; m \<leftarrow> addU16 (pos_y p) m; addByte (pos_z p) m }"

text \<open>The item table \<open>Item::items\<close> is a parameter: the client id of a server item id.\<close>

definition addItemId :: "(u16 \<Rightarrow> u16) \<Rightarrow> u16 \<Rightarrow> 'a netmsg_scheme \<Rightarrow> 'a netmsg_scheme option" where
  "addItemId clientId itemId = addU16 (clientId itemId)"

section \<open>Memory safety\<close>

lemma load_in_bounds: "s + n \<le> MAXSIZE \<Longrightarrow> load b s n = Some (slice b s n)"
  by (simp add: load_def)

lemma store_in_bounds: "s + length bs \<le> MAXSIZE \<Longrightarrow> store b s bs = Some (poke b s bs)"
  by (simp add: store_def)

lemma canRead_cases [consumes 1, case_names ok overrun]:
  assumes "canRead n m = (m', ok)"
  obtains "ok" "m' = m" "uint (info_position m) + n \<le> uint (info_length m) + 8"
      "uint (info_position m) + n < int MAXSIZE"
    | "\<not> ok" "m' = m\<lparr>info_overrun := True\<rparr>"
  using assms by (auto simp: canRead_def split: if_splits)

lemma canRead_bound:
  assumes "canRead (int n) m = (m', True)"
  shows "m' = m" "unat (info_position m) + n < MAXSIZE"
proof -
  from assms have "m' = m \<and> uint (info_position m) + int n < int MAXSIZE"
    by (cases rule: canRead_cases) auto
  moreover have "int (unat (info_position m)) = uint (info_position m)" by simp
  ultimately show "m' = m" "unat (info_position m) + n < MAXSIZE" by linarith+
qed

lemma getN_total: "getN n m \<noteq> None"
proof (cases "canRead (int n) m")
  case (Pair m' ok)
  then show ?thesis
    using canRead_bound [of n m m'] by (cases ok) (auto simp: getN_def load_def)
qed

lemma getByte_total: "getByte m \<noteq> None"
proof (cases "canRead 1 m")
  case (Pair m' ok)
  then show ?thesis
    using canRead_bound [of 1 m m'] by (cases ok) (auto simp: getByte_def load_def)
qed

lemma getU16_total: "getU16 m \<noteq> None"
  using getN_total [of 2 m] by (simp add: getU16_def)

lemma getU32_total: "getU32 m \<noteq> None"
  using getN_total [of 4 m] by (simp add: getU32_def)

lemma getString_total: "getString len m \<noteq> None"
proof -
  have step: "(case canRead (uint l) n of (m, ok) \<Rightarrow>
      if \<not> ok then Some ([], m)
      else map_option (\<lambda>bs. (bs, advance (unat l) m)) (load (buf m) (unat (info_position m)) (unat l)))
      \<noteq> None" for l :: u16 and n :: "'a netmsg_scheme"
  proof (cases "canRead (uint l) n")
    case (Pair m' ok)
    then show ?thesis
      using canRead_bound [of "unat l" n m'] by (cases ok) (auto simp: load_def)
  qed
  show ?thesis
  proof (cases "len = 0")
    case True
    obtain l m' where "getU16 m = Some (l, m')" using getU16_total [of m] by auto
    with True step [of l m'] show ?thesis by (simp add: getString_def Let_def)
  next
    case False
    with step [of len m] show ?thesis by (simp add: getString_def Let_def)
  qed
qed

lemma getPosition_total: "getPosition m \<noteq> None"
proof -
  obtain x m1 where 1: "getU16 m = Some (x, m1)" using getU16_total [of m] by auto
  obtain y m2 where 2: "getU16 m1 = Some (y, m2)" using getU16_total [of m1] by auto
  obtain z m3 where 3: "getByte m2 = Some (z, m3)" using getByte_total [of m2] by auto
  show ?thesis by (simp add: getPosition_def 1 2 3)
qed

lemma canAdd_store: "canAdd (length bs) m \<Longrightarrow>
    store (buf m) (unat (info_position m)) bs = Some (poke (buf m) (unat (info_position m)) bs)"
  by (simp add: canAdd_def MAX_BODY_LENGTH_def store_def)

definition appended :: "byte list \<Rightarrow> 'a netmsg_scheme \<Rightarrow> 'a netmsg_scheme" where
  "appended bs m =
     m\<lparr>buf := poke (buf m) (unat (info_position m)) bs,
       info_position := info_position m + of_nat (length bs),
       info_length := info_length m + of_nat (length bs)\<rparr>"

lemma write_bytes_room [net_simps]:
  "canAdd (length bs) m \<Longrightarrow> write_bytes bs m = Some (appended bs m)"
  by (simp add: write_bytes_def canAdd_store appended_def)

lemma canAdd_mono: "canAdd n m \<Longrightarrow> k \<le> n \<Longrightarrow> canAdd k m"
  by (simp add: canAdd_def)

lemma unat_position_appended:
  assumes "canAdd (length bs) m"
  shows "unat (info_position (appended bs m)) = unat (info_position m) + length bs"
proof -
  have "length bs < 65536" using assms by (simp add: canAdd_def MAX_BODY_LENGTH_def)
  then have "unat (of_nat (length bs) :: u16) = length bs"
    by (intro unat_of_nat_small) simp
  then show ?thesis
    using assms by (simp add: appended_def canAdd_def MAX_BODY_LENGTH_def unat_plus_no_wrap)
qed

lemma canAdd_appended:
  "canAdd (length bs + n) m \<Longrightarrow> canAdd n (appended bs m)"
  using unat_position_appended [of bs m] canAdd_mono [of "length bs + n" m "length bs"]
  by (simp add: canAdd_def)

lemma appended_append: "canAdd (length xs + length ys) m \<Longrightarrow>
    appended ys (appended xs m) = appended (xs @ ys) m"
  using unat_position_appended [of xs m] canAdd_mono [of _ m "length xs"]
  by (simp add: appended_def poke_append add.assoc)

text \<open>The effect of each write when there is room, and its absence when there is none.\<close>

lemma addByte_eq [net_simps]:
  "addByte v m = Some (if canAdd 1 m then appended [v] m else m)"
  using write_bytes_room [of "[v]" m] by (simp add: addByte_def)

lemma addN_eq [net_simps]:
  "addN n v m = Some (if canAdd n m then appended (to_le n v) m else m)"
  using write_bytes_room [of "to_le n v" m] by (simp add: addN_def)

lemma addU16_eq [net_simps]:
  "addU16 v m = Some (if canAdd 2 m then appended (to_le 2 (unat v)) m else m)"
  by (simp add: addU16_def addN_eq)

lemma addU32_eq [net_simps]:
  "addU32 v m = Some (if canAdd 4 m then appended (to_le 4 (unat v)) m else m)"
  by (simp add: addU32_def addN_eq)

lemma addBytes_eq [net_simps]:
  "addBytes bs m = Some (if canAdd (length bs) m \<and> length bs \<le> 8192 then appended bs m else m)"
  by (auto simp: addBytes_def write_bytes_room)

definition string_wire :: "byte list \<Rightarrow> byte list" where
  "string_wire s = to_le 2 (length s) @ s"

lemma addString_eq [net_simps]:
  "addString s m =
     Some (if canAdd (length s + 2) m \<and> length s \<le> 8192 then appended (string_wire s) m else m)"
proof (cases "canAdd (length s + 2) m \<and> length s \<le> 8192")
  case True
  then have n: "unat (of_nat (length s) :: u16) = length s"
    by (intro unat_of_nat_small) simp
  have "canAdd 2 m" using True canAdd_mono by (metis le_add2)
  moreover have "canAdd (length s) (appended (to_le 2 (length s)) m)"
    using True canAdd_appended [of "to_le 2 (length s)" "length s" m] by (simp add: add.commute)
  moreover have "appended s (appended (to_le 2 (length s)) m) = appended (string_wire s) m"
    using True appended_append [of "to_le 2 (length s)" s m]
    by (simp add: string_wire_def add.commute)
  ultimately show ?thesis
    using True n by (simp add: addString_def addU16_eq write_bytes_room)
next
  case False
  then show ?thesis by (auto simp: addString_def)
qed

lemma addPaddingBytes_total: "addPaddingBytes n m \<noteq> None"
  using canAdd_store [of "replicate n 0x33" m] by (simp add: addPaddingBytes_def)


section \<open>Well-formed outgoing messages\<close>

text \<open>
  A message that was reset and only written to has its position eight bytes past its length;
  every write keeps this, so neither counter wraps.
\<close>

definition nm_ok :: "'a netmsg_scheme \<Rightarrow> bool" where
  "nm_ok m \<longleftrightarrow> unat (info_position m) = unat (info_length m) + 8 \<and> unat (info_position m) < MAX_BODY_LENGTH"

lemma nm_ok_reset: "nm_ok (nm_reset m)"
  by (simp add: nm_ok_def nm_reset_def INITIAL_BUFFER_POSITION_def MAX_BODY_LENGTH_def)

lemma unat_length_appended:
  assumes "nm_ok m" and "canAdd (length bs) m"
  shows "unat (info_length (appended bs m)) = unat (info_length m) + length bs"
proof -
  have small: "unat (info_length m) + length bs < 65536"
    using assms by (simp add: nm_ok_def canAdd_def MAX_BODY_LENGTH_def)
  then have "unat (of_nat (length bs) :: u16) = length bs"
    by (intro unat_of_nat_small) simp
  with small show ?thesis by (simp add: appended_def unat_plus_no_wrap)
qed

lemma nm_ok_appended: "nm_ok m \<Longrightarrow> canAdd (length bs) m \<Longrightarrow> nm_ok (appended bs m)"
  using unat_length_appended [of m bs] unat_position_appended [of bs m]
  by (simp add: nm_ok_def canAdd_def)

section \<open>Codecs\<close>

text \<open>The bytes \<open>bs\<close> lie at the read position and may be read.\<close>

definition has_bytes :: "byte list \<Rightarrow> 'a netmsg_scheme \<Rightarrow> bool" where
  "has_bytes bs m \<longleftrightarrow>
     slice (buf m) (unat (info_position m)) (length bs) = bs
     \<and> unat (info_position m) + length bs \<le> unat (info_length m) + 8
     \<and> unat (info_position m) + length bs < MAXSIZE"

lemma unat_position_advance:
  assumes "unat (info_position m) + n < MAXSIZE"
  shows "unat (info_position (advance n m)) = unat (info_position m) + n"
proof -
  have "unat (of_nat n :: u16) = n" using assms by (intro unat_of_nat_small) simp
  then show ?thesis using assms by (simp add: advance_def unat_plus_no_wrap)
qed

lemma advance_advance: "advance k (advance n m) = advance (n + k) m"
  by (simp add: advance_def add.assoc)

lemma has_bytes_append:
  "has_bytes (xs @ ys) m \<longleftrightarrow> has_bytes xs m \<and> has_bytes ys (advance (length xs) m)" (is "?l \<longleftrightarrow> ?r")
proof (cases "unat (info_position m) + length xs < MAXSIZE")
  case True
  then have "unat (info_position (advance (length xs) m)) = unat (info_position m) + length xs"
    by (rule unat_position_advance)
  then show ?thesis
    by (auto simp: has_bytes_def slice_append advance_def)
next
  case False
  then show ?thesis by (auto simp: has_bytes_def)
qed

lemma canRead_has_bytes: "has_bytes bs m \<Longrightarrow> canRead (int (length bs)) m = (m, True)"
proof -
  assume h: "has_bytes bs m"
  have "int (unat (info_position m)) = uint (info_position m)"
    and "int (unat (info_length m)) = uint (info_length m)" by simp_all
  with h have "uint (info_position m) + int (length bs) \<le> uint (info_length m) + 8"
    and "uint (info_position m) + int (length bs) < int MAXSIZE"
    unfolding has_bytes_def by linarith+
  then show ?thesis by (simp add: canRead_def)
qed

lemma getN_has_bytes:
  "has_bytes bs m \<Longrightarrow> getN (length bs) m = Some (from_le bs, advance (length bs) m)"
  using canRead_has_bytes [of bs m] by (simp add: getN_def load_def has_bytes_def)

lemma getByte_has_bytes: "has_bytes [b] m \<Longrightarrow> getByte m = Some (b, advance 1 m)"
  using canRead_has_bytes [of "[b]" m]
  by (simp add: getByte_def load_def has_bytes_def slice_def)

lemma getU16_has_bytes: "has_bytes (to_le 2 (unat v)) m \<Longrightarrow> getU16 m = Some (v, advance 2 m)"
  using getN_has_bytes [of "to_le 2 (unat v)" m] by (simp add: getU16_def)

lemma getU32_has_bytes: "has_bytes (to_le 4 (unat v)) m \<Longrightarrow> getU32 m = Some (v, advance 4 m)"
  using getN_has_bytes [of "to_le 4 (unat v)" m] unat_u32_less [of v] by (simp add: getU32_def)

lemma getString_has_bytes:
  assumes "length s \<le> 8192" and "has_bytes (string_wire s) m"
  shows "getString 0 m = Some (s, advance (length s + 2) m)"
proof -
  have n: "unat (of_nat (length s) :: u16) = length s"
    using assms(1) by (intro unat_of_nat_small) simp
  have h: "has_bytes (to_le 2 (unat (of_nat (length s) :: u16))) m" "has_bytes s (advance 2 m)"
    using assms(2) n by (auto simp: string_wire_def has_bytes_append)
  have u: "uint (of_nat (length s) :: u16) = int (length s)"
    using n by (metis uint_nat)
  have "canRead (int (length s)) (advance 2 m) = (advance 2 m, True)"
    using h(2) by (rule canRead_has_bytes)
  moreover have "load (buf (advance 2 m)) (unat (info_position (advance 2 m))) (length s) = Some s"
    using h(2) by (simp add: has_bytes_def load_def)
  ultimately show ?thesis
    using getU16_has_bytes [OF h(1)] n u
    by (simp add: getString_def advance_advance add.commute)
qed

text \<open>
  What the protocol code relies on: a value is written as its wire bytes when there is room
  for them, and read back from a position where its wire bytes lie.
\<close>

locale message_codec =
  fixes put :: "'v \<Rightarrow> 'a netmsg_scheme \<Rightarrow> 'a netmsg_scheme option"
    and get :: "'k \<Rightarrow> 'a netmsg_scheme \<Rightarrow> ('v \<times> 'a netmsg_scheme) option"
    and kind :: "'v \<Rightarrow> 'k"
    and wire :: "'v \<Rightarrow> byte list"
    and valid :: "'v \<Rightarrow> bool"
  assumes put_wire: "valid v \<Longrightarrow> canAdd (length (wire v)) m \<Longrightarrow> put v m = Some (appended (wire v) m)"
    and get_wire: "valid v \<Longrightarrow> has_bytes (wire v) m \<Longrightarrow>
      get (kind v) m = Some (v, advance (length (wire v)) m)"

fun put_list :: "('v \<Rightarrow> 'a netmsg_scheme \<Rightarrow> 'a netmsg_scheme option) \<Rightarrow> 'v list \<Rightarrow> 'a netmsg_scheme \<Rightarrow> 'a netmsg_scheme option" where
  "put_list put [] m = Some m"
| "put_list put (v # vs) m = Option.bind (put v m) (put_list put vs)"

fun get_list ::
    "('k \<Rightarrow> 'a netmsg_scheme \<Rightarrow> ('v \<times> 'a netmsg_scheme) option) \<Rightarrow> 'k list \<Rightarrow> 'a netmsg_scheme \<Rightarrow> ('v list \<times> 'a netmsg_scheme) option" where
  "get_list get [] m = Some ([], m)"
| "get_list get (k # ks) m =
     do { (v, m) \<leftarrow> get k m; (vs, m) \<leftarrow> get_list get ks m; Some (v # vs, m) }"

lemma appended_Nil [simp]: "appended [] m = m"
  by (simp add: appended_def)

lemma advance_0 [simp]: "advance 0 m = m"
  by (simp add: advance_def)

context message_codec
begin

lemma put_list_wire:
  "list_all valid vs \<Longrightarrow> canAdd (length (concat (map wire vs))) m \<Longrightarrow>
   put_list put vs m = Some (appended (concat (map wire vs)) m)"
proof (induction vs arbitrary: m)
  case Nil
  then show ?case by simp
next
  case (Cons v vs)
  let ?rest = "concat (map wire vs)"
  from Cons.prems(2) have room: "canAdd (length (wire v) + length ?rest) m" by simp
  then have "canAdd (length (wire v)) m" and "canAdd (length ?rest) (appended (wire v) m)"
    by (auto intro: canAdd_mono canAdd_appended)
  with Cons show ?case
    using appended_append [OF room] by (simp add: put_wire)
qed

lemma get_list_wire:
  "list_all valid vs \<Longrightarrow> has_bytes (concat (map wire vs)) m \<Longrightarrow>
   get_list get (map kind vs) m = Some (vs, advance (length (concat (map wire vs))) m)"
proof (induction vs arbitrary: m)
  case Nil
  then show ?case by simp
next
  case (Cons v vs)
  then show ?case
    by (simp add: has_bytes_append get_wire advance_advance)
qed

lemma write_then_read:
  assumes "list_all valid vs" and "nm_ok m" and "canAdd (length (concat (map wire vs))) m"
  obtains m' m'' where "put_list put vs m = Some m'" and "nm_ok m'"
    and "get_list get (map kind vs) (m'\<lparr>info_position := info_position m\<rparr>) = Some (vs, m'')"
    and "info_overrun m'' = info_overrun m"
proof -
  let ?bs = "concat (map wire vs)"
  let ?m = "appended ?bs m"
  have "unat (info_length ?m) = unat (info_length m) + length ?bs"
    using assms(2,3) by (rule unat_length_appended)
  then have "has_bytes ?bs (?m\<lparr>info_position := info_position m\<rparr>)"
    using assms(2,3)
    by (auto simp: has_bytes_def appended_def nm_ok_def canAdd_def MAX_BODY_LENGTH_def)
  then show ?thesis
    using that [OF put_list_wire [OF assms(1,3)] nm_ok_appended [OF assms(2,3)]
        get_list_wire [OF assms(1)]]
    by (simp add: advance_def appended_def)
qed

end

section \<open>Mixed messages\<close>

text \<open>A field of a packet and the way the parser asks for it.\<close>

datatype field = FByte byte | FU16 u16 | FU32 u32 | FString "byte list" | FPosition position
datatype field_kind = KByte | KU16 | KU32 | KString | KPosition

fun kind_of_field :: "field \<Rightarrow> field_kind" where
  "kind_of_field (FByte _) = KByte"
| "kind_of_field (FU16 _) = KU16"
| "kind_of_field (FU32 _) = KU32"
| "kind_of_field (FString _) = KString"
| "kind_of_field (FPosition _) = KPosition"

fun add_field :: "field \<Rightarrow> 'a netmsg_scheme \<Rightarrow> 'a netmsg_scheme option" where
  "add_field (FByte b) = addByte b"
| "add_field (FU16 v) = addU16 v"
| "add_field (FU32 v) = addU32 v"
| "add_field (FString s) = addString s"
| "add_field (FPosition p) = addPosition p"

fun get_field :: "field_kind \<Rightarrow> 'a netmsg_scheme \<Rightarrow> (field \<times> 'a netmsg_scheme) option" where
  "get_field KByte m = map_option (map_prod FByte id) (getByte m)"
| "get_field KU16 m = map_option (map_prod FU16 id) (getU16 m)"
| "get_field KU32 m = map_option (map_prod FU32 id) (getU32 m)"
| "get_field KString m = map_option (map_prod FString id) (getString 0 m)"
| "get_field KPosition m = map_option (map_prod FPosition id) (getPosition m)"

fun field_wire :: "field \<Rightarrow> byte list" where
  "field_wire (FByte b) = [b]"
| "field_wire (FU16 v) = to_le 2 (unat v)"
| "field_wire (FU32 v) = to_le 4 (unat v)"
| "field_wire (FString s) = string_wire s"
| "field_wire (FPosition p) = to_le 2 (unat (pos_x p)) @ to_le 2 (unat (pos_y p)) @ [pos_z p]"

fun field_valid :: "field \<Rightarrow> bool" where
  "field_valid (FString s) = (length s \<le> 8192)"
| "field_valid _ = True"

lemma addPosition_room:
  assumes "canAdd 5 m"
  shows "addPosition p m = Some (appended (field_wire (FPosition p)) m)"
proof -
  let ?x = "to_le 2 (unat (pos_x p))" and ?y = "to_le 2 (unat (pos_y p))"
  have 1: "canAdd 2 m" using assms by (rule canAdd_mono) simp
  have 3: "canAdd 3 (appended ?x m)" using canAdd_appended [of ?x 3 m] assms by simp
  have 2: "canAdd 2 (appended ?x m)" using 3 by (rule canAdd_mono) simp
  have 4: "canAdd 1 (appended ?y (appended ?x m))"
    using canAdd_appended [of ?y 1 "appended ?x m"] 3 by simp
  have "appended ?y (appended ?x m) = appended (?x @ ?y) m"
    using canAdd_mono [OF assms, of 4] by (intro appended_append) simp
  moreover have "appended [pos_z p] (appended (?x @ ?y) m) = appended ((?x @ ?y) @ [pos_z p]) m"
    using assms by (intro appended_append) simp
  ultimately show ?thesis
    using 1 2 4 by (simp add: addPosition_def net_simps)
qed

lemma getPosition_has_bytes:
  assumes "has_bytes (field_wire (FPosition p)) m"
  shows "getPosition m = Some (p, advance 5 m)"
proof -
  let ?x = "to_le 2 (unat (pos_x p))" and ?y = "to_le 2 (unat (pos_y p))"
  have "has_bytes ?x m" "has_bytes ?y (advance 2 m)" "has_bytes [pos_z p] (advance 4 m)"
    using assms by (simp_all add: has_bytes_append advance_advance)
  then show ?thesis
    by (simp add: getPosition_def getU16_has_bytes getByte_has_bytes advance_advance)
qed

lemma add_field_wire:
  "field_valid f \<Longrightarrow> canAdd (length (field_wire f)) m \<Longrightarrow>
   add_field f m = Some (appended (field_wire f) m)"
  by (cases f) (simp_all add: net_simps addPosition_room string_wire_def)

lemma get_field_wire:
  "field_valid f \<Longrightarrow> has_bytes (field_wire f) m \<Longrightarrow>
   get_field (kind_of_field f) m = Some (f, advance (length (field_wire f)) m)"
  by (cases f)
    (simp_all add: getByte_has_bytes getU16_has_bytes getU32_has_bytes getString_has_bytes
      getPosition_has_bytes string_wire_def)

interpretation fields: message_codec add_field get_field kind_of_field field_wire field_valid
  by unfold_locales (simp_all add: add_field_wire get_field_wire)

text \<open>C19: any sequence of fields that fits is read back unchanged: a packet built on a fresh message
  by \<open>addByte\<close>, \<open>add<T>\<close>, \<open>addString\<close> and \<open>addPosition\<close>, and parsed from its
  start by the matching \<open>get\<close> calls in the same order, yields the same fields with no
  overrun.\<close>

theorem packet_roundtrip:
  assumes "list_all field_valid fs"
    and "length (concat (map field_wire fs)) + 8 < MAX_BODY_LENGTH"
  shows "\<exists>m' m''. put_list add_field fs (nm_reset m) = Some m'
     \<and> get_list get_field (map kind_of_field fs) (setBufferPosition INITIAL_BUFFER_POSITION m')
         = Some (fs, m'') \<and> \<not> info_overrun m''"
proof -
  have "canAdd (length (concat (map field_wire fs))) (nm_reset m)"
    using assms(2) by (simp add: canAdd_def nm_reset_def INITIAL_BUFFER_POSITION_def)
  from fields.write_then_read [OF assms(1) nm_ok_reset this] show ?thesis
    by (metis nm_reset_def netmsg.select_convs(2,3) netmsg.update_convs(1,2,3) netmsg.surjective
        setBufferPosition_def)
qed

theorem packet_roundtrip_witness:
  "\<exists>m' m''. put_list add_field [FByte 0x6A, FPosition (Position 1000 2000 7), FString [72, 105]]
       (nm_reset \<lparr>info_length = 0, info_position = 0, info_overrun = True, buf = (\<lambda>_. 0)\<rparr>) = Some m'
     \<and> get_list get_field [KByte, KPosition, KString] (setBufferPosition INITIAL_BUFFER_POSITION m')
         = Some ([FByte 0x6A, FPosition (Position 1000 2000 7), FString [72, 105]], m'')
     \<and> \<not> info_overrun m''"
  using packet_roundtrip [of "[FByte 0x6A, FPosition (Position 1000 2000 7), FString [72, 105]]"
      "\<lparr>info_length = 0, info_position = 0, info_overrun = True, buf = (\<lambda>_. 0)\<rparr>"]
  by (simp add: MAX_BODY_LENGTH_def string_wire_def)

end
