(* ===== verification/Xtea.thy ===== *)
theory Xtea
  imports Prelude
begin

text \<open>
  The XTEA block cipher of \<open>src/src/security/xtea.cpp\<close>. Data is the memory from the
  \<open>data\<close> pointer on; \<open>length\<close> is the C++ length argument. The code processes whole
  blocks of eight bytes, so a length that is not a multiple of eight touches bytes past it; a
  block that does not fit in the given memory is the result \<open>None\<close>.
\<close>

section \<open>Block ciphers\<close>

text \<open>
  The contract of a keyed round pair: the inverse round undoes the round. What the buffer
  functions need from the cipher is exactly this.
\<close>

locale block_cipher =
  fixes enc :: "nat \<Rightarrow> 'b \<Rightarrow> 'b"
    and dec :: "nat \<Rightarrow> 'b \<Rightarrow> 'b"
    and rounds :: nat
  assumes dec_enc: "i < rounds \<Longrightarrow> dec (rounds - 1 - i) (enc i b) = b"
    and enc_dec: "i < rounds \<Longrightarrow> enc i (dec (rounds - 1 - i) b) = b"
begin

lemma undo_prefix:
  "n \<le> rounds \<Longrightarrow>
   fold dec [rounds - n..<rounds] (fold enc [0..<n] b) = b"
proof (induction n arbitrary: b)
  case 0
  then show ?case by simp
next
  case (Suc n)
  then have n: "n < rounds" by simp
  have up: "[rounds - Suc n..<rounds] = (rounds - 1 - n) # [rounds - n..<rounds]"
    using n by (simp add: upt_rec [of "rounds - Suc n"] Suc_diff_Suc)
  have de: "dec (rounds - Suc n) (enc n c) = c" for c
    using dec_enc [OF n] by simp
  have "fold dec [rounds - Suc n..<rounds] (fold enc [0..<Suc n] b) =
        fold dec [rounds - n..<rounds] (dec (rounds - 1 - n) (enc n (fold enc [0..<n] b)))"
    unfolding up by simp
  also have "\<dots> = b" using Suc n by (simp add: de)
  finally show ?case .
qed

lemma dec_all_enc_all: "fold dec [0..<rounds] (fold enc [0..<rounds] b) = b"
  using undo_prefix [of rounds b] by simp

lemma redo_prefix:
  "n \<le> rounds \<Longrightarrow>
   fold enc [rounds - n..<rounds] (fold dec [0..<n] b) = b"
proof (induction n arbitrary: b)
  case 0
  then show ?case by simp
next
  case (Suc n)
  then have n: "n < rounds" by simp
  have up: "[rounds - Suc n..<rounds] = (rounds - 1 - n) # [rounds - n..<rounds]"
    using n by (simp add: upt_rec [of "rounds - Suc n"] Suc_diff_Suc)
  have ed: "enc (rounds - Suc n) (dec n c) = c" for c
    using enc_dec [of "rounds - 1 - n" c] n by simp
  have "fold enc [rounds - Suc n..<rounds] (fold dec [0..<Suc n] b) =
        fold enc [rounds - n..<rounds] (enc (rounds - 1 - n) (dec n (fold dec [0..<n] b)))"
    unfolding up by simp
  also have "\<dots> = b" using Suc n by (simp add: ed)
  finally show ?case .
qed

lemma enc_all_dec_all: "fold enc [0..<rounds] (fold dec [0..<rounds] b) = b"
  using redo_prefix [of rounds b] by simp

end

section \<open>Blocks of bytes\<close>

type_synonym xtea_key = "u32 list"

definition delta :: u32 where "delta = 0x9E3779B9"

definition load32 :: "byte \<Rightarrow> byte \<Rightarrow> byte \<Rightarrow> byte \<Rightarrow> u32" where
  "load32 b0 b1 b2 b3 =
     ucast b0 OR push_bit 8 (ucast b1) OR push_bit 16 (ucast b2) OR push_bit 24 (ucast b3)"

definition store32 :: "u32 \<Rightarrow> byte list" where
  "store32 w = [ucast w, ucast (drop_bit 8 w), ucast (drop_bit 16 w), ucast (drop_bit 24 w)]"

lemma length_store32 [simp]: "length (store32 w) = 4"
  by (simp add: store32_def)

lemma load_store32:
  "load32 (ucast w) (ucast (drop_bit 8 w)) (ucast (drop_bit 16 w)) (ucast (drop_bit 24 w)) = w"
proof (rule bit_word_eqI)
  fix n assume "n < LENGTH(32)"
  then consider "n < 8" | "8 \<le> n" "n < 16" | "16 \<le> n" "n < 24" | "24 \<le> n" "n < 32"
    by fastforce
  then show "bit (load32 (ucast w) (ucast (drop_bit 8 w)) (ucast (drop_bit 16 w))
      (ucast (drop_bit 24 w))) n = bit w n"
    by cases (simp_all add: load32_def bit_or_iff bit_push_bit_iff bit_ucast_iff bit_drop_bit_eq
        less_diff_conv2 le_diff_conv2)
qed

lemma byte_high_bit [simp]: "8 \<le> m \<Longrightarrow> \<not> bit (b :: byte) m"
  using bit_imp_le_length [of b m] by auto

lemma store_load32: "store32 (load32 b0 b1 b2 b3) = [b0, b1, b2, b3]"
  unfolding store32_def load32_def
  by (auto intro!: bit_word_eqI
      simp: bit_or_iff bit_push_bit_iff bit_ucast_iff bit_drop_bit_eq)

text \<open>
  \<open>apply_rounds\<close>: the block loop. The round is applied to the two halves of each block and
  written back in place.
\<close>

fun apply_rounds ::
    "(u32 \<times> u32 \<Rightarrow> u32 \<times> u32) \<Rightarrow> nat \<Rightarrow> byte list \<Rightarrow> byte list option" where
  "apply_rounds r len data =
     (if len = 0 then Some data
      else case data of
        d0 # d1 # d2 # d3 # d4 # d5 # d6 # d7 # rest \<Rightarrow>
          (let (left, right) = r (load32 d0 d1 d2 d3, load32 d4 d5 d6 d7)
           in map_option (\<lambda>t. store32 left @ store32 right @ t) (apply_rounds r (len - 8) rest))
      | _ \<Rightarrow> None)"

declare apply_rounds.simps [simp del]

section \<open>The cipher\<close>

definition enc_round :: "xtea_key \<Rightarrow> nat \<Rightarrow> u32 \<times> u32 \<Rightarrow> u32 \<times> u32" where
  "enc_round k i = (\<lambda>(left, right).
     let sum = of_nat i * delta;
         next_sum = sum + delta;
         left = left + (((push_bit 4 right XOR drop_bit 5 right) + right) XOR
                          (sum + k ! unat (sum AND 3)));
         right = right + (((push_bit 4 left XOR drop_bit 5 left) + left) XOR
                          (next_sum + k ! unat (drop_bit 11 next_sum AND 3)))
     in (left, right))"

definition dec_round :: "xtea_key \<Rightarrow> nat \<Rightarrow> u32 \<times> u32 \<Rightarrow> u32 \<times> u32" where
  "dec_round k i = (\<lambda>(left, right).
     let sum = push_bit 5 delta - of_nat i * delta;
         next_sum = sum - delta;
         right = right - (((push_bit 4 left XOR drop_bit 5 left) + left) XOR
                          (sum + k ! unat (drop_bit 11 sum AND 3)));
         left = left - (((push_bit 4 right XOR drop_bit 5 right) + right) XOR
                          (next_sum + k ! unat (next_sum AND 3)))
     in (left, right))"

text \<open>
  The key schedule counters: \<open>sum\<close> starts at 0 (or \<open>delta << 5\<close>) and moves by
  \<open>delta\<close> after each of the 32 rounds, which is \<open>i * delta\<close> in round \<open>i\<close>.
\<close>

fun run_rounds ::
    "(nat \<Rightarrow> u32 \<times> u32 \<Rightarrow> u32 \<times> u32) \<Rightarrow> nat list \<Rightarrow> nat \<Rightarrow> byte list \<Rightarrow> byte list option" where
  "run_rounds r [] len data = Some data"
| "run_rounds r (i # is) len data =
     Option.bind (apply_rounds (r i) len data) (run_rounds r is len)"

definition xtea_encrypt :: "byte list \<Rightarrow> nat \<Rightarrow> xtea_key \<Rightarrow> byte list option" where
  "xtea_encrypt data len k = run_rounds (enc_round k) [0..<32] len data"

definition xtea_decrypt :: "byte list \<Rightarrow> nat \<Rightarrow> xtea_key \<Rightarrow> byte list option" where
  "xtea_decrypt data len k = run_rounds (dec_round k) [0..<32] len data"

text \<open>Round \<open>31 - i\<close> of decryption sees the counters of round \<open>i\<close> of encryption, swapped.\<close>

lemma dec_sum:
  assumes "i < 32"
  shows "push_bit 5 delta - of_nat (31 - i) * delta = of_nat i * delta + delta"
proof -
  have "of_nat (31 - i) = (31 :: u32) - of_nat i"
    using assms by (simp add: of_nat_diff)
  then show ?thesis
    by (simp only:) (simp add: push_bit_eq_mult algebra_simps)
qed

lemma dec_enc_round: "i < 32 \<Longrightarrow> dec_round k (31 - i) (enc_round k i b) = b"
  by (cases b) (simp only: dec_round_def enc_round_def dec_sum case_prod_conv Let_def
      add_diff_cancel_right' add_diff_cancel)

lemma enc_dec_round: "i < 32 \<Longrightarrow> enc_round k i (dec_round k (31 - i) b) = b"
  by (cases b) (simp only: dec_round_def enc_round_def dec_sum case_prod_conv Let_def
      add_diff_cancel_right' diff_add_cancel)

interpretation xtea: block_cipher "enc_round k" "dec_round k" 32 for k
  by unfold_locales (simp_all add: dec_enc_round enc_dec_round)

section \<open>Buffers\<close>

text \<open>On whole blocks a buffer is a list of word pairs, and a pass applies the round to each.\<close>

fun to_blocks :: "byte list \<Rightarrow> (u32 \<times> u32) list" where
  "to_blocks (d0 # d1 # d2 # d3 # d4 # d5 # d6 # d7 # rest) =
     (load32 d0 d1 d2 d3, load32 d4 d5 d6 d7) # to_blocks rest"
| "to_blocks _ = []"

definition from_blocks :: "(u32 \<times> u32) list \<Rightarrow> byte list" where
  "from_blocks bs = concat (map (\<lambda>(l, r). store32 l @ store32 r) bs)"

lemma from_blocks_simps [simp]:
  "from_blocks [] = []"
  "from_blocks ((l, r) # bs) = store32 l @ store32 r @ from_blocks bs"
  by (simp_all add: from_blocks_def)

lemma to_from_blocks [simp]: "to_blocks (from_blocks bs) = bs"
  by (induction bs) (auto simp: store32_def load_store32)

lemma length_from_blocks [simp]: "length (from_blocks bs) = 8 * length bs"
  by (induction bs) auto

lemma from_to_blocks: "8 dvd length d \<Longrightarrow> from_blocks (to_blocks d) = d"
proof (induction d rule: to_blocks.induct)
  case (1 d0 d1 d2 d3 d4 d5 d6 d7 rest)
  have "8 dvd length rest" using "1.prems" by simp presburger
  with "1.IH" show ?case by (simp add: store_load32)
qed (simp_all, presburger+)

lemma apply_rounds_blocks:
  assumes "length d = 8 * n"
  shows "apply_rounds r (8 * n) (d @ rest) = Some (from_blocks (map r (to_blocks d)) @ rest)"
  using assms
proof (induction n arbitrary: d)
  case 0
  then show ?case by (simp add: apply_rounds.simps [of _ 0])
next
  case (Suc n)
  then obtain d0 d1 d2 d3 d4 d5 d6 d7 d' where
    d: "d = d0 # d1 # d2 # d3 # d4 # d5 # d6 # d7 # d'" and len: "length d' = 8 * n"
    by (auto simp: length_Suc_conv numeral_eq_Suc)
  have "apply_rounds r (8 * n) (d' @ rest) = Some (from_blocks (map r (to_blocks d')) @ rest)"
    using Suc.IH len by simp
  then show ?case
    unfolding d by (subst apply_rounds.simps) (simp split: prod.split)
qed

lemma run_rounds_blocks:
  assumes "length d = 8 * n"
  shows "run_rounds r is (8 * n) (d @ rest) =
         Some (from_blocks (map (\<lambda>b. fold r is b) (to_blocks d)) @ rest)"
  using assms
proof (induction "is" arbitrary: d)
  case Nil
  then show ?case by (simp add: from_to_blocks map_idI)
next
  case (Cons i "is")
  have len: "length (to_blocks d) = n"
    using Cons.prems from_to_blocks [of d] length_from_blocks [of "to_blocks d"]
    by (simp del: length_from_blocks)
  have "run_rounds r (i # is) (8 * n) (d @ rest) =
        run_rounds r is (8 * n) (from_blocks (map (r i) (to_blocks d)) @ rest)"
    using Cons.prems by (simp add: apply_rounds_blocks)
  also have "\<dots> = Some (from_blocks (map (\<lambda>b. fold r is b)
      (to_blocks (from_blocks (map (r i) (to_blocks d))))) @ rest)"
    by (rule Cons.IH) (simp add: len)
  finally show ?case by (simp add: comp_def)
qed

lemma xtea_encrypt_blocks:
  "length d = 8 * n \<Longrightarrow> xtea_encrypt (d @ rest) (8 * n) k =
     Some (from_blocks (map (\<lambda>b. fold (enc_round k) [0..<32] b) (to_blocks d)) @ rest)"
  unfolding xtea_encrypt_def by (rule run_rounds_blocks)

lemma xtea_decrypt_blocks:
  "length d = 8 * n \<Longrightarrow> xtea_decrypt (d @ rest) (8 * n) k =
     Some (from_blocks (map (\<lambda>b. fold (dec_round k) [0..<32] b) (to_blocks d)) @ rest)"
  unfolding xtea_decrypt_def by (rule run_rounds_blocks)

lemma length_to_blocks: "length d = 8 * n \<Longrightarrow> length (to_blocks d) = n"
  using from_to_blocks [of d] length_from_blocks [of "to_blocks d"]
  by (simp del: length_from_blocks)

text \<open>The whole-buffer round trips, in the form the protocol layer uses.\<close>

lemma xtea_encrypt_total:
  assumes "8 dvd length d"
  obtains c where "xtea_encrypt d (length d) k = Some c" and "length c = length d"
    and "xtea_decrypt c (length d) k = Some d"
proof -
  obtain n where n: "length d = 8 * n" using assms by (rule dvdE)
  let ?c = "from_blocks (map (\<lambda>b. fold (enc_round k) [0..<32] b) (to_blocks d))"
  have e: "xtea_encrypt d (length d) k = Some ?c"
    using xtea_encrypt_blocks [of d n "[]" k] n by simp
  have lc: "length ?c = 8 * n" using n by (simp add: length_to_blocks)
  have "xtea_decrypt ?c (length d) k = Some d"
    using xtea_decrypt_blocks [of ?c n "[]" k] lc n
    by (simp add: comp_def xtea.dec_all_enc_all from_to_blocks)
  with e lc n that show ?thesis by simp
qed

text \<open>C21: decryption undoes encryption under the same key on every buffer of whole blocks, in
  place and without touching the memory behind it; both directions succeed and preserve the
  number of bytes.\<close>

theorem xtea_roundtrip:
  assumes "length d = 8 * n"
  shows "\<exists>c. xtea_encrypt (d @ rest) (8 * n) k = Some (c @ rest) \<and> length c = length d
     \<and> xtea_decrypt (c @ rest) (8 * n) k = Some (d @ rest)"
proof -
  let ?c = "from_blocks (map (\<lambda>b. fold (enc_round k) [0..<32] b) (to_blocks d))"
  have lc: "length ?c = 8 * n" using assms by (simp add: length_to_blocks)
  have "xtea_encrypt (d @ rest) (8 * n) k = Some (?c @ rest)"
    using assms by (rule xtea_encrypt_blocks)
  moreover have "xtea_decrypt (?c @ rest) (8 * n) k = Some (d @ rest)"
    using xtea_decrypt_blocks [OF lc, of rest k] assms
    by (simp add: comp_def xtea.dec_all_enc_all from_to_blocks)
  ultimately show ?thesis using lc assms by metis
qed

theorem xtea_roundtrip_witness:
  "\<exists>c. xtea_encrypt ([1, 2, 3, 4, 5, 6, 7, 8] @ [9]) 8 [10, 20, 30, 40] = Some (c @ [9]) \<and>
       xtea_decrypt (c @ [9]) 8 [10, 20, 30, 40] = Some ([1, 2, 3, 4, 5, 6, 7, 8] @ [9])"
  using xtea_roundtrip [of "[1, 2, 3, 4, 5, 6, 7, 8]" 1 "[9]" "[10, 20, 30, 40]"] by auto

end
