(* ===== verification/Checksum.thy ===== *)
theory Checksum
  imports Prelude
begin

text \<open>
  The Adler-32 checksum of outgoing packets, \<open>adlerChecksum\<close> of
  \<open>src/src/utils/tools.cpp\<close>, and its equivalence with the definition of the checksum.
\<close>

section \<open>Adler-32\<close>

definition adler_step :: "byte \<Rightarrow> u32 \<times> u32 \<Rightarrow> u32 \<times> u32" where
  "adler_step x = (\<lambda>(a, b). let a = a + ucast x in (a, b + a))"

function adler_loop :: "byte list \<Rightarrow> u32 \<times> u32 \<Rightarrow> u32 \<times> u32" where
  "adler_loop data ab =
     (if data = [] then ab
      else let tmp = (if length data > 5552 then 5552 else length data);
               (a, b) = fold adler_step (take tmp data) ab
           in adler_loop (drop tmp data) (a mod 65521, b mod 65521))"
  by pat_completeness auto
termination
  by (relation "measure (\<lambda>(data, ab). length data)") auto

declare adler_loop.simps [simp del]

definition adlerChecksum :: "byte list \<Rightarrow> u32" where
  "adlerChecksum data =
     (if length data > 24590 then 0
      else let (a, b) = adler_loop data (1, 0) in push_bit 16 b OR a)"

text \<open>The checksum by its definition: plain sums, one reduction at the end.\<close>

definition adler_sum :: "byte \<Rightarrow> nat \<times> nat \<Rightarrow> nat \<times> nat" where
  "adler_sum x = (\<lambda>(a, b). (a + unat x, b + (a + unat x)))"

definition adler32 :: "byte list \<Rightarrow> nat" where
  "adler32 data = (let (a, b) = fold adler_sum data (1, 0) in (b mod 65521) * 65536 + a mod 65521)"

text \<open>
  5552 is the largest block length for which the 32-bit sums cannot overflow when they start
  reduced: after \<open>n\<close> bytes \<open>2 * b\<close> is at most \<open>2 * b0 + 2 * n * a0 + 255 * n * (n + 1)\<close>.
\<close>

lemma adler_fold_no_overflow:
  assumes "2 * unat b + 2 * length xs * unat a + 255 * length xs * (length xs + 1) < 2 ^ 33"
    and "unat a + 255 * length xs < 2 ^ 32"
  shows "(case fold adler_step xs (a, b) of (a', b') \<Rightarrow> (unat a', unat b'))
         = fold adler_sum xs (unat a, unat b)"
  using assms
proof (induction xs arbitrary: a b)
  case Nil
  then show ?case by simp
next
  case (Cons x xs)
  let ?n = "length xs"
  let ?A = "unat a" and ?B = "unat b"
  have x: "unat x \<le> 255" using unat_u8_less [of x] by linarith
  have ux: "unat (ucast x :: u32) = unat x"
    by (rule unat_ucast_u8_u32)
  from Cons.prems(2) x have a32: "?A + unat x + 255 * ?n < 2 ^ 32" by simp
  then have ua: "unat (a + ucast x) = ?A + unat x"
    using ux by (subst unat_plus_no_wrap) simp_all
  have nx: "?n * unat x \<le> ?n * 255" using x by (rule mult_le_mono2)
  have pre: "2 * ?B + 2 * (?n * ?A) + 2 * ?A + 255 * (?n * ?n) + 765 * ?n + 510 < 8589934592"
    using Cons.prems(1) by (simp add: algebra_simps)
  have "2 * ?B + 2 * ?A + 2 * unat x + 2 * (?n * ?A) + 2 * (?n * unat x) + 255 * (?n * ?n) + 255 * ?n
      < 8589934592"
    using pre nx x by linarith
  moreover have "2 * (?B + (?A + unat x)) + 2 * ?n * (?A + unat x) + 255 * ?n * (?n + 1) =
      2 * ?B + 2 * ?A + 2 * unat x + 2 * (?n * ?A) + 2 * (?n * unat x) + 255 * (?n * ?n) + 255 * ?n"
    by (simp add: algebra_simps)
  ultimately have bnd: "2 * (?B + (?A + unat x)) + 2 * ?n * (?A + unat x) + 255 * ?n * (?n + 1) < 2 ^ 33"
    by simp
  then have "?B + (?A + unat x) < 2 ^ 32" by simp
  then have ub: "unat (b + (a + ucast x)) = ?B + (?A + unat x)"
    using ua by (subst unat_plus_no_wrap) simp_all
  have "(case fold adler_step xs (a + ucast x, b + (a + ucast x)) of (a', b') \<Rightarrow> (unat a', unat b'))
        = fold adler_sum xs (?A + unat x, ?B + (?A + unat x))"
    using Cons.IH [of "b + (a + ucast x)" "a + ucast x"] bnd a32 ua ub by simp
  moreover have "adler_step x (a, b) = (a + ucast x, b + (a + ucast x))"
    and "adler_sum x (?A, ?B) = (?A + unat x, ?B + (?A + unat x))"
    by (simp_all add: adler_step_def adler_sum_def Let_def)
  ultimately show ?case by simp
qed

lemma adler_sum_mod:
  "a mod 65521 = a' mod 65521 \<Longrightarrow> b mod 65521 = b' mod 65521 \<Longrightarrow>
   fold adler_sum xs (a, b) = (p, q) \<Longrightarrow> fold adler_sum xs (a', b') = (p', q') \<Longrightarrow>
   p mod 65521 = p' mod 65521 \<and> q mod 65521 = q' mod 65521"
proof (induction xs arbitrary: a b a' b')
  case Nil
  then show ?case by auto
next
  case (Cons x xs)
  have 1: "(a + unat x) mod 65521 = (a' + unat x) mod 65521"
    using Cons.prems(1) by (metis mod_add_left_eq)
  have 2: "(b + (a + unat x)) mod 65521 = (b' + (a' + unat x)) mod 65521"
    using Cons.prems(2) 1 by (metis mod_add_eq)
  show ?case
    using Cons.IH [OF 1 2] Cons.prems(3,4) by (simp add: adler_sum_def)
qed

lemma adler_loop_sum:
  assumes "unat a < 65521" and "unat b < 65521"
    and "adler_loop data (a, b) = (p, q)" and "fold adler_sum data (unat a, unat b) = (r, s)"
  shows "unat p = r mod 65521 \<and> unat q = s mod 65521"
  using assms
proof (induction data "(a, b)" arbitrary: a b r s rule: adler_loop.induct)
  case (1 data a b)
  show ?case
  proof (cases "data = []")
    case True
    with "1.prems" show ?thesis by (simp add: adler_loop.simps [of "[]"])
  next
    case False
    define tmp where "tmp = (if length data > 5552 then 5552 else length data)"
    obtain a1 b1 where f: "fold adler_step (take tmp data) (a, b) = (a1, b1)" by fastforce
    obtain r1 s1 where g: "fold adler_sum (take tmp data) (unat a, unat b) = (r1, s1)" by fastforce
    define n where "n = length (take tmp data)"
    have n: "n \<le> 5552" by (simp add: n_def tmp_def)
    have "n * unat a \<le> 5552 * 65520"
      using n "1.prems"(1) by (intro mult_le_mono) auto
    then have na: "2 * n * unat a \<le> 2 * 5552 * 65520" by simp
    have "n * (n + 1) \<le> 5552 * 5553"
      using n by (intro mult_le_mono) auto
    then have nn: "255 * n * (n + 1) \<le> 255 * 5552 * 5553" by simp
    have "2 * unat b + 2 * n * unat a + 255 * n * (n + 1) < 8589934592"
      using na nn "1.prems"(2) by linarith
    then have "2 * unat b + 2 * n * unat a + 255 * n * (n + 1) < 2 ^ 33" by simp
    moreover have "unat a + 255 * n < 4294967296" using n "1.prems"(1) by linarith
    then have "unat a + 255 * n < 2 ^ 32" by simp
    ultimately have "(unat a1, unat b1) = (r1, s1)"
      using adler_fold_no_overflow [of b "take tmp data" a] f g unfolding n_def by simp
    then have m: "unat (a1 mod 65521) = r1 mod 65521" "unat (b1 mod 65521) = s1 mod 65521"
      by (simp_all add: unat_mod)
    have step: "adler_loop (drop tmp data) (a1 mod 65521, b1 mod 65521) = (p, q)"
      using "1.prems"(3) False f unfolding tmp_def
      by (subst (asm) adler_loop.simps) (simp add: Let_def)
    obtain r2 s2 where h: "fold adler_sum (drop tmp data) (r1 mod 65521, s1 mod 65521) = (r2, s2)"
      by fastforce
    have "fold adler_sum (drop tmp data) (r1, s1) = (r, s)"
      using "1.prems"(4) g by (metis append_take_drop_id fold_append comp_apply)
    then have rs: "r2 mod 65521 = r mod 65521" "s2 mod 65521 = s mod 65521"
      using adler_sum_mod [OF _ _ h, of r1 s1 r s] by auto
    have "unat p = r2 mod 65521 \<and> unat q = s2 mod 65521"
      using "1.hyps" [OF False tmp_def _ refl, of a1 b1] f step h m by (simp add: unat_mod)
    with rs show ?thesis by simp
  qed
qed

lemma unat_adler_combine:
  assumes "unat (a :: u32) < 65536" and "unat (b :: u32) < 65536"
  shows "unat (push_bit 16 b OR a) = unat b * 65536 + unat a"
proof -
  have disj: "push_bit 16 b AND a = 0"
  proof (rule bit_word_eqI)
    fix n assume "n < LENGTH(32)"
    have "\<not> bit a n" if "16 \<le> n"
    proof -
      have "unat a < 2 ^ 16" using assms(1) by simp
      then have "unat a < 2 ^ n" using that by (meson less_le_trans one_le_numeral power_increasing)
      then have "\<not> bit (unat a) n" by (simp add: bit_iff_odd)
      then show ?thesis by (simp add: bit_unsigned_iff)
    qed
    then show "bit (push_bit 16 b AND a) n = bit 0 n"
      by (auto simp: bit_and_iff bit_push_bit_iff)
  qed
  have "unat (push_bit 16 b) = unat b * 65536"
    using assms(2) by (simp add: push_bit_eq_mult unat_word_ariths)
  moreover have "push_bit 16 b OR a = push_bit 16 b + a"
    using disj by (simp add: disjunctive_add_eq_or)
  moreover have "unat b * 65536 \<le> 65535 * 65536" using assms(2) by simp
  then have "unat (push_bit 16 b + a) = unat (push_bit 16 b) + unat a"
    using assms(1) calculation(1) by (intro unat_plus_no_wrap) simp
  ultimately show ?thesis by simp
qed

text \<open>C35: on every packet that fits a network message the block-wise 32-bit checksum is Adler-32: the
  blocks of 5552 bytes never overflow the 32-bit sums and the deferred reduction loses
  nothing.\<close>

theorem adlerChecksum_correct:
  assumes "length data \<le> 24590"
  shows "unat (adlerChecksum data) = adler32 data"
proof -
  obtain p q where l: "adler_loop data (1, 0) = (p, q)" by fastforce
  obtain r s where f: "fold adler_sum data (unat (1 :: u32), unat (0 :: u32)) = (r, s)" by fastforce
  have "unat p = r mod 65521 \<and> unat q = s mod 65521"
    using adler_loop_sum [OF _ _ l f] by simp
  moreover have "r mod 65521 < 65521" and "s mod 65521 < 65521" by simp_all
  ultimately have "unat (push_bit 16 q OR p) = (s mod 65521) * 65536 + r mod 65521"
    by (subst unat_adler_combine) simp_all
  with assms l f show ?thesis by (simp add: adlerChecksum_def adler32_def)
qed

theorem adlerChecksum_correct_witness:
  "unat (adlerChecksum [87, 105, 107, 105, 112, 101, 100, 105, 97]) = 0x11E60398"
proof -
  have "adler32 [87, 105, 107, 105, 112, 101, 100, 105, 97] = 0x11E60398"
    by (simp add: adler32_def adler_sum_def)
  then show ?thesis
    using adlerChecksum_correct [of "[87, 105, 107, 105, 112, 101, 100, 105, 97]"] by simp
qed

end
