(* ===== verification/Protocol.thy ===== *)
theory Protocol
  imports NetMessage Xtea Checksum
begin

text \<open>
  Outgoing messages (\<open>outputmessage.h\<close>), the encryption and framing done by
  \<open>src/src/server/network/protocol/protocol.cpp\<close>, and the receiving half of
  \<open>connection.cpp\<close> that undoes the framing.
\<close>

section \<open>Output messages\<close>

record outmsg = netmsg +
  outputBufferStart :: u16

definition om_init :: "(nat \<Rightarrow> byte) \<Rightarrow> outmsg" where
  "om_init b = \<lparr>info_length = 0, info_position = INITIAL_BUFFER_POSITION, info_overrun = False,
     buf = b, outputBufferStart = INITIAL_BUFFER_POSITION\<rparr>"

text \<open>
  \<open>add_header\<close> asserts that the header fits in front of the output; a failed assertion is
  \<open>None\<close>.
\<close>

definition add_header :: "byte list \<Rightarrow> outmsg \<Rightarrow> outmsg option" where
  "add_header h m =
     (if unat (outputBufferStart m) < length h then None
      else let start = outputBufferStart m - of_nat (length h)
           in map_option
                (\<lambda>b. m\<lparr>outputBufferStart := start, buf := b,
                       info_length := info_length m + of_nat (length h)\<rparr>)
                (store (buf m) (unat start) h))"

definition writeMessageLength :: "outmsg \<Rightarrow> outmsg option" where
  "writeMessageLength m = add_header (to_le 2 (unat (info_length m))) m"

definition addCryptoHeader :: "u8 \<Rightarrow> u32 \<Rightarrow> outmsg \<Rightarrow> (outmsg \<times> u32) option" where
  "addCryptoHeader addChecksum sequence m =
     do { (m, sequence) \<leftarrow>
            (if addChecksum = 1 then
               do { bytes \<leftarrow> load (buf m) (unat (outputBufferStart m)) (unat (info_length m));
                    m \<leftarrow> add_header (to_le 4 (unat (adlerChecksum bytes))) m;
                    Some (m, sequence) }
             else if addChecksum = 2 then
               do { m \<leftarrow> add_header (to_le 4 (unat sequence)) m; Some (m, sequence + 1) }
             else Some (m, sequence));
          m \<leftarrow> writeMessageLength m;
          Some (m, sequence) }"

text \<open>\<open>append\<close> copies the payload of another message without a room check.\<close>

definition om_append :: "'a netmsg_scheme \<Rightarrow> outmsg \<Rightarrow> outmsg option" where
  "om_append msg m =
     do { bytes \<leftarrow> load (buf msg) 8 (unat (info_length msg)); write_bytes bytes m }"

section \<open>Protocol objects\<close>

record protocol =
  outputBuffer :: "outmsg option"
  xteaKey :: xtea_key
  sequenceNumber :: u32
  encryptionEnabled :: bool
  checksumEnabled :: bool
  compactCrypt :: bool
  rawMessages :: bool

definition protocol_init :: protocol where
  "protocol_init = \<lparr>outputBuffer = None, xteaKey = [0, 0, 0, 0], sequenceNumber = 0,
     encryptionEnabled = False, checksumEnabled = True, compactCrypt = False, rawMessages = False\<rparr>"

text \<open>
  The cipher runs over whole blocks from an index of the buffer on; \<open>round8\<close> is the number
  of bytes the block loop touches.
\<close>

definition round8 :: "nat \<Rightarrow> nat" where "round8 n = 8 * ((n + 7) div 8)"

definition crypt_region ::
    "(byte list \<Rightarrow> nat \<Rightarrow> xtea_key \<Rightarrow> byte list option) \<Rightarrow> xtea_key \<Rightarrow> nat \<Rightarrow> nat \<Rightarrow> (nat \<Rightarrow> byte)
     \<Rightarrow> (nat \<Rightarrow> byte) option" where
  "crypt_region f k s n b =
     do { region \<leftarrow> load b s (round8 n); out \<leftarrow> f region n k; store b s out }"

definition XTEA_encrypt :: "xtea_key \<Rightarrow> outmsg \<Rightarrow> outmsg option" where
  "XTEA_encrypt k m =
     (let paddingBytes = unat (info_length m) mod 8
      in do { m \<leftarrow> (if paddingBytes \<noteq> 0 then addPaddingBytes (8 - paddingBytes) m else Some m);
              b \<leftarrow> crypt_region xtea_encrypt k (unat (outputBufferStart m)) (unat (info_length m)) (buf m);
              Some (m\<lparr>buf := b\<rparr>) })"

definition XTEA_decrypt :: "xtea_key \<Rightarrow> netmsg \<Rightarrow> (bool \<times> netmsg) option" where
  "XTEA_decrypt k m =
     (if (uint (info_length m) - 6) AND 7 \<noteq> 0 then Some (False, m)
      else do { b \<leftarrow> crypt_region xtea_decrypt k (unat (info_position m))
                       (unat (info_length m) - 6) (buf m);
                (innerLength, m) \<leftarrow> getU16 (m\<lparr>buf := b\<rparr>);
                if unat innerLength + 8 > unat (info_length m) then Some (False, m)
                else Some (True, setLength innerLength m) })"

definition onSendMessage :: "protocol \<Rightarrow> outmsg \<Rightarrow> (protocol \<times> outmsg) option" where
  "onSendMessage p m =
     (if rawMessages p then Some (p, m)
      else do { m \<leftarrow> writeMessageLength m;
                if encryptionEnabled p then
                  do { m \<leftarrow> XTEA_encrypt (xteaKey p) m;
                       (m, seq) \<leftarrow>
                         (if \<not> compactCrypt p
                          then addCryptoHeader (if checksumEnabled p then 1 else 0) (sequenceNumber p) m
                          else addCryptoHeader 2 (sequenceNumber p) m);
                       Some (p\<lparr>sequenceNumber := seq\<rparr>, m) }
                else Some (p, m) })"

text \<open>The message after \<open>onRecvMessage\<close>, and whether it was handed to \<open>parsePacket\<close>.\<close>

datatype received = Dropped netmsg | Parsed netmsg

definition onRecvMessage :: "protocol \<Rightarrow> netmsg \<Rightarrow> received option" where
  "onRecvMessage p m =
     (if encryptionEnabled p
      then do { (ok, m) \<leftarrow> XTEA_decrypt (xteaKey p) m;
                Some (if ok then Parsed m else Dropped m) }
      else Some (Parsed m))"

text \<open>
  \<open>getOutputBuffer\<close>: the autosend buffer, sent and replaced when it cannot take \<open>size\<close>
  more bytes. The third component is the message handed to \<open>send\<close>.
\<close>

definition getOutputBuffer ::
    "outmsg \<Rightarrow> int \<Rightarrow> protocol \<Rightarrow> outmsg \<times> protocol \<times> outmsg option" where
  "getOutputBuffer fresh n p =
     (case outputBuffer p of
        None \<Rightarrow> (fresh, p\<lparr>outputBuffer := Some fresh\<rparr>, None)
      | Some ob \<Rightarrow>
          if uint (info_length ob) + n > int MAX_PROTOCOL_BODY_LENGTH
          then (fresh, p\<lparr>outputBuffer := Some fresh\<rparr>, Some ob)
          else (ob, p, None))"

section \<open>The frame on the wire\<close>

text \<open>What the socket sends for a message, and how \<open>parseHeader\<close>/\<open>parsePacket\<close> read a frame.\<close>

definition sent_bytes :: "outmsg \<Rightarrow> byte list option" where
  "sent_bytes m = load (buf m) (unat (outputBufferStart m)) (unat (info_length m))"

definition receive_frame :: "protocol \<Rightarrow> netmsg \<Rightarrow> byte list \<Rightarrow> received option" where
  "receive_frame p m bytes =
     do { b \<leftarrow> store (buf m) 0 (take HEADER_LENGTH bytes);
          let m = m\<lparr>buf := b\<rparr>;
          let size = getLengthHeader m;
          if size = 0 \<or> uint size \<ge> int MAXSIZE - 16 then Some (Dropped m)
          else do { let m = setLength (size + of_nat HEADER_LENGTH) m;
                    let (at, m) = getBodyBuffer m;
                    b \<leftarrow> store (buf m) at (take (unat size) (drop HEADER_LENGTH bytes));
                    (recvPacket, m) \<leftarrow> getU32 (m\<lparr>buf := b\<rparr>);
                    onRecvMessage p m } }"

section \<open>Sending\<close>

lemma round8_multiple: "8 dvd n \<Longrightarrow> round8 n = n"
  by (auto simp: round8_def elim!: dvdE)

lemma unat_minus_le:
  fixes a :: u16
  assumes "n \<le> unat a"
  shows "unat (a - of_nat n) = unat a - n"
proof -
  have "n < 65536" using assms unat_u16_less [of a] by linarith
  then have "unat (of_nat n :: u16) = n" by (intro unat_of_nat_small) simp
  with assms show ?thesis by (simp add: unat_sub word_le_nat_alt)
qed

lemma unat_plus_small:
  fixes a :: u16
  assumes "unat a + n < 65536"
  shows "unat (a + of_nat n) = unat a + n"
proof -
  have "unat (of_nat n :: u16) = n" using assms by (intro unat_of_nat_small) simp
  then show ?thesis using assms by (simp add: unat_plus_no_wrap)
qed

text \<open>A message between the header steps: its output region and the bytes in it.\<close>

definition holds_out :: "outmsg \<Rightarrow> nat \<Rightarrow> byte list \<Rightarrow> bool" where
  "holds_out m s bs \<longleftrightarrow>
     unat (outputBufferStart m) = s \<and> unat (info_length m) = length bs
     \<and> slice (buf m) s (length bs) = bs \<and> s + length bs \<le> 24576"

lemma add_header_holds:
  assumes "holds_out m s bs" and "length h \<le> s"
  obtains m' where "add_header h m = Some m'" and "holds_out m' (s - length h) (h @ bs)"
    and "info_position m' = info_position m"
proof -
  let ?start = "outputBufferStart m - of_nat (length h)"
  have s: "unat (outputBufferStart m) = s" and sl: "slice (buf m) s (length bs) = bs"
    and le: "unat (info_length m) = length bs" "s + length bs \<le> 24576"
    using assms(1) by (simp_all add: holds_out_def)
  have st: "unat ?start = s - length h"
    using unat_minus_le [of "length h" "outputBufferStart m"] assms(2) s by simp
  let ?b = "poke (buf m) (s - length h) h"
  let ?m = "m\<lparr>outputBufferStart := ?start, buf := ?b, info_length := info_length m + of_nat (length h)\<rparr>"
  have "add_header h m = Some ?m"
    using assms(2) s st le by (simp add: add_header_def Let_def store_def)
  moreover have "slice ?b (s - length h) (length h + length bs) = h @ bs"
    using assms(2) sl by (simp add: slice_append slice_poke_disjoint)
  moreover have "unat (info_length m + of_nat (length h)) = length bs + length h"
    using unat_plus_small [of "info_length m" "length h"] le assms(2) by simp
  ultimately show ?thesis
    using that [of ?m] st le assms(2) by (simp add: holds_out_def add.commute)
qed

definition padding_for :: "nat \<Rightarrow> nat" where
  "padding_for n = (8 - n mod 8) mod 8"

lemma padding_for_multiple: "8 dvd (n + padding_for n)"
proof (cases "n mod 8 = 0")
  case True
  then show ?thesis by (simp add: padding_for_def mod_eq_0_iff_dvd)
next
  case False
  obtain q r where n: "n = 8 * q + r" "r < 8" using mod_less_divisor [of 8 n] mult_div_mod_eq [of 8 n]
    by (metis zero_less_numeral)
  then have "n mod 8 = r" by simp
  with False n have "n + padding_for n = 8 * (q + 1)" by (simp add: padding_for_def)
  then show ?thesis by (metis dvd_triv_left)
qed

lemma padding_for_limit:
  assumes "n \<le> 24568"
  shows "n + padding_for n \<le> 24568"
proof -
  obtain q where q: "n + padding_for n = 8 * q" using padding_for_multiple by (rule dvdE)
  have "padding_for n < 8" by (simp add: padding_for_def)
  with q assms have "q \<le> 3071" by linarith
  with q show ?thesis by simp
qed

lemma padding_for_less: "padding_for n < 8"
  by (simp add: padding_for_def)

lemma XTEA_encrypt_holds:
  assumes "holds_out m s bs" and "unat (info_position m) = s + length bs" and "s + length bs + padding_for (length bs) < 24576"
  obtains m' c where "XTEA_encrypt k m = Some m'" and "holds_out m' s c"
    and "info_position m' = info_position m"
    and "xtea_encrypt (bs @ replicate (padding_for (length bs)) 0x33) (length c) k = Some c"
    and "length c = length bs + padding_for (length bs)"
    and "xtea_decrypt c (length c) k = Some (bs @ replicate (padding_for (length bs)) 0x33)"
proof -
  let ?p = "padding_for (length bs)"
  let ?pad = "replicate ?p (0x33 :: byte)"
  let ?m1 = "m\<lparr>buf := poke (buf m) (s + length bs) ?pad, info_length := info_length m + of_nat ?p\<rparr>"
  have h: "unat (outputBufferStart m) = s" "unat (info_length m) = length bs"
      "slice (buf m) s (length bs) = bs"
    using assms(1) by (simp_all add: holds_out_def)
  have p8: "?p < 8" by (rule padding_for_less)
  have room: "canAdd ?p m"
    using assms(2,3) p8 by (simp add: canAdd_def MAX_BODY_LENGTH_def)
  have pad: "(if unat (info_length m) mod 8 \<noteq> 0 then addPaddingBytes (8 - unat (info_length m) mod 8) m
      else Some m) = Some ?m1"
  proof (cases "length bs mod 8 = 0")
    case True
    then show ?thesis using h by (simp add: padding_for_def)
  next
    case False
    then have p: "8 - unat (info_length m) mod 8 = ?p" using h(2) by (simp add: padding_for_def)
    have "addPaddingBytes ?p m = Some ?m1"
      using room canAdd_store [of ?pad m] assms(2) by (simp add: addPaddingBytes_def)
    with False p h(2) show ?thesis by simp
  qed
  have l1: "unat (info_length ?m1) = length bs + ?p"
    using unat_plus_small [of "info_length m" ?p] h(2) assms(3) p8 by simp
  have sl1: "slice (buf ?m1) s (length bs + ?p) = bs @ ?pad"
    using h(3) slice_poke_same [of "buf m" "s + length bs" ?pad]
    by (simp add: slice_append slice_poke_disjoint)
  have mult: "8 dvd length (bs @ ?pad)" using padding_for_multiple by simp
  obtain c where c: "xtea_encrypt (bs @ ?pad) (length (bs @ ?pad)) k = Some c"
      "length c = length (bs @ ?pad)" "xtea_decrypt c (length (bs @ ?pad)) k = Some (bs @ ?pad)"
    using mult by (rule xtea_encrypt_total)
  let ?m' = "?m1\<lparr>buf := poke (buf ?m1) s c\<rparr>"
  have bnd: "s + (length bs + ?p) \<le> 24576" using assms(3) p8 by simp
  have "load (buf ?m1) s (round8 (length bs + ?p)) = Some (bs @ ?pad)"
    using bnd mult sl1 by (simp add: load_def round8_multiple)
  then have "crypt_region xtea_encrypt k s (length bs + ?p) (buf ?m1) = Some (poke (buf ?m1) s c)"
    using c bnd by (simp add: crypt_region_def store_def)
  then have "XTEA_encrypt k m = Some ?m'"
    unfolding XTEA_encrypt_def Let_def pad using h(1) l1 by simp
  moreover have "holds_out ?m' s c"
    using h(1) l1 c(2) bnd by (simp add: holds_out_def slice_poke_whole)
  ultimately show ?thesis using that [of ?m' c] c by simp
qed

text \<open>The header that \<open>addCryptoHeader\<close> writes in front of the encrypted bytes.\<close>

definition crypto_header :: "protocol \<Rightarrow> byte list \<Rightarrow> byte list" where
  "crypto_header p c =
     (if compactCrypt p then to_le 4 (unat (sequenceNumber p))
      else if checksumEnabled p then to_le 4 (unat (adlerChecksum c)) else [])"

lemma addCryptoHeader_holds:
  assumes "holds_out m s c" and "s = 6"
    and v: "v = (if compactCrypt p then 2 else if checksumEnabled p then 1 else 0)"
  obtains m' where "addCryptoHeader v (sequenceNumber p) m =
      Some (m', if compactCrypt p then sequenceNumber p + 1 else sequenceNumber p)"
    and "holds_out m' (4 - length (crypto_header p c))
           (to_le 2 (length (crypto_header p c @ c)) @ crypto_header p c @ c)"
proof -
  let ?h = "crypto_header p c"
  have hl: "length ?h \<le> s" using assms(2) by (simp add: crypto_header_def)
  obtain m1 where m1: "add_header ?h m = Some m1" "holds_out m1 (s - length ?h) (?h @ c)"
    using add_header_holds [OF assms(1) hl] .
  have l: "unat (info_length m1) = length (?h @ c)" using m1(2) by (simp add: holds_out_def)
  have two: "length (to_le 2 (unat (info_length m1))) \<le> s - length ?h"
    using assms(2) by (simp add: crypto_header_def)
  obtain m2 where m2: "writeMessageLength m1 = Some m2"
      "holds_out m2 (s - length ?h - 2) (to_le 2 (length (?h @ c)) @ ?h @ c)"
    using add_header_holds [OF m1(2) two] l unfolding writeMessageLength_def by auto
  have ld: "load (buf m) (unat (outputBufferStart m)) (unat (info_length m)) = Some c"
    using assms(1) by (auto simp: holds_out_def load_def)
  have "add_header [] m = Some m"
    using assms(1) by (simp add: add_header_def Let_def holds_out_def store_def)
  then have "addCryptoHeader v (sequenceNumber p) m =
      Some (m2, if compactCrypt p then sequenceNumber p + 1 else sequenceNumber p)"
    using m1(1) m2(1) ld by (simp add: addCryptoHeader_def v crypto_header_def split: if_splits)
  with m2(2) that assms(2) show ?thesis by simp
qed

text \<open>
  The frame of a message with payload \<open>pl\<close>: total length, crypto header, and the
  encryption of inner length, payload and padding.
\<close>

definition plain_block :: "byte list \<Rightarrow> byte list" where
  "plain_block pl = to_le 2 (length pl) @ pl @ replicate (padding_for (length pl + 2)) 0x33"

lemma onSendMessage_frame:
  assumes "nm_ok m" and "outputBufferStart m = 8" and "unat (info_length m) \<le> MAX_PROTOCOL_BODY_LENGTH"
    and "slice (buf m) 8 (unat (info_length m)) = pl"
    and "\<not> rawMessages p" and "encryptionEnabled p"
  obtains p' m' c h where "onSendMessage p m = Some (p', m')"
    and "h = crypto_header p c"
    and "holds_out m' (4 - length h) (to_le 2 (length (h @ c)) @ h @ c)"
    and "xtea_decrypt c (length c) (xteaKey p) = Some (plain_block pl)"
    and "length c = length (plain_block pl)"
    and "p' = p\<lparr>sequenceNumber := (if compactCrypt p then sequenceNumber p + 1 else sequenceNumber p)\<rparr>"
proof -
  let ?k = "xteaKey p"
  have ll: "length pl = unat (info_length m)" using assms(4) by auto
  have pos: "unat (info_position m) = 8 + length pl" using assms(1) ll by (simp add: nm_ok_def)
  have ho: "holds_out m 8 pl" using assms(2,3,4) ll
    by (simp add: holds_out_def MAX_PROTOCOL_BODY_LENGTH_def MAX_BODY_LENGTH_def)
  obtain m1 where m1: "writeMessageLength m = Some m1" "holds_out m1 6 (to_le 2 (length pl) @ pl)"
      "info_position m1 = info_position m"
    using add_header_holds [OF ho, of "to_le 2 (unat (info_length m))"] ll
    unfolding writeMessageLength_def by auto
  let ?bs = "to_le 2 (length pl) @ pl"
  have bl: "length ?bs = length pl + 2" and pb: "plain_block pl = ?bs @ replicate (padding_for (length ?bs)) 0x33"
    by (simp_all add: plain_block_def)
  have pos1: "unat (info_position m1) = 6 + length ?bs" and lim: "6 + length ?bs + padding_for (length ?bs) < 24576"
    using m1(3) pos ll assms(3) padding_for_limit [of "length pl + 2"]
    by (simp_all add: MAX_PROTOCOL_BODY_LENGTH_def MAX_BODY_LENGTH_def)
  obtain m2 c where m2': "XTEA_encrypt ?k m1 = Some m2" "holds_out m2 6 c"
      "length c = length ?bs + padding_for (length ?bs)"
      "xtea_decrypt c (length c) ?k = Some (?bs @ replicate (padding_for (length ?bs)) 0x33)"
    using XTEA_encrypt_holds [OF m1(2) pos1 lim, of ?k] by metis
  then have m2: "XTEA_encrypt ?k m1 = Some m2" "holds_out m2 6 c"
      "length c = length pl + 2 + padding_for (length pl + 2)"
      "xtea_decrypt c (length c) ?k = Some (plain_block pl)"
    by (simp_all only: pb bl)
  let ?seq = "if compactCrypt p then sequenceNumber p + 1 else sequenceNumber p"
  obtain m3 where m3: "addCryptoHeader (if compactCrypt p then 2 else if checksumEnabled p then 1 else 0)
        (sequenceNumber p) m2 = Some (m3, ?seq)"
      "holds_out m3 (4 - length (crypto_header p c))
        (to_le 2 (length (crypto_header p c @ c)) @ crypto_header p c @ c)"
    using addCryptoHeader_holds [OF m2(2) refl refl, of p] .
  have "onSendMessage p m = Some (p\<lparr>sequenceNumber := ?seq\<rparr>, m3)"
    using assms(5,6) m1(1) m2(1) m3(1) by (simp add: onSendMessage_def split: if_splits)
  with m2(3,4) m3(2) that show ?thesis by (simp add: plain_block_def)
qed

section \<open>Receiving\<close>

lemma getLengthHeader_le:
  assumes "slice (buf m) 0 2 = to_le 2 n" and "n < 65536"
  shows "getLengthHeader m = of_nat n"
proof -
  have b: "buf m 0 = of_nat (n mod 256)" "buf m 1 = of_nat (n div 256 mod 256)"
    using assms(1) by (simp_all add: slice_def numeral_2_eq_2)
  let ?lo = "ucast (buf m 0) :: u16" and ?hi = "push_bit 8 (ucast (buf m 1)) :: u16"
  have "\<not> bit ?lo i \<or> \<not> bit ?hi i" for i
    by (auto simp: bit_simps dest: bit_imp_le_length)
  then have "getLengthHeader m = ?lo + ?hi"
    unfolding getLengthHeader_def by (rule disjunctive_add [symmetric])
  moreover have "?lo = of_nat (n mod 256)"
    unfolding b by (rule word_unat_eq_iff [THEN iffD2])
      (simp add: unsigned_ucast_eq unat_of_nat_small unat_of_nat take_bit_nat_eq_self)
  moreover have "?hi = of_nat (256 * (n div 256))"
  proof -
    have "(ucast (of_nat k :: byte) :: u16) = of_nat k" if "k < 256" for k
      using that by (intro word_unat_eq_iff [THEN iffD2])
        (simp add: unsigned_ucast_eq unat_of_nat take_bit_nat_eq_self)
    moreover have "n div 256 mod 256 < 256" "n div 256 mod 256 = n div 256" using assms(2) by auto
    ultimately show ?thesis unfolding b
      by (simp add: push_bit_eq_mult)
  qed
  ultimately have "getLengthHeader m = of_nat (n mod 256 + 256 * (n div 256))"
    by (simp only: of_nat_add)
  moreover have "n mod 256 + 256 * (n div 256) = n" by simp
  ultimately show ?thesis by (simp only:)
qed

lemma uint_minus_and_7: "8 dvd n \<Longrightarrow> (int (n + 6) - 6) AND 7 = 0"
proof -
  assume "8 dvd n"
  then have "int n mod 8 = 0" by presburger
  moreover have "int n AND 7 = int n mod 8"
    using take_bit_eq_mask [of 3 "int n"] by (simp add: take_bit_eq_mod mask_eq_exp_minus_1)
  ultimately show ?thesis by simp
qed

lemma XTEA_decrypt_parsed:
  assumes "slice (buf m) 6 (length c) = c" and "unat (info_position m) = 6"
    and "unat (info_length m) = length c + 6" and "8 dvd length c" and "length c + 6 < 24576"
    and "xtea_decrypt c (length c) k = Some (to_le 2 (length pl) @ pl @ rest)"
    and "length c = length (to_le 2 (length pl) @ pl @ rest)"
  obtains m' where "XTEA_decrypt k m = Some (True, m')"
    and "unat (info_length m') = length pl" and "unat (info_position m') = 8"
    and "slice (buf m') 8 (length pl) = pl" and "info_overrun m' = info_overrun m"
proof -
  let ?out = "to_le 2 (length pl) @ pl @ rest"
  let ?m1 = "m\<lparr>buf := poke (buf m) 6 ?out\<rparr>"
  have u: "uint (info_length m) = int (length c + 6)" using assms(3) by (metis uint_nat)
  have "load (buf m) 6 (round8 (length c)) = Some c"
    using assms(1,4,5) by (simp add: load_def round8_multiple)
  then have cr: "crypt_region xtea_decrypt k (unat (info_position m)) (unat (info_length m) - 6) (buf m)
      = Some (buf ?m1)"
    using assms(2,3,5,6,7) by (simp add: crypt_region_def store_def)
  have whole: "slice (buf ?m1) 6 (2 + (length pl + length rest)) = ?out"
    using slice_poke_same [of "buf m" 6 ?out] by simp
  then have two: "slice (buf ?m1) 6 2 = to_le 2 (length pl)" and pl: "slice (buf ?m1) 8 (length pl) = pl"
    by (simp_all only: slice_append append_eq_append_conv length_slice length_to_le length_append) simp_all
  have plen: "length pl < 65536" using assms(5,7) by simp
  then have ul: "unat (of_nat (length pl) :: u16) = length pl" by (intro unat_of_nat_small) simp
  have "has_bytes (to_le 2 (unat (of_nat (length pl) :: u16))) ?m1"
    using two assms(2,3,5,7) by (simp add: has_bytes_def ul)
  then have g: "getU16 ?m1 = Some (of_nat (length pl), advance 2 ?m1)" by (rule getU16_has_bytes)
  have pos: "unat (info_position (advance 2 ?m1)) = 8"
    using unat_position_advance [of ?m1 2] assms(2) by simp
  have le: "\<not> unat (of_nat (length pl) :: u16) + 8 > unat (info_length (advance 2 ?m1))"
    using ul assms(3,7) by (simp add: advance_def)
  have "XTEA_decrypt k m = Some (True, setLength (of_nat (length pl)) (advance 2 ?m1))"
    unfolding XTEA_decrypt_def cr u uint_minus_and_7 [OF assms(4)]
    using g le by simp
  moreover have "buf (advance 2 ?m1) = buf ?m1" by (simp add: advance_def)
  ultimately show ?thesis using that ul pos pl by (simp add: setLength_def advance_def)
qed

lemma receive_frame_parsed:
  assumes "length h = 4" and "8 dvd length c" and "length c + 4 < 24574"
    and "xtea_decrypt c (length c) (xteaKey p) = Some (to_le 2 (length pl) @ pl @ rest)"
    and "length c = length (to_le 2 (length pl) @ pl @ rest)"
    and "encryptionEnabled p"
  obtains m' where "receive_frame p m (to_le 2 (length (h @ c)) @ h @ c) = Some (Parsed m')"
    and "unat (info_length m') = length pl" and "unat (info_position m') = 8"
    and "slice (buf m') 8 (length pl) = pl" and "info_overrun m' = info_overrun m"
proof -
  let ?n = "length (h @ c)"
  let ?frame = "to_le 2 ?n @ h @ c"
  let ?m1 = "m\<lparr>buf := poke (buf m) 0 (to_le 2 ?n)\<rparr>"
  have n: "?n < 65536" using assms(1,3) by simp
  have "slice (buf ?m1) 0 2 = to_le 2 ?n" using slice_poke_same [of "buf m" 0 "to_le 2 ?n"] by simp
  then have lh: "getLengthHeader ?m1 = of_nat ?n" using n by (rule getLengthHeader_le)
  have un: "unat (of_nat ?n :: u16) = ?n" using n by (intro unat_of_nat_small) simp
  then have uin: "uint (of_nat ?n :: u16) = int ?n" by (metis uint_nat)
  have nz: "(of_nat ?n :: u16) \<noteq> 0" using un assms(1) by auto
  let ?m2 = "setLength (of_nat ?n + of_nat 2) ?m1"
  let ?m3 = "?m2\<lparr>info_position := 2, buf := poke (buf ?m1) 2 (h @ c)\<rparr>"
  have len3: "unat (info_length ?m3) = length c + 6"
    using unat_plus_small [of "of_nat ?n" 2] un assms(1,3) by (simp add: setLength_def)
  have hc: "slice (buf ?m3) 2 (4 + length c) = h @ c"
    using slice_poke_same [of "buf ?m1" 2 "h @ c"] assms(1) by simp
  then have h: "slice (buf ?m3) 2 4 = h" and c: "slice (buf ?m3) 6 (length c) = c"
    using assms(1) by (simp_all only: slice_append append_eq_append_conv length_slice) simp_all
  have "has_bytes h ?m3"
    using h assms(1,3) len3 by (simp add: has_bytes_def)
  then have g: "getU32 ?m3 = Some (of_nat (from_le h), advance 4 ?m3)"
    using getN_has_bytes [of h ?m3] assms(1) by (simp add: getU32_def)
  let ?m4 = "advance 4 ?m3"
  have pos: "unat (info_position ?m4) = 6" using unat_position_advance [of ?m3 4] by simp
  have l4: "unat (info_length ?m4) = length c + 6" using len3 by (simp add: advance_def)
  have c4: "slice (buf ?m4) 6 (length c) = c" using c by (simp add: advance_def)
  obtain m' where m': "XTEA_decrypt (xteaKey p) ?m4 = Some (True, m')"
      "unat (info_length m') = length pl" "unat (info_position m') = 8"
      "slice (buf m') 8 (length pl) = pl" "info_overrun m' = info_overrun ?m4"
    using XTEA_decrypt_parsed [OF c4 pos l4 assms(2) _ assms(4,5)] assms(3) by auto
  have s1: "store (buf m) 0 (take 2 ?frame) = Some (buf ?m1)"
    by (simp add: store_def take_append)
  have s2: "store (buf ?m1) 2 (take (unat (of_nat ?n :: u16)) (drop 2 ?frame)) = Some (buf ?m3)"
    unfolding un using assms(1,3) by (simp add: store_def drop_append)
  have "receive_frame p m ?frame = Some (Parsed m')"
    unfolding receive_frame_def s1 Let_def
    using lh nz uin assms(1,3) s2 g m'(1) assms(6)
    by (simp add: getBodyBuffer_def setLength_def onRecvMessage_def)
  moreover have "info_overrun m' = info_overrun m" using m'(5) by (simp add: advance_def setLength_def)
  ultimately show ?thesis using that m'(2,3,4) by blast
qed

section \<open>End to end\<close>

lemma om_init_nm_ok: "nm_ok (om_init b)" "outputBufferStart (om_init b) = 8"
  by (simp_all add: om_init_def nm_ok_def INITIAL_BUFFER_POSITION_def MAX_BODY_LENGTH_def)

lemma slice_appended:
  assumes "nm_ok m" and "unat (info_length m) = 0"
  shows "slice (buf (appended bs m)) 8 (length bs) = bs"
  using assms by (simp add: appended_def nm_ok_def)

lemma holds_out_sent: "holds_out m s bs \<Longrightarrow> sent_bytes m = Some bs"
  by (auto simp: holds_out_def sent_bytes_def load_def)

lemma plain_block_limit:
  assumes "length pl \<le> MAX_PROTOCOL_BODY_LENGTH"
  shows "length (plain_block pl) \<le> 24568" "8 dvd length (plain_block pl)"
  using assms padding_for_limit [of "length pl + 2"] padding_for_multiple [of "length pl + 2"]
  by (simp_all add: plain_block_def MAX_PROTOCOL_BODY_LENGTH_def MAX_BODY_LENGTH_def add.assoc)

text \<open>C3: end to end over the encrypted transport: any packet whose fields occupy at most
  \<open>MAX_PROTOCOL_BODY_LENGTH\<close> bytes, written by the \<open>add\<close> calls into a fresh output message, padded,
  encrypted and framed by \<open>onSendMessage\<close> with either crypto header, and read from the socket by
  \<open>parseHeader\<close>, \<open>parsePacket\<close> and \<open>onRecvMessage\<close> on a protocol with the same key, parses
  back to the same fields without overrun. No step leaves its buffer, and the limit is
  exactly what the padding and the headers need.\<close>

theorem encrypted_packet_roundtrip:
  assumes "list_all field_valid fs"
    and "length (concat (map field_wire fs)) \<le> MAX_PROTOCOL_BODY_LENGTH"
    and "\<not> rawMessages p" and "encryptionEnabled p" and "compactCrypt p \<or> checksumEnabled p"
    and "encryptionEnabled q" and "xteaKey q = xteaKey p"
  shows "\<exists>m p' m' bytes r r'. put_list add_field fs (om_init b) = Some m
     \<and> onSendMessage p m = Some (p', m') \<and> sent_bytes m' = Some bytes
     \<and> receive_frame q rm bytes = Some (Parsed r)
     \<and> get_list get_field (map kind_of_field fs) r = Some (fs, r')
     \<and> info_overrun r' = info_overrun rm"
proof -
  let ?pl = "concat (map field_wire fs)"
  let ?m = "appended ?pl (om_init b)"
  have lim: "length ?pl \<le> 24566"
    using assms(2) by (simp add: MAX_PROTOCOL_BODY_LENGTH_def MAX_BODY_LENGTH_def)
  have room: "canAdd (length ?pl) (om_init b)"
    using lim by (simp add: canAdd_def om_init_def INITIAL_BUFFER_POSITION_def MAX_BODY_LENGTH_def)
  have put: "put_list add_field fs (om_init b) = Some ?m"
    using assms(1) room by (rule fields.put_list_wire)
  have ok: "nm_ok ?m" using om_init_nm_ok(1) room by (rule nm_ok_appended)
  have len: "unat (info_length ?m) = length ?pl"
    using unat_length_appended [OF om_init_nm_ok(1) room] by (simp add: om_init_def)
  have pl: "slice (buf ?m) 8 (unat (info_length ?m)) = ?pl"
    unfolding len by (rule slice_appended) (simp_all add: om_init_nm_ok, simp add: om_init_def)
  have start: "outputBufferStart ?m = 8" by (simp add: appended_def om_init_nm_ok)
  have small: "unat (info_length ?m) \<le> MAX_PROTOCOL_BODY_LENGTH" using len assms(2) by simp
  obtain p' m' c h where snd: "onSendMessage p ?m = Some (p', m')" "h = crypto_header p c"
      "holds_out m' (4 - length h) (to_le 2 (length (h @ c)) @ h @ c)"
      "xtea_decrypt c (length c) (xteaKey p) = Some (plain_block ?pl)"
      "length c = length (plain_block ?pl)"
    using onSendMessage_frame [OF ok start small pl assms(3,4)] .
  have h4: "length h = 4" using snd(2) assms(5) by (auto simp: crypto_header_def)
  have dv: "8 dvd length c" and cl: "length c + 4 < 24574"
    using snd(5) plain_block_limit [OF assms(2)] by simp_all
  obtain r where r: "receive_frame q rm (to_le 2 (length (h @ c)) @ h @ c) = Some (Parsed r)"
      "unat (info_length r) = length ?pl" "unat (info_position r) = 8"
      "slice (buf r) 8 (length ?pl) = ?pl" "info_overrun r = info_overrun rm"
    using receive_frame_parsed [OF h4 dv cl _ _ assms(6), of ?pl
        "replicate (padding_for (length ?pl + 2)) 0x33" rm]
      snd(4,5) assms(7) unfolding plain_block_def by metis
  have "has_bytes ?pl r" using r lim by (simp add: has_bytes_def)
  then have "get_list get_field (map kind_of_field fs) r = Some (fs, advance (length ?pl) r)"
    by (rule fields.get_list_wire [OF assms(1)])
  moreover have "info_overrun (advance (length ?pl) r) = info_overrun rm"
    using r(5) by (simp add: advance_def)
  ultimately show ?thesis
    using put snd(1) holds_out_sent [OF snd(3)] r(1) by blast
qed

definition demo_key :: xtea_key where "demo_key = [1, 2, 3, 4]"

theorem encrypted_packet_roundtrip_witness:
  "\<exists>m p' m' bytes r r'. put_list add_field [FByte 0xB4, FString [72, 105]] (om_init (\<lambda>_. 0)) = Some m
     \<and> onSendMessage (protocol_init\<lparr>encryptionEnabled := True, xteaKey := demo_key\<rparr>) m = Some (p', m')
     \<and> sent_bytes m' = Some bytes
     \<and> receive_frame (protocol_init\<lparr>encryptionEnabled := True, xteaKey := demo_key\<rparr>)
         \<lparr>info_length = 0, info_position = 8, info_overrun = False, buf = (\<lambda>_. 7)\<rparr> bytes = Some (Parsed r)
     \<and> get_list get_field [KByte, KString] r = Some ([FByte 0xB4, FString [72, 105]], r')
     \<and> \<not> info_overrun r'"
  using encrypted_packet_roundtrip [of "[FByte 0xB4, FString [72, 105]]"
      "protocol_init\<lparr>encryptionEnabled := True, xteaKey := demo_key\<rparr>"
      "protocol_init\<lparr>encryptionEnabled := True, xteaKey := demo_key\<rparr>" "\<lambda>_. 0" "\<lparr>info_length = 0, info_position = 8, info_overrun = False, buf = (\<lambda>_. 7)\<rparr>"]
  by (simp add: MAX_PROTOCOL_BODY_LENGTH_def MAX_BODY_LENGTH_def string_wire_def protocol_init_def)

text \<open>C38: a buffer handed out by \<open>getOutputBuffer(size)\<close> has room for \<open>size\<close> more bytes, so none of
  the writes announced to it is dropped; the buffer it replaces is handed to \<open>send\<close> and
  never lost.\<close>

theorem getOutputBuffer_room:
  assumes "getOutputBuffer fresh n p = (m, p', flushed)"
    and "nm_ok fresh" and "info_length fresh = 0" and "0 \<le> n" and "n \<le> int MAX_PROTOCOL_BODY_LENGTH"
    and "\<And>ob. outputBuffer p = Some ob \<Longrightarrow> nm_ok ob"
  shows "canAdd (nat n) m \<and> nm_ok m \<and> outputBuffer p' = Some m
     \<and> (flushed = None \<and> (outputBuffer p = None \<or> outputBuffer p = Some m)
        \<or> flushed = outputBuffer p \<and> m = fresh)"
proof -
  have lim: "MAX_PROTOCOL_BODY_LENGTH = 24566" "MAX_BODY_LENGTH = 24576"
    by (simp_all add: MAX_PROTOCOL_BODY_LENGTH_def MAX_BODY_LENGTH_def)
  have add: "canAdd (nat n) k" if "nm_ok k" "uint (info_length k) + n \<le> 24566" for k :: outmsg
  proof -
    have "int (unat (info_length k)) = uint (info_length k)" by simp
    with that(2) assms(4) have "unat (info_length k) + nat n \<le> 24566" by linarith
    with that(1) show ?thesis by (simp add: canAdd_def nm_ok_def lim)
  qed
  show ?thesis
  proof (cases "outputBuffer p")
    case None
    with assms add [of fresh] show ?thesis by (auto simp: getOutputBuffer_def lim)
  next
    case (Some ob)
    with assms add [of fresh] add [of ob] show ?thesis
      by (auto simp: getOutputBuffer_def lim split: if_splits)
  qed
qed

theorem getOutputBuffer_room_witness:
  "canAdd 500 (om_init (\<lambda>_. 0))
   \<and> getOutputBuffer (om_init (\<lambda>_. 0)) 500
       (protocol_init\<lparr>outputBuffer := Some ((om_init (\<lambda>_. 1))\<lparr>info_length := 24500, info_position := 24508\<rparr>)\<rparr>)
     = (om_init (\<lambda>_. 0), protocol_init\<lparr>outputBuffer := Some (om_init (\<lambda>_. 0))\<rparr>,
        Some ((om_init (\<lambda>_. 1))\<lparr>info_length := 24500, info_position := 24508\<rparr>))"
proof -
  let ?ob = "(om_init (\<lambda>_. 1))\<lparr>info_length := 24500, info_position := 24508\<rparr>"
  let ?f = "om_init (\<lambda>_. 0)"
  have e: "getOutputBuffer ?f 500 (protocol_init\<lparr>outputBuffer := Some ?ob\<rparr>)
      = (?f, protocol_init\<lparr>outputBuffer := Some ?f\<rparr>, Some ?ob)"
    by (simp add: getOutputBuffer_def protocol_init_def MAX_PROTOCOL_BODY_LENGTH_def MAX_BODY_LENGTH_def)
  have "canAdd (nat 500) ?f"
    using getOutputBuffer_room [OF e]
    by (simp add: om_init_nm_ok protocol_init_def MAX_PROTOCOL_BODY_LENGTH_def MAX_BODY_LENGTH_def
        nm_ok_def om_init_def INITIAL_BUFFER_POSITION_def)
  with e show ?thesis by simp
qed

end
