(* ===== verification/Connection.thy ===== *)
theory Connection
  imports Protocol
begin

text \<open>
  One TCP connection: \<open>src/src/server/network/connection/connection.cpp\<close> and the service
  ports of \<open>src/src/server/server.cpp\<close> that hand connections to protocols. Completed
  asynchronous operations are steps; what a handler asks of the socket, the dispatcher and the
  protocol is appended to a trace, in order.
\<close>

section \<open>State\<close>

datatype connection_state =
  CONNECTION_STATE_DISCONNECTED | CONNECTION_STATE_CONNECTING_STAGE1
| CONNECTION_STATE_CONNECTING_STAGE2 | CONNECTION_STATE_GAME | CONNECTION_STATE_PENDING

text \<open>
  \<open>Ev_write p m m'\<close> is the asynchronous write of the frame \<open>m'\<close> that \<open>onSendMessage\<close> made of \<open>m\<close>
  when the protocol was \<open>p\<close>; \<open>Ev_read i n\<close> asks for \<open>n\<close> bytes at index \<open>i\<close> of the buffer.
\<close>

datatype conn_event =
  Ev_read nat nat | Ev_queued outmsg | Ev_write protocol outmsg outmsg | Ev_written
| Ev_shutdown | Ev_connect | Ev_release | Ev_first netmsg | Ev_packet netmsg

record connection =
  connectionState :: connection_state
  messageQueue :: "outmsg list"
  cn_msg :: netmsg
  cn_protocol :: "protocol option"
  socket_is_open :: bool
  readTimer :: bool
  writeTimer :: bool
  registered :: bool
  timeConnected :: int
  packetsSent :: u32
  receivedFirst :: bool
  serverNameTime :: u32
  receivedName :: bool
  receivedLastChar :: bool
  cn_trace :: "conn_event list"

definition createConnection :: "int \<Rightarrow> (nat \<Rightarrow> byte) \<Rightarrow> connection" where
  "createConnection now b =
     \<lparr>connectionState = CONNECTION_STATE_PENDING, messageQueue = [],
      cn_msg = \<lparr>info_length = 0, info_position = INITIAL_BUFFER_POSITION, info_overrun = False, buf = b\<rparr>,
      cn_protocol = None, socket_is_open = True, readTimer = False, writeTimer = False,
      registered = True, timeConnected = now, packetsSent = 0, receivedFirst = False,
      serverNameTime = 0, receivedName = False, receivedLastChar = False, cn_trace = []\<rparr>"

definition emit :: "conn_event \<Rightarrow> connection \<Rightarrow> connection" where
  "emit e c = c\<lparr>cn_trace := cn_trace c @ [e]\<rparr>"

record net_config =
  max_packets_per_second :: u32
  server_name :: "byte list"

text \<open>A service of a port: identifier, checksummed and single-socket flags.\<close>

record service =
  protocol_identifier :: byte
  is_checksummed :: bool
  is_single_socket :: bool

section \<open>Closing and accepting\<close>

definition closeSocket :: "connection \<Rightarrow> connection" where
  "closeSocket c =
     (if socket_is_open c
      then emit Ev_shutdown (c\<lparr>readTimer := False, writeTimer := False, socket_is_open := False\<rparr>)
      else c)"

definition close :: "bool \<Rightarrow> connection \<Rightarrow> connection" where
  "close force c =
     (let c = c\<lparr>registered := False, connectionState := CONNECTION_STATE_DISCONNECTED\<rparr>;
          c = (if cn_protocol c \<noteq> None then emit Ev_release c else c)
      in if messageQueue c = [] \<or> force then closeSocket c else c)"

definition accept :: "connection \<Rightarrow> connection" where
  "accept c =
     (let c = (if connectionState c = CONNECTION_STATE_PENDING
               then c\<lparr>connectionState := CONNECTION_STATE_CONNECTING_STAGE1\<rparr> else c);
          c = c\<lparr>readTimer := True\<rparr>
      in if \<not> receivedLastChar c \<and> receivedName c
            \<and> connectionState c = CONNECTION_STATE_CONNECTING_STAGE2
         then emit (Ev_read 0 1) c
         else emit (Ev_read 0 HEADER_LENGTH) c)"

definition accept_protocol :: "protocol \<Rightarrow> connection \<Rightarrow> connection" where
  "accept_protocol p c =
     (let c = emit Ev_connect (c\<lparr>cn_protocol := Some p\<rparr>)
      in accept (c\<lparr>connectionState := CONNECTION_STATE_CONNECTING_STAGE2\<rparr>))"

definition handleTimeout :: "bool \<Rightarrow> connection \<Rightarrow> connection" where
  "handleTimeout aborted c = (if aborted then c else close True c)"

section \<open>Receiving\<close>

text \<open>
  \<open>std::string::operator[]\<close>: the terminating null is readable, an index past it is undefined.
\<close>

definition c_str :: "byte list \<Rightarrow> nat \<Rightarrow> byte option" where
  "c_str s i = (if i < length s then Some (s ! i) else if i = length s then Some 0 else None)"

text \<open>
  The part of \<open>parseHeader\<close> that checks the server name a client sends first; the flag says
  that the handler returned.
\<close>

definition parseServerName :: "net_config \<Rightarrow> connection \<Rightarrow> (bool \<times> connection) option" where
  "parseServerName cfg c =
     (if \<not> receivedLastChar c \<and> connectionState c = CONNECTION_STATE_CONNECTING_STAGE2
      then let b = buf (cn_msg c)
           in if \<not> receivedName c \<and> b 1 = 0 then Some (False, c\<lparr>receivedLastChar := True\<rparr>)
              else let serverName = server_name cfg @ [0x0A]
                   in if \<not> receivedName c
                      then do { c0 \<leftarrow> c_str serverName 0; c1 \<leftarrow> c_str serverName 1;
                                if b 0 = c0 \<and> b 1 = c1
                                then Some (True, accept (c\<lparr>receivedName := True, serverNameTime := 1\<rparr>))
                                else Some (True, close True c) }
                      else let c = c\<lparr>serverNameTime := serverNameTime c + 1\<rparr>
                           in do { ch \<leftarrow> c_str serverName (unat (serverNameTime c));
                                   if b 0 = ch
                                   then Some (True, accept (if b 0 = 0x0A then c\<lparr>receivedLastChar := True\<rparr> else c))
                                   else Some (True, close True c) }
      else Some (False, c))"

definition parseSize :: "int \<Rightarrow> u32 \<Rightarrow> connection \<Rightarrow> connection" where
  "parseSize now timePassed c =
     (let c = (if receivedLastChar c \<and> connectionState c = CONNECTION_STATE_CONNECTING_STAGE2
               then c\<lparr>connectionState := CONNECTION_STATE_GAME\<rparr> else c);
          c = (if timePassed > 2 then c\<lparr>timeConnected := now, packetsSent := 0\<rparr> else c);
          size = getLengthHeader (cn_msg c)
      in if size = 0 \<or> uint size \<ge> int MAXSIZE - 16 then close True c
         else let (at, m) = getBodyBuffer (setLength (size + of_nat HEADER_LENGTH) (cn_msg c))
              in emit (Ev_read at (unat size)) (c\<lparr>readTimer := True, cn_msg := m\<rparr>))"

definition parseHeader :: "net_config \<Rightarrow> bool \<Rightarrow> int \<Rightarrow> connection \<Rightarrow> connection option" where
  "parseHeader cfg err now c =
     (let c = c\<lparr>readTimer := False\<rparr>
      in if err then Some (close True c)
         else if connectionState c = CONNECTION_STATE_DISCONNECTED then Some c
         else let timePassed = max 1 (word_of_int (now - timeConnected c) + 1);
                  c = c\<lparr>packetsSent := packetsSent c + 1\<rparr>
              in if packetsSent c div timePassed > max_packets_per_second cfg
                 then Some (close False c)
                 else do { (returned, c) \<leftarrow> parseServerName cfg c;
                           Some (if returned then c else parseSize now timePassed c) })"

fun find_service :: "byte \<Rightarrow> bool \<Rightarrow> service list \<Rightarrow> service option" where
  "find_service protocolID checksummed [] = None"
| "find_service protocolID checksummed (s # ss) =
     (if protocolID \<noteq> protocol_identifier s then find_service protocolID checksummed ss
      else if (checksummed \<and> is_checksummed s) \<or> \<not> is_checksummed s then Some s
      else find_service protocolID checksummed ss)"

definition port_make_protocol ::
    "service list \<Rightarrow> bool \<Rightarrow> netmsg \<Rightarrow> (protocol option \<times> netmsg) option" where
  "port_make_protocol services checksummed m =
     do { (protocolID, m) \<leftarrow> getByte m;
          Some (map_option (\<lambda>_. protocol_init) (find_service protocolID checksummed services), m) }"

fun deliver :: "received \<Rightarrow> connection \<Rightarrow> connection" where
  "deliver (Dropped m) c = c\<lparr>cn_msg := m\<rparr>"
| "deliver (Parsed m) c = emit (Ev_packet m) (c\<lparr>cn_msg := m\<rparr>)"

definition parsePacket :: "service list \<Rightarrow> bool \<Rightarrow> connection \<Rightarrow> connection option" where
  "parsePacket services err c =
     (let c = c\<lparr>readTimer := False\<rparr>; next_header = (\<lambda>c. emit (Ev_read 0 HEADER_LENGTH) (c\<lparr>readTimer := True\<rparr>))
      in if err then Some (close True c)
         else if connectionState c = CONNECTION_STATE_DISCONNECTED then Some c
         else do { (recvPacket, m) \<leftarrow> getU32 (cn_msg c);
                   if \<not> receivedFirst c
                   then let c = c\<lparr>receivedFirst := True\<rparr>
                        in case cn_protocol c of
                             None \<Rightarrow>
                               let m = (if info_length m < 280 then skipBytes (- of_nat CHECKSUM_LENGTH) m else m)
                               in do { (pr, m) \<leftarrow> port_make_protocol services True m;
                                       let c = c\<lparr>cn_protocol := pr, cn_msg := m\<rparr>;
                                       Some (if pr = None then close True c
                                             else next_header (emit (Ev_first m) c)) }
                           | Some p \<Rightarrow>
                               let m = skipBytes 1 m
                               in Some (next_header (emit (Ev_first m) (c\<lparr>cn_msg := m\<rparr>)))
                   else do { p \<leftarrow> cn_protocol c;
                             r \<leftarrow> onRecvMessage p m;
                             Some (next_header (deliver r c)) } })"

section \<open>Sending\<close>

definition internalSend :: "outmsg \<Rightarrow> connection \<Rightarrow> connection option" where
  "internalSend m c =
     do { p \<leftarrow> cn_protocol c;
          (p', m') \<leftarrow> onSendMessage p m;
          Some (emit (Ev_write p m m') (c\<lparr>cn_protocol := Some p', writeTimer := True\<rparr>)) }"

definition send :: "outmsg \<Rightarrow> connection \<Rightarrow> connection option" where
  "send m c =
     (if connectionState c = CONNECTION_STATE_DISCONNECTED then Some c
      else let noPendingWrite = (messageQueue c = []);
               c = emit (Ev_queued m) (c\<lparr>messageQueue := messageQueue c @ [m]\<rparr>)
           in if noPendingWrite then internalSend m c else Some c)"

definition onWriteOperation :: "bool \<Rightarrow> connection \<Rightarrow> connection option" where
  "onWriteOperation err c =
     (let c = emit Ev_written (c\<lparr>writeTimer := False\<rparr>)
      in case messageQueue c of
           [] \<Rightarrow> None
         | _ # q \<Rightarrow>
             let c = c\<lparr>messageQueue := q\<rparr>
             in if err then Some (close True (c\<lparr>messageQueue := []\<rparr>))
                else if q \<noteq> [] then internalSend (hd q) c
                else if connectionState c = CONNECTION_STATE_DISCONNECTED then Some (closeSocket c)
                else Some c)"

section \<open>Service ports\<close>

definition add_service :: "service \<Rightarrow> service list \<Rightarrow> service list \<times> bool" where
  "add_service s services =
     (if list_ex is_single_socket services then (services, False) else (services @ [s], True))"

text \<open>
  What \<open>ServicePort::onAccept\<close> does with a new connection when accepting succeeded;
  \<open>admitted\<close> is the answer of the ban list for its address \<open>remote_ip\<close>.
\<close>

definition onAccept :: "service list \<Rightarrow> u32 \<Rightarrow> bool \<Rightarrow> connection \<Rightarrow> connection" where
  "onAccept services remote_ip admitted c =
     (case services of
        [] \<Rightarrow> c
      | s # _ \<Rightarrow>
          if remote_ip \<noteq> 0 \<and> admitted
          then if is_single_socket s then accept_protocol protocol_init c else accept c
          else close True c)"

section \<open>Reachable states\<close>

text \<open>
  Projections of the trace: messages queued, writes started (with the protocol at that time),
  writes completed, bytes asked for by the last read of a header.
\<close>

fun queued :: "conn_event list \<Rightarrow> outmsg list" where
  "queued [] = []"
| "queued (Ev_queued m # es) = m # queued es"
| "queued (_ # es) = queued es"

fun writes :: "conn_event list \<Rightarrow> (protocol \<times> outmsg \<times> outmsg) list" where
  "writes [] = []"
| "writes (Ev_write p m m' # es) = (p, m, m') # writes es"
| "writes (_ # es) = writes es"

fun completed :: "conn_event list \<Rightarrow> nat" where
  "completed [] = 0"
| "completed (Ev_written # es) = Suc (completed es)"
| "completed (_ # es) = completed es"

lemma queued_append [simp]: "queued (xs @ ys) = queued xs @ queued ys"
  by (induction xs rule: queued.induct) auto

lemma writes_append [simp]: "writes (xs @ ys) = writes xs @ writes ys"
  by (induction xs rule: writes.induct) auto

lemma completed_append [simp]: "completed (xs @ ys) = completed xs + completed ys"
  by (induction xs rule: completed.induct) auto

text \<open>A message the game may send: built by the \<open>add\<close> calls within the announced limit.\<close>

definition sendable :: "outmsg \<Rightarrow> bool" where
  "sendable m \<longleftrightarrow> nm_ok m \<and> outputBufferStart m = 8 \<and> unat (info_length m) \<le> MAX_PROTOCOL_BODY_LENGTH"

definition with_header :: "byte list \<Rightarrow> connection \<Rightarrow> connection" where
  "with_header bs c = c\<lparr>cn_msg := (cn_msg c)\<lparr>buf := poke (buf (cn_msg c)) 0 bs\<rparr>\<rparr>"

definition with_body :: "byte list \<Rightarrow> connection \<Rightarrow> connection" where
  "with_body bs c = c\<lparr>cn_msg := (cn_msg c)\<lparr>buf := poke (buf (cn_msg c)) HEADER_LENGTH bs\<rparr>\<rparr>"

text \<open>
  The handlers of a protocol may change everything but the sequence number of its crypto
  state (\<open>enableXTEAEncryption\<close>, \<open>setXTEAKey\<close>, \<open>enableCompact\<close>, \<open>disableChecksum\<close>,
  \<open>setRawMessages\<close>).
\<close>

definition set_crypto :: "xtea_key \<Rightarrow> bool \<Rightarrow> bool \<Rightarrow> bool \<Rightarrow> bool \<Rightarrow> protocol \<Rightarrow> protocol" where
  "set_crypto k enc chk compact raw p =
     p\<lparr>xteaKey := k, encryptionEnabled := enc, checksumEnabled := chk, compactCrypt := compact,
       rawMessages := raw\<rparr>"

inductive conn_step :: "net_config \<Rightarrow> service list \<Rightarrow> connection \<Rightarrow> connection \<Rightarrow> bool"
  for cfg :: net_config and services :: "service list" where
  accepted: "connectionState c = CONNECTION_STATE_PENDING \<Longrightarrow>
     conn_step cfg services c (onAccept services ip ok c)"
| header: "connectionState c \<noteq> CONNECTION_STATE_PENDING \<Longrightarrow>
     parseHeader cfg err now (with_header bs c) = Some c' \<Longrightarrow> conn_step cfg services c c'"
| body: "connectionState c \<noteq> CONNECTION_STATE_PENDING \<Longrightarrow>
     parsePacket services err (with_body bs c) = Some c' \<Longrightarrow> conn_step cfg services c c'"
| crypto: "cn_protocol c = Some p \<Longrightarrow>
     conn_step cfg services c (c\<lparr>cn_protocol := Some (set_crypto k enc chk compact raw p)\<rparr>)"
| sent: "cn_protocol c \<noteq> None \<Longrightarrow> sendable m \<Longrightarrow> send m c = Some c' \<Longrightarrow> conn_step cfg services c c'"
| written: "completed (cn_trace c) < length (writes (cn_trace c)) \<Longrightarrow>
     onWriteOperation err c = Some c' \<Longrightarrow> conn_step cfg services c c'"
| closed: "conn_step cfg services c (close force c)"
| timeout: "conn_step cfg services c (handleTimeout aborted c)"

definition conn_reachable :: "net_config \<Rightarrow> service list \<Rightarrow> connection \<Rightarrow> bool" where
  "conn_reachable cfg services c \<longleftrightarrow>
     (\<exists>now b. (conn_step cfg services)\<^sup>*\<^sup>* (createConnection now b) c)"

section \<open>What every handler keeps\<close>

text \<open>The writes that consumed a sequence number.\<close>

definition compact_writes :: "conn_event list \<Rightarrow> u32 list" where
  "compact_writes es = map (\<lambda>(p, _). sequenceNumber p)
     (filter (\<lambda>(p, _). \<not> rawMessages p \<and> encryptionEnabled p \<and> compactCrypt p) (writes es))"

lemma compact_writes_append [simp]:
  "compact_writes (xs @ ys) = compact_writes xs @ compact_writes ys"
  by (simp add: compact_writes_def)

definition queue_inv :: "connection \<Rightarrow> bool" where
  "queue_inv c \<longleftrightarrow>
     (let Q = queued (cn_trace c); W = writes (cn_trace c); n = length W
      in map (fst \<circ> snd) W = take n Q
         \<and> (\<forall>m \<in> set (messageQueue c). sendable m)
         \<and> (\<forall>(p, m, m') \<in> set W. \<exists>p'. onSendMessage p m = Some (p', m'))
         \<and> (if messageQueue c = []
            then completed (cn_trace c) = n
                 \<and> (n = length Q \<or> connectionState c = CONNECTION_STATE_DISCONNECTED)
            else Suc (completed (cn_trace c)) = n \<and> messageQueue c = drop (n - 1) Q
                 \<and> cn_protocol c \<noteq> None))"

definition seq_inv :: "connection \<Rightarrow> bool" where
  "seq_inv c \<longleftrightarrow>
     (let S = compact_writes (cn_trace c)
      in S = map of_nat [0..<length S]
         \<and> (case cn_protocol c of None \<Rightarrow> S = [] | Some p \<Rightarrow> sequenceNumber p = of_nat (length S)))"

text \<open>
  Handlers that start or finish no write only matter through the state, the protocol and the
  quiet part of the trace.
\<close>

definition quiet :: "conn_event list \<Rightarrow> bool" where
  "quiet es \<longleftrightarrow> queued es = [] \<and> writes es = [] \<and> completed es = 0"

definition extends :: "connection \<Rightarrow> connection \<Rightarrow> bool" where
  "extends c c' \<longleftrightarrow>
     messageQueue c' = messageQueue c \<and> (\<exists>es. cn_trace c' = cn_trace c @ es \<and> quiet es)
     \<and> (connectionState c = CONNECTION_STATE_DISCONNECTED
        \<longrightarrow> connectionState c' = CONNECTION_STATE_DISCONNECTED)
     \<and> (connectionState c' = CONNECTION_STATE_PENDING \<longrightarrow> connectionState c = CONNECTION_STATE_PENDING)
     \<and> (cn_protocol c' = cn_protocol c
        \<or> cn_protocol c = None \<and> cn_protocol c' = Some protocol_init)"

lemma extends_refl [simp]: "extends c c"
  by (simp add: extends_def quiet_def)

lemma extends_trans:
  assumes "extends a b" and "extends b c"
  shows "extends a c"
proof -
  obtain es fs where "cn_trace b = cn_trace a @ es" "quiet es" "cn_trace c = cn_trace b @ fs" "quiet fs"
    using assms by (auto simp: extends_def)
  then have "cn_trace c = cn_trace a @ (es @ fs)" "quiet (es @ fs)" by (simp_all add: quiet_def)
  moreover have "cn_protocol c = cn_protocol a \<or> cn_protocol a = None \<and> cn_protocol c = Some protocol_init"
    using assms unfolding extends_def by metis
  ultimately show ?thesis using assms unfolding extends_def by metis
qed

lemma extends_emit: "quiet [e] \<Longrightarrow> extends c c' \<Longrightarrow> extends c (emit e c')"
  by (auto simp: extends_def emit_def quiet_def)

lemma extends_fields:
  "messageQueue c' = messageQueue c \<Longrightarrow> cn_trace c' = cn_trace c \<Longrightarrow>
   connectionState c' = connectionState c \<Longrightarrow> cn_protocol c' = cn_protocol c \<Longrightarrow> extends c c'"
  by (simp add: extends_def quiet_def)

lemma quiet_events [simp]:
  "quiet [Ev_read i n]" "quiet [Ev_shutdown]" "quiet [Ev_connect]" "quiet [Ev_release]"
  "quiet [Ev_first m]" "quiet [Ev_packet m]"
  by (simp_all add: quiet_def)

lemma extends_closeSocket: "extends c (closeSocket c)"
  by (auto simp: closeSocket_def intro!: extends_emit extends_fields)

lemma extends_close: "extends c (close force c)"
proof -
  let ?c0 = "c\<lparr>registered := False, connectionState := CONNECTION_STATE_DISCONNECTED\<rparr>"
  let ?c1 = "if cn_protocol ?c0 \<noteq> None then emit Ev_release ?c0 else ?c0"
  have 0: "extends c ?c0" by (simp add: extends_def quiet_def)
  then have 1: "extends c ?c1" using extends_emit [of Ev_release c ?c0] by simp
  then have "extends c (closeSocket ?c1)" by (rule extends_trans [OF _ extends_closeSocket])
  with 1 show ?thesis unfolding close_def Let_def by (simp split: if_splits)
qed

lemma extends_accept: "extends c (accept c)"
  by (auto simp: accept_def Let_def extends_def emit_def quiet_def)

lemma queue_inv_extends:
  assumes "queue_inv c" and "extends c c'"
  shows "queue_inv c'"
proof -
  obtain es where es: "cn_trace c' = cn_trace c @ es" "queued es = []" "writes es = []" "completed es = 0"
    using assms(2) by (auto simp: extends_def quiet_def)
  have f: "messageQueue c' = messageQueue c"
      "connectionState c = CONNECTION_STATE_DISCONNECTED \<Longrightarrow> connectionState c' = CONNECTION_STATE_DISCONNECTED"
      "cn_protocol c \<noteq> None \<Longrightarrow> cn_protocol c' \<noteq> None"
    using assms(2) by (auto simp: extends_def)
  show ?thesis using assms(1) f es unfolding queue_inv_def Let_def by (auto split: if_splits)
qed

lemma seq_inv_extends:
  assumes "seq_inv c" and "extends c c'"
  shows "seq_inv c'"
proof -
  obtain es where es: "cn_trace c' = cn_trace c @ es" "writes es = []"
    using assms(2) by (auto simp: extends_def quiet_def)
  then have "compact_writes (cn_trace c') = compact_writes (cn_trace c)"
    by (simp add: compact_writes_def)
  moreover have "cn_protocol c' = cn_protocol c \<or> cn_protocol c = None \<and> cn_protocol c' = Some protocol_init"
    using assms(2) by (simp add: extends_def)
  ultimately show ?thesis
    using assms(1) by (auto simp: seq_inv_def Let_def protocol_init_def)
qed

lemmas extends_after =
  extends_trans [OF _ extends_close] extends_trans [OF _ extends_accept]
  extends_trans [OF _ extends_closeSocket]

lemma extends_parseSize: "extends c (parseSize now t c)"
proof -
  let ?c1 = "if receivedLastChar c \<and> connectionState c = CONNECTION_STATE_CONNECTING_STAGE2
               then c\<lparr>connectionState := CONNECTION_STATE_GAME\<rparr> else c"
  define c2 where "c2 = (if t > 2 then ?c1\<lparr>timeConnected := now, packetsSent := 0\<rparr> else ?c1)"
  have 2: "extends c c2" by (simp add: extends_def quiet_def c2_def)
  have "extends c2 (c2\<lparr>readTimer := True, cn_msg := m\<rparr>)" for m by (simp add: extends_def quiet_def)
  then have 3: "extends c (c2\<lparr>readTimer := True, cn_msg := m\<rparr>)" for m by (rule extends_trans [OF 2])
  show ?thesis
    unfolding parseSize_def Let_def c2_def [symmetric] getBodyBuffer_def prod.case
    using 2 3 by (simp add: extends_emit extends_after split del: if_split) (simp add: extends_emit extends_after 2 3)
qed

lemma extends_parseServerName:
  "parseServerName cfg c = Some (r, c') \<Longrightarrow> extends c c'"
  by (auto simp: parseServerName_def Let_def bind_eq_Some_conv split: if_splits
      intro!: extends_after) (simp_all add: extends_def quiet_def)

lemma extends_parseHeader:
  assumes "parseHeader cfg err now c = Some c'"
  shows "extends c c'"
proof -
  define c1 where "c1 = c\<lparr>readTimer := False\<rparr>"
  define c2 where "c2 = c1\<lparr>packetsSent := packetsSent c1 + 1\<rparr>"
  have 1: "extends c c1" and 2: "extends c c2" by (simp_all add: extends_def quiet_def c1_def c2_def)
  have 3: "extends c d" "extends c (parseSize now t d)" if "parseServerName cfg c2 = Some (r, d)" for r d t
    using extends_trans [OF 2 extends_parseServerName [OF that]] extends_trans [OF _ extends_parseSize]
    by auto
  show ?thesis
    using assms 1 unfolding parseHeader_def c1_def [symmetric] Let_def c2_def [symmetric]
    by (auto simp: bind_eq_Some_conv split: if_splits intro: 1 3 extends_after(1) [OF 1] extends_after(1) [OF 2])
qed

lemma extends_deliver: "extends c (deliver r c)"
  by (cases r) (auto simp: extends_def emit_def quiet_def)

lemma extends_parsePacket:
  assumes "parsePacket services err c = Some c'"
  shows "extends c c'"
proof -
  define c1 where "c1 = c\<lparr>readTimer := False\<rparr>"
  have 1: "extends c c1" by (simp add: extends_def quiet_def c1_def)
  have close1: "extends c (close f (c1\<lparr>receivedFirst := r, cn_protocol := None, cn_msg := m\<rparr>))"
    if "cn_protocol c1 = None" for f r m
    using that 1 by (intro extends_after) (simp add: extends_def)
  have nxt: "extends c1 (emit (Ev_read 0 HEADER_LENGTH) (d\<lparr>readTimer := True\<rparr>))" if "extends c1 d" for d
    using that by (auto simp: extends_def emit_def quiet_def)
  have "extends c1 c'"
    using assms unfolding parsePacket_def c1_def [symmetric] Let_def
    by (auto simp: bind_eq_Some_conv port_make_protocol_def split: if_splits option.splits
        intro!: nxt extends_deliver extends_emit extends_after)
      (auto simp: extends_def quiet_def)
  then show ?thesis by (rule extends_trans [OF 1])
qed

lemma onSendMessage_sendable:
  assumes "sendable m"
  obtains p' m' where "onSendMessage p m = Some (p', m')"
    and "p' = p\<lparr>sequenceNumber := (if \<not> rawMessages p \<and> encryptionEnabled p \<and> compactCrypt p
                 then sequenceNumber p + 1 else sequenceNumber p)\<rparr>"
proof -
  have m: "nm_ok m" "outputBufferStart m = 8" "unat (info_length m) \<le> MAX_PROTOCOL_BODY_LENGTH"
    using assms by (simp_all add: sendable_def)
  consider (raw) "rawMessages p" | (plain) "\<not> rawMessages p" "\<not> encryptionEnabled p"
    | (crypt) "\<not> rawMessages p" "encryptionEnabled p" by blast
  then show ?thesis
  proof cases
    case raw
    then show ?thesis using that [of p m] by (simp add: onSendMessage_def)
  next
    case plain
    have "holds_out m 8 (slice (buf m) 8 (unat (info_length m)))"
      using m by (simp add: holds_out_def MAX_PROTOCOL_BODY_LENGTH_def MAX_BODY_LENGTH_def)
    then obtain m' where "writeMessageLength m = Some m'"
      using add_header_holds [of m 8 _ "to_le 2 (unat (info_length m))"]
      unfolding writeMessageLength_def by auto
    then show ?thesis using plain that [of p m'] by (simp add: onSendMessage_def)
  next
    case crypt
    obtain p' m' where s: "onSendMessage p m = Some (p', m')"
        "p' = p\<lparr>sequenceNumber := (if compactCrypt p then sequenceNumber p + 1 else sequenceNumber p)\<rparr>"
      using onSendMessage_frame [OF m refl crypt] by metis
    then show ?thesis using crypt that [of p' m'] by simp
  qed
qed

section \<open>What writing keeps\<close>

text \<open>An \<open>internalSend\<close> of a message that may be sent never fails.\<close>

lemma internalSend_sendable:
  assumes "sendable m" and "cn_protocol c = Some p"
  obtains p' m' where "onSendMessage p m = Some (p', m')"
    and "internalSend m c = Some (emit (Ev_write p m m') (c\<lparr>cn_protocol := Some p', writeTimer := True\<rparr>))"
    and "sequenceNumber p' = (if \<not> rawMessages p \<and> encryptionEnabled p \<and> compactCrypt p
                 then sequenceNumber p + 1 else sequenceNumber p)"
proof -
  obtain p' m' where *: "onSendMessage p m = Some (p', m')"
      "p' = p\<lparr>sequenceNumber := (if \<not> rawMessages p \<and> encryptionEnabled p \<and> compactCrypt p
                 then sequenceNumber p + 1 else sequenceNumber p)\<rparr>"
    using onSendMessage_sendable [OF assms(1), of p] .
  show ?thesis by (rule that [OF *(1)]) (simp_all add: internalSend_def assms(2) *)
qed

lemma seq_inv_internalSend:
  assumes "seq_inv c" and "sendable m" and "internalSend m c = Some c'"
  shows "seq_inv c'"
proof -
  obtain p where p: "cn_protocol c = Some p"
    using assms(3) by (auto simp: internalSend_def bind_eq_Some_conv)
  let ?S = "compact_writes (cn_trace c)"
  have S: "?S = map of_nat [0..<length ?S]" "sequenceNumber p = of_nat (length ?S)"
    using assms(1) p by (simp_all add: seq_inv_def Let_def)
  let ?c = "\<not> rawMessages p \<and> encryptionEnabled p \<and> compactCrypt p"
  obtain p' m' where c': "c' = emit (Ev_write p m m') (c\<lparr>cn_protocol := Some p', writeTimer := True\<rparr>)"
      "sequenceNumber p' = (if ?c then sequenceNumber p + 1 else sequenceNumber p)"
    using internalSend_sendable [OF assms(2) p] assms(3) by (metis option.inject)
  have "compact_writes [Ev_write p m m'] = (if ?c then [of_nat (length ?S)] else [])"
    using S(2) by (simp add: compact_writes_def)
  then have T: "compact_writes (cn_trace c') = ?S @ (if ?c then [of_nat (length ?S)] else [])"
    using c'(1) by (simp add: emit_def)
  show ?thesis
  proof (cases ?c)
    case True
    have "map of_nat [0..<Suc (length ?S)] = ?S @ [of_nat (length ?S)]" using S(1) by simp
    moreover have "cn_protocol c' = Some p'" using c'(1) by (simp add: emit_def)
    ultimately show ?thesis using T True c'(2) S(2) by (simp add: seq_inv_def Let_def)
  next
    case False
    moreover have "cn_protocol c' = Some p'" using c'(1) by (simp add: emit_def)
    ultimately show ?thesis using T c'(2) S by (simp add: seq_inv_def Let_def)
  qed
qed

text \<open>
  The queue discipline between popping or pushing a message and the write that follows:
  \<open>writing\<close> lacks only the write of the front message.
\<close>

definition writing :: "connection \<Rightarrow> bool" where
  "writing c \<longleftrightarrow>
     (let Q = queued (cn_trace c); W = writes (cn_trace c); n = length W
      in map (fst \<circ> snd) W = take n Q \<and> (\<forall>m \<in> set (messageQueue c). sendable m)
         \<and> (\<forall>(p, m, m') \<in> set W. \<exists>p'. onSendMessage p m = Some (p', m'))
         \<and> completed (cn_trace c) = n \<and> messageQueue c = drop n Q \<and> n < length Q)"

lemma writing_internalSend:
  assumes "writing c" and "internalSend (hd (messageQueue c)) c = Some c'"
  shows "queue_inv c'"
proof -
  let ?Q = "queued (cn_trace c)" and ?W = "writes (cn_trace c)" and ?m = "hd (messageQueue c)"
  let ?n = "length ?W"
  have w: "map (fst \<circ> snd) ?W = take ?n ?Q" "\<forall>m \<in> set (messageQueue c). sendable m"
      "\<forall>(p, m, m') \<in> set ?W. \<exists>p'. onSendMessage p m = Some (p', m')"
      "completed (cn_trace c) = ?n" "messageQueue c = drop ?n ?Q" "?n < length ?Q"
    using assms(1) by (simp_all add: writing_def Let_def)
  have m: "?m = ?Q ! ?n" using w(5,6) by (simp add: hd_drop_conv_nth)
  obtain p p' m' where c': "onSendMessage p ?m = Some (p', m')"
      "c' = emit (Ev_write p ?m m') (c\<lparr>cn_protocol := Some p', writeTimer := True\<rparr>)"
    using assms(2) by (auto simp: internalSend_def bind_eq_Some_conv)
  have "take (Suc ?n) ?Q = map (fst \<circ> snd) ?W @ [?m]"
    using w(1,6) m by (simp add: take_Suc_conv_app_nth)
  then show ?thesis
    using w c' by (simp add: queue_inv_def Let_def emit_def)
qed

lemma send_inv:
  assumes "queue_inv c" and "seq_inv c" and "sendable m" and "send m c = Some c'"
  shows "queue_inv c' \<and> seq_inv c'"
proof (cases "connectionState c = CONNECTION_STATE_DISCONNECTED")
  case True
  then show ?thesis using assms by (simp add: send_def)
next
  case False
  define d where "d = emit (Ev_queued m) (c\<lparr>messageQueue := messageQueue c @ [m]\<rparr>)"
  have tr: "queued (cn_trace d) = queued (cn_trace c) @ [m]" "writes (cn_trace d) = writes (cn_trace c)"
      "completed (cn_trace d) = completed (cn_trace c)" "messageQueue d = messageQueue c @ [m]"
      "connectionState d = connectionState c" "cn_protocol d = cn_protocol c"
    by (simp_all add: d_def emit_def)
  have seq: "seq_inv d" using assms(2) tr by (simp add: seq_inv_def compact_writes_def)
  show ?thesis
  proof (cases "messageQueue c = []")
    case True
    then have "writing d" using assms(1,3) False tr by (simp add: writing_def queue_inv_def Let_def)
    moreover have "internalSend m d = Some c'" using assms(4) False True by (simp add: send_def d_def)
    then have "internalSend (hd (messageQueue d)) d = Some c'" using True tr by simp
    ultimately show ?thesis
      using writing_internalSend seq_inv_internalSend [OF seq assms(3)] tr True by simp
  next
    case ne: False
    then have "c' = d" using assms(4) False by (simp add: send_def d_def)
    moreover have "length (writes (cn_trace c)) - 1 < length (queued (cn_trace c))"
      using assms(1) ne by (auto simp: queue_inv_def Let_def intro: ccontr)
    ultimately show ?thesis
      using assms(1,3) ne tr seq by (auto simp: queue_inv_def Let_def)
  qed
qed

lemma queue_inv_nonempty:
  assumes "queue_inv c" and "messageQueue c \<noteq> []"
  shows "0 < length (writes (cn_trace c))"
    and "length (writes (cn_trace c)) \<le> length (queued (cn_trace c))"
  using assms by (auto simp: queue_inv_def Let_def intro: ccontr)

lemma written_inv:
  assumes "queue_inv c" and "seq_inv c"
    and "completed (cn_trace c) < length (writes (cn_trace c))"
    and "onWriteOperation err c = Some c'"
  shows "queue_inv c' \<and> seq_inv c'"
proof -
  let ?n = "length (writes (cn_trace c))" and ?Q = "queued (cn_trace c)"
  have ne: "messageQueue c \<noteq> []" using assms(1,3) by (auto simp: queue_inv_def Let_def)
  then obtain m q where mq: "messageQueue c = m # q" by (cases "messageQueue c") auto
  note pos = queue_inv_nonempty [OF assms(1) ne]
  have inv: "map (fst \<circ> snd) (writes (cn_trace c)) = take ?n ?Q" "\<forall>m \<in> set (messageQueue c). sendable m"
      "\<forall>(p, m, m') \<in> set (writes (cn_trace c)). \<exists>p'. onSendMessage p m = Some (p', m')"
      "Suc (completed (cn_trace c)) = ?n" "messageQueue c = drop (?n - 1) ?Q" "cn_protocol c \<noteq> None"
    using assms(1) ne unfolding queue_inv_def Let_def by simp_all
  have q: "q = drop ?n ?Q" using inv(5) pos(1) mq by (metis Suc_pred' drop_Suc list.sel(3) tl_drop)
  have sq: "\<forall>m \<in> set q. sendable m" using inv(2) mq by simp
  define d where "d = (emit Ev_written (c\<lparr>writeTimer := False\<rparr>))\<lparr>messageQueue := q\<rparr>"
  have tr: "queued (cn_trace d) = ?Q" "writes (cn_trace d) = writes (cn_trace c)"
      "completed (cn_trace d) = ?n" "messageQueue d = q"
      "connectionState d = connectionState c" "cn_protocol d = cn_protocol c"
    using inv(4) by (simp_all add: d_def emit_def)
  have seq: "seq_inv d" using assms(2) tr by (simp add: seq_inv_def compact_writes_def)
  have wr: "onWriteOperation err c =
      (if err then Some (close True (d\<lparr>messageQueue := []\<rparr>))
       else if q \<noteq> [] then internalSend (hd q) d
       else if connectionState d = CONNECTION_STATE_DISCONNECTED then Some (closeSocket d) else Some d)"
    by (simp add: onWriteOperation_def mq emit_def d_def)
  consider (err) "err" | (more) "\<not> err" "q \<noteq> []" | (last) "\<not> err" "q = []" by blast
  then show ?thesis
  proof cases
    case err
    let ?e = "d\<lparr>messageQueue := []\<rparr>"
    have "connectionState (close True ?e) = CONNECTION_STATE_DISCONNECTED"
      by (simp add: close_def closeSocket_def emit_def Let_def)
    moreover have "seq_inv ?e" using seq by (simp add: seq_inv_def)
    then have "seq_inv (close True ?e)" by (rule seq_inv_extends [OF _ extends_close])
    moreover have "queue_inv (?e\<lparr>connectionState := CONNECTION_STATE_DISCONNECTED\<rparr>)"
      using inv tr by (simp add: queue_inv_def Let_def)
    then have "queue_inv (close True (?e\<lparr>connectionState := CONNECTION_STATE_DISCONNECTED\<rparr>))"
      by (rule queue_inv_extends [OF _ extends_close])
    ultimately show ?thesis
      using assms(4) wr err by (simp add: close_def)
  next
    case more
    then have "?n < length ?Q" using q by auto
    then have "writing d" using inv(1,3) sq tr q by (simp add: writing_def Let_def)
    moreover have "internalSend (hd (messageQueue d)) d = Some c'"
      using assms(4) wr more tr(4) by simp
    moreover have "sendable (hd q)" using inv(2) mq more by simp
    ultimately show ?thesis
      using writing_internalSend seq_inv_internalSend [OF seq] tr(4) by simp
  next
    case last
    then have "queue_inv d" using inv tr pos q by (simp add: queue_inv_def Let_def)
    then show ?thesis
      using assms(4) wr last seq queue_inv_extends seq_inv_extends extends_closeSocket
      by (auto split: if_splits)
  qed
qed

lemma crypto_inv:
  assumes "queue_inv c" and "seq_inv c" and "cn_protocol c = Some p"
  shows "queue_inv (c\<lparr>cn_protocol := Some (set_crypto k enc chk compact raw p)\<rparr>)
    \<and> seq_inv (c\<lparr>cn_protocol := Some (set_crypto k enc chk compact raw p)\<rparr>)"
  using assms by (simp add: queue_inv_def seq_inv_def set_crypto_def Let_def split: if_splits)

text \<open>A connection that is still pending has no protocol, so it has sent nothing.\<close>

definition conn_inv :: "connection \<Rightarrow> bool" where
  "conn_inv c \<longleftrightarrow> queue_inv c \<and> seq_inv c
     \<and> (connectionState c = CONNECTION_STATE_PENDING \<longrightarrow> cn_protocol c = None)"

lemma extends_pending: "extends c c' \<Longrightarrow> connectionState c' = CONNECTION_STATE_PENDING \<Longrightarrow>
    connectionState c = CONNECTION_STATE_PENDING"
  by (simp add: extends_def)

lemma conn_inv_extends:
  assumes "conn_inv c" and "extends c c'" and "connectionState c' \<noteq> CONNECTION_STATE_PENDING"
  shows "conn_inv c'"
  using assms(1,3) queue_inv_extends [OF _ assms(2)] seq_inv_extends [OF _ assms(2)]
  by (simp add: conn_inv_def)

lemma onAccept_extends:
  assumes "cn_protocol c = None" and "connectionState c = CONNECTION_STATE_PENDING"
  shows "extends c (onAccept services ip ok c)"
proof -
  have "extends c (accept_protocol protocol_init c)"
    unfolding accept_protocol_def Let_def
    using assms by (intro extends_after) (auto simp: extends_def emit_def quiet_def)
  then show ?thesis
    by (auto simp: onAccept_def intro: extends_accept extends_close split: list.splits)
qed

lemma closeSocket_state [simp]: "connectionState (closeSocket c) = connectionState c"
  by (simp add: closeSocket_def emit_def)

lemma close_state [simp]: "connectionState (close force c) = CONNECTION_STATE_DISCONNECTED"
  by (simp add: close_def closeSocket_def emit_def Let_def)

lemma accept_state [simp]: "connectionState (accept c) =
    (if connectionState c = CONNECTION_STATE_PENDING then CONNECTION_STATE_CONNECTING_STAGE1
     else connectionState c)"
  by (simp add: accept_def emit_def Let_def)

lemma onAccept_state:
  assumes "cn_protocol c = None" and "connectionState (onAccept services ip ok c) = CONNECTION_STATE_PENDING"
  shows "cn_protocol (onAccept services ip ok c) = None"
proof (cases services)
  case Nil
  then show ?thesis using assms by (simp add: onAccept_def)
next
  case (Cons s ss)
  then show ?thesis using assms(2) by (simp add: onAccept_def accept_protocol_def Let_def split: if_splits)
qed

lemma internalSend_state: "internalSend m c = Some c' \<Longrightarrow> connectionState c' = connectionState c"
  by (auto simp: internalSend_def emit_def bind_eq_Some_conv)

lemma send_state: "send m c = Some c' \<Longrightarrow> connectionState c' = connectionState c"
  by (auto simp: send_def emit_def Let_def split: if_splits dest: internalSend_state)

lemma written_state: "onWriteOperation err c = Some c' \<Longrightarrow>
    connectionState c' = CONNECTION_STATE_PENDING \<Longrightarrow> connectionState c = CONNECTION_STATE_PENDING"
  by (auto simp: onWriteOperation_def emit_def Let_def split: if_splits list.splits
      dest: internalSend_state)

lemma extends_with [simp]: "extends c (with_header bs c)" "extends c (with_body bs c)"
  by (simp_all add: with_header_def with_body_def extends_def quiet_def)

theorem conn_step_inv: "conn_step cfg services c c' \<Longrightarrow> conn_inv c \<Longrightarrow> conn_inv c'"
proof (induction rule: conn_step.induct)
  case (accepted c ip ok)
  then have n: "cn_protocol c = None" by (simp add: conn_inv_def)
  show ?case
    using accepted n onAccept_state [OF n] queue_inv_extends [OF _ onAccept_extends [OF n accepted(1)]]
      seq_inv_extends [OF _ onAccept_extends [OF n accepted(1)]]
    by (simp add: conn_inv_def)
next
  case (header c err now bs c')
  have "extends c c'" by (rule extends_trans [OF extends_with(1) extends_parseHeader [OF header(2)]])
  then show ?case using header(1,3) extends_pending by (blast intro: conn_inv_extends)
next
  case (body c err bs c')
  have "extends c c'" by (rule extends_trans [OF extends_with(2) extends_parsePacket [OF body(2)]])
  then show ?case using body(1,3) extends_pending by (blast intro: conn_inv_extends)
next
  case (crypto c p k enc chk compact raw)
  then show ?case using crypto_inv [of c p] by (auto simp: conn_inv_def)
next
  case (sent c m c')
  then show ?case using send_inv [of c m c'] send_state [of m c c'] by (auto simp: conn_inv_def)
next
  case (written c err c')
  have "\<not> (connectionState c = CONNECTION_STATE_PENDING)"
  proof
    assume "connectionState c = CONNECTION_STATE_PENDING"
    then have "cn_protocol c = None" "queue_inv c" using written.prems by (simp_all add: conn_inv_def)
    then show False using written(1) by (simp add: queue_inv_def Let_def split: if_splits)
  qed
  then show ?case
    using written written_inv [of c err c'] written_state [of err c c'] by (auto simp: conn_inv_def)
next
  case (closed c force)
  show ?case using closed conn_inv_extends [OF _ extends_close] by simp
next
  case (timeout c aborted)
  show ?case using timeout conn_inv_extends [OF _ extends_close] by (simp add: handleTimeout_def)
qed

lemma conn_inv_init: "conn_inv (createConnection now b)"
  by (simp add: conn_inv_def queue_inv_def seq_inv_def createConnection_def compact_writes_def)

lemma conn_reachable_inv: "conn_reachable cfg services c \<Longrightarrow> conn_inv c"
proof -
  assume "conn_reachable cfg services c"
  then obtain now b where "(conn_step cfg services)\<^sup>*\<^sup>* (createConnection now b) c"
    by (auto simp: conn_reachable_def)
  then show ?thesis by (induction rule: rtranclp_induct) (auto intro: conn_inv_init conn_step_inv)
qed

text \<open>C2: in every reachable state of a connection, whatever the peer sends and however writes
  complete, fail or time out: frames leave in the order their messages were queued, each made by
  one \<open>onSendMessage\<close>; at most one asynchronous write is outstanding, exactly when the queue
  is not empty; and a queue that drained has written everything unless the connection was
  closed.\<close>

theorem connection_fifo:
  assumes "conn_reachable cfg services c"
  shows "map (fst \<circ> snd) (writes (cn_trace c)) = take (length (writes (cn_trace c))) (queued (cn_trace c))
     \<and> (\<forall>(p, m, m') \<in> set (writes (cn_trace c)). \<exists>p'. onSendMessage p m = Some (p', m'))
     \<and> length (writes (cn_trace c)) = completed (cn_trace c) + (if messageQueue c = [] then 0 else 1)
     \<and> (messageQueue c = [] \<and> connectionState c \<noteq> CONNECTION_STATE_DISCONNECTED \<longrightarrow>
          map (fst \<circ> snd) (writes (cn_trace c)) = queued (cn_trace c))"
proof -
  have "queue_inv c" using conn_reachable_inv [OF assms] by (simp add: conn_inv_def)
  then show ?thesis by (auto simp: queue_inv_def Let_def split: if_splits)
qed



section \<open>A connection at work\<close>

definition demo_config :: net_config where
  "demo_config = \<lparr>max_packets_per_second = 25, server_name = [70, 76]\<rparr>"

definition demo_service :: service where
  "demo_service = \<lparr>protocol_identifier = 10, is_checksummed = True, is_single_socket = True\<rparr>"

definition demo_accepted :: connection where
  "demo_accepted = onAccept [demo_service] 1 True (createConnection 0 (\<lambda>_. 0))"

lemma demo_sendable: "sendable (om_init (\<lambda>_. 0))"
  using om_init_nm_ok(1) [of "\<lambda>_. 0"]
  by (simp add: sendable_def om_init_def INITIAL_BUFFER_POSITION_def)

lemma demo_accepted_fields:
  "cn_protocol demo_accepted = Some protocol_init" "messageQueue demo_accepted = []"
  "connectionState demo_accepted = CONNECTION_STATE_CONNECTING_STAGE2"
  "writes (cn_trace demo_accepted) = []" "queued (cn_trace demo_accepted) = []"
  by (simp_all add: demo_accepted_def onAccept_def demo_service_def accept_protocol_def accept_def
      createConnection_def emit_def)

lemma demo_one_write:
  "\<exists>c. conn_reachable demo_config [demo_service] c
    \<and> queued (cn_trace c) = [om_init (\<lambda>_. 0)] \<and> compact_writes (cn_trace c) = [0]
    \<and> cn_protocol c \<noteq> None \<and> messageQueue c = [om_init (\<lambda>_. 0)]
    \<and> length (writes (cn_trace c)) = 1"
proof -
  let ?m = "om_init (\<lambda>_. 0)" and ?p = "set_crypto demo_key True True True False protocol_init"
  let ?c0 = "createConnection 0 (\<lambda>_. 0)" and ?c2 = "demo_accepted\<lparr>cn_protocol := Some ?p\<rparr>"
  let ?step = "conn_step demo_config [demo_service]"
  let ?q = "emit (Ev_queued ?m) (?c2\<lparr>messageQueue := [?m]\<rparr>)"
  have 1: "?step ?c0 demo_accepted"
    unfolding demo_accepted_def by (rule accepted) (simp add: createConnection_def)
  have 2: "?step demo_accepted ?c2" by (rule crypto) (rule demo_accepted_fields)
  have pq: "cn_protocol ?q = Some ?p" by (simp add: emit_def)
  from internalSend_sendable [OF demo_sendable pq] obtain p' m' where
    i: "internalSend ?m ?q = Some (emit (Ev_write ?p ?m m') (?q\<lparr>cn_protocol := Some p', writeTimer := True\<rparr>))"
    by blast
  let ?c3 = "emit (Ev_write ?p ?m m') (?q\<lparr>cn_protocol := Some p', writeTimer := True\<rparr>)"
  have "send ?m ?c2 = Some ?c3" using i by (simp add: send_def demo_accepted_fields)
  then have 3: "?step ?c2 ?c3" by (intro sent [OF _ demo_sendable]) simp_all
  have "conn_reachable demo_config [demo_service] ?c3"
    unfolding conn_reachable_def using 1 2 3 by (meson rtranclp.rtrancl_into_rtrancl rtranclp.rtrancl_refl)
  then show ?thesis
    by (intro exI [of _ ?c3])
      (simp add: emit_def demo_accepted_fields compact_writes_def set_crypto_def protocol_init_def)
qed

theorem connection_fifo_witness:
  "\<exists>c. conn_reachable demo_config [demo_service] c
     \<and> map (fst \<circ> snd) (writes (cn_trace c)) = [om_init (\<lambda>_. 0)]
     \<and> length (writes (cn_trace c)) = completed (cn_trace c) + 1"
proof -
  obtain c where c: "conn_reachable demo_config [demo_service] c" "queued (cn_trace c) = [om_init (\<lambda>_. 0)]"
      "messageQueue c = [om_init (\<lambda>_. 0)]" "length (writes (cn_trace c)) = 1"
    using demo_one_write by blast
  note f = connection_fifo [OF c(1)]
  have "map (fst \<circ> snd) (writes (cn_trace c)) = take 1 [om_init (\<lambda>_. 0)]"
    using f [THEN conjunct1] unfolding c(2,4) .
  moreover have "take 1 [om_init (\<lambda>_. 0)] = [om_init (\<lambda>_. 0)]" by simp
  moreover have "length (writes (cn_trace c)) = completed (cn_trace c) + 1"
    using f [THEN conjunct2, THEN conjunct2, THEN conjunct1] unfolding c(3) by (simp only: list.distinct if_False)
  ultimately show ?thesis using c(1) by metis
qed



section \<open>Closing drains the queue\<close>

fun drain :: "nat \<Rightarrow> connection \<Rightarrow> connection option" where
  "drain 0 c = Some c"
| "drain (Suc n) c = Option.bind (onWriteOperation False c) (drain n)"

lemma drain_closed:
  "queue_inv c \<Longrightarrow> seq_inv c \<Longrightarrow> connectionState c = CONNECTION_STATE_DISCONNECTED \<Longrightarrow>
   length (messageQueue c) = Suc n \<Longrightarrow>
   \<exists>c'. drain (Suc n) c = Some c' \<and> messageQueue c' = [] \<and> \<not> socket_is_open c'
     \<and> queued (cn_trace c') = queued (cn_trace c)
     \<and> map (fst \<circ> snd) (writes (cn_trace c')) = queued (cn_trace c)"
proof (induction n arbitrary: c)
  case 0
  then obtain m where m: "messageQueue c = [m]" by (cases "messageQueue c") auto
  let ?d = "closeSocket ((emit Ev_written (c\<lparr>writeTimer := False\<rparr>))\<lparr>messageQueue := []\<rparr>)"
  have w: "onWriteOperation False c = Some ?d" using 0 m by (simp add: onWriteOperation_def emit_def Let_def)
  have d: "queued (cn_trace ?d) = queued (cn_trace c)" "writes (cn_trace ?d) = writes (cn_trace c)"
      "messageQueue ?d = []" "\<not> socket_is_open ?d"
    by (simp_all add: closeSocket_def emit_def)
  have i: "map (fst \<circ> snd) (writes (cn_trace c)) = take (length (writes (cn_trace c))) (queued (cn_trace c))"
      "[m] = drop (length (writes (cn_trace c)) - 1) (queued (cn_trace c))"
    using 0(1) m by (simp_all add: queue_inv_def Let_def)
  have "length (queued (cn_trace c)) = length (writes (cn_trace c))"
  proof -
    have "1 = length (queued (cn_trace c)) - (length (writes (cn_trace c)) - 1)"
      using arg_cong [OF i(2), of length] by simp
    moreover have "messageQueue c \<noteq> []" using m by simp
    ultimately show ?thesis using queue_inv_nonempty [OF 0(1)] by linarith
  qed
  with i(1) have "map (fst \<circ> snd) (writes (cn_trace c)) = queued (cn_trace c)" by simp
  then have "map (fst \<circ> snd) (writes (cn_trace ?d)) = queued (cn_trace c)" using d(2) by simp
  moreover have "drain (Suc 0) c = Some ?d" using w by simp
  ultimately show ?case using d(1,3,4) by blast
next
  case (Suc n)
  then obtain m k q where m: "messageQueue c = m # k # q" "length q = n"
    by (auto simp: length_Suc_conv)
  have ne: "messageQueue c \<noteq> []" using m by simp
  have i: "\<forall>m \<in> set (messageQueue c). sendable m" "Suc (completed (cn_trace c)) = length (writes (cn_trace c))"
      "cn_protocol c \<noteq> None"
    using Suc.prems(1) ne unfolding queue_inv_def Let_def by simp_all
  let ?d = "(emit Ev_written (c\<lparr>writeTimer := False\<rparr>))\<lparr>messageQueue := k # q\<rparr>"
  obtain p where p: "cn_protocol ?d = Some p" using i(3) by (auto simp: emit_def)
  obtain p' m' where s: "internalSend k ?d = Some (emit (Ev_write p k m') (?d\<lparr>cn_protocol := Some p', writeTimer := True\<rparr>))"
    using internalSend_sendable [OF _ p, of k thesis] i(1) m(1) by simp
  let ?e = "emit (Ev_write p k m') (?d\<lparr>cn_protocol := Some p', writeTimer := True\<rparr>)"
  have w: "onWriteOperation False c = Some ?e" using s m by (simp add: onWriteOperation_def emit_def Let_def)
  have inv: "queue_inv ?e \<and> seq_inv ?e"
    using written_inv [OF Suc.prems(1,2) _ w] i(2) by simp
  have "connectionState ?e = CONNECTION_STATE_DISCONNECTED" "length (messageQueue ?e) = Suc n"
      "queued (cn_trace ?e) = queued (cn_trace c)"
    using Suc.prems(3) m by (simp_all add: emit_def)
  then show ?case using Suc.IH [of ?e] inv w by simp
qed



section \<open>The server name\<close>

text \<open>
  While a name is being checked the index of the next character stays inside
  \<open>serverName\<close>, provided the configured name has two characters.
\<close>

definition name_inv :: "net_config \<Rightarrow> connection \<Rightarrow> bool" where
  "name_inv cfg c \<longleftrightarrow> (receivedName c \<and> \<not> receivedLastChar c \<longrightarrow>
     0 < unat (serverNameTime c) \<and> unat (serverNameTime c) < length (server_name cfg))"

lemma parseServerName_safe:
  assumes "name_inv cfg c" and "length (server_name cfg) < 2 ^ 32"
  shows "parseServerName cfg c \<noteq> None"
proof -
  let ?t = "serverNameTime c"
  have "unat (?t + 1) \<le> length (server_name cfg)" if "receivedName c" "\<not> receivedLastChar c"
  proof -
    have "unat ?t + 1 < 2 ^ 32" using that assms by (simp add: name_inv_def)
    then have "unat (?t + 1) = unat ?t + 1" by (simp add: unat_plus_no_wrap)
    then show ?thesis using that assms(1) by (simp add: name_inv_def)
  qed
  then have "c_str (server_name cfg @ [0x0A]) (unat (?t + 1)) \<noteq> None"
    if "receivedName c" "\<not> receivedLastChar c"
    using that by (simp add: c_str_def)
  moreover have "c_str (server_name cfg @ [0x0A]) 0 \<noteq> None" "c_str (server_name cfg @ [0x0A]) 1 \<noteq> None"
    by (simp_all add: c_str_def)
  ultimately obtain a b where ab: "c_str (server_name cfg @ [0x0A]) 0 = Some a"
      "c_str (server_name cfg @ [0x0A]) 1 = Some b"
      "receivedName c \<Longrightarrow> \<not> receivedLastChar c \<Longrightarrow> \<exists>d. c_str (server_name cfg @ [0x0A]) (unat (?t + 1)) = Some d"
    by auto
  show ?thesis
  proof (cases "receivedName c \<and> \<not> receivedLastChar c")
    case True
    then obtain d where "c_str (server_name cfg @ [0x0A]) (unat (?t + 1)) = Some d" using ab(3) by blast
    with True show ?thesis by (cases "connectionState c") (auto simp: parseServerName_def Let_def)
  next
    case False
    with ab(1,2) show ?thesis by (auto simp: parseServerName_def Let_def)
  qed
qed

text \<open>
  The bytes of a client that announces a server name: two at first, then one by one, until
  the name is complete or the connection is closed.
\<close>

fun feed_name :: "net_config \<Rightarrow> connection \<Rightarrow> byte list \<Rightarrow> connection option" where
  "feed_name cfg c [] = Some c"
| "feed_name cfg c (b # bs) =
     (if connectionState c = CONNECTION_STATE_DISCONNECTED then Some c
      else do { (_, c) \<leftarrow> parseServerName cfg (with_header [b] c); feed_name cfg c bs })"

definition handshake :: "net_config \<Rightarrow> connection \<Rightarrow> byte list \<Rightarrow> connection option" where
  "handshake cfg c bs =
     do { (_, c) \<leftarrow> parseServerName cfg (with_header (take 2 bs) c); feed_name cfg c (drop 2 bs) }"

lemma with_header_buf:
  "buf (cn_msg (with_header (b # bs) c)) 0 = b"
  "buf (cn_msg (with_header (a # b # bs) c)) (Suc 0) = b"
  by (simp_all add: with_header_def poke_def)

lemma with_header_fields [simp]:
  "connectionState (with_header bs c) = connectionState c"
  "receivedName (with_header bs c) = receivedName c"
  "receivedLastChar (with_header bs c) = receivedLastChar c"
  "serverNameTime (with_header bs c) = serverNameTime c"
  by (simp_all add: with_header_def)

lemma name_fields [simp]:
  "receivedName (accept c) = receivedName c" "receivedLastChar (accept c) = receivedLastChar c"
  "serverNameTime (accept c) = serverNameTime c"
  "receivedName (close f c) = receivedName c" "receivedLastChar (close f c) = receivedLastChar c"
  "serverNameTime (close f c) = serverNameTime c"
  by (simp_all add: accept_def close_def closeSocket_def emit_def Let_def)

lemma feed_closed: "connectionState c = CONNECTION_STATE_DISCONNECTED \<Longrightarrow> feed_name cfg c bs = Some c"
  by (cases bs) simp_all

lemma feed_name_exact:
  assumes "length (server_name cfg) < 2 ^ 32" and "0x0A \<notin> set (server_name cfg)"
  shows "receivedName c \<Longrightarrow> \<not> receivedLastChar c \<Longrightarrow>
    connectionState c = CONNECTION_STATE_CONNECTING_STAGE2 \<Longrightarrow>
    unat (serverNameTime c) = t \<Longrightarrow> t + length bs = length (server_name cfg) \<Longrightarrow> bs \<noteq> [] \<Longrightarrow>
    \<exists>c'. feed_name cfg c bs = Some c'
      \<and> (if bs = drop (Suc t) (server_name cfg @ [0x0A])
         then receivedLastChar c' \<and> connectionState c' = CONNECTION_STATE_CONNECTING_STAGE2
         else \<not> receivedLastChar c' \<and> connectionState c' = CONNECTION_STATE_DISCONNECTED)"
proof (induction bs arbitrary: c t)
  case Nil
  then show ?case by simp
next
  case (Cons b bs)
  let ?name = "server_name cfg @ [0x0A]" and ?h = "with_header [b] c"
  have t: "t < length (server_name cfg)" using Cons.prems(5) by simp
  have t1: "unat (serverNameTime c + 1) = Suc t"
    using Cons.prems(4) t assms(1) by (simp add: unat_plus_no_wrap)
  have ch: "c_str ?name (Suc t) = Some (?name ! Suc t)" using t by (simp add: c_str_def)
  have dr: "drop (Suc t) ?name = ?name ! Suc t # drop (Suc (Suc t)) ?name"
    using t by (intro Cons_nth_drop_Suc [symmetric]) simp
  let ?c1 = "?h\<lparr>serverNameTime := serverNameTime c + 1\<rparr>"
  have ps: "parseServerName cfg ?h =
      (if b = ?name ! Suc t
       then Some (True, accept (if b = 0x0A then ?c1\<lparr>receivedLastChar := True\<rparr> else ?c1))
       else Some (True, close True ?c1))"
    using Cons.prems(1-3) ch t1 by (simp add: parseServerName_def with_header_buf Let_def)
  show ?case
  proof (cases "b = ?name ! Suc t")
    case False
    then have "b # bs \<noteq> drop (Suc t) ?name" using dr by simp
    moreover have "feed_name cfg c (b # bs) = Some (close True ?c1)"
      using Cons.prems(3) ps False by (simp add: feed_closed)
    ultimately show ?thesis using Cons.prems(2) by simp
  next
    case True
    show ?thesis
    proof (cases "bs = []")
      case last: True
      then have n: "Suc t = length (server_name cfg)" using Cons.prems(5) by simp
      then have "b = 0x0A" using True by simp
      moreover have "drop (Suc t) ?name = [0x0A]" using n by simp
      ultimately show ?thesis using Cons.prems(3) ps True last by simp
    next
      case more: False
      then have n: "Suc t < length (server_name cfg)" using Cons.prems(5) by (cases bs) simp_all
      then have "b \<in> set (server_name cfg)" using True by (simp add: nth_append)
      then have b: "b \<noteq> 0x0A" using assms(2) by blast
      have "\<exists>c'. feed_name cfg (accept ?c1) bs = Some c'
        \<and> (if bs = drop (Suc (Suc t)) ?name
           then receivedLastChar c' \<and> connectionState c' = CONNECTION_STATE_CONNECTING_STAGE2
           else \<not> receivedLastChar c' \<and> connectionState c' = CONNECTION_STATE_DISCONNECTED)"
        using Cons.prems t1 more by (intro Cons.IH) simp_all
      moreover have "feed_name cfg c (b # bs) = feed_name cfg (accept ?c1) bs"
        using Cons.prems(3) ps True b by simp
      ultimately show ?thesis using True by (simp only: dr list.inject simp_thms)
    qed
  qed
qed



end
