(* ===== verification/StdMap.thy ===== *)
theory StdMap
  imports Prelude
begin

text \<open>
  \<open>std::map\<close> as the server uses it: an association list kept in ascending key order, so
  that range-for loops visit the entries in the order of the C++ iterators. The interface
  the components rely on is the locale \<open>assoc_store\<close>, interpreted on this
  implementation.
\<close>

section \<open>The interface\<close>

locale assoc_store =
  fixes find :: "'m \<Rightarrow> 'k \<Rightarrow> 'v option"
    and put :: "'k \<Rightarrow> 'v \<Rightarrow> 'm \<Rightarrow> 'm"
    and erase :: "'k \<Rightarrow> 'm \<Rightarrow> 'm"
    and ok :: "'m \<Rightarrow> bool"
  assumes find_put: "find (put k v m) k' = (if k' = k then Some v else find m k')"
    and find_erase: "find (erase k m) k' = (if k' = k then None else find m k')"
    and ok_put: "ok m \<Longrightarrow> ok (put k v m)"
    and ok_erase: "ok m \<Longrightarrow> ok (erase k m)"
begin

lemma find_put_same: "find (put k v m) k = Some v"
  by (simp add: find_put)

lemma find_put_other: "k' \<noteq> k \<Longrightarrow> find (put k v m) k' = find m k'"
  by (simp add: find_put)

lemma find_erase_same: "find (erase k m) k = None"
  by (simp add: find_erase)

lemma find_put_put: "find (put k w (put k v m)) k' = find (put k w m) k'"
  by (simp add: find_put)

lemma find_erase_put: "find m k = None \<Longrightarrow> find (erase k (put k v m)) k' = find m k'"
  by (simp add: find_put find_erase)

lemma all_put:
  assumes "\<And>j w. find m j = Some w \<Longrightarrow> P j w" and "P k v" and "find (put k v m) j = Some w"
  shows "P j w"
  using assms by (auto simp: find_put split: if_splits)

lemma all_erase:
  assumes "\<And>j w. find m j = Some w \<Longrightarrow> P j w" and "find (erase k m) j = Some w"
  shows "P j w"
  using assms by (auto simp: find_erase split: if_splits)

end

section \<open>Sorted association lists\<close>

fun m_put :: "'k :: linorder \<Rightarrow> 'v \<Rightarrow> ('k \<times> 'v) list \<Rightarrow> ('k \<times> 'v) list" where
  "m_put k v [] = [(k, v)]"
| "m_put k v ((j, w) # m) =
     (if k < j then (k, v) # (j, w) # m
      else if k = j then (k, v) # m
      else (j, w) # m_put k v m)"

definition m_find :: "('k \<times> 'v) list \<Rightarrow> 'k \<Rightarrow> 'v option" where
  "m_find m k = map_of m k"

definition m_erase :: "'k \<Rightarrow> ('k \<times> 'v) list \<Rightarrow> ('k \<times> 'v) list" where
  "m_erase k m = filter (\<lambda>e. fst e \<noteq> k) m"

text \<open>\<open>emplace\<close> and \<open>insert\<close> leave an existing entry alone and say whether they inserted.\<close>

definition m_emplace ::
    "'k :: linorder \<Rightarrow> 'v \<Rightarrow> ('k \<times> 'v) list \<Rightarrow> ('k \<times> 'v) list \<times> bool" where
  "m_emplace k v m = (case m_find m k of Some _ \<Rightarrow> (m, False) | None \<Rightarrow> (m_put k v m, True))"

definition m_ok :: "('k :: linorder \<times> 'v) list \<Rightarrow> bool" where
  "m_ok m \<longleftrightarrow> sorted_wrt (<) (map fst m)"

lemma m_find_simps [simp]:
  "m_find [] k = None"
  "m_find ((j, w) # m) k = (if k = j then Some w else m_find m k)"
  by (simp_all add: m_find_def)

lemma m_find_put [simp]: "m_find (m_put k v m) k' = (if k' = k then Some v else m_find m k')"
  by (induction k v m rule: m_put.induct) (auto simp: m_find_def)

lemma m_find_erase [simp]: "m_find (m_erase k m) k' = (if k' = k then None else m_find m k')"
  by (induction m) (auto simp: m_find_def m_erase_def)

lemma fst_set_m_put: "fst ` set (m_put k v m) = insert k (fst ` set m)"
  by (induction k v m rule: m_put.induct) auto

lemma m_ok_Nil [simp]: "m_ok []"
  by (simp add: m_ok_def)

lemma m_ok_put: "m_ok m \<Longrightarrow> m_ok (m_put k v m)"
proof (induction k v m rule: m_put.induct)
  case (2 k v j w m)
  then have IH: "j < k \<Longrightarrow> sorted_wrt (<) (map fst (m_put k v m))"
    by (auto simp: m_ok_def)
  have "set (map fst (m_put k v m)) = insert k (set (map fst m))"
    using fst_set_m_put [of k v m] by simp
  with 2 IH show ?case by (auto simp: m_ok_def)
qed (simp add: m_ok_def)

lemma m_ok_erase: "m_ok m \<Longrightarrow> m_ok (m_erase k m)"
  by (induction m) (auto simp: m_ok_def m_erase_def)

lemma m_ok_distinct: "m_ok m \<Longrightarrow> distinct (map fst m)"
  by (simp add: m_ok_def strict_sorted_iff)

lemma m_find_Some_iff: "m_ok m \<Longrightarrow> m_find m k = Some v \<longleftrightarrow> (k, v) \<in> set m"
  by (simp add: m_find_def m_ok_distinct)

lemma m_find_None_iff: "m_find m k = None \<longleftrightarrow> k \<notin> fst ` set m"
  by (simp add: m_find_def map_of_eq_None_iff)

lemma m_find_in_set: "m_find m k = Some v \<Longrightarrow> (k, v) \<in> set m"
  by (auto simp: m_find_def dest: map_of_SomeD)

interpretation std_map: assoc_store m_find m_put m_erase m_ok
  by unfold_locales (auto intro: m_ok_put m_ok_erase)

lemmas std_map_simps = m_find_put m_find_erase m_find_None_iff m_emplace_def

lemma m_emplace_new: "m_find m k = None \<Longrightarrow> m_emplace k v m = (m_put k v m, True)"
  by (simp add: m_emplace_def)

lemma m_emplace_old: "m_find m k = Some w \<Longrightarrow> m_emplace k v m = (m, False)"
  by (simp add: m_emplace_def)

lemma m_find_emplace:
  "m_find (fst (m_emplace k v m)) k' =
     (if k' = k \<and> m_find m k = None then Some v else m_find m k')"
  by (auto simp: m_emplace_def split: option.splits)

lemma m_ok_emplace: "m_ok m \<Longrightarrow> m_ok (fst (m_emplace k v m))"
  by (auto simp: m_emplace_def m_ok_put split: option.splits)

lemma set_m_put: "m_ok m \<Longrightarrow> set (m_put k v m) = insert (k, v) {e \<in> set m. fst e \<noteq> k}"
proof (induction k v m rule: m_put.induct)
  case (2 k v j w m)
  then show ?case by (auto simp: m_ok_def)
qed simp

end
