(* ===== verification/Party.thy ===== *)
theory Party
  imports Position StdMap
begin

text \<open>
  Parties: \<open>src/src/creatures/players/grouping/party.cpp\<close>, the party functions of
  \<open>player.cpp\<close> and the party handlers of \<open>game.cpp\<close>. Players are identified by their creature
  id; a \<open>Party*\<close> is the address of an entry of a heap of parties, and dereferencing an
  address that is not allocated (or a null leader) is \<open>None\<close>. Everything sent to clients is
  appended to an output list. The script callbacks \<open>onJoin\<close>, \<open>onLeave\<close>, \<open>onDisband\<close>,
  \<open>onShareExperience\<close> are parameters.
\<close>

section \<open>State\<close>

type_synonym pid = u32
type_synonym party_ref = nat

datatype party_out =
  SendTextMessage pid string
| SendClosePrivate pid
| UpdatePlayerShield pid
| SendCreatureSkull pid pid
| SendCreatureShield pid pid
| SendPartyCreatureShield pid pid
| SendPartyCreatureSkull pid pid
| SendPartyCreatureUpdate pid pid
| SendPartyCreatureShowStatus pid pid bool
| SendPartyCreatureHealth pid pid int int
| SendPartyPlayerMana pid pid int int
| SendHealthPercent pid pid byte
| SendManaPercent pid pid byte
| SendVocation pid pid
| GainSharedExperience pid u64

record party =
  leader :: "pid option"
  memberList :: "pid list"
  inviteList :: "pid list"
  ticksMap :: "(pid \<times> int) list"
  sharedExpActive :: bool
  sharedExpEnabled :: bool

text \<open>A summon: its id, health and maximal health.\<close>

type_synonym summon = "pid \<times> int \<times> int"

record player =
  pl_name :: string
  pl_female :: bool
  pl_party :: "party_ref option"
  invitePartyList :: "party_ref list"
  pl_level :: u32
  pl_pos :: position
  pl_notGainInFight :: bool
  pl_infight :: bool
  pl_in_protection_zone :: bool
  pl_health :: "int \<times> int"
  pl_mana :: "int \<times> int"
  pl_summons :: "summon list"

record party_config =
  PZ_LOCKED :: int
  PARTY_LIST_MAX_DISTANCE :: int

record world =
  pl :: "pid \<Rightarrow> player"
  online :: "pid list"
  parties :: "party_ref \<Rightarrow> party option"
  now :: int
  out :: "party_out list"

record party_events =
  onJoin :: "party_ref \<Rightarrow> pid \<Rightarrow> world \<Rightarrow> bool"
  onLeave :: "party_ref \<Rightarrow> pid \<Rightarrow> world \<Rightarrow> bool"
  onDisband :: "party_ref \<Rightarrow> world \<Rightarrow> bool"
  onShareExperience :: "party_ref \<Rightarrow> u64 \<Rightarrow> world \<Rightarrow> u64"

definition emits :: "party_out list \<Rightarrow> world \<Rightarrow> world" where
  "emits es w = w\<lparr>out := out w @ es\<rparr>"

definition upd_player :: "pid \<Rightarrow> (player \<Rightarrow> player) \<Rightarrow> world \<Rightarrow> world" where
  "upd_player p f w = w\<lparr>pl := (pl w)(p := f (pl w p))\<rparr>"

definition setParty :: "pid \<Rightarrow> party_ref option \<Rightarrow> world \<Rightarrow> world" where
  "setParty p r = upd_player p (\<lambda>x. x\<lparr>pl_party := r\<rparr>)"

definition put_party :: "party_ref \<Rightarrow> party \<Rightarrow> world \<Rightarrow> world" where
  "put_party r P w = w\<lparr>parties := (parties w)(r := Some P)\<rparr>"

definition delete_party :: "party_ref \<Rightarrow> world \<Rightarrow> world" where
  "delete_party r w = w\<lparr>parties := (parties w)(r := None)\<rparr>"

abbreviation name_of :: "world \<Rightarrow> pid \<Rightarrow> string" where
  "name_of w p \<equiv> pl_name (pl w p)"

section \<open>Invitations of a player\<close>

definition addPartyInvitation :: "pid \<Rightarrow> party_ref \<Rightarrow> world \<Rightarrow> world" where
  "addPartyInvitation p r w =
     (if r \<in> set (invitePartyList (pl w p)) then w
      else upd_player p (\<lambda>x. x\<lparr>invitePartyList := r # invitePartyList x\<rparr>) w)"

definition removePartyInvitation :: "pid \<Rightarrow> party_ref \<Rightarrow> world \<Rightarrow> world" where
  "removePartyInvitation p r =
     upd_player p (\<lambda>x. x\<lparr>invitePartyList := removeAll r (invitePartyList x)\<rparr>)"

definition sendPlayerPartyIcons :: "pid \<Rightarrow> pid \<Rightarrow> party_out list" where
  "sendPlayerPartyIcons viewer p = [SendPartyCreatureShield viewer p, SendPartyCreatureSkull viewer p]"

section \<open>Shared experience\<close>

definition party_empty :: "party \<Rightarrow> bool" where
  "party_empty P \<longleftrightarrow> memberList P = [] \<and> inviteList P = []"

definition isPlayerInvited :: "party \<Rightarrow> pid \<Rightarrow> bool" where
  "isPlayerInvited P p \<longleftrightarrow> p \<in> set (inviteList P)"

definition highest_level :: "world \<Rightarrow> pid \<Rightarrow> pid list \<Rightarrow> u32" where
  "highest_level w L ms =
     fold (\<lambda>m h. if pl_level (pl w m) > h then pl_level (pl w m) else h) ms (pl_level (pl w L))"

text \<open>
  \<open>ceil(float(highestLevel) * 2 / 3)\<close>; single precision is exact enough for this to be the
  integer ceiling for every level below \<open>2 ^ 23\<close>.
\<close>

definition min_level :: "u32 \<Rightarrow> u32" where
  "min_level h = of_nat ((2 * unat h + 2) div 3)"

definition canUseSharedExperience :: "party_config \<Rightarrow> party \<Rightarrow> pid \<Rightarrow> world \<Rightarrow> bool option" where
  "canUseSharedExperience cfg P p w =
     (if memberList P = [] then Some False
      else do { L \<leftarrow> leader P;
                let minLevel = min_level (highest_level w L (memberList P));
                Some (if pl_level (pl w p) < minLevel then False
                      else if \<not> areInRange3 30 30 1 (pl_pos (pl w L)) (pl_pos (pl w p)) then False
                      else if \<not> pl_notGainInFight (pl w p)
                      then (case m_find (ticksMap P) p of
                              None \<Rightarrow> False
                            | Some t \<Rightarrow> \<not> (word_of_int (now w - t) > (word_of_int (PZ_LOCKED cfg) :: u64)))
                      else True) })"

fun all_can_use :: "party_config \<Rightarrow> party \<Rightarrow> pid list \<Rightarrow> world \<Rightarrow> bool option" where
  "all_can_use cfg P [] w = Some True"
| "all_can_use cfg P (m # ms) w =
     do { ok \<leftarrow> canUseSharedExperience cfg P m w;
          if \<not> ok then Some False else all_can_use cfg P ms w }"

definition canEnableSharedExperience :: "party_config \<Rightarrow> party \<Rightarrow> world \<Rightarrow> bool option" where
  "canEnableSharedExperience cfg P w =
     do { L \<leftarrow> leader P;
          ok \<leftarrow> canUseSharedExperience cfg P L w;
          if \<not> ok then Some False else all_can_use cfg P (memberList P) w }"

definition party_icons :: "party \<Rightarrow> pid \<Rightarrow> party_out list" where
  "party_icons P L =
     concat (map (\<lambda>m. map (SendPartyCreatureShield m) (memberList P)
                    @ [SendPartyCreatureShield m L, SendPartyCreatureShield L m]) (memberList P))
     @ [SendPartyCreatureShield L L]"

definition updateAllPartyIcons :: "party_ref \<Rightarrow> world \<Rightarrow> world option" where
  "updateAllPartyIcons r w =
     do { P \<leftarrow> parties w r; L \<leftarrow> leader P; Some (emits (party_icons P L) w) }"

definition updateSharedExperience :: "party_config \<Rightarrow> party_ref \<Rightarrow> world \<Rightarrow> world option" where
  "updateSharedExperience cfg r w =
     do { P \<leftarrow> parties w r;
          if sharedExpActive P
          then do { result \<leftarrow> canEnableSharedExperience cfg P w;
                    if result \<noteq> sharedExpEnabled P
                    then updateAllPartyIcons r (put_party r (P\<lparr>sharedExpEnabled := result\<rparr>) w)
                    else Some w }
          else Some w }"

definition setSharedExperience ::
    "party_config \<Rightarrow> party_ref \<Rightarrow> pid option \<Rightarrow> bool \<Rightarrow> world \<Rightarrow> (bool \<times> world) option" where
  "setSharedExperience cfg r player newActive w =
     do { P \<leftarrow> parties w r;
          if player = None \<or> leader P \<noteq> player then Some (False, w)
          else if sharedExpActive P = newActive then Some (True, w)
          else do {
            let P = P\<lparr>sharedExpActive := newActive\<rparr>;
            L \<leftarrow> leader P;
            (P, text) \<leftarrow>
              (if newActive
               then do { en \<leftarrow> canEnableSharedExperience cfg P w;
                         Some (P\<lparr>sharedExpEnabled := en\<rparr>,
                               if en then ''Shared Experience is now active.''
                               else ''Shared Experience has been activated, but some members of your party are inactive.'') }
               else Some (P, ''Shared Experience has been deactivated.''));
            w \<leftarrow> updateAllPartyIcons r (emits [SendTextMessage L text] (put_party r P w));
            Some (True, w) } }"

definition updatePlayerTicks ::
    "party_config \<Rightarrow> party_ref \<Rightarrow> pid \<Rightarrow> u32 \<Rightarrow> world \<Rightarrow> world option" where
  "updatePlayerTicks cfg r p points w =
     do { P \<leftarrow> parties w r;
          if points \<noteq> 0 \<and> \<not> pl_notGainInFight (pl w p)
          then updateSharedExperience cfg r (put_party r (P\<lparr>ticksMap := m_put p (now w) (ticksMap P)\<rparr>) w)
          else Some w }"

definition clearPlayerPoints :: "party_config \<Rightarrow> party_ref \<Rightarrow> pid \<Rightarrow> world \<Rightarrow> world option" where
  "clearPlayerPoints cfg r p w =
     do { P \<leftarrow> parties w r;
          if m_find (ticksMap P) p \<noteq> None
          then updateSharedExperience cfg r (put_party r (P\<lparr>ticksMap := m_erase p (ticksMap P)\<rparr>) w)
          else Some w }"

definition shareExperience :: "party_events \<Rightarrow> party_ref \<Rightarrow> u64 \<Rightarrow> world \<Rightarrow> world option" where
  "shareExperience ev r experience w =
     do { P \<leftarrow> parties w r; L \<leftarrow> leader P;
          let share = onShareExperience ev r experience w;
          Some (emits (map (\<lambda>m. GainSharedExperience m share) (memberList P)
                       @ [GainSharedExperience L share]) w) }"

section \<open>Membership\<close>

definition broadcastPartyMessage :: "party_ref \<Rightarrow> string \<Rightarrow> bool \<Rightarrow> world \<Rightarrow> world option" where
  "broadcastPartyMessage r msg sendToInvitations w =
     do { P \<leftarrow> parties w r; L \<leftarrow> leader P;
          Some (emits (map (\<lambda>m. SendTextMessage m msg) (memberList P) @ [SendTextMessage L msg]
                       @ (if sendToInvitations then map (\<lambda>i. SendTextMessage i msg) (inviteList P) else [])) w) }"

text \<open>\<open>new Party(leader)\<close> at a free address.\<close>

definition new_party :: "party_ref \<Rightarrow> pid \<Rightarrow> world \<Rightarrow> world" where
  "new_party r p w =
     setParty p (Some r)
       (put_party r \<lparr>leader = Some p, memberList = [], inviteList = [], ticksMap = [],
                     sharedExpActive = False, sharedExpEnabled = False\<rparr> w)"

definition disband :: "party_events \<Rightarrow> party_ref \<Rightarrow> world \<Rightarrow> world option" where
  "disband ev r w =
     do { P \<leftarrow> parties w r;
          if \<not> onDisband ev r w then Some w
          else do {
            cl \<leftarrow> leader P;
            let w = put_party r (P\<lparr>leader := None\<rparr>) w;
            let w = setParty cl None w;
            let w = emits [SendClosePrivate cl, UpdatePlayerShield cl, SendCreatureSkull cl cl,
                           SendTextMessage cl ''Your party has been disbanded.''] w;
            let w = fold (\<lambda>i w. emits [SendCreatureShield cl i] (removePartyInvitation i r w)) (inviteList P) w;
            let w = fold (\<lambda>m w. emits [SendClosePrivate m, SendTextMessage m ''Your party has been disbanded.'']
                                (setParty m None w)) (memberList P) w;
            let w = emits (concat (map (\<lambda>m. UpdatePlayerShield m
                      # map (\<lambda>o'. SendCreatureSkull o' m) (memberList P)
                      @ [SendCreatureSkull m cl, SendCreatureSkull cl m]) (memberList P))) w;
            Some (delete_party r w) } }"

definition passPartyLeadership ::
    "party_config \<Rightarrow> party_ref \<Rightarrow> pid option \<Rightarrow> world \<Rightarrow> (bool \<times> world) option" where
  "passPartyLeadership cfg r player w =
     do { P \<leftarrow> parties w r;
          case player of
            None \<Rightarrow> Some (False, w)
          | Some p \<Rightarrow>
              if leader P = Some p \<or> pl_party (pl w p) \<noteq> Some r then Some (False, w)
              else do {
                let w = put_party r (P\<lparr>memberList := remove1 p (memberList P)\<rparr>) w;
                w \<leftarrow> broadcastPartyMessage r (name_of w p @ '' is now the leader of the party.'') True w;
                P \<leftarrow> parties w r;
                oldLeader \<leftarrow> leader P;
                let w = put_party r (P\<lparr>leader := Some p, memberList := oldLeader # memberList P\<rparr>) w;
                w \<leftarrow> updateSharedExperience cfg r w;
                P \<leftarrow> parties w r;
                Some (True, emits
                  (concat (map (\<lambda>m. [SendPartyCreatureShield m oldLeader, SendPartyCreatureShield m p]) (memberList P))
                   @ concat (map (\<lambda>i. [SendCreatureShield i oldLeader, SendCreatureShield i p]) (inviteList P))
                   @ [SendPartyCreatureShield p oldLeader, SendPartyCreatureShield p p,
                      SendTextMessage p ''You are now the leader of the party.'']) w) } }"

text \<open>Who leads after \<open>p\<close> leaves: the flag \<open>missingLeader\<close> and the world after a hand-over.\<close>

definition hand_over :: "party_config \<Rightarrow> party_ref \<Rightarrow> pid \<Rightarrow> world \<Rightarrow> (bool \<times> world) option" where
  "hand_over cfg r p w =
     do { P \<leftarrow> parties w r;
          if leader P \<noteq> Some p then Some (False, w)
          else case memberList P of
                 [] \<Rightarrow> Some (True, w)
               | m # ms \<Rightarrow>
                   if length (memberList P) = 1 \<and> inviteList P = [] then Some (True, w)
                   else do { (_, w) \<leftarrow> passPartyLeadership cfg r (Some m) w; Some (False, w) } }"

definition leaveParty ::
    "party_config \<Rightarrow> party_events \<Rightarrow> party_ref \<Rightarrow> pid \<Rightarrow> world \<Rightarrow> (bool \<times> world) option" where
  "leaveParty cfg ev r p w =
     do { P \<leftarrow> parties w r;
          if pl_party (pl w p) \<noteq> Some r \<and> leader P \<noteq> Some p then Some (False, w)
          else if \<not> onLeave ev r p w then Some (False, w)
          else do {
            (missingLeader, w) \<leftarrow> hand_over cfg r p w;
            P \<leftarrow> parties w r;
            let P = P\<lparr>memberList := remove1 p (memberList P)\<rparr>;
            let w = put_party r P w;
            let w = emits [SendClosePrivate p, UpdatePlayerShield p] (setParty p None w);
            L \<leftarrow> leader P;
            let w = emits (concat (map (\<lambda>m. SendCreatureSkull m p # sendPlayerPartyIcons p m
                             @ [SendPartyCreatureUpdate m p]) (memberList P))
                      @ [SendCreatureSkull L p, SendCreatureSkull p p] @ sendPlayerPartyIcons p L
                      @ [SendPartyCreatureUpdate L p, SendTextMessage p ''You have left the party.'']) w;
            w \<leftarrow> updateSharedExperience cfg r w;
            w \<leftarrow> clearPlayerPoints cfg r p w;
            w \<leftarrow> broadcastPartyMessage r (name_of w p @ '' has left the party.'') False w;
            P \<leftarrow> parties w r;
            if missingLeader \<or> party_empty P
            then do { w \<leftarrow> disband ev r w; Some (True, w) }
            else Some (True, w) } }"

definition distance_ok :: "party_config \<Rightarrow> position \<Rightarrow> position \<Rightarrow> bool" where
  "distance_ok cfg a b \<longleftrightarrow>
     getDistanceX a b \<le> PARTY_LIST_MAX_DISTANCE cfg \<and> getDistanceY a b \<le> PARTY_LIST_MAX_DISTANCE cfg"

text \<open>
  The percentages of \<open>showPlayerStatus\<close> are sent as the pair (value, maximum) they are
  computed from.
\<close>

definition showPlayerStatus :: "pid \<Rightarrow> pid \<Rightarrow> bool \<Rightarrow> world \<Rightarrow> world" where
  "showPlayerStatus p m showStatus w =
     (let summons = (\<lambda>viewer owner. concat (map (\<lambda>(s, h, mh).
            [SendPartyCreatureShowStatus viewer s showStatus, SendPartyCreatureHealth viewer s h (max mh 1)])
            (pl_summons (pl w owner))));
          hide = (\<lambda>viewer owner. map (\<lambda>(s, _). SendPartyCreatureShowStatus viewer s showStatus)
            (pl_summons (pl w owner)));
          health = (\<lambda>viewer q. SendPartyCreatureHealth viewer q (fst (pl_health (pl w q))) (max (snd (pl_health (pl w q))) 1));
          mana = (\<lambda>viewer q. SendPartyPlayerMana viewer q (fst (pl_mana (pl w q))) (max (snd (pl_mana (pl w q))) 1))
      in emits
          ([SendPartyCreatureShowStatus p m showStatus, SendPartyCreatureShowStatus m p showStatus]
           @ (if showStatus
              then summons p m @ summons m p @ [health p m, health m p, mana p m, mana m p]
              else hide m p @ hide p m)) w)"

definition updatePlayerStatus :: "party_config \<Rightarrow> party_ref \<Rightarrow> pid \<Rightarrow> world \<Rightarrow> world option" where
  "updatePlayerStatus cfg r p w =
     do { P \<leftarrow> parties w r;
          L \<leftarrow> leader P;
          let condition = (\<lambda>m. PARTY_LIST_MAX_DISTANCE cfg = 0 \<or> distance_ok cfg (pl_pos (pl w p)) (pl_pos (pl w m)));
          Some (fold (\<lambda>m. showPlayerStatus p m (condition m)) (memberList P @ [L]) w) }"

definition updatePlayerStatus_moved ::
    "party_config \<Rightarrow> party_ref \<Rightarrow> pid \<Rightarrow> position \<Rightarrow> position \<Rightarrow> world \<Rightarrow> world option" where
  "updatePlayerStatus_moved cfg r p oldPos newPos w =
     do { P \<leftarrow> parties w r;
          if PARTY_LIST_MAX_DISTANCE cfg = 0 then Some w
          else do { L \<leftarrow> leader P;
            Some (fold (\<lambda>m w.
              let condition1 = distance_ok cfg oldPos (pl_pos (pl w m));
                  condition2 = distance_ok cfg newPos (pl_pos (pl w m))
              in if condition1 \<and> \<not> condition2 then showPlayerStatus p m False w
                 else if \<not> condition1 \<and> condition2 then showPlayerStatus p m True w
                 else w) (memberList P @ [L]) w) } }"

text \<open>\<open>updatePlayerHealth\<close>, \<open>updatePlayerMana\<close> and \<open>updatePlayerVocation\<close> share their loop.\<close>

definition notify_near :: "party_config \<Rightarrow> party_ref \<Rightarrow> pid \<Rightarrow> (pid \<Rightarrow> party_out) \<Rightarrow> world \<Rightarrow> world option" where
  "notify_near cfg r p msg w =
     do { P \<leftarrow> parties w r;
          L \<leftarrow> leader P;
          let condition = (\<lambda>m. PARTY_LIST_MAX_DISTANCE cfg = 0 \<or> distance_ok cfg (pl_pos (pl w p)) (pl_pos (pl w m)));
          Some (emits (map msg (filter condition (memberList P @ [L]))) w) }"

definition updatePlayerHealth ::
    "party_config \<Rightarrow> party_ref \<Rightarrow> pid \<Rightarrow> pid \<Rightarrow> byte \<Rightarrow> world \<Rightarrow> world option" where
  "updatePlayerHealth cfg r p target percent = notify_near cfg r p (\<lambda>m. SendHealthPercent m target percent)"

definition updatePlayerMana :: "party_config \<Rightarrow> party_ref \<Rightarrow> pid \<Rightarrow> byte \<Rightarrow> world \<Rightarrow> world option" where
  "updatePlayerMana cfg r p percent = notify_near cfg r p (\<lambda>m. SendManaPercent m p percent)"

definition updatePlayerVocation :: "party_config \<Rightarrow> party_ref \<Rightarrow> pid \<Rightarrow> world \<Rightarrow> world option" where
  "updatePlayerVocation cfg r p = notify_near cfg r p (\<lambda>m. SendVocation m p)"

definition joinParty ::
    "party_config \<Rightarrow> party_events \<Rightarrow> party_ref \<Rightarrow> pid \<Rightarrow> world \<Rightarrow> (bool \<times> world) option" where
  "joinParty cfg ev r p w =
     do { P \<leftarrow> parties w r;
          if \<not> onJoin ev r p w then Some (False, w)
          else if p \<notin> set (inviteList P) then Some (False, w)
          else do {
            let w = put_party r (P\<lparr>inviteList := remove1 p (inviteList P)\<rparr>) w;
            w \<leftarrow> broadcastPartyMessage r (name_of w p @ '' has joined the party.'') False w;
            let w = emits [UpdatePlayerShield p] (setParty p (Some r) w);
            P \<leftarrow> parties w r;
            L \<leftarrow> leader P;
            let w = emits (concat (map (\<lambda>m. SendCreatureSkull m p # sendPlayerPartyIcons p m) (memberList P))
                           @ [SendCreatureSkull p p, SendCreatureSkull L p] @ sendPlayerPartyIcons p L) w;
            let w = put_party r (P\<lparr>memberList := memberList P @ [p]\<rparr>) w;
            w \<leftarrow> updatePlayerStatus cfg r p w;
            let w = removePartyInvitation p r w;
            w \<leftarrow> updateSharedExperience cfg r w;
            let leaderName = name_of w L;
            let suffix = (if leaderName \<noteq> [] \<and> last leaderName = CHR ''s'' then [] else ''s'');
            Some (True, emits [SendTextMessage p
              (''You have joined '' @ leaderName @ [CHR 0x27] @ suffix
               @ '' party. Open the party channel to communicate with your companions.'')] w) } }"

definition removeInvite ::
    "party_events \<Rightarrow> party_ref \<Rightarrow> pid \<Rightarrow> bool \<Rightarrow> world \<Rightarrow> (bool \<times> world) option" where
  "removeInvite ev r p removeFromPlayer w =
     do { P \<leftarrow> parties w r;
          if p \<notin> set (inviteList P) then Some (False, w)
          else do {
            let P = P\<lparr>inviteList := remove1 p (inviteList P)\<rparr>;
            L \<leftarrow> leader P;
            let w = emits [SendCreatureShield L p, SendCreatureShield p L] (put_party r P w);
            let w = (if removeFromPlayer then removePartyInvitation p r w else w);
            if party_empty P
            then do { w \<leftarrow> disband ev r w; Some (True, w) }
            else Some (True, w) } }"

definition pronoun :: "world \<Rightarrow> pid \<Rightarrow> string" where
  "pronoun w p = (if pl_female (pl w p) then ''her'' else ''his'')"

definition revokeInvitation :: "party_events \<Rightarrow> party_ref \<Rightarrow> pid \<Rightarrow> world \<Rightarrow> world option" where
  "revokeInvitation ev r p w =
     do { P \<leftarrow> parties w r;
          L \<leftarrow> leader P;
          let w = emits
            [SendTextMessage p (name_of w L @ '' has revoked '' @ pronoun w L @ '' invitation.''),
             SendTextMessage L (''Invitation for '' @ name_of w p @ '' has been revoked.'')] w;
          (_, w) \<leftarrow> removeInvite ev r p True w;
          Some w }"

definition invitePlayer :: "party_ref \<Rightarrow> pid \<Rightarrow> world \<Rightarrow> (bool \<times> world) option" where
  "invitePlayer r p w =
     do { P \<leftarrow> parties w r;
          if isPlayerInvited P p then Some (False, w)
          else do {
            L \<leftarrow> leader P;
            let first = party_empty P;
            let text = name_of w p @ '' has been invited.''
              @ (if first then '' Open the party channel to communicate with your members.'' else []);
            let w = (if first then emits [UpdatePlayerShield L, SendCreatureSkull L L] w else w);
            let w = emits [SendTextMessage L text] w;
            let w = put_party r (P\<lparr>inviteList := inviteList P @ [p]\<rparr>) w;
            let w = emits [SendCreatureShield L p, SendCreatureShield p L] w;
            let w = addPartyInvitation p r w;
            Some (True, emits [SendTextMessage p
              (name_of w L @ '' has invited you to '' @ pronoun w L @ '' party.'')] w) } }"

section \<open>Queries\<close>

definition isInviting :: "pid \<Rightarrow> pid \<Rightarrow> world \<Rightarrow> bool option" where
  "isInviting self p w =
     (case pl_party (pl w self) of
        None \<Rightarrow> Some False
      | Some r \<Rightarrow>
          do { P \<leftarrow> parties w r;
               Some (leader P = Some self \<and> isPlayerInvited P p) })"

definition isPartner :: "pid \<Rightarrow> pid option \<Rightarrow> world \<Rightarrow> bool" where
  "isPartner self p w =
     (case p of
        None \<Rightarrow> False
      | Some q \<Rightarrow> pl_party (pl w self) \<noteq> None \<and> q \<noteq> self
                \<and> pl_party (pl w self) = pl_party (pl w q))"

definition party_canOpenCorpse :: "party_ref \<Rightarrow> pid \<Rightarrow> world \<Rightarrow> bool option" where
  "party_canOpenCorpse r ownerId w =
     do { P \<leftarrow> parties w r;
          if ownerId \<in> set (online w)
          then do { L \<leftarrow> leader P; Some (L = ownerId \<or> pl_party (pl w ownerId) = Some r) }
          else Some False }"

definition canOpenCorpse :: "pid \<Rightarrow> pid \<Rightarrow> world \<Rightarrow> bool option" where
  "canOpenCorpse self ownerId w =
     (if self = ownerId then Some True
      else case pl_party (pl w self) of
             None \<Rightarrow> Some False
           | Some r \<Rightarrow> party_canOpenCorpse r ownerId w)"

datatype party_shield =
  SHIELD_NONE | SHIELD_WHITEYELLOW | SHIELD_WHITEBLUE | SHIELD_BLUE | SHIELD_YELLOW
| SHIELD_BLUE_SHAREDEXP | SHIELD_YELLOW_SHAREDEXP | SHIELD_BLUE_NOSHAREDEXP_BLINK
| SHIELD_YELLOW_NOSHAREDEXP_BLINK | SHIELD_BLUE_NOSHAREDEXP | SHIELD_YELLOW_NOSHAREDEXP
| SHIELD_GRAY

definition exp_shield ::
    "party_config \<Rightarrow> party \<Rightarrow> pid \<Rightarrow> world \<Rightarrow> party_shield \<Rightarrow> party_shield \<Rightarrow> party_shield \<Rightarrow> party_shield
     \<Rightarrow> party_shield option" where
  "exp_shield cfg P p w plain shared noshared blink =
     (if sharedExpActive P
      then if sharedExpEnabled P then Some shared
           else do { ok \<leftarrow> canUseSharedExperience cfg P p w; Some (if ok then noshared else blink) }
      else Some plain)"

definition getPartyShield :: "party_config \<Rightarrow> pid \<Rightarrow> pid option \<Rightarrow> world \<Rightarrow> party_shield option" where
  "getPartyShield cfg self player w =
     (case player of
        None \<Rightarrow> Some SHIELD_NONE
      | Some p \<Rightarrow>
          let outside = do { inv \<leftarrow> isInviting p self w;
                             Some (if inv then SHIELD_WHITEYELLOW
                                   else if pl_party (pl w p) \<noteq> None then SHIELD_GRAY else SHIELD_NONE) }
          in case pl_party (pl w self) of
               None \<Rightarrow> outside
             | Some r \<Rightarrow>
                 do { P \<leftarrow> parties w r;
                      if leader P = Some p
                      then exp_shield cfg P p w SHIELD_YELLOW SHIELD_YELLOW_SHAREDEXP
                             SHIELD_YELLOW_NOSHAREDEXP SHIELD_YELLOW_NOSHAREDEXP_BLINK
                      else if pl_party (pl w p) = Some r
                      then exp_shield cfg P p w SHIELD_BLUE SHIELD_BLUE_SHAREDEXP
                             SHIELD_BLUE_NOSHAREDEXP SHIELD_BLUE_NOSHAREDEXP_BLINK
                      else do { inv \<leftarrow> isInviting self p w;
                                if inv then Some SHIELD_WHITEBLUE else outside } })"

section \<open>Handlers\<close>

definition playerInviteToParty :: "party_ref \<Rightarrow> pid \<Rightarrow> pid \<Rightarrow> world \<Rightarrow> world option" where
  "playerInviteToParty fresh playerId invitedId w =
     (if playerId = invitedId then Some w
      else if playerId \<notin> set (online w) then Some w
      else if invitedId \<notin> set (online w) then Some w
      else do {
        inviting \<leftarrow> isInviting invitedId playerId w;
        if inviting then Some w
        else if pl_party (pl w invitedId) \<noteq> None
        then Some (emits [SendTextMessage playerId (name_of w invitedId @ '' is already in a party.'')] w)
        else case pl_party (pl w playerId) of
               None \<Rightarrow> do { (_, w) \<leftarrow> invitePlayer fresh invitedId (new_party fresh playerId w); Some w }
             | Some r \<Rightarrow>
                 do { P \<leftarrow> parties w r;
                      if leader P \<noteq> Some playerId then Some w
                      else do { (_, w) \<leftarrow> invitePlayer r invitedId w; Some w } } })"

definition playerJoinParty ::
    "party_config \<Rightarrow> party_events \<Rightarrow> pid \<Rightarrow> pid \<Rightarrow> world \<Rightarrow> world option" where
  "playerJoinParty cfg ev playerId leaderId w =
     (if playerId \<notin> set (online w) \<or> leaderId \<notin> set (online w) then Some w
      else do {
        inviting \<leftarrow> isInviting leaderId playerId w;
        if \<not> inviting then Some w
        else case pl_party (pl w leaderId) of
               None \<Rightarrow> Some w
             | Some r \<Rightarrow>
                 do { P \<leftarrow> parties w r;
                      if leader P \<noteq> Some leaderId then Some w
                      else if pl_party (pl w playerId) \<noteq> None
                      then Some (emits [SendTextMessage playerId ''You are already in a party.''] w)
                      else do { (_, w) \<leftarrow> joinParty cfg ev r playerId w; Some w } } })"

definition playerRevokePartyInvitation :: "party_events \<Rightarrow> pid \<Rightarrow> pid \<Rightarrow> world \<Rightarrow> world option" where
  "playerRevokePartyInvitation ev playerId invitedId w =
     (if playerId \<notin> set (online w) then Some w
      else case pl_party (pl w playerId) of
             None \<Rightarrow> Some w
           | Some r \<Rightarrow>
               do { P \<leftarrow> parties w r;
                    if leader P \<noteq> Some playerId then Some w
                    else if invitedId \<notin> set (online w) then Some w
                    else do { inviting \<leftarrow> isInviting playerId invitedId w;
                              if \<not> inviting then Some w else revokeInvitation ev r invitedId w } })"

definition playerPassPartyLeadership ::
    "party_config \<Rightarrow> pid \<Rightarrow> pid \<Rightarrow> world \<Rightarrow> world option" where
  "playerPassPartyLeadership cfg playerId newLeaderId w =
     (if playerId \<notin> set (online w) then Some w
      else case pl_party (pl w playerId) of
             None \<Rightarrow> Some w
           | Some r \<Rightarrow>
               do { P \<leftarrow> parties w r;
                    if leader P \<noteq> Some playerId then Some w
                    else if newLeaderId \<notin> set (online w) \<or> \<not> isPartner playerId (Some newLeaderId) w then Some w
                    else do { (_, w) \<leftarrow> passPartyLeadership cfg r (Some newLeaderId) w; Some w } })"

definition playerLeaveParty :: "party_config \<Rightarrow> party_events \<Rightarrow> pid \<Rightarrow> world \<Rightarrow> world option" where
  "playerLeaveParty cfg ev playerId w =
     (if playerId \<notin> set (online w) then Some w
      else case pl_party (pl w playerId) of
             None \<Rightarrow> Some w
           | Some r \<Rightarrow>
               if pl_infight (pl w playerId) then Some w
               else do { (_, w) \<leftarrow> leaveParty cfg ev r playerId w; Some w })"

definition playerEnableSharedPartyExperience ::
    "party_config \<Rightarrow> pid \<Rightarrow> bool \<Rightarrow> world \<Rightarrow> world option" where
  "playerEnableSharedPartyExperience cfg playerId active w =
     (if playerId \<notin> set (online w) then Some w
      else case pl_party (pl w playerId) of
             None \<Rightarrow> Some w
           | Some r \<Rightarrow>
               if pl_infight (pl w playerId) \<and> \<not> pl_in_protection_zone (pl w playerId) then Some w
               else do { (_, w) \<leftarrow> setSharedExperience cfg r (Some playerId) active w; Some w })"

fun remove_invites :: "party_events \<Rightarrow> party_ref list \<Rightarrow> pid \<Rightarrow> world \<Rightarrow> world option" where
  "remove_invites ev [] p w = Some w"
| "remove_invites ev (r # rs) p w =
     do { (_, w) \<leftarrow> removeInvite ev r p False w; remove_invites ev rs p w }"

definition clearPartyInvitations :: "party_events \<Rightarrow> pid \<Rightarrow> world \<Rightarrow> world option" where
  "clearPartyInvitations ev p w =
     do { w \<leftarrow> remove_invites ev (invitePartyList (pl w p)) p w;
          Some (upd_player p (\<lambda>x. x\<lparr>invitePartyList := []\<rparr>) w) }"

text \<open>The party part of \<open>Player::onRemoveCreature\<close>, after which the player is gone.\<close>

definition party_logout :: "party_config \<Rightarrow> party_events \<Rightarrow> pid \<Rightarrow> world \<Rightarrow> world option" where
  "party_logout cfg ev p w =
     do { w \<leftarrow> clearPartyInvitations ev p w;
          w \<leftarrow> (case pl_party (pl w p) of
                 None \<Rightarrow> Some w
               | Some r \<Rightarrow> do { (_, w) \<leftarrow> leaveParty cfg ev r p w; Some w });
          Some (w\<lparr>online := removeAll p (online w)\<rparr>) }"

text \<open>The party part of \<open>onCreatureMove\<close> and of a level change.\<close>

definition party_moved :: "party_config \<Rightarrow> pid \<Rightarrow> position \<Rightarrow> world \<Rightarrow> world option" where
  "party_moved cfg p newPos w =
     (let oldPos = pl_pos (pl w p); w = upd_player p (\<lambda>x. x\<lparr>pl_pos := newPos\<rparr>) w
      in case pl_party (pl w p) of
           None \<Rightarrow> Some w
         | Some r \<Rightarrow> do { w \<leftarrow> updateSharedExperience cfg r w;
                          updatePlayerStatus_moved cfg r p oldPos newPos w })"

definition party_level_changed :: "party_config \<Rightarrow> pid \<Rightarrow> u32 \<Rightarrow> world \<Rightarrow> world option" where
  "party_level_changed cfg p newLevel w =
     (let w = upd_player p (\<lambda>x. x\<lparr>pl_level := newLevel\<rparr>) w
      in case pl_party (pl w p) of
           None \<Rightarrow> Some w
         | Some r \<Rightarrow> updateSharedExperience cfg r w)"

text \<open>\<open>onIdleStatus\<close> and the two ways of earning shared-experience ticks.\<close>

definition party_idle :: "party_config \<Rightarrow> pid \<Rightarrow> world \<Rightarrow> world option" where
  "party_idle cfg p w =
     (case pl_party (pl w p) of None \<Rightarrow> Some w | Some r \<Rightarrow> clearPlayerPoints cfg r p w)"

definition onAttackedCreatureDrainHealth :: "party_config \<Rightarrow> pid \<Rightarrow> bool \<Rightarrow> u32 \<Rightarrow> world \<Rightarrow> world option" where
  "onAttackedCreatureDrainHealth cfg p hostile_monster points w =
     (case pl_party (pl w p) of
        None \<Rightarrow> Some w
      | Some r \<Rightarrow> if hostile_monster then updatePlayerTicks cfg r p points w else Some w)"

text \<open>
  \<open>onTargetCreatureGainHealth\<close>: the target is a player, or a creature whose master (if any)
  is one.
\<close>

definition onTargetCreatureGainHealth ::
    "party_config \<Rightarrow> pid \<Rightarrow> pid option \<Rightarrow> pid option \<Rightarrow> u32 \<Rightarrow> world \<Rightarrow> world option" where
  "onTargetCreatureGainHealth cfg self target_player master_player points w =
     (case pl_party (pl w self) of
        None \<Rightarrow> Some w
      | Some r \<Rightarrow>
          let tmpPlayer = None;
              tmpPlayer = (if isPartner self tmpPlayer w \<and> tmpPlayer \<noteq> Some self then target_player
                           else master_player)
          in if isPartner self tmpPlayer w then updatePlayerTicks cfg r self points w else Some w)"

end
