(* ===== verification/PartyInv.thy ===== *)
theory PartyInv
  imports Party
begin

text \<open>
  The links between players and parties as an abstract network, the effect of each party
  operation on it, and the invariant of the reachable worlds.
\<close>

section \<open>The network of links\<close>

record net =
  n_party :: "pid \<Rightarrow> party_ref option"
  n_invs :: "pid \<Rightarrow> party_ref list"
  n_parties :: "party_ref \<Rightarrow> (pid option \<times> pid list \<times> pid list) option"
  n_online :: "pid list"

definition plinks :: "party \<Rightarrow> pid option \<times> pid list \<times> pid list" where
  "plinks P = (leader P, memberList P, inviteList P)"

definition net_of :: "world \<Rightarrow> net" where
  "net_of w =
     \<lparr>n_party = (\<lambda>p. pl_party (pl w p)), n_invs = (\<lambda>p. invitePartyList (pl w p)),
      n_parties = (\<lambda>r. map_option plinks (parties w r)), n_online = online w\<rparr>"

definition a_invite :: "party_ref \<Rightarrow> pid \<Rightarrow> net \<Rightarrow> net" where
  "a_invite r p n =
     (case n_parties n r of
        None \<Rightarrow> n
      | Some (l, ms, is) \<Rightarrow>
          n\<lparr>n_parties := (n_parties n)(r \<mapsto> (l, ms, is @ [p])), n_invs := (n_invs n)(p := r # n_invs n p)\<rparr>)"

definition a_join :: "party_ref \<Rightarrow> pid \<Rightarrow> net \<Rightarrow> net" where
  "a_join r p n =
     (case n_parties n r of
        None \<Rightarrow> n
      | Some (l, ms, is) \<Rightarrow>
          n\<lparr>n_parties := (n_parties n)(r \<mapsto> (l, ms @ [p], remove1 p is)),
            n_party := (n_party n)(p := Some r),
            n_invs := (n_invs n)(p := removeAll r (n_invs n p))\<rparr>)"

definition a_pass :: "party_ref \<Rightarrow> pid \<Rightarrow> net \<Rightarrow> net" where
  "a_pass r p n =
     (case n_parties n r of
        Some (Some l, ms, is) \<Rightarrow> n\<lparr>n_parties := (n_parties n)(r \<mapsto> (Some p, l # remove1 p ms, is))\<rparr>
      | _ \<Rightarrow> n)"

definition a_disband :: "party_ref \<Rightarrow> net \<Rightarrow> net" where
  "a_disband r n =
     (case n_parties n r of
        Some (Some l, ms, is) \<Rightarrow>
          n\<lparr>n_parties := (n_parties n)(r := None),
            n_party := (\<lambda>p. if p \<in> insert l (set ms) then None else n_party n p),
            n_invs := (\<lambda>p. if p \<in> set is then removeAll r (n_invs n p) else n_invs n p)\<rparr>
      | _ \<Rightarrow> n)"

text \<open>Leaving a party that goes on, and the withdrawal of an invitation.\<close>

definition a_drop :: "party_ref \<Rightarrow> pid \<Rightarrow> net \<Rightarrow> net" where
  "a_drop r p n =
     (case n_parties n r of
        None \<Rightarrow> n
      | Some (l, ms, is) \<Rightarrow>
          n\<lparr>n_parties := (n_parties n)(r \<mapsto> (l, remove1 p ms, is)), n_party := (n_party n)(p := None)\<rparr>)"

definition a_uninvite :: "party_ref \<Rightarrow> pid \<Rightarrow> net \<Rightarrow> net" where
  "a_uninvite r p n =
     (case n_parties n r of
        None \<Rightarrow> n
      | Some (l, ms, is) \<Rightarrow>
          n\<lparr>n_parties := (n_parties n)(r \<mapsto> (l, ms, remove1 p is)),
            n_invs := (n_invs n)(p := removeAll r (n_invs n p))\<rparr>)"

definition a_empty :: "party_ref \<Rightarrow> net \<Rightarrow> bool" where
  "a_empty r n \<longleftrightarrow> (\<exists>l. n_parties n r = Some (l, [], []))"

definition a_prune :: "party_ref \<Rightarrow> net \<Rightarrow> net" where
  "a_prune r n = (if a_empty r n then a_disband r n else n)"

definition a_leave :: "party_ref \<Rightarrow> pid \<Rightarrow> net \<Rightarrow> net" where
  "a_leave r p n =
     (case n_parties n r of
        Some (Some l, ms, is) \<Rightarrow>
          if l \<noteq> p then a_prune r (a_drop r p n)
          else if is = [] \<and> length ms \<le> 1 then a_disband r n
          else if ms = [] then a_disband r n
          else a_prune r (a_drop r p (a_pass r (hd ms) n))
      | _ \<Rightarrow> n)"

section \<open>What the operations do to it\<close>

lemma net_simps_basic [party_simps]:
  "net_of (emits es w) = net_of w"
  "net_of (setParty p x w) = (net_of w)\<lparr>n_party := (n_party (net_of w))(p := x)\<rparr>"
  "net_of (put_party r P w) = (net_of w)\<lparr>n_parties := (n_parties (net_of w))(r \<mapsto> plinks P)\<rparr>"
  "net_of (delete_party r w) = (net_of w)\<lparr>n_parties := (n_parties (net_of w))(r := None)\<rparr>"
  "net_of (removePartyInvitation p r w) =
     (net_of w)\<lparr>n_invs := (n_invs (net_of w))(p := removeAll r (n_invs (net_of w) p))\<rparr>"
  by (auto simp: net_of_def emits_def setParty_def upd_player_def put_party_def delete_party_def
      removePartyInvitation_def fun_eq_iff)

lemma field_simps_basic [party_simps]:
  "parties (emits es w) = parties w" "parties (setParty p x w) = parties w"
  "parties (put_party r P w) = (parties w)(r \<mapsto> P)"
  "parties (removePartyInvitation p r w) = parties w"
  "online (emits es w) = online w" "online (setParty p x w) = online w"
  "online (put_party r P w) = online w" "online (delete_party r w) = online w"
  "online (removePartyInvitation p r w) = online w"
  "pl (emits es w) = pl w" "pl (put_party r P w) = pl w" "pl (delete_party r w) = pl w"
  by (simp_all add: emits_def setParty_def upd_player_def put_party_def delete_party_def
      removePartyInvitation_def)

lemma net_of_fields [simp]:
  "n_party (net_of w) p = pl_party (pl w p)" "n_invs (net_of w) p = invitePartyList (pl w p)"
  "n_parties (net_of w) r = map_option plinks (parties w r)" "n_online (net_of w) = online w"
  by (simp_all add: net_of_def)

lemma plinks_update [simp]:
  "plinks (P\<lparr>sharedExpEnabled := b\<rparr>) = plinks P" "plinks (P\<lparr>sharedExpActive := b\<rparr>) = plinks P"
  "plinks (P\<lparr>ticksMap := t\<rparr>) = plinks P"
  "plinks (P\<lparr>memberList := ms\<rparr>) = (leader P, ms, inviteList P)"
  "plinks (P\<lparr>inviteList := is\<rparr>) = (leader P, memberList P, is)"
  "plinks (P\<lparr>leader := l\<rparr>) = (l, memberList P, inviteList P)"
  by (simp_all add: plinks_def)

text \<open>An operation that succeeds and leaves every link as it is.\<close>

definition neutral :: "world \<Rightarrow> world option \<Rightarrow> bool" where
  "neutral w res \<longleftrightarrow> (\<exists>w'. res = Some w' \<and> net_of w' = net_of w \<and> pl w' = pl w
     \<and> (\<forall>r P. parties w r = Some P \<longrightarrow> (\<exists>P'. parties w' r = Some P' \<and> plinks P' = plinks P)))"

lemma neutralI:
  "res = Some w' \<Longrightarrow> net_of w' = net_of w \<Longrightarrow> pl w' = pl w \<Longrightarrow> neutral w res"
proof -
  assume *: "res = Some w'" "net_of w' = net_of w" "pl w' = pl w"
  have "\<exists>P'. parties w' r = Some P' \<and> plinks P' = plinks P" if "parties w r = Some P" for r P
  proof -
    have "map_option plinks (parties w' r) = map_option plinks (parties w r)"
      using arg_cong [OF *(2), of "\<lambda>n. n_parties n r"] by simp
    then show ?thesis using that by auto
  qed
  with * show ?thesis by (auto simp: neutral_def)
qed

lemma neutral_put:
  assumes "parties w r = Some P" and "plinks P' = plinks P"
  shows "net_of (put_party r P' w) = net_of w"
  using assms by (auto simp: net_of_def put_party_def fun_eq_iff)

lemma canUse_total: "leader P \<noteq> None \<Longrightarrow> canUseSharedExperience cfg P p w \<noteq> None"
  by (auto simp: canUseSharedExperience_def Let_def)

lemma all_can_use_total: "leader P \<noteq> None \<Longrightarrow> all_can_use cfg P ms w \<noteq> None"
proof (induction ms)
  case (Cons m ms)
  then obtain b where "canUseSharedExperience cfg P m w = Some b" using canUse_total by blast
  with Cons show ?case by (cases b) simp_all
qed simp

lemma canEnable_total: "leader P \<noteq> None \<Longrightarrow> canEnableSharedExperience cfg P w \<noteq> None"
proof -
  assume l: "leader P \<noteq> None"
  then obtain L b where "leader P = Some L" "canUseSharedExperience cfg P L w = Some b"
    using canUse_total by blast
  with l all_can_use_total show ?thesis by (cases b) (simp_all add: canEnableSharedExperience_def)
qed

lemma updateAllPartyIcons_eq:
  "parties w r = Some P \<Longrightarrow> leader P = Some L \<Longrightarrow> updateAllPartyIcons r w = Some (emits (party_icons P L) w)"
  by (simp add: updateAllPartyIcons_def)

lemma updateShared_neutral:
  assumes "parties w r = Some P" and "leader P = Some L"
  shows "neutral w (updateSharedExperience cfg r w)"
proof -
  obtain b where b: "canEnableSharedExperience cfg P w = Some b"
    using canEnable_total assms(2) by blast
  let ?w = "put_party r (P\<lparr>sharedExpEnabled := b\<rparr>) w"
  have ic: "updateAllPartyIcons r ?w = Some (emits (party_icons (P\<lparr>sharedExpEnabled := b\<rparr>) L) ?w)"
    using assms(2) by (intro updateAllPartyIcons_eq) (simp_all add: party_simps)
  have "net_of ?w = net_of w" using assms(1) by (rule neutral_put) simp
  moreover have "updateSharedExperience cfg r w =
      Some (if sharedExpActive P \<and> b \<noteq> sharedExpEnabled P
            then emits (party_icons (P\<lparr>sharedExpEnabled := b\<rparr>) L) ?w else w)"
    using assms(1) b ic
    by (cases b; cases "sharedExpEnabled P") (simp_all add: updateSharedExperience_def)
  ultimately show ?thesis by (auto intro!: neutralI simp: party_simps split: if_splits)
qed

lemma neutral_trans_put:
  assumes "parties w r = Some P" and "plinks P' = plinks P" and "neutral (put_party r P' w) res"
  shows "neutral w res"
proof -
  obtain w' where "res = Some w'" "net_of w' = net_of (put_party r P' w)" "pl w' = pl (put_party r P' w)"
    using assms(3) by (auto simp: neutral_def)
  then show ?thesis using neutral_put [OF assms(1,2)] by (intro neutralI [of _ w']) (simp_all add: party_simps)
qed

lemma clearPoints_neutral:
  assumes "parties w r = Some P" and "leader P = Some L"
  shows "neutral w (clearPlayerPoints cfg r p w)"
proof (cases "m_find (ticksMap P) p")
  case None
  then show ?thesis using assms(1) by (auto simp: clearPlayerPoints_def intro: neutralI)
next
  case (Some t)
  let ?P = "P\<lparr>ticksMap := m_erase p (ticksMap P)\<rparr>"
  have "neutral (put_party r ?P w) (updateSharedExperience cfg r (put_party r ?P w))"
    using assms(2) by (intro updateShared_neutral [of _ _ ?P]) (simp_all add: party_simps)
  then have "neutral w (updateSharedExperience cfg r (put_party r ?P w))"
    using assms(1) by (intro neutral_trans_put [of w r P ?P]) simp_all
  with assms(1) Some show ?thesis by (simp add: clearPlayerPoints_def)
qed

lemma ticks_neutral:
  assumes "parties w r = Some P" and "leader P = Some L"
  shows "neutral w (updatePlayerTicks cfg r p points w)"
proof -
  let ?P = "P\<lparr>ticksMap := m_put p (now w) (ticksMap P)\<rparr>"
  have "neutral (put_party r ?P w) (updateSharedExperience cfg r (put_party r ?P w))"
    using assms(2) by (intro updateShared_neutral [of _ _ ?P]) (simp_all add: party_simps)
  then have "neutral w (updateSharedExperience cfg r (put_party r ?P w))"
    using assms(1) by (intro neutral_trans_put [of w r P ?P]) simp_all
  moreover have "neutral w (Some w)" by (rule neutralI) simp_all
  ultimately show ?thesis using assms(1) by (simp add: updatePlayerTicks_def)
qed

lemma broadcast_neutral:
  assumes "parties w r = Some P" and "leader P = Some L"
  shows "neutral w (broadcastPartyMessage r msg sti w)"
  using assms by (auto simp: broadcastPartyMessage_def party_simps intro!: neutralI)

lemma showPlayerStatus_fields [party_simps]:
  "net_of (showPlayerStatus p m b w) = net_of w" "pl (showPlayerStatus p m b w) = pl w"
  "parties (showPlayerStatus p m b w) = parties w"
  by (simp_all add: showPlayerStatus_def Let_def party_simps)

lemma updatePlayerStatus_neutral:
  assumes "parties w r = Some P" and "leader P = Some L"
  shows "neutral w (updatePlayerStatus cfg r p w)"
proof -
  have *: "net_of (fold (\<lambda>m. showPlayerStatus p m (c m)) xs v) = net_of v
      \<and> pl (fold (\<lambda>m. showPlayerStatus p m (c m)) xs v) = pl v" for c xs v
    by (induction xs arbitrary: v) (simp_all add: party_simps)
  have "updatePlayerStatus cfg r p w = Some (fold (\<lambda>m. showPlayerStatus p m (PARTY_LIST_MAX_DISTANCE cfg = 0
      \<or> distance_ok cfg (pl_pos (pl w p)) (pl_pos (pl w m)))) (memberList P @ [L]) w)"
    using assms by (simp add: updatePlayerStatus_def Let_def)
  then show ?thesis by (rule neutralI) (use * in \<open>auto simp del: fold_append\<close>)
qed

lemma statusMoved_neutral:
  assumes "parties w r = Some P" and "leader P = Some L"
  shows "neutral w (updatePlayerStatus_moved cfg r p a b w)"
proof -
  let ?f = "\<lambda>m w. if distance_ok cfg a (pl_pos (pl w m)) \<and> \<not> distance_ok cfg b (pl_pos (pl w m))
              then showPlayerStatus p m False w
              else if \<not> distance_ok cfg a (pl_pos (pl w m)) \<and> distance_ok cfg b (pl_pos (pl w m))
              then showPlayerStatus p m True w else w"
  have *: "net_of (fold ?f xs v) = net_of v \<and> pl (fold ?f xs v) = pl v" for xs v
    by (induction xs arbitrary: v) (auto simp: party_simps)
  have "updatePlayerStatus_moved cfg r p a b w =
      Some (if PARTY_LIST_MAX_DISTANCE cfg = 0 then w else fold ?f (memberList P @ [L]) w)"
    using assms by (simp add: updatePlayerStatus_moved_def Let_def)
  then show ?thesis by (rule neutralI) (use * in \<open>auto simp del: fold_append\<close>)
qed

text \<open>
  The same facts in the form the compound operations use: the party found before a neutral
  operation is found after it.
\<close>

lemma net_party:
  "n_parties (net_of w) r = Some (l, ms, is) \<longleftrightarrow>
   (\<exists>P. parties w r = Some P \<and> leader P = l \<and> memberList P = ms \<and> inviteList P = is)"
  by (auto simp: plinks_def)

lemma neutral_obtain:
  assumes "neutral w res" and "parties w r = Some P"
  obtains w' P' where "res = Some w'" and "net_of w' = net_of w" and "pl w' = pl w"
    and "parties w' r = Some P'" and "leader P' = leader P" and "memberList P' = memberList P"
    and "inviteList P' = inviteList P"
proof -
  obtain w' where w': "res = Some w'" "net_of w' = net_of w" "pl w' = pl w"
      "\<forall>r P. parties w r = Some P \<longrightarrow> (\<exists>P'. parties w' r = Some P' \<and> plinks P' = plinks P)"
    using assms(1) by (auto simp: neutral_def)
  then obtain P' where "parties w' r = Some P'" "plinks P' = plinks P" using assms(2) by blast
  then show ?thesis using that [of w' P'] w' by (simp add: plinks_def)
qed

lemma passLeadership_effect:
  assumes "parties w r = Some P" and "leader P = Some L" and "L \<noteq> p" and "pl_party (pl w p) = Some r"
  shows "\<exists>w'. passPartyLeadership cfg r (Some p) w = Some (True, w')
     \<and> net_of w' = a_pass r p (net_of w) \<and> pl w' = pl w"
proof -
  define P1 where "P1 = P\<lparr>memberList := remove1 p (memberList P)\<rparr>"
  define w1 where "w1 = put_party r P1 w"
  define msg where "msg = name_of w1 p @ '' is now the leader of the party.''"
  have 1: "parties w1 r = Some P1" "leader P1 = Some L" by (simp_all add: w1_def P1_def assms(2) party_simps)
  obtain w2 P2 where 2: "broadcastPartyMessage r msg True w1 = Some w2" "net_of w2 = net_of w1" "pl w2 = pl w1"
      "parties w2 r = Some P2" "leader P2 = Some L" "memberList P2 = memberList P1" "inviteList P2 = inviteList P1"
    using neutral_obtain [OF broadcast_neutral [OF 1] 1(1)] 1(2) by metis
  define P3 where "P3 = P2\<lparr>leader := Some p, memberList := L # memberList P2\<rparr>"
  define w3 where "w3 = put_party r P3 w2"
  have 3: "parties w3 r = Some P3" "leader P3 = Some p" by (simp_all add: w3_def P3_def party_simps)
  obtain w4 P4 where 4: "updateSharedExperience cfg r w3 = Some w4" "net_of w4 = net_of w3" "pl w4 = pl w3"
      "parties w4 r = Some P4"
    using neutral_obtain [OF updateShared_neutral [OF 3] 3(1)] by metis
  have "net_of w3 = a_pass r p (net_of w)"
    using assms(1,2) 2(2,6,7)
    by (simp add: w3_def P3_def party_simps w1_def P1_def a_pass_def plinks_def)
  moreover have "pl w4 = pl w" using 4(3) 2(3) by (simp add: w3_def w1_def party_simps)
  moreover have "\<exists>es. passPartyLeadership cfg r (Some p) w = Some (True, emits es w4)"
    using assms 2(1,4,5) 4(1,4)
    by (simp add: passPartyLeadership_def Let_def w1_def [symmetric] P1_def [symmetric]
        msg_def [symmetric] P3_def [symmetric] w3_def [symmetric]) (rule exI, rule refl)
  ultimately show ?thesis using 4(2) by (auto simp: party_simps)
qed

lemma fold_uninvite:
  "net_of (fold (\<lambda>i w. emits (f i) (removePartyInvitation i r w)) is w) =
   (net_of w)\<lparr>n_invs := (\<lambda>p. if p \<in> set is then removeAll r (n_invs (net_of w) p) else n_invs (net_of w) p)\<rparr>
   \<and> parties (fold (\<lambda>i w. emits (f i) (removePartyInvitation i r w)) is w) = parties w"
  by (induction "is" arbitrary: w) (auto simp: party_simps fun_eq_iff)

lemma fold_setParty:
  "net_of (fold (\<lambda>m w. emits (f m) (setParty m x w)) ms w) =
   (net_of w)\<lparr>n_party := (\<lambda>p. if p \<in> set ms then x else n_party (net_of w) p)\<rparr>
   \<and> parties (fold (\<lambda>m w. emits (f m) (setParty m x w)) ms w) = parties w"
  by (induction ms arbitrary: w) (auto simp: party_simps fun_eq_iff)

lemma disband_effect:
  assumes "parties w r = Some P" and "leader P = Some L" and "onDisband ev r w"
  shows "\<exists>w'. disband ev r w = Some w' \<and> net_of w' = a_disband r (net_of w)"
proof -
  have "\<exists>w'. disband ev r w = Some w' \<and> net_of w' = (net_of w)\<lparr>n_parties := (n_parties (net_of w))(r := None),
            n_party := (\<lambda>p. if p \<in> insert L (set (memberList P)) then None else n_party (net_of w) p),
            n_invs := (\<lambda>p. if p \<in> set (inviteList P) then removeAll r (n_invs (net_of w) p) else n_invs (net_of w) p)\<rparr>"
    using assms by (auto simp: disband_def Let_def party_simps fold_uninvite fold_setParty fun_eq_iff)
  then show ?thesis using assms(1,2) by (simp add: a_disband_def plinks_def)
qed

lemma invite_effect:
  assumes "parties w r = Some P" and "leader P = Some L" and "p \<notin> set (inviteList P)"
    and "r \<notin> set (invitePartyList (pl w p))"
  shows "\<exists>w'. invitePlayer r p w = Some (True, w') \<and> net_of w' = a_invite r p (net_of w)"
proof -
  have add: "net_of (addPartyInvitation p r v) = (net_of v)\<lparr>n_invs := (n_invs (net_of v))(p := r # n_invs (net_of v) p)\<rparr>"
    if "r \<notin> set (n_invs (net_of v) p)" for v
    using that by (auto simp: addPartyInvitation_def net_of_def upd_player_def fun_eq_iff)
  show ?thesis
    using assms
    by (simp add: invitePlayer_def isPlayerInvited_def Let_def party_simps add a_invite_def plinks_def)
qed

lemma join_effect:
  assumes "parties w r = Some P" and "leader P = Some L" and "p \<in> set (inviteList P)" and "onJoin ev r p w"
  shows "\<exists>w'. joinParty cfg ev r p w = Some (True, w') \<and> net_of w' = a_join r p (net_of w)"
proof -
  define w1 where "w1 = put_party r (P\<lparr>inviteList := remove1 p (inviteList P)\<rparr>) w"
  define msg where "msg = name_of w1 p @ '' has joined the party.''"
  have 1: "parties w1 r = Some (P\<lparr>inviteList := remove1 p (inviteList P)\<rparr>)"
      "leader (P\<lparr>inviteList := remove1 p (inviteList P)\<rparr>) = Some L"
    by (simp_all add: w1_def assms(2) party_simps)
  obtain w2 P2 where 2: "broadcastPartyMessage r msg False w1 = Some w2" "net_of w2 = net_of w1"
      "parties w2 r = Some P2" "leader P2 = Some L" "memberList P2 = memberList P"
      "inviteList P2 = remove1 p (inviteList P)"
    using neutral_obtain [OF broadcast_neutral [OF 1] 1(1)] 1(2) by (metis party.select_convs(2,3) party.surjective party.update_convs(3))
  define P3 where "P3 = P2\<lparr>memberList := memberList P2 @ [p]\<rparr>"
  define w3 where "w3 = emits [UpdatePlayerShield p] (setParty p (Some r) w2)"
  define w4 where "w4 = put_party r P3 (emits (concat (map (\<lambda>m. SendCreatureSkull m p # sendPlayerPartyIcons p m) (memberList P2))
                           @ SendCreatureSkull p p # SendCreatureSkull L p # sendPlayerPartyIcons p L) w3)"
  have 3: "parties w3 r = Some P2" using 2(3) by (simp add: w3_def party_simps)
  have 4: "parties w4 r = Some P3" "leader P3 = Some L" by (simp_all add: w4_def P3_def 2(4) party_simps)
  obtain w5 P5 where 5: "updatePlayerStatus cfg r p w4 = Some w5" "net_of w5 = net_of w4"
      "parties w5 r = Some P5" "leader P5 = Some L"
    using neutral_obtain [OF updatePlayerStatus_neutral [OF 4] 4(1)] 4(2) by metis
  define w6 where "w6 = removePartyInvitation p r w5"
  have 6: "parties w6 r = Some P5" using 5(3) by (simp add: w6_def party_simps)
  obtain w7 where 7: "updateSharedExperience cfg r w6 = Some w7" "net_of w7 = net_of w6"
    using neutral_obtain [OF updateShared_neutral [OF 6 5(4)] 6] by metis
  have "net_of w6 = a_join r p (net_of w)"
    using assms(1,2) 2(2,4,5,6) 5(2)
    by (simp add: w6_def w4_def P3_def w3_def w1_def party_simps a_join_def plinks_def)
  moreover have "\<exists>es. joinParty cfg ev r p w = Some (True, emits es w7)"
    using assms 2(1,4) 3 5(1) 7(1)
    by (simp add: joinParty_def Let_def w1_def [symmetric] msg_def [symmetric] w3_def [symmetric]
        P3_def [symmetric] w4_def [symmetric] w6_def [symmetric]) (intro conjI impI exI, (rule refl)+)
  ultimately show ?thesis using 7(2) by (auto simp: party_simps)
qed

lemma removeInvite_effect:
  assumes "parties w r = Some P" and "leader P = Some L" and "p \<in> set (inviteList P)"
    and "\<And>w. onDisband ev r w" and "distinct (inviteList P)"
  shows "\<exists>w'. removeInvite ev r p True w = Some (True, w')
     \<and> net_of w' = a_prune r (a_uninvite r p (net_of w))"
proof -
  define P1 where "P1 = P\<lparr>inviteList := remove1 p (inviteList P)\<rparr>"
  define w1 where "w1 = removePartyInvitation p r (emits [SendCreatureShield L p, SendCreatureShield p L] (put_party r P1 w))"
  have 1: "parties w1 r = Some P1" "leader P1 = Some L" by (simp_all add: w1_def P1_def assms(2) party_simps)
  have n: "net_of w1 = a_uninvite r p (net_of w)"
    using assms(1,2) by (simp add: w1_def P1_def party_simps a_uninvite_def plinks_def)
  have e: "a_empty r (net_of w1) \<longleftrightarrow> party_empty P1"
    using 1 by (auto simp: a_empty_def party_empty_def plinks_def)
  have eq: "removeInvite ev r p True w =
      (if party_empty P1 then do { w \<leftarrow> disband ev r w1; Some (True, w) } else Some (True, w1))"
    using assms(1-3) by (simp add: removeInvite_def Let_def P1_def w1_def)
  obtain w2 where 2: "disband ev r w1 = Some w2" "net_of w2 = a_disband r (net_of w1)"
    using disband_effect [OF 1 assms(4)] by blast
  show ?thesis using eq e 2 n by (cases "party_empty P1") (simp_all add: a_prune_def)
qed

text \<open>The part of \<open>leaveParty\<close> after the hand-over.\<close>

definition leave_tail ::
    "party_config \<Rightarrow> party_events \<Rightarrow> party_ref \<Rightarrow> pid \<Rightarrow> bool \<times> world \<Rightarrow> (bool \<times> world) option" where
  "leave_tail cfg ev r p = (\<lambda>(missingLeader, w). do {
            P \<leftarrow> parties w r;
            let P = P\<lparr>memberList := remove1 p (memberList P)\<rparr>;
            let w = put_party r P w;
            let w = emits [SendClosePrivate p, UpdatePlayerShield p] (setParty p None w);
            L \<leftarrow> leader P;
            let w = emits (concat (map (\<lambda>m. SendCreatureSkull m p # sendPlayerPartyIcons p m
                             @ [SendPartyCreatureUpdate m p]) (memberList P))
                      @ [SendCreatureSkull L p, SendCreatureSkull p p] @ sendPlayerPartyIcons p L
                      @ [SendPartyCreatureUpdate L p, SendTextMessage p ''You have left the party.'']) w;
            w \<leftarrow> updateSharedExperience cfg r w;
            w \<leftarrow> clearPlayerPoints cfg r p w;
            w \<leftarrow> broadcastPartyMessage r (name_of w p @ '' has left the party.'') False w;
            P \<leftarrow> parties w r;
            if missingLeader \<or> party_empty P
            then do { w \<leftarrow> disband ev r w; Some (True, w) }
            else Some (True, w) })"

lemma leaveParty_tail:
  assumes "parties w r = Some P" and "pl_party (pl w p) = Some r" and "onLeave ev r p w"
  shows "leaveParty cfg ev r p w = Option.bind (hand_over cfg r p w) (leave_tail cfg ev r p)"
  using assms by (simp add: leaveParty_def leave_tail_def)

lemma leave_tail_effect:
  assumes "parties w r = Some P" and "leader P = Some L" and "\<And>w. onDisband ev r w"
  shows "\<exists>w'. leave_tail cfg ev r p (missing, w) = Some (True, w')
     \<and> net_of w' = (if missing then a_disband r (a_drop r p (net_of w)) else a_prune r (a_drop r p (net_of w)))"
proof -
  define P1 where "P1 = P\<lparr>memberList := remove1 p (memberList P)\<rparr>"
  define w1 where "w1 = emits [SendClosePrivate p, UpdatePlayerShield p] (setParty p None (put_party r P1 w))"
  define w2 where "w2 = emits (concat (map (\<lambda>m. SendCreatureSkull m p # sendPlayerPartyIcons p m
                             @ [SendPartyCreatureUpdate m p]) (remove1 p (memberList P)))
                      @ SendCreatureSkull L p # SendCreatureSkull p p # sendPlayerPartyIcons p L
                      @ [SendPartyCreatureUpdate L p, SendTextMessage p ''You have left the party.'']) w1"
  have 2: "parties w2 r = Some P1" "leader P1 = Some L"
    by (simp_all add: w2_def w1_def P1_def assms(2) party_simps)
  have n: "net_of w2 = a_drop r p (net_of w)"
    using assms(1,2) by (simp add: w2_def w1_def P1_def party_simps a_drop_def plinks_def)
  obtain w3 P3 where 3: "updateSharedExperience cfg r w2 = Some w3" "net_of w3 = net_of w2"
      "parties w3 r = Some P3" "leader P3 = Some L"
    using neutral_obtain [OF updateShared_neutral [OF 2] 2(1)] 2(2) by metis
  obtain w4 P4 where 4: "clearPlayerPoints cfg r p w3 = Some w4" "net_of w4 = net_of w3"
      "parties w4 r = Some P4" "leader P4 = Some L"
    using neutral_obtain [OF clearPoints_neutral [OF 3(3,4)] 3(3)] 3(4) by metis
  obtain w5 P5 where 5: "broadcastPartyMessage r (name_of w4 p @ '' has left the party.'') False w4 = Some w5"
      "net_of w5 = net_of w4" "parties w5 r = Some P5" "leader P5 = Some L"
    using neutral_obtain [OF broadcast_neutral [OF 4(3,4)] 4(3)] 4(4) by metis
  have e: "a_empty r (net_of w5) \<longleftrightarrow> party_empty P5"
    using 5(3,4) by (auto simp: a_empty_def party_empty_def plinks_def)
  have eq: "leave_tail cfg ev r p (missing, w) =
      (if missing \<or> party_empty P5 then do { w \<leftarrow> disband ev r w5; Some (True, w) } else Some (True, w5))"
    using assms(1,2) 2(2) 3(1) 4(1) 5(1,3)
    by (simp add: leave_tail_def Let_def P1_def [symmetric] w1_def [symmetric] w2_def [symmetric])
  obtain w6 where 6: "disband ev r w5 = Some w6" "net_of w6 = a_disband r (net_of w5)"
    using disband_effect [OF 5(3,4) assms(3)] by blast
  show ?thesis using eq e 6 n 3(2) 4(2) 5(2)
    by (cases missing; cases "party_empty P5") (simp_all add: a_prune_def)
qed

section \<open>Well-formed networks\<close>

text \<open>
  A party's leader and members are exactly the players whose party pointer leads to it, its
  invitees exactly the players that hold its invitation; nothing occurs twice, everybody is
  online, and no pointer leads to a deleted party.
\<close>

definition party_links :: "net \<Rightarrow> party_ref \<Rightarrow> pid \<Rightarrow> pid list \<Rightarrow> pid list \<Rightarrow> bool" where
  "party_links n r L ms is \<longleftrightarrow>
     distinct (L # ms) \<and> distinct is
     \<and> (\<forall>p. n_party n p = Some r \<longleftrightarrow> p \<in> insert L (set ms))
     \<and> (\<forall>p. r \<in> set (n_invs n p) \<longleftrightarrow> p \<in> set is)
     \<and> insert L (set ms) \<union> set is \<subseteq> set (n_online n)"

definition links_ok :: "net \<Rightarrow> bool" where
  "links_ok n \<longleftrightarrow>
     (\<forall>r l ms is. n_parties n r = Some (l, ms, is) \<longrightarrow> (\<exists>L. l = Some L \<and> party_links n r L ms is))
     \<and> (\<forall>p r. n_party n p = Some r \<longrightarrow> n_parties n r \<noteq> None)
     \<and> (\<forall>p r. r \<in> set (n_invs n p) \<longrightarrow> n_parties n r \<noteq> None)
     \<and> (\<forall>p. distinct (n_invs n p))"

text \<open>Between handlers a party also has a member or an invitee, and no member is invited.\<close>

definition net_ok :: "net \<Rightarrow> bool" where
  "net_ok n \<longleftrightarrow> links_ok n \<and> (\<forall>r. \<not> a_empty r n)
     \<and> (\<forall>p r. n_party n p = Some r \<longrightarrow> r \<notin> set (n_invs n p))"

lemma links_okD:
  assumes "links_ok n" and "n_parties n r = Some (l, ms, is)"
  obtains L where "l = Some L" and "party_links n r L ms is"
proof -
  have "\<exists>L. l = Some L \<and> party_links n r L ms is" using assms unfolding links_ok_def by blast
  then show ?thesis using that by blast
qed

lemma links_ok_disband:
  assumes "links_ok n"
  shows "links_ok (a_disband r n)"
proof (cases "n_parties n r")
  case None
  then show ?thesis using assms by (simp add: a_disband_def)
next
  case (Some t)
  obtain l ms "is" where t: "t = (l, ms, is)" by (cases t)
  obtain L where L: "l = Some L" "party_links n r L ms is" using assms Some t by (auto elim: links_okD)
  define n' where "n' = a_disband r n"
  have f: "n_parties n' = (n_parties n)(r := None)" "n_online n' = n_online n"
      "n_party n' p = (if n_party n p = Some r then None else n_party n p)"
      "set (n_invs n' p) = set (n_invs n p) - {r}" "distinct (n_invs n p) \<Longrightarrow> distinct (n_invs n' p)" for p
    using L Some t by (auto simp: n'_def a_disband_def party_links_def distinct_removeAll)
  have "party_links n' r' L' ms' is'" if "party_links n r' L' ms' is'" "r' \<noteq> r" for r' L' ms' is'
    using that by (simp add: party_links_def f) (metis option.inject)
  moreover have "\<exists>L. l' = Some L \<and> party_links n r' L ms' is'"
    if "n_parties n' r' = Some (l', ms', is')" for r' l' ms' is'
    using that assms f(1) by (auto simp: links_ok_def split: if_splits)
  ultimately have "\<exists>L. l' = Some L \<and> party_links n' r' L ms' is'"
    if "n_parties n' r' = Some (l', ms', is')" for r' l' ms' is'
    using that f(1) by (metis fun_upd_same option.distinct(1))
  moreover have "n_parties n' r' \<noteq> None" if "n_party n' p = Some r'" for p r'
    using that assms by (auto simp: f links_ok_def split: if_splits)
  moreover have "n_parties n' r' \<noteq> None" if "r' \<in> set (n_invs n' p)" for p r'
    using that assms by (auto simp: f links_ok_def)
  moreover have "distinct (n_invs n' p)" for p using assms f(5) by (simp add: links_ok_def)
  ultimately show ?thesis unfolding n'_def [symmetric] links_ok_def by blast
qed

text \<open>Changes to one party that stay consistent with the players' side.\<close>

lemma links_ok_update:
  assumes "links_ok n"
    and "n' = n\<lparr>n_parties := (n_parties n)(r \<mapsto> (Some L, ms, is)), n_party := np, n_invs := ni\<rparr>"
    and "party_links n' r L ms is"
    and "\<And>p r'. r' \<noteq> r \<Longrightarrow> np p = Some r' \<longleftrightarrow> n_party n p = Some r'"
    and "\<And>p r'. r' \<noteq> r \<Longrightarrow> r' \<in> set (ni p) \<longleftrightarrow> r' \<in> set (n_invs n p)"
    and "\<And>p. distinct (ni p)"
  shows "links_ok n'"
proof -
  have f: "n_parties n' = (n_parties n)(r \<mapsto> (Some L, ms, is))" "n_party n' = np" "n_invs n' = ni"
      "n_online n' = n_online n"
    using assms(2) by simp_all
  have other: "party_links n' r' L' ms' is'" if "party_links n r' L' ms' is'" "r' \<noteq> r" for r' L' ms' is'
    using that assms(4,5) by (simp add: party_links_def f)
  have "\<exists>L. l' = Some L \<and> party_links n' r' L ms' is'"
    if "n_parties n' r' = Some (l', ms', is')" for r' l' ms' is'
  proof (cases "r' = r")
    case True
    then show ?thesis using that assms(3) f(1) by auto
  next
    case False
    then have "n_parties n r' = Some (l', ms', is')" using that f(1) by simp
    with assms(1) False other show ?thesis by (metis links_okD)
  qed
  moreover have "n_parties n' r' \<noteq> None" if "n_party n' p = Some r'" for p r'
    using that assms(1,4) by (cases "r' = r") (auto simp: f links_ok_def)
  moreover have "n_parties n' r' \<noteq> None" if "r' \<in> set (n_invs n' p)" for p r'
    using that assms(1,5) by (cases "r' = r") (auto simp: f links_ok_def)
  ultimately show ?thesis using assms(6) f unfolding links_ok_def by simp
qed

lemma links_ok_drop:
  assumes "links_ok n" and "n_parties n r = Some (Some L, ms, is)" and "p \<in> set ms"
  shows "links_ok (a_drop r p n)"
proof (rule links_ok_update [OF assms(1)])
  have pl: "party_links n r L ms is" using assms(1,2) by (auto elim: links_okD)
  show "a_drop r p n = n\<lparr>n_parties := (n_parties n)(r \<mapsto> (Some L, remove1 p ms, is)),
      n_party := (n_party n)(p := None), n_invs := n_invs n\<rparr>"
    using assms(2) by (simp add: a_drop_def)
  show "party_links (a_drop r p n) r L (remove1 p ms) is"
    using pl assms(2,3) by (auto simp: party_links_def a_drop_def set_remove1_eq)
  show "((n_party n)(p := None)) q = Some r' \<longleftrightarrow> n_party n q = Some r'" if "r' \<noteq> r" for q r'
    using pl assms(3) that by (auto simp: party_links_def)
qed (use assms(1) in \<open>simp_all add: links_ok_def\<close>)

lemma links_ok_pass:
  assumes "links_ok n" and "n_parties n r = Some (Some L, ms, is)" and "p \<in> set ms"
  shows "links_ok (a_pass r p n)"
proof (rule links_ok_update [OF assms(1)])
  have pl: "party_links n r L ms is" using assms(1,2) by (auto elim: links_okD)
  show "a_pass r p n = n\<lparr>n_parties := (n_parties n)(r \<mapsto> (Some p, L # remove1 p ms, is)),
      n_party := n_party n, n_invs := n_invs n\<rparr>"
    using assms(2) by (simp add: a_pass_def)
  show "party_links (a_pass r p n) r p (L # remove1 p ms) is"
    using pl assms(2,3) by (auto simp: party_links_def a_pass_def set_remove1_eq)
qed (use assms(1) in \<open>simp_all add: links_ok_def\<close>)

lemma links_ok_join:
  assumes "links_ok n" and "n_parties n r = Some (Some L, ms, is)" and "p \<in> set is"
    and "n_party n p = None"
  shows "links_ok (a_join r p n)"
proof (rule links_ok_update [OF assms(1)])
  have pl: "party_links n r L ms is" using assms(1,2) by (auto elim: links_okD)
  show "a_join r p n = n\<lparr>n_parties := (n_parties n)(r \<mapsto> (Some L, ms @ [p], remove1 p is)),
      n_party := (n_party n)(p := Some r), n_invs := (n_invs n)(p := removeAll r (n_invs n p))\<rparr>"
    using assms(2) by (simp add: a_join_def)
  have "n_party n p \<noteq> Some r" using assms(4) by simp
  then have "p \<notin> insert L (set ms)" using pl unfolding party_links_def by blast
  then show "party_links (a_join r p n) r L (ms @ [p]) (remove1 p is)"
    using pl assms(2-4) by (auto simp: party_links_def a_join_def set_remove1_eq)
qed (use assms(1,4) in \<open>auto simp: links_ok_def distinct_removeAll\<close>)

lemma links_ok_invite:
  assumes "links_ok n" and "n_parties n r = Some (Some L, ms, is)" and "p \<notin> set is"
    and "p \<in> set (n_online n)"
  shows "links_ok (a_invite r p n)"
proof (rule links_ok_update [OF assms(1)])
  have pl: "party_links n r L ms is" using assms(1,2) by (auto elim: links_okD)
  show "a_invite r p n = n\<lparr>n_parties := (n_parties n)(r \<mapsto> (Some L, ms, is @ [p])),
      n_party := n_party n, n_invs := (n_invs n)(p := r # n_invs n p)\<rparr>"
    using assms(2) by (simp add: a_invite_def)
  show "party_links (a_invite r p n) r L ms (is @ [p])"
    using pl assms(2-4) by (auto simp: party_links_def a_invite_def)
  have "r \<notin> set (n_invs n p)" using pl assms(3) by (simp add: party_links_def)
  then show "distinct (((n_invs n)(p := r # n_invs n p)) q)" for q
    using assms(1) by (simp add: links_ok_def)
qed simp_all

lemma links_ok_uninvite:
  assumes "links_ok n" and "n_parties n r = Some (Some L, ms, is)" and "p \<in> set is"
  shows "links_ok (a_uninvite r p n)"
proof (rule links_ok_update [OF assms(1)])
  have pl: "party_links n r L ms is" using assms(1,2) by (auto elim: links_okD)
  show "a_uninvite r p n = n\<lparr>n_parties := (n_parties n)(r \<mapsto> (Some L, ms, remove1 p is)),
      n_party := n_party n, n_invs := (n_invs n)(p := removeAll r (n_invs n p))\<rparr>"
    using assms(2) by (simp add: a_uninvite_def)
  show "party_links (a_uninvite r p n) r L ms (remove1 p is)"
    using pl assms(2,3) by (auto simp: party_links_def a_uninvite_def set_remove1_eq)
qed (use assms(1) in \<open>auto simp: links_ok_def distinct_removeAll\<close>)

lemma hand_over_cases:
  assumes "parties w r = Some P" and "leader P = Some L"
  shows "hand_over cfg r p w =
    (if L \<noteq> p then Some (False, w)
     else if memberList P = [] \<or> length (memberList P) = 1 \<and> inviteList P = [] then Some (True, w)
     else do { (_, w) \<leftarrow> passPartyLeadership cfg r (Some (hd (memberList P))) w; Some (False, w) })"
  using assms by (auto simp: hand_over_def split: list.splits)

lemma disband_drop_leader:
  assumes "n_parties n r = Some (Some p, ms, is)" and "p \<notin> set ms"
  shows "a_disband r (a_drop r p n) = a_disband r n"
  using assms by (auto simp: a_disband_def a_drop_def remove1_idem fun_eq_iff)

lemma leave_effect:
  assumes "parties w r = Some P" and "leader P = Some L" and "pl_party (pl w p) = Some r"
    and "links_ok (net_of w)" and "onLeave ev r p w" and "\<And>w. onDisband ev r w"
  shows "\<exists>w'. leaveParty cfg ev r p w = Some (True, w') \<and> net_of w' = a_leave r p (net_of w)"
proof -
  let ?n = "net_of w" and ?ms = "memberList P" and ?is = "inviteList P"
  have np: "n_parties ?n r = Some (Some L, ?ms, ?is)" using assms(1,2) by (simp add: plinks_def)
  have pl: "party_links ?n r L ?ms ?is" using links_okD [OF assms(4) np] by auto
  note lt = leaveParty_tail [OF assms(1,3,5)]
  consider (other) "L \<noteq> p" | (alone) "L = p" "?ms = [] \<or> length ?ms = 1 \<and> ?is = []"
    | (pass) "L = p" "?ms \<noteq> []" "\<not> (length ?ms = 1 \<and> ?is = [])" by blast
  then show ?thesis
  proof cases
    case other
    then have "a_leave r p ?n = a_prune r (a_drop r p ?n)" using np by (auto simp: a_leave_def)
    then show ?thesis
      using lt hand_over_cases [OF assms(1,2), of cfg p] other
        leave_tail_effect [OF assms(1,2,6), of cfg p False] by simp
  next
    case alone
    have "p \<notin> set ?ms" using pl alone(1) by (simp add: party_links_def)
    then have "a_disband r (a_drop r p ?n) = a_disband r ?n"
      using np alone(1) by (intro disband_drop_leader) simp_all
    moreover have "a_leave r p ?n = a_disband r ?n" using np alone by (auto simp: a_leave_def)
    ultimately show ?thesis
      using lt hand_over_cases [OF assms(1,2), of cfg p] alone
        leave_tail_effect [OF assms(1,2,6), of cfg p True] by simp
  next
    case pass
    let ?m = "hd ?ms"
    have m: "?m \<in> set ?ms" using pass(2) by simp
    then have "L \<noteq> ?m" and "pl_party (pl w ?m) = Some r" using pl by (auto simp: party_links_def)
    then obtain w1 where w1: "passPartyLeadership cfg r (Some ?m) w = Some (True, w1)"
        "net_of w1 = a_pass r ?m ?n"
      using passLeadership_effect [OF assms(1,2)] by blast
    then obtain P1 where P1: "parties w1 r = Some P1" "leader P1 = Some ?m"
      using np net_party [of w1 r "Some ?m" "L # remove1 ?m ?ms" "?is"] by (auto simp: a_pass_def)
    have "length ?ms \<le> 1 \<Longrightarrow> length ?ms = 1" using pass(2) by (cases ?ms) auto
    then have "a_leave r p ?n = a_prune r (a_drop r p (a_pass r ?m ?n))"
      using np pass by (auto simp: a_leave_def)
    then show ?thesis
      using lt hand_over_cases [OF assms(1,2), of cfg p] pass w1
        leave_tail_effect [OF P1 assms(6), of cfg p False] by auto
  qed
qed

section \<open>Operations on well-formed networks\<close>

text \<open>Well-formed except that party \<open>r\<close> may be empty.\<close>

definition net_ok_but :: "party_ref \<Rightarrow> net \<Rightarrow> bool" where
  "net_ok_but r n \<longleftrightarrow> links_ok n \<and> (\<forall>r'. r' \<noteq> r \<longrightarrow> \<not> a_empty r' n)
     \<and> (\<forall>p r. n_party n p = Some r \<longrightarrow> r \<notin> set (n_invs n p))"

lemma net_ok_but_iff: "net_ok n \<longleftrightarrow> net_ok_but r n \<and> \<not> a_empty r n"
  by (auto simp: net_ok_def net_ok_but_def)

lemma a_disband_others:
  "r' \<noteq> r \<Longrightarrow> n_parties (a_disband r n) r' = n_parties n r'"
  "n_party (a_disband r n) p = Some q \<Longrightarrow> n_party n p = Some q"
  "set (n_invs (a_disband r n) p) \<subseteq> set (n_invs n p)"
  "n_online (a_disband r n) = n_online n"
  by (auto simp: a_disband_def split: option.splits if_splits)

lemma a_disband_gone:
  "links_ok n \<Longrightarrow> n_parties (a_disband r n) r = None"
  by (cases "n_parties n r") (auto simp: a_disband_def elim!: links_okD)

lemma net_ok_disband:
  assumes "net_ok_but r n"
  shows "net_ok (a_disband r n)"
proof -
  have l: "links_ok n" using assms by (simp add: net_ok_but_def)
  have "\<not> a_empty r' (a_disband r n)" for r'
    using assms a_disband_gone [OF l, of r] a_disband_others(1) [of r' r n]
    by (cases "r' = r") (auto simp: a_empty_def net_ok_but_def)
  moreover have "q \<notin> set (n_invs (a_disband r n) p)" if "n_party (a_disband r n) p = Some q" for p q
    using assms a_disband_others(2) [OF that] a_disband_others(3) [of r n p] by (auto simp: net_ok_but_def)
  ultimately show ?thesis using links_ok_disband [OF l] by (simp add: net_ok_def)
qed

lemma net_ok_prune: "net_ok_but r n \<Longrightarrow> net_ok (a_prune r n)"
  using net_ok_disband by (auto simp: a_prune_def net_ok_but_iff [of n r])

lemma net_ok_but_drop:
  assumes "net_ok n" and "n_parties n r = Some (Some L, ms, is)" and "p \<in> set ms"
  shows "net_ok_but r (a_drop r p n)"
  using assms links_ok_drop [of n r L ms "is" p]
  by (auto simp: net_ok_def net_ok_but_def a_drop_def a_empty_def)

lemma net_ok_pass:
  assumes "net_ok n" and "n_parties n r = Some (Some L, ms, is)" and "p \<in> set ms"
  shows "net_ok (a_pass r p n)"
  using assms links_ok_pass [of n r L ms "is" p]
  by (auto simp: net_ok_def a_pass_def a_empty_def split: if_splits)

lemma net_ok_but_uninvite:
  assumes "net_ok n" and "n_parties n r = Some (Some L, ms, is)" and "p \<in> set is"
  shows "net_ok_but r (a_uninvite r p n)"
  using assms links_ok_uninvite [of n r L ms "is" p]
  by (auto simp: net_ok_def net_ok_but_def a_uninvite_def a_empty_def)

lemma net_ok_join:
  assumes "net_ok n" and "n_parties n r = Some (Some L, ms, is)" and "p \<in> set is" and "n_party n p = None"
  shows "net_ok (a_join r p n)"
  using assms links_ok_join [of n r L ms "is" p]
  by (auto simp: net_ok_def a_join_def a_empty_def split: if_splits)

lemma net_ok_invite:
  assumes "net_ok_but r n" and "n_parties n r = Some (Some L, ms, is)" and "p \<notin> set is"
    and "p \<in> set (n_online n)" and "n_party n p \<noteq> Some r"
  shows "net_ok (a_invite r p n)"
  using assms links_ok_invite [of n r L ms "is" p]
  by (auto simp: net_ok_def net_ok_but_def a_invite_def a_empty_def split: if_splits)

lemma net_ok_leave:
  assumes "net_ok n" and "n_parties n r = Some (Some L, ms, is)" and "n_party n p = Some r"
  shows "net_ok (a_leave r p n)"
proof -
  have b: "net_ok_but r n" using assms(1) by (simp add: net_ok_but_iff [of n r])
  have pl: "party_links n r L ms is" using assms(1,2) by (auto simp: net_ok_def elim: links_okD)
  then have pm: "p = L \<or> p \<in> set ms" using assms(3) by (auto simp: party_links_def)
  show ?thesis
  proof (cases "L = p")
    case False
    then have "net_ok (a_prune r (a_drop r p n))"
      using pm net_ok_but_drop [OF assms(1,2)] by (intro net_ok_prune) auto
    then show ?thesis using assms(2) False by (simp add: a_leave_def)
  next
    case True
    show ?thesis
    proof (cases "is = [] \<and> length ms \<le> 1 \<or> ms = []")
      case True
      then show ?thesis using \<open>L = p\<close> assms(2) net_ok_disband [OF b] by (auto simp: a_leave_def)
    next
      case False
      let ?m = "hd ms"
      have m: "?m \<in> set ms" using False by simp
      have n1: "net_ok (a_pass r ?m n)" by (rule net_ok_pass [OF assms(1,2) m])
      have "n_parties (a_pass r ?m n) r = Some (Some ?m, L # remove1 ?m ms, is)"
        using assms(2) by (simp add: a_pass_def)
      then have "net_ok (a_prune r (a_drop r p (a_pass r ?m n)))"
        using net_ok_but_drop [OF n1] True by (intro net_ok_prune) simp
      then show ?thesis using assms(2) True False by (auto simp: a_leave_def)
    qed
  qed
qed

lemma a_prune_le:
  "n_party (a_prune r n) p = Some q \<Longrightarrow> n_party n p = Some q"
  "set (n_invs (a_prune r n) p) \<subseteq> set (n_invs n p)"
  "n_online (a_prune r n) = n_online n"
  using a_disband_others(2) [of r n p q] a_disband_others(3) [of r n p] a_disband_others(4) [of r n]
  by (auto simp: a_prune_def split: if_splits)

section \<open>The handlers\<close>

text \<open>The worlds between handlers.\<close>

definition party_inv :: "world \<Rightarrow> bool" where
  "party_inv w \<longleftrightarrow> net_ok (net_of w)"

text \<open>The result of a handler that succeeds and keeps the invariant.\<close>

definition keeps :: "world option \<Rightarrow> bool" where
  "keeps res \<longleftrightarrow> (\<exists>w. res = Some w \<and> party_inv w)"

lemma keepsI: "res = Some w \<Longrightarrow> net_ok (net_of w) \<Longrightarrow> keeps res"
  by (simp add: keeps_def party_inv_def)

lemma keeps_same: "party_inv w \<Longrightarrow> keeps (Some w)"
  by (simp add: keeps_def)

lemma keeps_neutral: "party_inv w \<Longrightarrow> neutral w res \<Longrightarrow> keeps res"
  by (auto simp: neutral_def keeps_def party_inv_def)

lemma keeps_emits: "party_inv w \<Longrightarrow> keeps (Some (emits es w))"
  by (simp add: keeps_def party_inv_def party_simps)

text \<open>In such a world every party pointer can be followed.\<close>

lemma inv_party:
  assumes "party_inv w" and "pl_party (pl w p) = Some r"
  obtains P L where "parties w r = Some P" and "leader P = Some L"
    and "party_links (net_of w) r L (memberList P) (inviteList P)"
proof -
  have l: "links_ok (net_of w)" using assms(1) by (simp add: party_inv_def net_ok_def)
  then have "n_parties (net_of w) r \<noteq> None" using assms(2) by (auto simp: links_ok_def)
  then obtain P where P: "parties w r = Some P" by auto
  then have "n_parties (net_of w) r = Some (leader P, memberList P, inviteList P)" by (simp add: plinks_def)
  from links_okD [OF l this] P that show ?thesis by blast
qed

lemma inv_leader:
  assumes "party_inv w" and "parties w r = Some P"
  obtains L where "leader P = Some L" and "party_links (net_of w) r L (memberList P) (inviteList P)"
proof -
  have l: "links_ok (net_of w)" using assms(1) by (simp add: party_inv_def net_ok_def)
  have "n_parties (net_of w) r = Some (leader P, memberList P, inviteList P)"
    using assms(2) by (simp add: plinks_def)
  from links_okD [OF l this] that show ?thesis by blast
qed

lemma isInviting_inv:
  assumes "party_inv w"
  shows "\<exists>b. isInviting self p w = Some b \<and> (b \<longleftrightarrow> (\<exists>r P. pl_party (pl w self) = Some r
     \<and> parties w r = Some P \<and> leader P = Some self \<and> p \<in> set (inviteList P)))"
proof (cases "pl_party (pl w self)")
  case None
  then show ?thesis by (auto simp: isInviting_def)
next
  case (Some r)
  then obtain P where "parties w r = Some P" using inv_party [OF assms] by blast
  with Some show ?thesis by (simp add: isInviting_def isPlayerInvited_def)
qed

lemma bind_second_effect:
  "\<exists>w'. res = Some (b, w') \<and> net_of w' = n' \<Longrightarrow> net_ok n' \<Longrightarrow> keeps (do { (_, w) \<leftarrow> res; Some w })"
  by (auto simp: keeps_def party_inv_def)

lemma keeps_join:
  assumes "party_inv w"
  shows "keeps (playerJoinParty cfg ev p q w)"
proof -
  obtain b where b: "isInviting q p w = Some b"
      "b \<longleftrightarrow> (\<exists>r P. pl_party (pl w q) = Some r \<and> parties w r = Some P \<and> leader P = Some q \<and> p \<in> set (inviteList P))"
    using isInviting_inv [OF assms] by blast
  show ?thesis
  proof (cases "p \<in> set (online w) \<and> q \<in> set (online w) \<and> b")
    case False
    then show ?thesis using b(1) keeps_same [OF assms] by (auto simp: playerJoinParty_def)
  next
    case True
    then obtain r P where P: "pl_party (pl w q) = Some r" "parties w r = Some P" "leader P = Some q"
        "p \<in> set (inviteList P)"
      using b(2) by blast
    show ?thesis
    proof (cases "pl_party (pl w p) = None \<and> onJoin ev r p w")
      case False
      then show ?thesis
        using True b(1) P keeps_same [OF assms] keeps_emits [OF assms]
        by (auto simp: playerJoinParty_def joinParty_def)
    next
      case join: True
      have "net_ok (a_join r p (net_of w))"
        using assms P join net_ok_join [of "net_of w" r q "memberList P" "inviteList P" p]
        by (simp add: party_inv_def plinks_def)
      then have "keeps (do { (_, w) \<leftarrow> joinParty cfg ev r p w; Some w })"
        using join_effect [OF P(2,3,4)] join by (intro bind_second_effect) auto
      then show ?thesis using True b(1) P join by (simp add: playerJoinParty_def)
    qed
  qed
qed

lemma keeps_pass:
  assumes "party_inv w"
  shows "keeps (playerPassPartyLeadership cfg p q w)"
proof (cases "p \<in> set (online w) \<and> pl_party (pl w p) \<noteq> None")
  case False
  then show ?thesis using keeps_same [OF assms] by (auto simp: playerPassPartyLeadership_def)
next
  case True
  then obtain r where r: "pl_party (pl w p) = Some r" by auto
  then obtain P L where P: "parties w r = Some P" "leader P = Some L"
      "party_links (net_of w) r L (memberList P) (inviteList P)"
    by (rule inv_party [OF assms])
  show ?thesis
  proof (cases "L = p \<and> q \<in> set (online w) \<and> isPartner p (Some q) w")
    case False
    then show ?thesis using True r P keeps_same [OF assms] by (auto simp: playerPassPartyLeadership_def)
  next
    case pass: True
    then have q: "q \<noteq> L" "pl_party (pl w q) = Some r" using r by (auto simp: isPartner_def)
    then have "q \<in> set (memberList P)" using P(3) by (auto simp: party_links_def)
    then have "net_ok (a_pass r q (net_of w))"
      using assms P(1,2) by (intro net_ok_pass) (auto simp: party_inv_def plinks_def)
    then have "keeps (do { (_, w) \<leftarrow> passPartyLeadership cfg r (Some q) w; Some w })"
      using passLeadership_effect [OF P(1,2) q(1) [symmetric] q(2)] by (intro bind_second_effect) auto
    then show ?thesis using True r P pass by (simp add: playerPassPartyLeadership_def)
  qed
qed

lemma keeps_leave:
  assumes "party_inv w" and "\<And>r w. onDisband ev r w"
  shows "keeps (playerLeaveParty cfg ev p w)"
proof (cases "p \<in> set (online w) \<and> pl_party (pl w p) \<noteq> None \<and> \<not> pl_infight (pl w p)")
  case False
  then show ?thesis using keeps_same [OF assms(1)] by (auto simp: playerLeaveParty_def split: option.splits)
next
  case True
  then obtain r where r: "pl_party (pl w p) = Some r" by auto
  then obtain P L where P: "parties w r = Some P" "leader P = Some L"
      "party_links (net_of w) r L (memberList P) (inviteList P)"
    by (rule inv_party [OF assms(1)])
  show ?thesis
  proof (cases "onLeave ev r p w")
    case False
    then show ?thesis using True r P keeps_same [OF assms(1)] by (simp add: playerLeaveParty_def leaveParty_def)
  next
    case leave: True
    have l: "links_ok (net_of w)" using assms(1) by (simp add: party_inv_def net_ok_def)
    have "net_ok (a_leave r p (net_of w))"
      using assms(1) P(1,2) r net_ok_leave [of "net_of w" r L] by (simp add: party_inv_def plinks_def)
    then have "keeps (do { (_, w) \<leftarrow> leaveParty cfg ev r p w; Some w })"
      using leave_effect [OF P(1,2) r l leave assms(2)] by (intro bind_second_effect) auto
    then show ?thesis using True r by (simp add: playerLeaveParty_def)
  qed
qed

lemma keeps_revoke:
  assumes "party_inv w" and "\<And>r w. onDisband ev r w"
  shows "keeps (playerRevokePartyInvitation ev p q w)"
proof -
  obtain b where b: "isInviting p q w = Some b"
      "b \<longleftrightarrow> (\<exists>r P. pl_party (pl w p) = Some r \<and> parties w r = Some P \<and> leader P = Some p \<and> q \<in> set (inviteList P))"
    using isInviting_inv [OF assms(1)] by blast
  show ?thesis
  proof (cases "p \<in> set (online w) \<and> q \<in> set (online w) \<and> b")
    case False
    have "playerRevokePartyInvitation ev p q w = Some w"
    proof (cases "p \<in> set (online w) \<and> pl_party (pl w p) \<noteq> None")
      case True
      then obtain r where r: "pl_party (pl w p) = Some r" by auto
      then obtain P where "parties w r = Some P" by (rule inv_party [OF assms(1)])
      with True False r b(1) show ?thesis by (auto simp: playerRevokePartyInvitation_def)
    qed (auto simp: playerRevokePartyInvitation_def split: option.splits)
    then show ?thesis using keeps_same [OF assms(1)] by simp
  next
    case True
    then obtain r P where P: "pl_party (pl w p) = Some r" "parties w r = Some P" "leader P = Some p"
        "q \<in> set (inviteList P)"
      using b(2) by blast
    have pl: "party_links (net_of w) r p (memberList P) (inviteList P)"
      using inv_leader [OF assms(1) P(2)] P(3) by auto
    define w1 where "w1 = emits
            [SendTextMessage q (name_of w p @ '' has revoked '' @ pronoun w p @ '' invitation.''),
             SendTextMessage p (''Invitation for '' @ name_of w q @ '' has been revoked.'')] w"
    have 1: "parties w1 r = Some P" "net_of w1 = net_of w" using P(2) by (simp_all add: w1_def party_simps)
    have "net_ok (a_prune r (a_uninvite r q (net_of w)))"
      using assms(1) P by (intro net_ok_prune net_ok_but_uninvite) (auto simp: party_inv_def plinks_def)
    moreover have "\<exists>w'. removeInvite ev r q True w1 = Some (True, w')
        \<and> net_of w' = a_prune r (a_uninvite r q (net_of w))"
      using removeInvite_effect [OF 1(1) P(3,4) assms(2)] pl 1(2) by (simp add: party_links_def)
    ultimately have "keeps (do { (_, w) \<leftarrow> removeInvite ev r q True w1; Some w })"
      by (intro bind_second_effect) auto
    then have "keeps (revokeInvitation ev r q w)"
      using P by (simp add: revokeInvitation_def w1_def)
    then show ?thesis using True b(1) P by (simp add: playerRevokePartyInvitation_def)
  qed
qed

lemma links_ok_free:
  assumes "links_ok n" and "n_parties n r = None"
  shows "n_party n q \<noteq> Some r" and "r \<notin> set (n_invs n q)"
  using assms unfolding links_ok_def by blast+

lemma new_party_ok:
  assumes "party_inv w" and "parties w r = None" and "pl_party (pl w p) = None" and "p \<in> set (online w)"
  shows "net_ok_but r (net_of (new_party r p w))"
    and "parties (new_party r p w) r = Some \<lparr>leader = Some p, memberList = [], inviteList = [],
        ticksMap = [], sharedExpActive = False, sharedExpEnabled = False\<rparr>"
    and "invitePartyList (pl (new_party r p w) q) = invitePartyList (pl w q)"
    and "q \<noteq> p \<Longrightarrow> pl_party (pl (new_party r p w) q) = pl_party (pl w q)"
    and "online (new_party r p w) = online w"
proof -
  let ?n = "net_of w" and ?n' = "net_of (new_party r p w)"
  have ok: "net_ok ?n" using assms(1) by (simp add: party_inv_def)
  have l: "links_ok ?n" using ok by (simp add: net_ok_def)
  have np: "n_parties ?n r = None" using assms(2) by simp
  note nor = links_ok_free [OF l np]
  have n': "?n' = ?n\<lparr>n_parties := (n_parties ?n)(r \<mapsto> (Some p, [], [])), n_party := (n_party ?n)(p := Some r),
      n_invs := n_invs ?n\<rparr>"
    by (simp add: new_party_def party_simps plinks_def)
  have "links_ok ?n'"
    by (rule links_ok_update [OF l n'])
      (use assms(3,4) nor l in \<open>auto simp: party_links_def n' links_ok_def\<close>)
  moreover have "\<not> a_empty r' ?n'" if "r' \<noteq> r" for r'
    using ok that by (simp add: n' net_ok_def a_empty_def)
  moreover have "q' \<notin> set (n_invs ?n' q)" if "n_party ?n' q = Some q'" for q q'
    using ok that nor(2) by (auto simp: n' net_ok_def split: if_splits)
  ultimately show "net_ok_but r ?n'" by (simp add: net_ok_but_def)
  show "parties (new_party r p w) r = Some \<lparr>leader = Some p, memberList = [], inviteList = [],
        ticksMap = [], sharedExpActive = False, sharedExpEnabled = False\<rparr>"
    by (simp add: new_party_def party_simps)
  show "invitePartyList (pl (new_party r p w) q) = invitePartyList (pl w q)"
    and "q \<noteq> p \<Longrightarrow> pl_party (pl (new_party r p w) q) = pl_party (pl w q)"
    and "online (new_party r p w) = online w"
    by (simp_all add: new_party_def setParty_def upd_player_def put_party_def)
qed

lemma keeps_invite:
  assumes "party_inv w" and "parties w fresh = None"
  shows "keeps (playerInviteToParty fresh p q w)"
proof -
  obtain b where b: "isInviting q p w = Some b" using isInviting_inv [OF assms(1)] by blast
  show ?thesis
  proof (cases "p \<noteq> q \<and> p \<in> set (online w) \<and> q \<in> set (online w) \<and> \<not> b \<and> pl_party (pl w q) = None")
    case False
    then show ?thesis
      using b keeps_same [OF assms(1)] keeps_emits [OF assms(1)] by (auto simp: playerInviteToParty_def)
  next
    case True
    show ?thesis
    proof (cases "pl_party (pl w p)")
      case None
      let ?w = "new_party fresh p w"
      let ?P = "\<lparr>leader = Some p, memberList = [], inviteList = [], ticksMap = [],
          sharedExpActive = False, sharedExpEnabled = False\<rparr>"
      have "p \<in> set (online w)" using True by simp
      note n = new_party_ok [OF assms None this]
      have "links_ok (net_of w)" using assms(1) by (simp add: party_inv_def net_ok_def)
      then have "fresh \<notin> set (invitePartyList (pl ?w q))"
        using assms(2) n(3) links_ok_free(2) [of "net_of w" fresh q] by simp
      then have e: "\<exists>w'. invitePlayer fresh q ?w = Some (True, w') \<and> net_of w' = a_invite fresh q (net_of ?w)"
        using invite_effect [OF n(2)] by simp
      have "q \<noteq> p" using True by blast
      then have "n_party (net_of ?w) q \<noteq> Some fresh" using n(4) [of q] True by simp
      with n(2,5) True have "net_ok (a_invite fresh q (net_of ?w))"
        by (intro net_ok_invite [OF n(1), of p "[]" "[]"]) (simp_all add: plinks_def)
      then show ?thesis
        using bind_second_effect [OF e] True None b by (simp add: playerInviteToParty_def)
    next
      case (Some r)
      then obtain P L where P: "parties w r = Some P" "leader P = Some L"
          "party_links (net_of w) r L (memberList P) (inviteList P)"
        by (rule inv_party [OF assms(1)])
      show ?thesis
      proof (cases "L = p \<and> q \<notin> set (inviteList P)")
        case False
        then have "playerInviteToParty fresh p q w = Some w"
          using True b Some P by (auto simp: playerInviteToParty_def invitePlayer_def isPlayerInvited_def)
        then show ?thesis using keeps_same [OF assms(1)] by simp
      next
        case inv: True
        have "r \<notin> set (invitePartyList (pl w q))" using P(3) inv by (simp add: party_links_def)
        then have e: "\<exists>w'. invitePlayer r q w = Some (True, w') \<and> net_of w' = a_invite r q (net_of w)"
          using invite_effect [OF P(1,2)] inv by simp
        have "net_ok_but r (net_of w)" using assms(1) by (simp add: party_inv_def net_ok_but_iff [of _ r])
        then have "net_ok (a_invite r q (net_of w))"
          by (rule net_ok_invite [of _ _ L "memberList P" "inviteList P"])
            (use P True inv in \<open>simp_all add: plinks_def\<close>)
        then show ?thesis
          using bind_second_effect [OF e] True Some b P inv by (simp add: playerInviteToParty_def)
      qed
    qed
  qed
qed

lemma setShared_neutral:
  assumes "parties w r = Some P" and "leader P = Some L"
  shows "\<exists>b w'. setSharedExperience cfg r player a w = Some (b, w') \<and> net_of w' = net_of w"
proof (cases "player = Some L \<and> sharedExpActive P \<noteq> a")
  case False
  then show ?thesis using assms by (auto simp: setSharedExperience_def)
next
  case True
  let ?P = "P\<lparr>sharedExpActive := a\<rparr>"
  obtain en where en: "canEnableSharedExperience cfg ?P w = Some en"
    using canEnable_total [of ?P] assms(2) by auto
  have put: "\<exists>w'. updateAllPartyIcons r (emits es (put_party r P' w)) = Some w' \<and> net_of w' = net_of w"
    if "plinks P' = plinks P" "leader P' = Some L" for P' es
  proof -
    have "updateAllPartyIcons r (emits es (put_party r P' w))
        = Some (emits (party_icons P' L) (emits es (put_party r P' w)))"
      using that by (intro updateAllPartyIcons_eq) (simp_all add: party_simps)
    moreover have "net_of (emits (party_icons P' L) (emits es (put_party r P' w))) = net_of w"
      unfolding net_simps_basic(1) by (rule neutral_put [OF assms(1) that(1)])
    ultimately show ?thesis by (intro exI conjI)
  qed
  let ?text = "if en then ''Shared Experience is now active.''
      else ''Shared Experience has been activated, but some members of your party are inactive.''"
  obtain w1 where w1: "updateAllPartyIcons r (emits [SendTextMessage L ?text]
      (put_party r (?P\<lparr>sharedExpEnabled := en\<rparr>) w)) = Some w1" "net_of w1 = net_of w"
    using put [of "?P\<lparr>sharedExpEnabled := en\<rparr>"] assms(2) by auto
  obtain w2 where w2: "updateAllPartyIcons r (emits [SendTextMessage L ''Shared Experience has been deactivated.'']
      (put_party r ?P w)) = Some w2" "net_of w2 = net_of w"
    using put [of ?P] assms(2) by auto
  have e: "setSharedExperience cfg r player a w = Some (True, if a then w1 else w2)"
  proof (cases a)
    case a: True
    then show ?thesis unfolding setSharedExperience_def
      using True assms en w1(1) by (simp add: Let_def)
  next
    case a: False
    then show ?thesis unfolding setSharedExperience_def
      using True assms w2(1) by (simp add: Let_def)
  qed
  show ?thesis by (intro exI conjI, rule e) (simp add: w1(2) w2(2))
qed

lemma keeps_shared:
  assumes "party_inv w"
  shows "keeps (playerEnableSharedPartyExperience cfg p a w)"
proof (cases "p \<in> set (online w) \<and> pl_party (pl w p) \<noteq> None \<and> \<not> (pl_infight (pl w p) \<and> \<not> pl_in_protection_zone (pl w p))")
  case False
  then show ?thesis using keeps_same [OF assms]
    by (auto simp: playerEnableSharedPartyExperience_def split: option.splits)
next
  case True
  then obtain r where r: "pl_party (pl w p) = Some r" by auto
  then obtain P L where P: "parties w r = Some P" "leader P = Some L" by (rule inv_party [OF assms])
  then obtain b w' where "setSharedExperience cfg r (Some p) a w = Some (b, w')" "net_of w' = net_of w"
    using setShared_neutral by blast
  then have "keeps (do { (_, w) \<leftarrow> setSharedExperience cfg r (Some p) a w; Some w })"
    using assms by (simp add: keeps_def party_inv_def)
  then show ?thesis using True r by (auto simp: playerEnableSharedPartyExperience_def)
qed

lemma net_of_upd_player:
  assumes "\<And>x. pl_party (f x) = pl_party x" and "\<And>x. invitePartyList (f x) = invitePartyList x"
  shows "net_of (upd_player p f w) = net_of w" "parties (upd_player p f w) = parties w"
    "pl_party (pl (upd_player p f w) q) = pl_party (pl w q)"
  using assms by (auto simp: net_of_def upd_player_def fun_eq_iff)

lemma keeps_moved:
  assumes "party_inv w"
  shows "keeps (party_moved cfg p newPos w)"
proof -
  let ?w = "upd_player p (\<lambda>x. x\<lparr>pl_pos := newPos\<rparr>) w"
  have u: "net_of ?w = net_of w" "parties ?w = parties w" "pl_party (pl ?w p) = pl_party (pl w p)"
    by (rule net_of_upd_player; simp)+
  have inv: "party_inv ?w" using assms u(1) by (simp add: party_inv_def)
  show ?thesis
  proof (cases "pl_party (pl w p)")
    case None
    then show ?thesis using u keeps_same [OF inv] by (simp add: party_moved_def Let_def)
  next
    case (Some r)
    then obtain P L where P: "parties ?w r = Some P" "leader P = Some L"
      using inv_party [OF assms] u(2) by metis
    obtain w1 P1 where 1: "updateSharedExperience cfg r ?w = Some w1" "net_of w1 = net_of ?w"
        "parties w1 r = Some P1" "leader P1 = Some L"
      using neutral_obtain [OF updateShared_neutral [OF P] P(1)] P(2) by metis
    have "party_inv w1" using inv 1(2) by (simp add: party_inv_def)
    then have "keeps (updatePlayerStatus_moved cfg r p (pl_pos (pl w p)) newPos w1)"
      using statusMoved_neutral [OF 1(3,4)] by (rule keeps_neutral)
    then show ?thesis using Some 1(1) u(3) by (simp add: party_moved_def Let_def)
  qed
qed

lemma keeps_level:
  assumes "party_inv w"
  shows "keeps (party_level_changed cfg p l w)"
proof -
  let ?w = "upd_player p (\<lambda>x. x\<lparr>pl_level := l\<rparr>) w"
  have u: "net_of ?w = net_of w" "parties ?w = parties w" "pl_party (pl ?w p) = pl_party (pl w p)"
    by (rule net_of_upd_player; simp)+
  have inv: "party_inv ?w" using assms u(1) by (simp add: party_inv_def)
  show ?thesis
  proof (cases "pl_party (pl w p)")
    case None
    then show ?thesis using u keeps_same [OF inv] by (simp add: party_level_changed_def Let_def)
  next
    case (Some r)
    then obtain P L where P: "parties ?w r = Some P" "leader P = Some L"
      using inv_party [OF assms] u(2) by metis
    have "keeps (updateSharedExperience cfg r ?w)"
      using inv updateShared_neutral [OF P] by (rule keeps_neutral)
    then show ?thesis using Some u(3) by (simp add: party_level_changed_def Let_def)
  qed
qed

lemma keeps_own_party:
  assumes "party_inv w" and "\<And>r P L. parties w r = Some P \<Longrightarrow> leader P = Some L \<Longrightarrow> neutral w (f r)"
  shows "keeps (case pl_party (pl w p) of None \<Rightarrow> Some w | Some r \<Rightarrow> f r)"
proof (cases "pl_party (pl w p)")
  case None
  then show ?thesis using keeps_same [OF assms(1)] by simp
next
  case (Some r)
  then obtain P L where "parties w r = Some P" "leader P = Some L" by (rule inv_party [OF assms(1)])
  then show ?thesis using keeps_neutral [OF assms(1) assms(2)] Some by simp
qed

lemma keeps_ticks:
  assumes "party_inv w"
  shows "keeps (party_idle cfg p w)"
    and "keeps (onAttackedCreatureDrainHealth cfg p hostile points w)"
    and "keeps (onTargetCreatureGainHealth cfg p t m points w)"
proof -
  have s: "neutral w (Some w)" by (rule neutralI) simp_all
  show "keeps (party_idle cfg p w)"
    unfolding party_idle_def by (rule keeps_own_party [OF assms clearPoints_neutral])
  show "keeps (onAttackedCreatureDrainHealth cfg p hostile points w)"
    unfolding onAttackedCreatureDrainHealth_def
    by (rule keeps_own_party [OF assms]) (use s ticks_neutral in auto)
  show "keeps (onTargetCreatureGainHealth cfg p t m points w)"
    unfolding onTargetCreatureGainHealth_def Let_def
    by (rule keeps_own_party [OF assms]) (use s ticks_neutral in auto)
qed

section \<open>Logging out\<close>

text \<open>The network as if player \<open>p\<close> held the invitations \<open>rs\<close>.\<close>

definition hold :: "pid \<Rightarrow> party_ref list \<Rightarrow> net \<Rightarrow> net" where
  "hold p rs n = n\<lparr>n_invs := (n_invs n)(p := rs)\<rparr>"

lemma removeInvite_hold:
  assumes "net_ok (hold p (r # rs) (net_of w))" and "\<And>r w. onDisband ev r w"
  shows "\<exists>w'. removeInvite ev r p False w = Some (True, w') \<and> net_ok (hold p rs (net_of w'))"
proof -
  let ?n = "net_of w" and ?h = "hold p (r # rs) (net_of w)"
  have l: "links_ok ?h" using assms(1) by (simp add: net_ok_def)
  have "r \<in> set (n_invs ?h p)" by (simp add: hold_def)
  then have "n_parties ?h r \<noteq> None" using links_ok_free(2) [OF l] by blast
  then obtain P where P: "parties w r = Some P" by (auto simp: hold_def)
  then have np: "n_parties ?h r = Some (leader P, memberList P, inviteList P)" by (simp add: hold_def plinks_def)
  obtain L where L: "leader P = Some L" "party_links ?h r L (memberList P) (inviteList P)"
    using links_okD [OF l np] .
  have p: "p \<in> set (inviteList P)" using L(2) by (auto simp: party_links_def hold_def)
  have "distinct (r # rs)" using l by (auto simp: links_ok_def hold_def split: if_splits)
  then have rs: "removeAll r (r # rs) = rs" by (simp add: removeAll_id)
  define P1 where "P1 = P\<lparr>inviteList := remove1 p (inviteList P)\<rparr>"
  define w1 where "w1 = emits [SendCreatureShield L p, SendCreatureShield p L] (put_party r P1 w)"
  have 1: "parties w1 r = Some P1" "leader P1 = Some L" by (simp_all add: w1_def P1_def L(1) party_simps)
  have n1: "hold p rs (net_of w1) = a_uninvite r p ?h"
    using P L(1) rs by (auto simp: w1_def P1_def party_simps a_uninvite_def hold_def plinks_def)
  have "net_ok_but r (a_uninvite r p ?h)"
    using net_ok_but_uninvite [OF assms(1) _ p] np L(1) by simp
  then have ok: "net_ok (a_prune r (hold p rs (net_of w1)))" unfolding n1 by (rule net_ok_prune)
  have eq: "removeInvite ev r p False w =
      (if party_empty P1 then do { w \<leftarrow> disband ev r w1; Some (True, w) } else Some (True, w1))"
    using P L(1) p by (simp add: removeInvite_def Let_def P1_def w1_def)
  obtain w2 where 2: "disband ev r w1 = Some w2" "net_of w2 = a_disband r (net_of w1)"
    using disband_effect [OF 1 assms(2)] by blast
  show ?thesis
  proof (cases "party_empty P1")
    case True
    then have "hold p rs (a_disband r (net_of w1)) = a_disband r (hold p rs (net_of w1))"
      using 1 by (auto simp: a_disband_def hold_def plinks_def party_empty_def net_of_def fun_eq_iff)
    moreover have "a_empty r (hold p rs (net_of w1))"
      using True 1 by (simp add: a_empty_def hold_def plinks_def party_empty_def)
    ultimately show ?thesis using ok eq True 2 by (simp add: a_prune_def)
  next
    case False
    then have "\<not> a_empty r (hold p rs (net_of w1))"
      using 1 by (simp add: a_empty_def hold_def plinks_def party_empty_def)
    then show ?thesis using ok eq False by (simp add: a_prune_def)
  qed
qed

lemma remove_invites_hold:
  assumes "\<And>r w. onDisband ev r w"
  shows "net_ok (hold p rs (net_of w)) \<Longrightarrow>
    \<exists>w'. remove_invites ev rs p w = Some w' \<and> net_ok (hold p [] (net_of w'))"
proof (induction rs arbitrary: w)
  case Nil
  then show ?case by simp
next
  case (Cons r rs)
  obtain w1 where "removeInvite ev r p False w = Some (True, w1)" "net_ok (hold p rs (net_of w1))"
    using removeInvite_hold [OF Cons.prems assms] by blast
  with Cons.IH [of w1] show ?case by auto
qed

lemma clearPartyInvitations_effect:
  assumes "party_inv w" and "\<And>r w. onDisband ev r w"
  shows "\<exists>w'. clearPartyInvitations ev p w = Some w' \<and> party_inv w' \<and> invitePartyList (pl w' p) = []"
proof -
  have "hold p (invitePartyList (pl w p)) (net_of w) = net_of w"
    by (simp add: hold_def net_of_def fun_eq_iff fun_upd_idem)
  then have "net_ok (hold p (invitePartyList (pl w p)) (net_of w))" using assms(1) by (simp add: party_inv_def)
  then obtain w1 where 1: "remove_invites ev (invitePartyList (pl w p)) p w = Some w1"
      "net_ok (hold p [] (net_of w1))"
    using remove_invites_hold [OF assms(2)] by blast
  let ?w = "upd_player p (\<lambda>x. x\<lparr>invitePartyList := []\<rparr>) w1"
  have "net_of ?w = hold p [] (net_of w1)"
    by (auto simp: net_of_def hold_def upd_player_def fun_eq_iff)
  with 1 show ?thesis by (simp add: clearPartyInvitations_def party_inv_def upd_player_def)
qed

lemma a_leave_le:
  assumes "links_ok n" and "n_parties n r = Some (Some L, ms, is)" and "n_party n p = Some r"
  shows "n_party (a_leave r p n) p = None" and "set (n_invs (a_leave r p n) q) \<subseteq> set (n_invs n q)"
proof -
  have pl: "party_links n r L ms is" using links_okD [OF assms(1,2)] by auto
  then have pm: "p = L \<or> p \<in> set ms" using assms(3) by (auto simp: party_links_def)
  have d: "n_party (a_disband r n) p = None" using assms(2) pm by (auto simp: a_disband_def)
  have drop: "n_party (a_drop r p m) p = None" "n_invs (a_drop r p m) q = n_invs m q"
    if "n_parties m r \<noteq> None" for m q
    using that by (auto simp: a_drop_def)
  have pass: "n_parties (a_pass r x n) r \<noteq> None" "n_invs (a_pass r x n) q = n_invs n q" for x q
    using assms(2) by (auto simp: a_pass_def)
  have pr: "n_party (a_prune r m) p = None" if "n_party m p = None" for m
    using that a_prune_le(1) [of r m p] by (cases "n_party (a_prune r m) p") auto
  have "a_leave r p n = a_disband r n \<or> a_leave r p n = a_prune r (a_drop r p n)
      \<or> a_leave r p n = a_prune r (a_drop r p (a_pass r (hd ms) n))"
    using assms(2) by (simp add: a_leave_def)
  then show "n_party (a_leave r p n) p = None" "set (n_invs (a_leave r p n) q) \<subseteq> set (n_invs n q)"
    using d a_disband_others(3) [of r n q] drop pass pr a_prune_le(2) assms(2)
    by (metis option.distinct(1))+
qed

lemma net_ok_set_online:
  assumes "net_ok n"
    and pl: "\<And>r L ms is. party_links n r L ms is \<Longrightarrow> party_links (n\<lparr>n_online := xs\<rparr>) r L ms is"
  shows "net_ok (n\<lparr>n_online := xs\<rparr>)"
proof -
  let ?n = "n\<lparr>n_online := xs\<rparr>"
  have "links_ok ?n"
    unfolding links_ok_def
  proof (intro conjI allI impI)
    fix r l ms "is" assume "n_parties ?n r = Some (l, ms, is)"
    then obtain L where "l = Some L" "party_links n r L ms is"
      using assms(1) links_okD [of n r l ms "is"] by (auto simp: net_ok_def)
    with pl show "\<exists>L. l = Some L \<and> party_links ?n r L ms is" by blast
  qed (use assms(1) in \<open>simp_all add: net_ok_def links_ok_def\<close>)
  then show ?thesis using assms(1) by (simp add: net_ok_def a_empty_def)
qed

lemma net_ok_offline:
  assumes "net_ok n" and "n_party n p = None" and "n_invs n p = []"
  shows "net_ok (n\<lparr>n_online := removeAll p (n_online n)\<rparr>)"
proof (rule net_ok_set_online [OF assms(1)])
  fix r L ms "is" assume pl: "party_links n r L ms is"
  then have "p \<notin> insert L (set ms)" "p \<notin> set is" using assms(2,3) unfolding party_links_def
    by (metis option.distinct(1), metis empty_iff empty_set)
  then show "party_links (n\<lparr>n_online := removeAll p (n_online n)\<rparr>) r L ms is"
    using pl by (auto simp: party_links_def)
qed

lemma keeps_logout:
  assumes "party_inv w" and "\<And>r w. onDisband ev r w" and "\<And>r w. onLeave ev r p w"
  shows "\<exists>w'. party_logout cfg ev p w = Some w' \<and> party_inv w' \<and> p \<notin> set (online w')
     \<and> pl_party (pl w' p) = None \<and> invitePartyList (pl w' p) = []"
proof -
  obtain w1 where 1: "clearPartyInvitations ev p w = Some w1" "party_inv w1" "invitePartyList (pl w1 p) = []"
    using clearPartyInvitations_effect [OF assms(1,2)] by blast
  have "\<exists>w2. (case pl_party (pl w1 p) of None \<Rightarrow> Some w1
      | Some r \<Rightarrow> do { (_, w) \<leftarrow> leaveParty cfg ev r p w1; Some w }) = Some w2
      \<and> party_inv w2 \<and> pl_party (pl w2 p) = None \<and> invitePartyList (pl w2 p) = []"
  proof (cases "pl_party (pl w1 p)")
    case None
    with 1 show ?thesis by simp
  next
    case (Some r)
    then obtain P L where P: "parties w1 r = Some P" "leader P = Some L"
      using inv_party [OF 1(2)] by metis
    have l: "links_ok (net_of w1)" using 1(2) by (simp add: party_inv_def net_ok_def)
    have np: "n_parties (net_of w1) r = Some (Some L, memberList P, inviteList P)" using P by (simp add: plinks_def)
    obtain w2 where 2: "leaveParty cfg ev r p w1 = Some (True, w2)" "net_of w2 = a_leave r p (net_of w1)"
      using leave_effect [OF P Some l assms(3,2)] by blast
    have "net_ok (net_of w2)" using net_ok_leave [OF _ np] 1(2) Some 2(2) by (simp add: party_inv_def)
    moreover have "n_party (net_of w2) p = None" "set (n_invs (net_of w2) p) \<subseteq> set (n_invs (net_of w1) p)"
      unfolding 2(2) using a_leave_le [OF l np] Some by simp_all
    ultimately show ?thesis using Some 2(1) 1(3) by (simp add: party_inv_def)
  qed
  then obtain w2 where 2: "party_logout cfg ev p w = Some (w2\<lparr>online := removeAll p (online w2)\<rparr>)"
      "party_inv w2" "pl_party (pl w2 p) = None" "invitePartyList (pl w2 p) = []"
    using 1(1) by (auto simp: party_logout_def)
  have "net_of (w2\<lparr>online := removeAll p (online w2)\<rparr>) = (net_of w2)\<lparr>n_online := removeAll p (n_online (net_of w2))\<rparr>"
    by (simp add: net_of_def)
  then have "party_inv (w2\<lparr>online := removeAll p (online w2)\<rparr>)"
    using net_ok_offline [of "net_of w2" p] 2(2-4) by (simp add: party_inv_def)
  then show ?thesis using 2 by simp
qed

section \<open>Reachable worlds\<close>

text \<open>
  The scripts shipped with the server let everybody leave and every party disband; a script
  that forbids either would leave pointers to logged-out players behind.
\<close>

definition scripts_allow :: "party_events \<Rightarrow> bool" where
  "scripts_allow ev \<longleftrightarrow> (\<forall>r w. onDisband ev r w) \<and> (\<forall>r p w. onLeave ev r p w)"

text \<open>A request of a client or an event of the game, and what the server does about it.\<close>

datatype party_request =
  Login pid player
| Logout pid
| Invite party_ref pid pid
| Join pid pid
| Revoke pid pid
| PassLeadership pid pid
| Leave pid
| EnableShared pid bool
| Moved pid position
| LevelChanged pid u32
| Idle pid
| DrainHealth pid bool u32
| GainHealth pid "pid option" "pid option" u32
| Tick int

fun handle_party_request :: "party_config \<Rightarrow> party_events \<Rightarrow> party_request \<Rightarrow> world \<Rightarrow> world option" where
  "handle_party_request cfg ev (Login p x) w =
     Some (if p \<in> set (online w) then w
           else w\<lparr>online := p # online w,
                  pl := (pl w)(p := x\<lparr>pl_party := None, invitePartyList := []\<rparr>)\<rparr>)"
| "handle_party_request cfg ev (Logout p) w = party_logout cfg ev p w"
| "handle_party_request cfg ev (Invite fresh p q) w = playerInviteToParty fresh p q w"
| "handle_party_request cfg ev (Join p q) w = playerJoinParty cfg ev p q w"
| "handle_party_request cfg ev (Revoke p q) w = playerRevokePartyInvitation ev p q w"
| "handle_party_request cfg ev (PassLeadership p q) w = playerPassPartyLeadership cfg p q w"
| "handle_party_request cfg ev (Leave p) w = playerLeaveParty cfg ev p w"
| "handle_party_request cfg ev (EnableShared p b) w = playerEnableSharedPartyExperience cfg p b w"
| "handle_party_request cfg ev (Moved p q) w = party_moved cfg p q w"
| "handle_party_request cfg ev (LevelChanged p l) w = party_level_changed cfg p l w"
| "handle_party_request cfg ev (Idle p) w = party_idle cfg p w"
| "handle_party_request cfg ev (DrainHealth p h n) w = onAttackedCreatureDrainHealth cfg p h n w"
| "handle_party_request cfg ev (GainHealth p t m n) w = onTargetCreatureGainHealth cfg p t m n w"
| "handle_party_request cfg ev (Tick t) w = Some (w\<lparr>now := now w + t\<rparr>)"

text \<open>A new party is allocated at an address that is not in use.\<close>

fun request_ok :: "party_request \<Rightarrow> world \<Rightarrow> bool" where
  "request_ok (Invite fresh p q) w \<longleftrightarrow> parties w fresh = None"
| "request_ok _ w \<longleftrightarrow> True"

fun party_run :: "party_config \<Rightarrow> party_events \<Rightarrow> party_request list \<Rightarrow> world \<Rightarrow> world option" where
  "party_run cfg ev [] w = Some w"
| "party_run cfg ev (q # qs) w =
     (if request_ok q w then Option.bind (handle_party_request cfg ev q w) (party_run cfg ev qs)
      else party_run cfg ev qs w)"

definition world_init :: "(pid \<Rightarrow> player) \<Rightarrow> world" where
  "world_init f =
     \<lparr>pl = (\<lambda>p. (f p)\<lparr>pl_party := None, invitePartyList := []\<rparr>), online = [], parties = (\<lambda>_. None),
      now = 0, out = []\<rparr>"

lemma inv_party_online:
  assumes "party_inv w" and "pl_party (pl w p) = Some r"
  shows "p \<in> set (online w)"
proof -
  obtain P L where "parties w r = Some P" "leader P = Some L"
      "party_links (net_of w) r L (memberList P) (inviteList P)"
    by (rule inv_party [OF assms])
  then show ?thesis using assms(2) unfolding party_links_def by auto
qed

lemma login_inv:
  assumes "party_inv w" and "p \<notin> set (online w)"
  shows "party_inv (w\<lparr>online := p # online w, pl := (pl w)(p := x\<lparr>pl_party := None, invitePartyList := []\<rparr>)\<rparr>)"
proof -
  let ?n = "net_of w"
  have ok: "net_ok ?n" using assms(1) by (simp add: party_inv_def)
  then have l: "links_ok ?n" by (simp add: net_ok_def)
  have "n_party ?n p = None"
  proof (cases "pl_party (pl w p)")
    case (Some r)
    then show ?thesis using inv_party_online [OF assms(1) Some] assms(2) by simp
  qed simp
  moreover have "n_invs ?n p = []"
  proof (rule ccontr)
    assume "n_invs ?n p \<noteq> []"
    then obtain r where r: "r \<in> set (n_invs ?n p)" by (cases "n_invs ?n p") auto
    then obtain l' ms "is" where t: "n_parties ?n r = Some (l', ms, is)"
      using links_ok_free(2) [OF l, of r p] by (cases "n_parties ?n r") auto
    obtain L where "party_links ?n r L ms is" using links_okD [OF l t] .
    then have "p \<in> set (online w)" using r unfolding party_links_def by auto
    then show False using assms(2) by simp
  qed
  ultimately have "net_of (w\<lparr>online := p # online w, pl := (pl w)(p := x\<lparr>pl_party := None, invitePartyList := []\<rparr>)\<rparr>)
      = ?n\<lparr>n_online := p # n_online ?n\<rparr>"
    by (auto simp: net_of_def fun_eq_iff)
  moreover have "net_ok (?n\<lparr>n_online := p # n_online ?n\<rparr>)"
    by (rule net_ok_set_online [OF ok]) (auto simp: party_links_def)
  ultimately show ?thesis by (simp add: party_inv_def)
qed

lemma party_request_keeps:
  assumes "party_inv w" and "scripts_allow ev" and "request_ok q w"
  shows "keeps (handle_party_request cfg ev q w)"
proof (cases q)
  case (Login p x)
  then show ?thesis using login_inv [OF assms(1)] assms(1) by (simp add: keeps_def)
next
  case (Logout p)
  then show ?thesis using keeps_logout [OF assms(1), of ev p cfg] assms(2)
    by (auto simp: scripts_allow_def keeps_def)
next
  case (Tick t)
  then show ?thesis using assms(1) by (simp add: keeps_def party_inv_def net_of_def)
qed (use assms in \<open>simp_all add: scripts_allow_def keeps_invite keeps_join keeps_revoke keeps_pass
  keeps_leave keeps_shared keeps_moved keeps_level keeps_ticks\<close>)

lemma party_run_keeps:
  assumes "scripts_allow ev"
  shows "party_inv w \<Longrightarrow> keeps (party_run cfg ev qs w)"
proof (induction qs arbitrary: w)
  case Nil
  then show ?case by (simp add: keeps_def)
next
  case (Cons q qs)
  then show ?case
    using party_request_keeps [OF Cons.prems assms, of q cfg] by (auto simp: keeps_def)
qed

lemma world_init_inv: "party_inv (world_init f)"
  by (simp add: party_inv_def net_ok_def links_ok_def net_of_def world_init_def a_empty_def)

text \<open>C1: whatever requests arrive in whatever order, no party handler follows a null or dangling
  pointer, and afterwards the party structure is consistent: a player's party pointer leads to
  an allocated party that has the player as leader or member, exactly once; invitations are
  recorded on both sides or on neither; everybody in a party is online; no party is left with
  neither a member nor an invitee.\<close>

theorem party_reachable_consistent:
  assumes "scripts_allow ev"
  shows "\<exists>w. party_run cfg ev qs (world_init f) = Some w
     \<and> (\<forall>r P. parties w r = Some P \<longrightarrow>
          (\<exists>L. leader P = Some L \<and> distinct (L # memberList P) \<and> distinct (inviteList P)
             \<and> (\<forall>p. pl_party (pl w p) = Some r \<longleftrightarrow> p = L \<or> p \<in> set (memberList P))
             \<and> (\<forall>p. r \<in> set (invitePartyList (pl w p)) \<longleftrightarrow> p \<in> set (inviteList P))
             \<and> set (L # memberList P @ inviteList P) \<subseteq> set (online w)
             \<and> set (inviteList P) \<inter> set (L # memberList P) = {}
             \<and> (memberList P \<noteq> [] \<or> inviteList P \<noteq> [])))
     \<and> (\<forall>p r. pl_party (pl w p) = Some r \<or> r \<in> set (invitePartyList (pl w p)) \<longrightarrow> parties w r \<noteq> None)"
proof -
  obtain w where w: "party_run cfg ev qs (world_init f) = Some w" "party_inv w"
    using party_run_keeps [OF assms world_init_inv, of cfg qs f] unfolding keeps_def by blast
  have ok: "net_ok (net_of w)" and l: "links_ok (net_of w)"
    using w(2) by (simp_all add: party_inv_def net_ok_def)
  have "parties w r \<noteq> None" if "pl_party (pl w p) = Some r \<or> r \<in> set (invitePartyList (pl w p))" for p r
    using that links_ok_free [OF l, of r p] by auto
  moreover have "\<exists>L. leader P = Some L \<and> distinct (L # memberList P) \<and> distinct (inviteList P)
             \<and> (\<forall>p. pl_party (pl w p) = Some r \<longleftrightarrow> p = L \<or> p \<in> set (memberList P))
             \<and> (\<forall>p. r \<in> set (invitePartyList (pl w p)) \<longleftrightarrow> p \<in> set (inviteList P))
             \<and> set (L # memberList P @ inviteList P) \<subseteq> set (online w)
             \<and> set (inviteList P) \<inter> set (L # memberList P) = {}
             \<and> (memberList P \<noteq> [] \<or> inviteList P \<noteq> [])" if P: "parties w r = Some P" for r P
  proof -
    obtain L where L: "leader P = Some L" "party_links (net_of w) r L (memberList P) (inviteList P)"
      by (rule inv_leader [OF w(2) P])
    have "\<not> a_empty r (net_of w)" and "\<And>p. n_party (net_of w) p = Some r \<longrightarrow> r \<notin> set (n_invs (net_of w) p)"
      using ok by (simp_all add: net_ok_def)
    then have "memberList P \<noteq> [] \<or> inviteList P \<noteq> []"
      and "set (inviteList P) \<inter> set (L # memberList P) = {}"
      using P L by (auto simp: a_empty_def plinks_def party_links_def)
    with L show ?thesis by (intro exI [of _ L]) (auto simp: party_links_def)
  qed
  ultimately show ?thesis using w(1) by blast
qed

end
