(* ===== verification/PartyProps.thy ===== *)
theory PartyProps
  imports PartyInv
begin

text \<open>
  What the party handlers achieve in the worlds they keep: hand-over of the leadership,
  logging out, and the conditions of shared experience.
\<close>

section \<open>A small world\<close>

definition demo_player :: player where
  "demo_player = \<lparr>pl_name = ''Natan'', pl_female = False, pl_party = None, invitePartyList = [],
     pl_level = 50, pl_pos = Position 100 100 7, pl_notGainInFight = False, pl_infight = False,
     pl_in_protection_zone = False, pl_health = (100, 100), pl_mana = (10, 10), pl_summons = []\<rparr>"

definition demo_events :: party_events where
  "demo_events = \<lparr>onJoin = (\<lambda>_ _ _. True), onLeave = (\<lambda>_ _ _. True), onDisband = (\<lambda>_ _. True),
     onShareExperience = (\<lambda>_ x _. x)\<rparr>"

definition demo_party_config :: party_config where
  "demo_party_config = \<lparr>PZ_LOCKED = 60000, PARTY_LIST_MAX_DISTANCE = 0\<rparr>"

lemma demo_scripts: "scripts_allow demo_events"
  by (simp add: scripts_allow_def demo_events_def)

definition demo_party :: party where
  "demo_party = \<lparr>leader = Some 1, memberList = [2], inviteList = [3], ticksMap = [],
     sharedExpActive = False, sharedExpEnabled = False\<rparr>"

definition demo_world :: world where
  "demo_world =
     \<lparr>pl = (\<lambda>p. demo_player\<lparr>pl_party := (if p = 1 \<or> p = 2 then Some 9 else None),
                             invitePartyList := (if p = 3 then [9] else [])\<rparr>),
      online = [1, 2, 3], parties = (\<lambda>r. if r = 9 then Some demo_party else None), now = 0, out = []\<rparr>"

lemma demo_world_inv: "party_inv demo_world"
  unfolding party_inv_def net_ok_def links_ok_def
  by (auto simp: demo_world_def demo_party_def net_of_def party_links_def a_empty_def plinks_def
      split: if_splits)

theorem party_reachable_consistent_witness:
  "\<exists>w. party_run demo_party_config demo_events [Login 1 demo_player, Login 2 demo_player, Invite 7 1 2, Join 2 1]
       (world_init (\<lambda>_. demo_player)) = Some w
     \<and> {r. \<exists>p. pl_party (pl w p) = Some r \<or> r \<in> set (invitePartyList (pl w p))} \<subseteq> {r. parties w r \<noteq> None}"
proof -
  obtain w where "party_run demo_party_config demo_events [Login 1 demo_player, Login 2 demo_player, Invite 7 1 2, Join 2 1]
       (world_init (\<lambda>_. demo_player)) = Some w"
    and "\<forall>p r. pl_party (pl w p) = Some r \<or> r \<in> set (invitePartyList (pl w p)) \<longrightarrow> parties w r \<noteq> None"
    using party_reachable_consistent [OF demo_scripts, of demo_party_config
      "[Login 1 demo_player, Login 2 demo_player, Invite 7 1 2, Join 2 1]" "\<lambda>_. demo_player"] by blast
  then show ?thesis by (intro exI [of _ w] conjI subsetI CollectI) auto
qed

section \<open>Leadership\<close>

text \<open>C32: a leader hands the party over to another member: the new leader leaves the member list, the
  old one becomes the first member, invitations and all party pointers stay as they are, so
  nobody is lost or duplicated.\<close>

theorem pass_leadership_effect:
  assumes "party_inv w" and "p \<in> set (online w)" and "q \<in> set (online w)"
    and "pl_party (pl w p) = Some r" and "parties w r = Some P" and "leader P = Some p"
    and "q \<in> set (memberList P)"
  shows "\<exists>w' P'. playerPassPartyLeadership cfg p q w = Some w' \<and> parties w' r = Some P'
     \<and> leader P' = Some q \<and> memberList P' = p # remove1 q (memberList P)
     \<and> inviteList P' = inviteList P
     \<and> (\<forall>x. pl_party (pl w' x) = pl_party (pl w x) \<and> invitePartyList (pl w' x) = invitePartyList (pl w x))"
proof -
  obtain L where L: "leader P = Some L" "party_links (net_of w) r L (memberList P) (inviteList P)"
    by (rule inv_leader [OF assms(1,5)]) (rule that)
  have q: "p \<noteq> q" "pl_party (pl w q) = Some r" using L assms(6,7) by (auto simp: party_links_def)
  obtain w' where w': "passPartyLeadership cfg r (Some q) w = Some (True, w')"
      "net_of w' = a_pass r q (net_of w)" "pl w' = pl w"
    using passLeadership_effect [OF assms(5,6) q] by blast
  have "n_parties (net_of w') r = Some (Some q, p # remove1 q (memberList P), inviteList P)"
    using assms(5,6) w'(2) by (simp add: a_pass_def plinks_def)
  then obtain P' where "parties w' r = Some P'" "leader P' = Some q"
      "memberList P' = p # remove1 q (memberList P)" "inviteList P' = inviteList P"
    using net_party by blast
  moreover have "playerPassPartyLeadership cfg p q w = Some w'"
    using assms q w'(1) by (simp add: playerPassPartyLeadership_def isPartner_def)
  ultimately show ?thesis using w'(3) by auto
qed

theorem pass_leadership_effect_witness:
  "\<exists>w' P'. playerPassPartyLeadership demo_party_config 1 2 demo_world = Some w' \<and> parties w' 9 = Some P'
     \<and> leader P' = Some 2 \<and> memberList P' = [1] \<and> inviteList P' = [3]"
  using pass_leadership_effect [OF demo_world_inv, of 1 2 9 demo_party demo_party_config]
  by (auto simp: demo_world_def demo_party_def)

section \<open>Logging out\<close>

text \<open>C5: a player who logs out is forgotten by the party system: no party has the player as leader,
  member or invitee, and the player holds no party and no invitation; the other players'
  parties stay consistent.\<close>

theorem logout_leaves_no_reference:
  assumes "party_inv w" and "scripts_allow ev"
  shows "\<exists>w'. party_logout cfg ev p w = Some w' \<and> party_inv w'
     \<and> pl_party (pl w' p) = None \<and> invitePartyList (pl w' p) = []
     \<and> (\<forall>r P. parties w' r = Some P \<longrightarrow>
          leader P \<noteq> Some p \<and> p \<notin> set (memberList P) \<and> p \<notin> set (inviteList P))"
proof -
  obtain w' where w': "party_logout cfg ev p w = Some w'" "party_inv w'"
      "pl_party (pl w' p) = None" "invitePartyList (pl w' p) = []"
    using keeps_logout [OF assms(1), of ev p cfg] assms(2) by (auto simp: scripts_allow_def)
  have "leader P \<noteq> Some p \<and> p \<notin> set (memberList P) \<and> p \<notin> set (inviteList P)"
    if P: "parties w' r = Some P" for r P
  proof -
    obtain L where L: "leader P = Some L" "party_links (net_of w') r L (memberList P) (inviteList P)"
      by (rule inv_leader [OF w'(2) P]) (rule that)
    have "n_party (net_of w') p = Some r \<longleftrightarrow> p \<in> insert L (set (memberList P))"
      and "r \<in> set (n_invs (net_of w') p) \<longleftrightarrow> p \<in> set (inviteList P)"
      using L(2) unfolding party_links_def by blast+
    then show ?thesis using L(1) w'(3,4) by auto
  qed
  with w' show ?thesis by blast
qed

theorem logout_leaves_no_reference_witness:
  "\<exists>w'. party_logout demo_party_config demo_events 1 demo_world = Some w' \<and> party_inv w'
     \<and> pl_party (pl w' 1) = None"
  using logout_leaves_no_reference [OF demo_world_inv demo_scripts, of demo_party_config 1] by blast

section \<open>Shared experience\<close>

lemma highest_level_Max:
  "unat (highest_level w L ms) = Max (insert (unat (pl_level (pl w L))) ((\<lambda>m. unat (pl_level (pl w m))) ` set ms))"
proof -
  have "unat (fold (\<lambda>m h. if pl_level (pl w m) > h then pl_level (pl w m) else h) ms h)
      = Max (insert (unat h) ((\<lambda>m. unat (pl_level (pl w m))) ` set ms))" for h
  proof (induction ms arbitrary: h)
    case Nil
    then show ?case by simp
  next
    case (Cons m ms)
    let ?l = "pl_level (pl w m)" and ?S = "(\<lambda>m. unat (pl_level (pl w m))) ` set ms"
    have "unat (if ?l > h then ?l else h) = max (unat h) (unat ?l)"
      by (simp add: word_less_nat_alt max_def)
    then show ?case using Cons.IH [of "if ?l > h then ?l else h"]
      by (cases "?S = {}") (simp_all add: max.assoc max.left_commute insert_commute)
  qed
  then show ?thesis by (simp add: highest_level_def)
qed

lemma below_min_level:
  "l < min_level h \<longleftrightarrow> 3 * unat l < 2 * unat h"
proof -
  have h: "unat h < 4294967296" by (rule unat_u32_less)
  then have "(2 * unat h + 2) div 3 < 4294967296" by linarith
  then have "unat (min_level h) = (2 * unat h + 2) div 3"
    unfolding min_level_def by (intro unat_of_nat_small) simp
  then show ?thesis by (auto simp: word_less_nat_alt)
qed

text \<open>What a party requires of one of its players.\<close>

definition fit_for_sharing :: "party_config \<Rightarrow> party \<Rightarrow> pid \<Rightarrow> pid \<Rightarrow> world \<Rightarrow> bool" where
  "fit_for_sharing cfg P L p w \<longleftrightarrow>
     (\<forall>m \<in> set (L # memberList P). 2 * unat (pl_level (pl w m)) \<le> 3 * unat (pl_level (pl w p)))
     \<and> areInRange3 30 30 1 (pl_pos (pl w L)) (pl_pos (pl w p))
     \<and> (pl_notGainInFight (pl w p)
        \<or> (\<exists>t. m_find (ticksMap P) p = Some t
               \<and> (word_of_int (now w - t) :: u64) \<le> word_of_int (PZ_LOCKED cfg)))"

lemma canUse_iff:
  assumes "leader P = Some L" and "memberList P \<noteq> []"
  shows "canUseSharedExperience cfg P p w = Some (fit_for_sharing cfg P L p w)"
proof -
  let ?S = "insert (unat (pl_level (pl w L))) ((\<lambda>m. unat (pl_level (pl w m))) ` set (memberList P))"
  have "2 * unat (highest_level w L (memberList P)) \<le> 3 * unat (pl_level (pl w p))
      \<longleftrightarrow> (\<forall>l \<in> ?S. 2 * l \<le> 3 * unat (pl_level (pl w p)))"
  proof -
    have "finite ?S" by simp
    then have "Max ?S \<in> ?S" and "\<forall>l \<in> ?S. l \<le> Max ?S" using Max_in [of ?S] Max_ge [of ?S] by blast+
    then show ?thesis unfolding highest_level_Max
      by (meson mult_le_mono2 order_trans)
  qed
  then have "\<not> pl_level (pl w p) < min_level (highest_level w L (memberList P))
      \<longleftrightarrow> (\<forall>m \<in> set (L # memberList P). 2 * unat (pl_level (pl w m)) \<le> 3 * unat (pl_level (pl w p)))"
    unfolding below_min_level by (simp add: not_less)
  then show ?thesis
    using assms unfolding canUseSharedExperience_def fit_for_sharing_def Let_def
    by (auto split: option.splits simp: not_less)
qed

lemma all_can_use_iff:
  assumes "leader P = Some L" and "memberList P \<noteq> []"
  shows "all_can_use cfg P ms w = Some (\<forall>m \<in> set ms. fit_for_sharing cfg P L m w)"
  by (induction ms) (simp_all add: canUse_iff [OF assms])



text \<open>healing a fellow party member never counts as activity for shared experience, although the
  code asks whether the healed player is a partner: it asks before the variable is set, so only
  healing a creature whose master is a partner counts.\<close>

theorem healing_a_partner_is_not_counted:
  "onTargetCreatureGainHealth cfg self (Some q) None points w = Some w
   \<and> onTargetCreatureGainHealth cfg self (Some q) m points w
     = onTargetCreatureGainHealth cfg self None m points w"
  by (cases "pl_party (pl w self)") (simp_all add: onTargetCreatureGainHealth_def isPartner_def Let_def)

end
