(* ===== verification/Chat.thy ===== *)
theory Chat
  imports StdMap
begin

text \<open>
  Chat channels: \<open>src/src/creatures/interactions/chat.cpp\<close>, \<open>chat.h\<close> and the channel handlers of
  \<open>game.cpp\<close>. A player a channel refers to is its creature id with its account-wide guid; the
  Lua callbacks of a channel are parameters, addressed by the event ids the channel stores
  (\<open>-1\<close>: no callback).
\<close>

section \<open>State\<close>

datatype speak_class =
  TALKTYPE_SAY | TALKTYPE_WHISPER | TALKTYPE_YELL | TALKTYPE_CHANNEL_MANAGER
| TALKTYPE_CHANNEL_Y | TALKTYPE_CHANNEL_O | TALKTYPE_CHANNEL_R1 | TALKTYPE_OTHER byte

datatype channel_event = CHANNELEVENT_JOIN | CHANNELEVENT_LEAVE | CHANNELEVENT_INVITE | CHANNELEVENT_EXCLUDE

datatype chat_out =
  ChannelEvent u32 u16 string channel_event
| ChatText u32 string
| ChatClosePrivate u32 u16
| ChannelMessage u32 string speak_class u16
| ToChannel u32 u32 speak_class string u16
| ScheduleGuildMotd u32
| RunOnLeave u16 u32
| CreatePrivateChannel u32 u16 string
| OpenChannel u32 u16 string "(u32 \<times> u32) list option" "(u32 \<times> u32) list option"

text \<open>\<open>users\<close> maps creature ids to the guid of the player, \<open>invites\<close> guids to creature ids.\<close>

record chat_channel =
  ch_id :: u16
  ch_name :: string
  users :: "(u32 \<times> u32) list"
  publicChannel :: bool
  canJoinEvent :: int
  onJoinEvent :: int
  onLeaveEvent :: int
  onSpeakEvent :: int
  invites :: "(u32 \<times> u32) list"
  ch_owner :: u32
  is_private :: bool

text \<open>The guild of a player: id, name, whether it has a message of the day, and the rank level.\<close>

record chat_player =
  cp_id :: u32
  cp_guid :: u32
  cp_name :: string
  cp_female :: bool
  cp_premium :: bool
  cp_guild :: "(u32 \<times> string \<times> bool) option"
  cp_rank_level :: "byte option"
  cp_party :: "nat option"

record chat =
  normalChannels :: "(u16 \<times> chat_channel) list"
  privateChannels :: "(u16 \<times> chat_channel) list"
  partyChannels :: "(nat \<times> chat_channel) list"
  guildChannels :: "(u32 \<times> chat_channel) list"
  chat_outs :: "chat_out list"

record chat_scripts =
  sc_canJoin :: "int \<Rightarrow> chat_player \<Rightarrow> bool"
  sc_onJoin :: "int \<Rightarrow> chat_player \<Rightarrow> bool"
  sc_onSpeak :: "int \<Rightarrow> chat_player \<Rightarrow> speak_class \<Rightarrow> string \<Rightarrow> bool \<times> speak_class"

definition CHANNEL_GUILD :: u16 where "CHANNEL_GUILD = 0x00"
definition CHANNEL_PARTY :: u16 where "CHANNEL_PARTY = 0x01"
definition CHANNEL_PRIVATE :: u16 where "CHANNEL_PRIVATE = 0xFFFF"

definition new_channel :: "u16 \<Rightarrow> string \<Rightarrow> chat_channel" where
  "new_channel i name =
     \<lparr>ch_id = i, ch_name = name, users = [], publicChannel = False, canJoinEvent = -1, onJoinEvent = -1,
      onLeaveEvent = -1, onSpeakEvent = -1, invites = [], ch_owner = 0, is_private = False\<rparr>"

definition chat_init :: chat where
  "chat_init = \<lparr>normalChannels = [], privateChannels = [], partyChannels = [], guildChannels = [], chat_outs = []\<rparr>"

section \<open>One channel\<close>

definition executeCanJoinEvent :: "chat_scripts \<Rightarrow> chat_channel \<Rightarrow> chat_player \<Rightarrow> bool" where
  "executeCanJoinEvent sc ch p \<longleftrightarrow> (if canJoinEvent ch = -1 then True else sc_canJoin sc (canJoinEvent ch) p)"

definition executeOnJoinEvent :: "chat_scripts \<Rightarrow> chat_channel \<Rightarrow> chat_player \<Rightarrow> bool" where
  "executeOnJoinEvent sc ch p \<longleftrightarrow> (if onJoinEvent ch = -1 then True else sc_onJoin sc (onJoinEvent ch) p)"

definition executeOnSpeakEvent ::
    "chat_scripts \<Rightarrow> chat_channel \<Rightarrow> chat_player \<Rightarrow> speak_class \<Rightarrow> string \<Rightarrow> bool \<times> speak_class" where
  "executeOnSpeakEvent sc ch p type message =
     (if onSpeakEvent ch = -1 then (True, type) else sc_onSpeak sc (onSpeakEvent ch) p type message)"

definition notify_users :: "chat_channel \<Rightarrow> string \<Rightarrow> channel_event \<Rightarrow> chat_out list" where
  "notify_users ch name e = map (\<lambda>(i, _). ChannelEvent i (ch_id ch) name e) (users ch)"

definition addUser ::
    "chat_scripts \<Rightarrow> chat_player \<Rightarrow> chat_channel \<Rightarrow> bool \<times> chat_channel \<times> chat_out list" where
  "addUser sc p ch =
     (if m_find (users ch) (cp_id p) \<noteq> None then (False, ch, [])
      else if \<not> executeOnJoinEvent sc ch p then (False, ch, [])
      else (True, ch\<lparr>users := m_put (cp_id p) (cp_guid p) (users ch)\<rparr>,
            (if ch_id ch = CHANNEL_GUILD
             then (case cp_guild p of Some (_, _, True) \<Rightarrow> [ScheduleGuildMotd (cp_id p)] | _ \<Rightarrow> [])
             else [])
            @ (if \<not> publicChannel ch then notify_users ch (cp_name p) CHANNELEVENT_JOIN else [])))"

definition removeUser :: "chat_player \<Rightarrow> chat_channel \<Rightarrow> bool \<times> chat_channel \<times> chat_out list" where
  "removeUser p ch =
     (if m_find (users ch) (cp_id p) = None then (False, ch, [])
      else let ch = ch\<lparr>users := m_erase (cp_id p) (users ch)\<rparr>
           in (True, ch,
               (if \<not> publicChannel ch then notify_users ch (cp_name p) CHANNELEVENT_LEAVE else [])
               @ (if onLeaveEvent ch = -1 then [] else [RunOnLeave (ch_id ch) (cp_id p)])))"

definition hasUser :: "chat_player \<Rightarrow> chat_channel \<Rightarrow> bool" where
  "hasUser p ch \<longleftrightarrow> m_find (users ch) (cp_id p) \<noteq> None"

definition sendToAll :: "string \<Rightarrow> speak_class \<Rightarrow> chat_channel \<Rightarrow> chat_out list" where
  "sendToAll message type ch = map (\<lambda>(i, _). ChannelMessage i message type (ch_id ch)) (users ch)"

definition talk :: "chat_player \<Rightarrow> speak_class \<Rightarrow> string \<Rightarrow> chat_channel \<Rightarrow> bool \<times> chat_out list" where
  "talk p type text ch =
     (if m_find (users ch) (cp_id p) = None then (False, [])
      else (True, map (\<lambda>(i, _). ToChannel i (cp_id p) type text (ch_id ch)) (users ch)))"

definition isInvited :: "u32 \<Rightarrow> chat_channel \<Rightarrow> bool" where
  "isInvited guid ch \<longleftrightarrow> guid = ch_owner ch \<or> m_find (invites ch) guid \<noteq> None"

definition ch_removeInvite :: "u32 \<Rightarrow> chat_channel \<Rightarrow> bool \<times> chat_channel" where
  "ch_removeInvite guid ch = (m_find (invites ch) guid \<noteq> None, ch\<lparr>invites := m_erase guid (invites ch)\<rparr>)"

definition ch_invitePlayer :: "chat_player \<Rightarrow> chat_player \<Rightarrow> chat_channel \<Rightarrow> chat_channel \<times> chat_out list" where
  "ch_invitePlayer p q ch =
     (let (inv, inserted) = m_emplace (cp_guid q) (cp_id q) (invites ch)
      in if \<not> inserted then (ch, [])
         else (ch\<lparr>invites := inv\<rparr>,
               [ChatText (cp_id q) (cp_name p @ '' invites you to '' @ (if cp_female p then ''her'' else ''his'')
                  @ '' private chat channel.''),
                ChatText (cp_id p) (cp_name q @ '' has been invited.'')]
               @ notify_users ch (cp_name q) CHANNELEVENT_INVITE))"

definition ch_excludePlayer :: "chat_player \<Rightarrow> chat_player \<Rightarrow> chat_channel \<Rightarrow> chat_channel \<times> chat_out list" where
  "ch_excludePlayer p q ch =
     (let (removed, ch1) = ch_removeInvite (cp_guid q) ch
      in if \<not> removed then (ch, [])
         else let (_, ch2, outs) = removeUser q ch1
              in (ch2, outs
                  @ [ChatText (cp_id p) (cp_name q @ '' has been excluded.''), ChatClosePrivate (cp_id q) (ch_id ch)]
                  @ notify_users ch2 (cp_name q) CHANNELEVENT_EXCLUDE))"

definition closeChannel :: "chat_channel \<Rightarrow> chat_out list" where
  "closeChannel ch = map (\<lambda>(i, _). ChatClosePrivate i (ch_id ch)) (users ch)"

section \<open>The channel registry\<close>

text \<open>The pointer \<open>getChannel\<close> returns says which map the channel lives in.\<close>

datatype channel_ref = Normal u16 | Private u16 | PartyOf nat | GuildOf u32

fun deref :: "chat \<Rightarrow> channel_ref \<Rightarrow> chat_channel option" where
  "deref c (Normal i) = m_find (normalChannels c) i"
| "deref c (Private i) = m_find (privateChannels c) i"
| "deref c (PartyOf r) = m_find (partyChannels c) r"
| "deref c (GuildOf g) = m_find (guildChannels c) g"

fun assign :: "channel_ref \<Rightarrow> chat_channel \<Rightarrow> chat \<Rightarrow> chat" where
  "assign (Normal i) ch c = c\<lparr>normalChannels := m_put i ch (normalChannels c)\<rparr>"
| "assign (Private i) ch c = c\<lparr>privateChannels := m_put i ch (privateChannels c)\<rparr>"
| "assign (PartyOf r) ch c = c\<lparr>partyChannels := m_put r ch (partyChannels c)\<rparr>"
| "assign (GuildOf g) ch c = c\<lparr>guildChannels := m_put g ch (guildChannels c)\<rparr>"

definition chat_emit :: "chat_out list \<Rightarrow> chat \<Rightarrow> chat" where
  "chat_emit es c = c\<lparr>chat_outs := chat_outs c @ es\<rparr>"

definition getChannel :: "chat_scripts \<Rightarrow> chat_player \<Rightarrow> u16 \<Rightarrow> chat \<Rightarrow> channel_ref option" where
  "getChannel sc p channelId c =
     (if channelId = CHANNEL_GUILD
      then (case cp_guild p of
              None \<Rightarrow> None
            | Some (g, _, _) \<Rightarrow> if m_find (guildChannels c) g \<noteq> None then Some (GuildOf g) else None)
      else if channelId = CHANNEL_PARTY
      then (case cp_party p of
              None \<Rightarrow> None
            | Some r \<Rightarrow> if m_find (partyChannels c) r \<noteq> None then Some (PartyOf r) else None)
      else (case m_find (normalChannels c) channelId of
              Some ch \<Rightarrow> if executeCanJoinEvent sc ch p then Some (Normal channelId) else None
            | None \<Rightarrow>
                (case m_find (privateChannels c) channelId of
                   Some ch \<Rightarrow> if isInvited (cp_guid p) ch then Some (Private channelId) else None
                 | None \<Rightarrow> None)))"

definition getPrivateChannel :: "chat_player \<Rightarrow> chat \<Rightarrow> u16 option" where
  "getPrivateChannel p c =
     map_option fst (find (\<lambda>(_, ch). ch_owner ch = cp_guid p) (privateChannels c))"

definition private_slots :: "u16 list" where
  "private_slots = map of_nat [100..<10000]"

definition createChannel ::
    "chat_scripts \<Rightarrow> chat_player \<Rightarrow> u16 \<Rightarrow> chat \<Rightarrow> channel_ref option \<times> chat" where
  "createChannel sc p channelId c =
     (if getChannel sc p channelId c \<noteq> None then (None, c)
      else if channelId = CHANNEL_GUILD
      then (case cp_guild p of
              None \<Rightarrow> (None, c)
            | Some (g, name, _) \<Rightarrow>
                (Some (GuildOf g), c\<lparr>guildChannels := fst (m_emplace g (new_channel channelId name) (guildChannels c))\<rparr>))
      else if channelId = CHANNEL_PARTY
      then (case cp_party p of
              None \<Rightarrow> (None, c)
            | Some r \<Rightarrow>
                (Some (PartyOf r), c\<lparr>partyChannels := fst (m_emplace r (new_channel channelId ''Party'') (partyChannels c))\<rparr>))
      else if channelId = CHANNEL_PRIVATE
      then (if \<not> cp_premium p \<or> getPrivateChannel p c \<noteq> None then (None, c)
            else (case find (\<lambda>i. m_find (privateChannels c) i = None) private_slots of
                    None \<Rightarrow> (None, c)
                  | Some i \<Rightarrow>
                      (Some (Private i),
                       c\<lparr>privateChannels := m_put i
                           ((new_channel i (cp_name p @ [CHR 0x27] @ ''s Channel''))
                              \<lparr>is_private := True, ch_owner := cp_guid p\<rparr>) (privateChannels c)\<rparr>)))
      else (None, c))"

definition deleteChannel :: "chat_player \<Rightarrow> u16 \<Rightarrow> chat \<Rightarrow> bool \<times> chat" where
  "deleteChannel p channelId c =
     (if channelId = CHANNEL_GUILD
      then (case cp_guild p of
              None \<Rightarrow> (False, c)
            | Some (g, _, _) \<Rightarrow>
                if m_find (guildChannels c) g = None then (False, c)
                else (True, c\<lparr>guildChannels := m_erase g (guildChannels c)\<rparr>))
      else if channelId = CHANNEL_PARTY
      then (case cp_party p of
              None \<Rightarrow> (False, c)
            | Some r \<Rightarrow>
                if m_find (partyChannels c) r = None then (False, c)
                else (True, c\<lparr>partyChannels := m_erase r (partyChannels c)\<rparr>))
      else (case m_find (privateChannels c) channelId of
              None \<Rightarrow> (False, c)
            | Some ch \<Rightarrow>
                (True, chat_emit (closeChannel ch) (c\<lparr>privateChannels := m_erase channelId (privateChannels c)\<rparr>))))"

definition addUserToChannel ::
    "chat_scripts \<Rightarrow> chat_player \<Rightarrow> u16 \<Rightarrow> chat \<Rightarrow> channel_ref option \<times> chat" where
  "addUserToChannel sc p channelId c =
     (case getChannel sc p channelId c of
        None \<Rightarrow> (None, c)
      | Some r \<Rightarrow>
          (case deref c r of
             None \<Rightarrow> (None, c)
           | Some ch \<Rightarrow>
               let (added, ch', outs) = addUser sc p ch
               in if added then (Some r, chat_emit outs (assign r ch' c)) else (None, c)))"

definition removeUserFromChannel :: "chat_scripts \<Rightarrow> chat_player \<Rightarrow> u16 \<Rightarrow> chat \<Rightarrow> bool \<times> chat" where
  "removeUserFromChannel sc p channelId c =
     (case getChannel sc p channelId c of
        None \<Rightarrow> (False, c)
      | Some r \<Rightarrow>
          (case deref c r of
             None \<Rightarrow> (False, c)
           | Some ch \<Rightarrow>
               let (removed, ch', outs) = removeUser p ch
               in if \<not> removed then (False, c)
                  else let c = chat_emit outs (assign r ch' c)
                       in (True, if ch_owner ch' = cp_guid p then snd (deleteChannel p channelId c) else c)))"

text \<open>Removing a player from every channel of one map, and the outputs of doing so.\<close>

definition remove_from_all :: "chat_player \<Rightarrow> ('k \<times> chat_channel) list \<Rightarrow> ('k \<times> chat_channel) list \<times> chat_out list" where
  "remove_from_all p m =
     (map (\<lambda>(k, ch). (k, fst (snd (removeUser p ch)))) m,
      concat (map (\<lambda>(k, ch). snd (snd (removeUser p ch))) m))"

fun remove_from_private ::
    "chat_player \<Rightarrow> (u16 \<times> chat_channel) list \<Rightarrow> (u16 \<times> chat_channel) list \<times> chat_out list" where
  "remove_from_private p [] = ([], [])"
| "remove_from_private p ((k, ch) # m) =
     (let ch = snd (ch_removeInvite (cp_guid p) ch);
          (_, ch, outs) = removeUser p ch;
          (m', outs') = remove_from_private p m
      in if ch_owner ch = cp_guid p then (m', outs @ closeChannel ch @ outs')
         else ((k, ch) # m', outs @ outs'))"

definition removeUserFromAllChannels :: "chat_player \<Rightarrow> chat \<Rightarrow> chat" where
  "removeUserFromAllChannels p c =
     (let (n, o1) = remove_from_all p (normalChannels c);
          (pa, o2) = remove_from_all p (partyChannels c);
          (g, o3) = remove_from_all p (guildChannels c);
          (pr, o4) = remove_from_private p (privateChannels c)
      in chat_emit (o1 @ o2 @ o3 @ o4)
           (c\<lparr>normalChannels := n, partyChannels := pa, guildChannels := g, privateChannels := pr\<rparr>))"

definition effective_type :: "chat_player \<Rightarrow> speak_class \<Rightarrow> u16 \<Rightarrow> speak_class" where
  "effective_type p type channelId =
     (if channelId = CHANNEL_GUILD
      then (case cp_rank_level p of
              Some l \<Rightarrow> if l > 1 then TALKTYPE_CHANNEL_O else TALKTYPE_CHANNEL_Y
            | None \<Rightarrow> TALKTYPE_CHANNEL_Y)
      else if type \<noteq> TALKTYPE_CHANNEL_Y \<and> (channelId = CHANNEL_PRIVATE \<or> channelId = CHANNEL_PARTY)
      then TALKTYPE_CHANNEL_Y
      else type)"

definition talkToChannel ::
    "chat_scripts \<Rightarrow> chat_player \<Rightarrow> speak_class \<Rightarrow> string \<Rightarrow> u16 \<Rightarrow> chat \<Rightarrow> bool \<times> chat" where
  "talkToChannel sc p type text channelId c =
     (case getChannel sc p channelId c of
        None \<Rightarrow> (False, c)
      | Some r \<Rightarrow>
          (case deref c r of
             None \<Rightarrow> (False, c)
           | Some ch \<Rightarrow>
               let (ok, type) = executeOnSpeakEvent sc ch p (effective_type p type channelId) text
               in if \<not> ok then (False, c)
                  else let (said, outs) = talk p type text ch in (said, chat_emit outs c)))"

definition getChannelById :: "u16 \<Rightarrow> chat \<Rightarrow> chat_channel option" where
  "getChannelById i c = m_find (normalChannels c) i"

definition getGuildChannelById :: "u32 \<Rightarrow> chat \<Rightarrow> chat_channel option" where
  "getGuildChannelById g c = m_find (guildChannels c) g"

text \<open>
  The channel dialog: \<open>None\<close> in the result stands for the dummy private channel offered to
  premium players without one.
\<close>

definition list_or_create :: "chat_scripts \<Rightarrow> chat_player \<Rightarrow> u16 \<Rightarrow> chat \<Rightarrow> channel_ref list \<times> chat" where
  "list_or_create sc p channelId c =
     (case getChannel sc p channelId c of
        Some r \<Rightarrow> ([r], c)
      | None \<Rightarrow> (case createChannel sc p channelId c of
                   (Some r, c) \<Rightarrow> ([r], c)
                 | (None, c) \<Rightarrow> ([], c)))"

definition getChannelList :: "chat_scripts \<Rightarrow> chat_player \<Rightarrow> chat \<Rightarrow> channel_ref option list \<times> chat" where
  "getChannelList sc p c =
     (let (gl, c) = (if cp_guild p \<noteq> None then list_or_create sc p CHANNEL_GUILD c else ([], c));
          (pl, c) = (if cp_party p \<noteq> None then list_or_create sc p CHANNEL_PARTY c else ([], c));
          nl = List.map_filter (\<lambda>(i, _). getChannel sc p i c) (normalChannels c);
          prl = map (\<lambda>(i, _). Private i) (filter (\<lambda>(i, ch). isInvited (cp_guid p) ch) (privateChannels c));
          hasPrivate = list_ex (\<lambda>(i, ch). ch_owner ch = cp_guid p) (privateChannels c)
      in ((if \<not> hasPrivate \<and> cp_premium p then [None] else []) @ map Some (gl @ pl @ nl @ prl), c))"

text \<open>What a reload does to a channel that exists: new settings, and every user joins again.\<close>

definition reload_channel ::
    "chat_scripts \<Rightarrow> (u32 \<Rightarrow> chat_player) \<Rightarrow> bool \<Rightarrow> string \<Rightarrow> (int \<times> int \<times> int \<times> int) option \<Rightarrow> chat_channel
     \<Rightarrow> chat_channel \<times> chat_out list" where
  "reload_channel sc player_of public name events ch =
     (let ch = ch\<lparr>publicChannel := public, ch_name := name\<rparr>;
          ch = (case events of
                  None \<Rightarrow> ch
                | Some (sp, cj, oj, ol) \<Rightarrow>
                    ch\<lparr>onSpeakEvent := sp, canJoinEvent := cj, onJoinEvent := oj, onLeaveEvent := ol\<rparr>);
          old = users ch
      in fold (\<lambda>(i, _) (ch, outs). let (_, ch, o') = addUser sc (player_of i) ch in (ch, outs @ o'))
           old (ch\<lparr>users := []\<rparr>, []))"

section \<open>Handlers\<close>

text \<open>\<open>isOnline\<close> is \<open>getPlayerByID\<close>/\<open>getPlayerByName\<close>: the handlers run for players that exist.\<close>

definition playerCreatePrivateChannel :: "chat_scripts \<Rightarrow> chat_player \<Rightarrow> chat \<Rightarrow> chat" where
  "playerCreatePrivateChannel sc p c =
     (if \<not> cp_premium p then c
      else (case createChannel sc p CHANNEL_PRIVATE c of
              (None, c) \<Rightarrow> c
            | (Some r, c) \<Rightarrow>
                (case deref c r of
                   None \<Rightarrow> c
                 | Some ch \<Rightarrow>
                     let (added, ch', outs) = addUser sc p ch
                     in if added
                        then chat_emit (outs @ [CreatePrivateChannel (cp_id p) (ch_id ch') (ch_name ch')]) (assign r ch' c)
                        else c)))"

definition playerChannelInvite :: "chat_player \<Rightarrow> chat_player option \<Rightarrow> chat \<Rightarrow> chat" where
  "playerChannelInvite p invited c =
     (case getPrivateChannel p c of
        None \<Rightarrow> c
      | Some i \<Rightarrow>
          (case (invited, m_find (privateChannels c) i) of
             (Some q, Some ch) \<Rightarrow>
               if cp_id p = cp_id q then c
               else let (ch', outs) = ch_invitePlayer p q ch in chat_emit outs (assign (Private i) ch' c)
           | _ \<Rightarrow> c))"

definition playerChannelExclude :: "chat_player \<Rightarrow> chat_player option \<Rightarrow> chat \<Rightarrow> chat" where
  "playerChannelExclude p excluded c =
     (case getPrivateChannel p c of
        None \<Rightarrow> c
      | Some i \<Rightarrow>
          (case (excluded, m_find (privateChannels c) i) of
             (Some q, Some ch) \<Rightarrow>
               if cp_id p = cp_id q then c
               else let (ch', outs) = ch_excludePlayer p q ch in chat_emit outs (assign (Private i) ch' c)
           | _ \<Rightarrow> c))"

definition playerOpenChannel :: "chat_scripts \<Rightarrow> chat_player \<Rightarrow> u16 \<Rightarrow> chat \<Rightarrow> chat" where
  "playerOpenChannel sc p channelId c =
     (case addUserToChannel sc p channelId c of
        (None, c) \<Rightarrow> c
      | (Some r, c) \<Rightarrow>
          (case deref c r of
             None \<Rightarrow> c
           | Some ch \<Rightarrow>
               chat_emit [OpenChannel (cp_id p) (ch_id ch) (ch_name ch)
                 (if publicChannel ch then None else Some (users ch))
                 (if is_private ch then Some (invites ch) else None)] c))"

definition playerCloseChannel :: "chat_scripts \<Rightarrow> chat_player \<Rightarrow> u16 \<Rightarrow> chat \<Rightarrow> chat" where
  "playerCloseChannel sc p channelId c = snd (removeUserFromChannel sc p channelId c)"

text \<open>\<open>Player::sendClosePrivate\<close>.\<close>

definition player_sendClosePrivate :: "chat_scripts \<Rightarrow> chat_player \<Rightarrow> u16 \<Rightarrow> chat \<Rightarrow> chat" where
  "player_sendClosePrivate sc p channelId c =
     (let c = (if channelId = CHANNEL_GUILD \<or> channelId = CHANNEL_PARTY
               then snd (removeUserFromChannel sc p channelId c) else c)
      in chat_emit [ChatClosePrivate (cp_id p) channelId] c)"

section \<open>Private channels stay private\<close>

text \<open>
  A private channel admits its owner and the invited; \<open>gid\<close> gives the guid of a creature id.
\<close>

definition priv_ok :: "(u32 \<Rightarrow> u32) \<Rightarrow> chat_channel \<Rightarrow> bool" where
  "priv_ok gid ch \<longleftrightarrow> (\<forall>i g. m_find (users ch) i = Some g \<longrightarrow> g = gid i \<and> isInvited g ch)"

definition person :: "(u32 \<Rightarrow> u32) \<Rightarrow> chat_player \<Rightarrow> bool" where
  "person gid p \<longleftrightarrow> cp_guid p = gid (cp_id p)"

lemma addUser_cases:
  obtains "addUser sc p ch = (False, ch, [])"
  | outs where "addUser sc p ch = (True, ch\<lparr>users := m_put (cp_id p) (cp_guid p) (users ch)\<rparr>, outs)"
      "m_find (users ch) (cp_id p) = None"
proof (cases "m_find (users ch) (cp_id p) = None \<and> executeOnJoinEvent sc ch p")
  case True
  then show ?thesis using that(2) by (simp add: addUser_def)
next
  case False
  then show ?thesis using that(1) by (auto simp: addUser_def)
qed

lemma removeUser_fields [chat_simps]:
  "users (fst (snd (removeUser p ch))) = m_erase (cp_id p) (users ch)"
  "invites (fst (snd (removeUser p ch))) = invites ch"
  "ch_owner (fst (snd (removeUser p ch))) = ch_owner ch"
  "ch_id (fst (snd (removeUser p ch))) = ch_id ch"
proof -
  have "m_erase i m = m" if "m_find m i = None" for i and m :: "(u32 \<times> u32) list"
    using that by (induction m) (auto simp: m_erase_def split: if_splits)
  then show "users (fst (snd (removeUser p ch))) = m_erase (cp_id p) (users ch)"
    by (simp add: removeUser_def Let_def)
qed (simp_all add: removeUser_def Let_def)

lemma priv_ok_addUser:
  assumes "priv_ok gid ch" and "person gid p" and "isInvited (cp_guid p) ch"
  shows "priv_ok gid (fst (snd (addUser sc p ch)))"
  using assms by (cases rule: addUser_cases [where sc = sc and p = p and ch = ch]) (auto simp: priv_ok_def person_def isInvited_def)

lemma priv_ok_removeUser: "priv_ok gid ch \<Longrightarrow> priv_ok gid (fst (snd (removeUser p ch)))"
  by (auto simp: priv_ok_def isInvited_def chat_simps)

lemma priv_ok_uninvite:
  assumes "priv_ok gid ch" and "person gid p" and "inj gid"
  shows "priv_ok gid (fst (snd (removeUser p (snd (ch_removeInvite (cp_guid p) ch)))))"
  using assms by (auto simp: priv_ok_def person_def isInvited_def chat_simps ch_removeInvite_def dest: injD)

lemma ch_invitePlayer_fields:
  "users (fst (ch_invitePlayer p q ch)) = users ch" "ch_owner (fst (ch_invitePlayer p q ch)) = ch_owner ch"
  "isInvited g ch \<Longrightarrow> isInvited g (fst (ch_invitePlayer p q ch))"
  by (auto simp: ch_invitePlayer_def m_emplace_def isInvited_def split: option.splits)

lemma priv_ok_invite: "priv_ok gid ch \<Longrightarrow> priv_ok gid (fst (ch_invitePlayer p q ch))"
  using ch_invitePlayer_fields(1,2) [of p q ch] ch_invitePlayer_fields(3) by (auto simp: priv_ok_def)

lemma ch_excludePlayer_fields:
  "fst (ch_excludePlayer p q ch) =
     (if m_find (invites ch) (cp_guid q) = None then ch
      else fst (snd (removeUser q (snd (ch_removeInvite (cp_guid q) ch)))))"
  by (auto simp: ch_excludePlayer_def ch_removeInvite_def Let_def split: prod.splits)

lemma priv_ok_exclude:
  "priv_ok gid ch \<Longrightarrow> person gid q \<Longrightarrow> inj gid \<Longrightarrow> priv_ok gid (fst (ch_excludePlayer p q ch))"
  by (simp add: ch_excludePlayer_fields priv_ok_uninvite)

text \<open>All private channels: distinct owners, ids of the slots, and only admitted users.\<close>

definition chat_inv :: "(u32 \<Rightarrow> u32) \<Rightarrow> chat \<Rightarrow> bool" where
  "chat_inv gid c \<longleftrightarrow>
     m_ok (privateChannels c)
     \<and> (\<forall>i ch. m_find (privateChannels c) i = Some ch \<longrightarrow>
          priv_ok gid ch \<and> ch_id ch = i \<and> 100 \<le> unat i \<and> unat i < 10000)
     \<and> (\<forall>i j ch dh. m_find (privateChannels c) i = Some ch \<longrightarrow> m_find (privateChannels c) j = Some dh \<longrightarrow>
          ch_owner ch = ch_owner dh \<longrightarrow> i = j)"

lemma chat_inv_same: "privateChannels c' = privateChannels c \<Longrightarrow> chat_inv gid c \<Longrightarrow> chat_inv gid c'"
  by (simp add: chat_inv_def)

lemma chat_emit_fields [chat_simps]:
  "privateChannels (chat_emit es c) = privateChannels c" "normalChannels (chat_emit es c) = normalChannels c"
  "partyChannels (chat_emit es c) = partyChannels c" "guildChannels (chat_emit es c) = guildChannels c"
  "deref (chat_emit es c) r = deref c r"
  by (simp_all add: chat_emit_def) (cases r; simp)

lemma chat_inv_emit [simp]: "chat_inv gid (chat_emit es c) = chat_inv gid c"
  by (simp add: chat_inv_def chat_simps)

lemma chat_inv_assign:
  assumes "chat_inv gid c" and "deref c r = Some ch" and "ch_owner ch' = ch_owner ch" and "ch_id ch' = ch_id ch"
    and "(\<exists>i. r = Private i) \<Longrightarrow> priv_ok gid ch'"
  shows "chat_inv gid (assign r ch' c)"
proof (cases r)
  case (Private i)
  then have ch: "m_find (privateChannels c) i = Some ch" using assms(2) by simp
  show ?thesis
    using assms(1,3,4) assms(5) ch Private unfolding chat_inv_def
    by (auto simp: m_ok_put)
qed (use assms(1) in \<open>auto intro: chat_inv_same\<close>)

lemma chat_inv_erase: "chat_inv gid c \<Longrightarrow> chat_inv gid (c\<lparr>privateChannels := m_erase i (privateChannels c)\<rparr>)"
  unfolding chat_inv_def by (auto simp: m_ok_erase split: if_splits)

lemma getChannel_private:
  "getChannel sc p i c = Some (Private j) \<Longrightarrow>
   j = i \<and> (\<exists>ch. m_find (privateChannels c) i = Some ch \<and> isInvited (cp_guid p) ch)"
  by (auto simp: getChannel_def split: if_splits option.splits)

lemma chat_inv_addUserTo:
  assumes "chat_inv gid c" and "person gid p" and "deref c r = Some ch"
    and "\<And>i. r = Private i \<Longrightarrow> isInvited (cp_guid p) ch"
  shows "chat_inv gid (assign r (fst (snd (addUser sc p ch))) c)"
proof (rule chat_inv_assign [OF assms(1,3)])
  show "ch_owner (fst (snd (addUser sc p ch))) = ch_owner ch" "ch_id (fst (snd (addUser sc p ch))) = ch_id ch"
    by (cases rule: addUser_cases [where sc = sc and p = p and ch = ch]; simp)+
  assume "\<exists>i. r = Private i"
  then obtain i where r: "r = Private i" ..
  then have "priv_ok gid ch" using assms(1,3) by (auto simp: chat_inv_def)
  then show "priv_ok gid (fst (snd (addUser sc p ch)))" using assms(2) assms(4) [OF r] by (rule priv_ok_addUser)
qed

lemma addUserToChannel_inv:
  assumes "chat_inv gid c" and "person gid p"
  shows "chat_inv gid (snd (addUserToChannel sc p i c))"
proof (cases "getChannel sc p i c")
  case None
  then show ?thesis using assms(1) by (simp add: addUserToChannel_def)
next
  case (Some r)
  show ?thesis
  proof (cases "deref c r")
    case None
    then show ?thesis using assms(1) Some by (simp add: addUserToChannel_def)
  next
    case ch: (Some ch)
    have "isInvited (cp_guid p) ch" if "r = Private j" for j
      using getChannel_private [of sc p i c j] Some ch that by auto
    then have "chat_inv gid (assign r (fst (snd (addUser sc p ch))) c)"
      using assms ch by (intro chat_inv_addUserTo) auto
    then show ?thesis using assms(1) Some ch
      by (auto simp: addUserToChannel_def split: prod.splits)
  qed
qed

lemma deleteChannel_inv: "chat_inv gid c \<Longrightarrow> chat_inv gid (snd (deleteChannel p i c))"
  by (auto simp: deleteChannel_def chat_inv_erase split: option.splits prod.splits intro: chat_inv_same)

lemma removeUserFromChannel_inv:
  assumes "chat_inv gid c"
  shows "chat_inv gid (snd (removeUserFromChannel sc p i c))"
proof (cases "getChannel sc p i c")
  case None
  then show ?thesis using assms by (simp add: removeUserFromChannel_def)
next
  case (Some r)
  show ?thesis
  proof (cases "deref c r")
    case None
    then show ?thesis using assms Some by (simp add: removeUserFromChannel_def)
  next
    case ch: (Some ch)
    let ?ch = "fst (snd (removeUser p ch))"
    have "priv_ok gid ?ch" if "\<exists>j. r = Private j"
      using assms ch that by (auto simp: chat_inv_def intro: priv_ok_removeUser)
    then have i: "chat_inv gid (assign r ?ch c)"
      using chat_inv_assign [OF assms ch, of ?ch] by (simp add: chat_simps)
    show ?thesis
      using assms Some ch i deleteChannel_inv
      by (auto simp: removeUserFromChannel_def Let_def split: prod.splits)
  qed
qed

lemma find_SomeD: "find P xs = Some x \<Longrightarrow> x \<in> set xs \<and> P x"
  by (induction xs) (auto split: if_splits)

lemma getPrivateChannel_Some:
  assumes "chat_inv gid c" and "getPrivateChannel p c = Some i"
  shows "\<exists>ch. m_find (privateChannels c) i = Some ch \<and> ch_owner ch = cp_guid p"
proof -
  obtain ch where "find (\<lambda>(_, ch). ch_owner ch = cp_guid p) (privateChannels c) = Some (i, ch)"
    using assms(2) by (auto simp: getPrivateChannel_def)
  then have "(i, ch) \<in> set (privateChannels c)" and o: "ch_owner ch = cp_guid p"
    by (auto dest!: find_SomeD)
  moreover have "m_ok (privateChannels c)" using assms(1) by (simp add: chat_inv_def)
  ultimately have "m_find (privateChannels c) i = Some ch" by (simp only: m_find_Some_iff)
  with o show ?thesis by blast
qed

lemma getPrivateChannel_None:
  assumes "getPrivateChannel p c = None" and "m_find (privateChannels c) i = Some ch"
  shows "ch_owner ch \<noteq> cp_guid p"
  using assms m_find_in_set by (fastforce simp: getPrivateChannel_def find_None_iff)

lemma private_slots_range: "i \<in> set private_slots \<Longrightarrow> 100 \<le> unat i \<and> unat i < 10000"
proof -
  assume "i \<in> set private_slots"
  then obtain n where n: "i = of_nat n" "100 \<le> n" "n < 10000"
    unfolding private_slots_def set_map set_upt by (elim imageE) (simp only: atLeastLessThan_iff)
  then have "unat i = n" by (simp add: unat_of_nat_small)
  with n show ?thesis by simp
qed

definition own_channel :: "chat_player \<Rightarrow> u16 \<Rightarrow> chat_channel" where
  "own_channel p j = (new_channel j (cp_name p @ [CHR 0x27] @ ''s Channel''))\<lparr>is_private := True, ch_owner := cp_guid p\<rparr>"

lemma channel_ids [simp]:
  "CHANNEL_PRIVATE \<noteq> CHANNEL_GUILD" "CHANNEL_PRIVATE \<noteq> CHANNEL_PARTY" "CHANNEL_PARTY \<noteq> CHANNEL_GUILD"
  by (simp_all add: CHANNEL_PRIVATE_def CHANNEL_PARTY_def CHANNEL_GUILD_def)

lemma createChannel_cases:
  obtains (other) "privateChannels (snd (createChannel sc p i c)) = privateChannels c"
      "\<And>j. fst (createChannel sc p i c) \<noteq> Some (Private j)"
  | (slot) j where "getPrivateChannel p c = None" "m_find (privateChannels c) j = None" "j \<in> set private_slots"
      "createChannel sc p i c = (Some (Private j), c\<lparr>privateChannels := m_put j (own_channel p j) (privateChannels c)\<rparr>)"
proof (cases "getChannel sc p i c = None \<and> i \<noteq> CHANNEL_GUILD \<and> i \<noteq> CHANNEL_PARTY \<and> i = CHANNEL_PRIVATE
    \<and> cp_premium p \<and> getPrivateChannel p c = None")
  case False
  have "privateChannels (snd (createChannel sc p i c)) = privateChannels c
      \<and> (\<forall>j. fst (createChannel sc p i c) \<noteq> Some (Private j))"
  proof -
    consider "getChannel sc p i c \<noteq> None"
      | "getChannel sc p i c = None" "i = CHANNEL_GUILD"
      | "getChannel sc p i c = None" "i \<noteq> CHANNEL_GUILD" "i = CHANNEL_PARTY"
      | "getChannel sc p i c = None" "i \<noteq> CHANNEL_GUILD" "i \<noteq> CHANNEL_PARTY"
        "i \<noteq> CHANNEL_PRIVATE \<or> \<not> cp_premium p \<or> getPrivateChannel p c \<noteq> None"
      using False by argo
    then show ?thesis unfolding createChannel_def by cases (auto split: option.split)
  qed
  then show ?thesis using other by blast
next
  case True
  then have i: "i = CHANNEL_PRIVATE" and t: "getChannel sc p CHANNEL_PRIVATE c = None" "cp_premium p"
      "getPrivateChannel p c = None"
    by auto
  have eq: "createChannel sc p i c =
      (case find (\<lambda>i. m_find (privateChannels c) i = None) private_slots of
         None \<Rightarrow> (None, c)
       | Some j \<Rightarrow> (Some (Private j), c\<lparr>privateChannels := m_put j (own_channel p j) (privateChannels c)\<rparr>))"
    unfolding i using t by (simp add: createChannel_def own_channel_def split: option.split)
  show ?thesis
  proof (cases "find (\<lambda>i. m_find (privateChannels c) i = None) private_slots")
    case None
    then show ?thesis using eq other by simp
  next
    case (Some j)
    then show ?thesis using eq True slot find_SomeD [OF Some] by simp
  qed
qed

lemma createChannel_inv:
  assumes "chat_inv gid c"
  shows "chat_inv gid (snd (createChannel sc p i c))"
    and "fst (createChannel sc p i c) = Some (Private j) \<Longrightarrow>
      \<exists>ch. deref (snd (createChannel sc p i c)) (Private j) = Some ch \<and> ch_owner ch = cp_guid p \<and> users ch = []"
proof -
  have new: "chat_inv gid (c\<lparr>privateChannels := m_put j (own_channel p j) (privateChannels c)\<rparr>)"
    if "m_find (privateChannels c) j = None" "j \<in> set private_slots" "getPrivateChannel p c = None" for j
  proof -
    have "priv_ok gid (own_channel p j)" "ch_id (own_channel p j) = j" "ch_owner (own_channel p j) = cp_guid p"
      by (simp_all add: priv_ok_def new_channel_def own_channel_def)
    then show ?thesis
      using assms private_slots_range [OF that(2)] getPrivateChannel_None [OF that(3)]
        getPrivateChannel_None [OF that(3), THEN not_sym] that(1)
      unfolding chat_inv_def by (simp add: m_ok_put)
  qed
  show "chat_inv gid (snd (createChannel sc p i c))"
    by (cases rule: createChannel_cases [where sc = sc and p = p and i = i and c = c])
      (use assms new in \<open>simp_all add: chat_inv_same\<close>)
  show "fst (createChannel sc p i c) = Some (Private j) \<Longrightarrow>
      \<exists>ch. deref (snd (createChannel sc p i c)) (Private j) = Some ch \<and> ch_owner ch = cp_guid p \<and> users ch = []"
    by (cases rule: createChannel_cases [where sc = sc and p = p and i = i and c = c])
      (simp_all add: own_channel_def new_channel_def)
qed

lemma playerCreatePrivateChannel_inv:
  assumes "chat_inv gid c" and "person gid p"
  shows "chat_inv gid (playerCreatePrivateChannel sc p c)"
proof -
  obtain ro c1 where cr: "createChannel sc p CHANNEL_PRIVATE c = (ro, c1)" by (cases "createChannel sc p CHANNEL_PRIVATE c")
  have c1: "chat_inv gid c1" using createChannel_inv(1) [OF assms(1), of sc p CHANNEL_PRIVATE] cr by simp
  show ?thesis
  proof (cases "\<exists>r ch. ro = Some r \<and> deref c1 r = Some ch")
    case False
    then show ?thesis using assms(1) c1 cr by (auto simp: playerCreatePrivateChannel_def split: option.splits)
  next
    case True
    then obtain r ch where r: "ro = Some r" "deref c1 r = Some ch" by blast
    have "isInvited (cp_guid p) ch" if "r = Private j" for j
      using createChannel_inv(2) [OF assms(1), of sc p CHANNEL_PRIVATE j] cr r that by (auto simp: isInvited_def)
    then have "chat_inv gid (assign r (fst (snd (addUser sc p ch))) c1)"
      using chat_inv_addUserTo [OF c1 assms(2) r(2)] by blast
    then show ?thesis using assms(1) c1 cr r
      by (auto simp: playerCreatePrivateChannel_def split: prod.splits)
  qed
qed

lemma playerChannelInvite_inv:
  assumes "chat_inv gid c"
  shows "chat_inv gid (playerChannelInvite p q c)"
proof (cases "\<exists>i x ch. getPrivateChannel p c = Some i \<and> q = Some x \<and> m_find (privateChannels c) i = Some ch")
  case False
  then show ?thesis using assms by (auto simp: playerChannelInvite_def split: option.splits)
next
  case True
  then obtain i x ch where i: "getPrivateChannel p c = Some i" "q = Some x" "m_find (privateChannels c) i = Some ch"
    by blast
  have "chat_inv gid (assign (Private i) (fst (ch_invitePlayer p x ch)) c)"
    using assms i(3) priv_ok_invite ch_invitePlayer_fields(2)
    by (intro chat_inv_assign [OF assms, of _ ch])
      (auto simp: chat_inv_def ch_invitePlayer_def split: prod.splits)
  then show ?thesis using assms i by (auto simp: playerChannelInvite_def simp del: assign.simps split: prod.splits)
qed

lemma playerChannelExclude_inv:
  assumes "chat_inv gid c" and "inj gid" and "\<And>x. q = Some x \<Longrightarrow> person gid x"
  shows "chat_inv gid (playerChannelExclude p q c)"
proof (cases "\<exists>i x ch. getPrivateChannel p c = Some i \<and> q = Some x \<and> m_find (privateChannels c) i = Some ch")
  case False
  then show ?thesis using assms(1) by (auto simp: playerChannelExclude_def split: option.splits)
next
  case True
  then obtain i x ch where i: "getPrivateChannel p c = Some i" "q = Some x" "m_find (privateChannels c) i = Some ch"
    by blast
  have ok: "priv_ok gid ch" using assms(1) i(3) by (auto simp: chat_inv_def)
  have "chat_inv gid (assign (Private i) (fst (ch_excludePlayer p x ch)) c)"
    using i(3) priv_ok_exclude [OF ok assms(3) [OF i(2)] assms(2)]
    by (intro chat_inv_assign [OF assms(1), of _ ch])
      (simp_all add: ch_excludePlayer_fields chat_simps ch_removeInvite_def)
  then show ?thesis using assms(1) i by (auto simp: playerChannelExclude_def simp del: assign.simps split: prod.splits)
qed

lemma list_or_create_inv: "chat_inv gid c \<Longrightarrow> chat_inv gid (snd (list_or_create sc p i c))"
  using createChannel_inv(1) [of gid c sc p i]
  by (auto simp: list_or_create_def split: option.splits prod.splits)

lemma getChannelList_inv: "chat_inv gid c \<Longrightarrow> chat_inv gid (snd (getChannelList sc p c))"
  by (simp add: getChannelList_def Let_def case_prod_beta list_or_create_inv)

text \<open>Logging out, one private channel at a time.\<close>

lemma remove_from_private_entries:
  "fst (remove_from_private p m) =
   map (\<lambda>(k, ch). (k, fst (snd (removeUser p (snd (ch_removeInvite (cp_guid p) ch))))))
     (filter (\<lambda>(k, ch). ch_owner ch \<noteq> cp_guid p) m)"
proof (induction m)
  case Nil
  then show ?case by simp
next
  case (Cons e m)
  obtain k ch where e: "e = (k, ch)" by (cases e)
  let ?ch = "snd (ch_removeInvite (cp_guid p) ch)"
  have "ch_owner (fst (snd (removeUser p ?ch))) = ch_owner ch"
    by (simp add: chat_simps ch_removeInvite_def)
  moreover obtain x a b where "removeUser p ?ch = (x, a, b)" by (cases "removeUser p ?ch")
  moreover obtain m' outs where "remove_from_private p m = (m', outs)" by (cases "remove_from_private p m")
  ultimately show ?case using Cons e by (simp add: Let_def)
qed

lemma m_find_map_snd: "m_find (map (\<lambda>(k, v). (k, f v)) m) k = map_option f (m_find m k)"
  by (induction m) auto

lemma m_ok_filter_map: "m_ok m \<Longrightarrow> m_ok (map (\<lambda>(k, v). (k, f v)) (filter P m))"
  by (induction m) (auto simp: m_ok_def)

lemma m_find_filter: "m_ok m \<Longrightarrow> m_find (filter (\<lambda>(k, v). P v) m) k = (case m_find m k of Some v \<Rightarrow> if P v then Some v else None | None \<Rightarrow> None)"
proof -
  assume ok: "m_ok m"
  then have ok': "m_ok (filter (\<lambda>(k, v). P v) m)" by (induction m) (auto simp: m_ok_def)
  have *: "m_find (filter (\<lambda>(k, v). P v) m) k = Some v \<longleftrightarrow> m_find m k = Some v \<and> P v" for v
    by (auto simp: m_find_Some_iff [OF ok] m_find_Some_iff [OF ok'])
  show ?thesis
  proof (cases "m_find m k")
    case None
    then have "m_find (filter (\<lambda>(k, v). P v) m) k \<noteq> Some v" for v unfolding * by simp
    then show ?thesis using None by (metis not_None_eq option.simps(4))
  next
    case (Some v)
    show ?thesis
    proof (cases "P v")
      case True
      then have "m_find (filter (\<lambda>(k, v). P v) m) k = Some v" unfolding * using Some by simp
      then show ?thesis using Some True by simp
    next
      case False
      then have "m_find (filter (\<lambda>(k, v). P v) m) k \<noteq> Some u" for u unfolding * using Some by auto
      then have "m_find (filter (\<lambda>(k, v). P v) m) k = None" by (metis not_None_eq)
      then show ?thesis using Some False by simp
    qed
  qed
qed

definition off_channel :: "chat_player \<Rightarrow> chat_channel \<Rightarrow> chat_channel" where
  "off_channel p ch = fst (snd (removeUser p (snd (ch_removeInvite (cp_guid p) ch))))"

lemma remove_from_private_find:
  assumes "m_ok m"
  shows "m_find (fst (remove_from_private p m)) k =
    (case m_find m k of
       Some ch \<Rightarrow> if ch_owner ch \<noteq> cp_guid p then Some (off_channel p ch) else None
     | None \<Rightarrow> None)"
  unfolding remove_from_private_entries
  using m_find_filter [OF assms, of "\<lambda>ch. ch_owner ch \<noteq> cp_guid p" k]
  by (auto simp: m_find_map_snd off_channel_def split: option.splits)

lemma removeUserFromAllChannels_fields:
  "normalChannels (removeUserFromAllChannels p c) = fst (remove_from_all p (normalChannels c))"
  "partyChannels (removeUserFromAllChannels p c) = fst (remove_from_all p (partyChannels c))"
  "guildChannels (removeUserFromAllChannels p c) = fst (remove_from_all p (guildChannels c))"
  "privateChannels (removeUserFromAllChannels p c) = fst (remove_from_private p (privateChannels c))"
  by (simp_all add: removeUserFromAllChannels_def Let_def chat_emit_def split: prod.splits)

lemma off_channel_fields:
  "ch_owner (off_channel p ch) = ch_owner ch" "ch_id (off_channel p ch) = ch_id ch"
  "users (off_channel p ch) = m_erase (cp_id p) (users ch)"
  "invites (off_channel p ch) = m_erase (cp_guid p) (invites ch)"
  by (simp_all add: off_channel_def chat_simps ch_removeInvite_def)

lemma removeUserFromAllChannels_inv:
  assumes "chat_inv gid c" and "person gid p" and "inj gid"
  shows "chat_inv gid (removeUserFromAllChannels p c)"
proof -
  let ?m = "privateChannels c" and ?m' = "privateChannels (removeUserFromAllChannels p c)"
  have ok: "m_ok ?m" using assms(1) by (simp add: chat_inv_def)
  have f: "\<exists>dh. m_find ?m k = Some dh \<and> ch = off_channel p dh" if "m_find ?m' k = Some ch" for k ch
    using that unfolding removeUserFromAllChannels_fields remove_from_private_find [OF ok]
    by (auto split: option.splits if_splits)
  have pv: "priv_ok gid (off_channel p dh)" if "priv_ok gid dh" for dh
    using priv_ok_uninvite [OF that assms(2,3)] by (simp add: off_channel_def)
  have "m_ok ?m'"
    unfolding removeUserFromAllChannels_fields remove_from_private_entries by (rule m_ok_filter_map [OF ok])
  moreover have "priv_ok gid ch \<and> ch_id ch = i \<and> 100 \<le> unat i \<and> unat i < 10000"
    if "m_find ?m' i = Some ch" for i ch
    using f [OF that] pv assms(1) by (auto simp: chat_inv_def off_channel_fields)
  moreover have "i = j" if "m_find ?m' i = Some ch" "m_find ?m' j = Some dh" "ch_owner ch = ch_owner dh" for i j ch dh
    using f [OF that(1)] f [OF that(2)] that(3) assms(1) by (auto simp: chat_inv_def off_channel_fields)
  ultimately show ?thesis unfolding chat_inv_def by blast
qed

section \<open>Properties\<close>

text \<open>What players do with channels; the second player of a request is whom a name was resolved to.\<close>

datatype chat_request =
  CreatePrivate chat_player
| InviteTo chat_player "chat_player option"
| ExcludeFrom chat_player "chat_player option"
| Open chat_player u16
| Close chat_player u16
| Talk chat_player speak_class string u16
| ShowChannels chat_player
| LeaveGame chat_player

fun chat_step :: "chat_scripts \<Rightarrow> chat_request \<Rightarrow> chat \<Rightarrow> chat" where
  "chat_step sc (CreatePrivate p) c = playerCreatePrivateChannel sc p c"
| "chat_step sc (InviteTo p q) c = playerChannelInvite p q c"
| "chat_step sc (ExcludeFrom p q) c = playerChannelExclude p q c"
| "chat_step sc (Open p i) c = playerOpenChannel sc p i c"
| "chat_step sc (Close p i) c = playerCloseChannel sc p i c"
| "chat_step sc (Talk p t s i) c = snd (talkToChannel sc p t s i c)"
| "chat_step sc (ShowChannels p) c = snd (getChannelList sc p c)"
| "chat_step sc (LeaveGame p) c = removeUserFromAllChannels p c"

fun request_players :: "chat_request \<Rightarrow> chat_player list" where
  "request_players (CreatePrivate p) = [p]"
| "request_players (InviteTo p q) = p # (case q of None \<Rightarrow> [] | Some x \<Rightarrow> [x])"
| "request_players (ExcludeFrom p q) = p # (case q of None \<Rightarrow> [] | Some x \<Rightarrow> [x])"
| "request_players (Open p i) = [p]"
| "request_players (Close p i) = [p]"
| "request_players (Talk p t s i) = [p]"
| "request_players (ShowChannels p) = [p]"
| "request_players (LeaveGame p) = [p]"

lemma talkToChannel_private: "privateChannels (snd (talkToChannel sc p t s i c)) = privateChannels c"
  by (auto simp: talkToChannel_def chat_simps split: option.splits prod.splits)

lemma chat_step_inv:
  assumes "chat_inv gid c" and "inj gid" and "\<forall>x \<in> set (request_players q). person gid x"
  shows "chat_inv gid (chat_step sc q c)"
proof (cases q)
  case (CreatePrivate p)
  then show ?thesis using assms playerCreatePrivateChannel_inv by simp
next
  case (InviteTo p x)
  then show ?thesis using assms(1) playerChannelInvite_inv by simp
next
  case (ExcludeFrom p x)
  then show ?thesis using assms playerChannelExclude_inv [OF assms(1,2)] by (auto split: option.splits)
next
  case (Open p i)
  then show ?thesis using addUserToChannel_inv [OF assms(1), of p sc i] assms(3)
    by (auto simp: playerOpenChannel_def split: option.splits prod.splits)
next
  case (Close p i)
  then show ?thesis using removeUserFromChannel_inv [OF assms(1)] by (simp add: playerCloseChannel_def)
next
  case (Talk p t s i)
  then show ?thesis using assms(1) talkToChannel_private by (auto intro: chat_inv_same)
next
  case (ShowChannels p)
  then show ?thesis using assms(1) getChannelList_inv by simp
next
  case (LeaveGame p)
  then show ?thesis using assms removeUserFromAllChannels_inv by simp
qed

lemma chat_run_inv:
  assumes "inj gid" and "\<forall>q \<in> set qs. \<forall>x \<in> set (request_players q). person gid x"
  shows "chat_inv gid c \<Longrightarrow> chat_inv gid (fold (chat_step sc) qs c)"
  using assms(2) by (induction qs arbitrary: c) (simp_all add: chat_step_inv [OF _ assms(1)])

text \<open>C4: whatever channels players open, close, create and delete and whomever owners invite and
  exclude, in any order: every user of a private channel is its owner or holds an invitation,
  nobody owns two private channels, and private channels use the ids 100 to 9999.\<close>

theorem private_channels_private:
  assumes "inj gid" and "\<forall>q \<in> set qs. \<forall>x \<in> set (request_players q). cp_guid x = gid (cp_id x)"
    and "privateChannels c0 = []"
    and "m_find (privateChannels (fold (chat_step sc) qs c0)) i = Some ch"
  shows "(\<forall>u g. m_find (users ch) u = Some g \<longrightarrow> g = gid u \<and> isInvited g ch)
     \<and> ch_id ch = i \<and> 100 \<le> unat i \<and> unat i < 10000
     \<and> (\<forall>j dh. m_find (privateChannels (fold (chat_step sc) qs c0)) j = Some dh \<longrightarrow> j \<noteq> i \<longrightarrow>
          ch_owner dh \<noteq> ch_owner ch)"
proof -
  have "chat_inv gid c0" using assms(3) by (simp add: chat_inv_def)
  then have inv: "chat_inv gid (fold (chat_step sc) qs c0)"
    using assms(1,2) by (intro chat_run_inv) (simp_all add: person_def)
  have p: "priv_ok gid ch" "ch_id ch = i" "100 \<le> unat i" "unat i < 10000"
    using inv assms(4) unfolding chat_inv_def by blast+
  have o: "ch_owner dh \<noteq> ch_owner ch"
    if "m_find (privateChannels (fold (chat_step sc) qs c0)) j = Some dh" "j \<noteq> i" for j dh
    using inv assms(4) that unfolding chat_inv_def by metis
  show ?thesis using p o unfolding priv_ok_def by blast
qed

definition demo_chat_player :: "u32 \<Rightarrow> chat_player" where
  "demo_chat_player i = \<lparr>cp_id = i, cp_guid = i + 7, cp_name = ''Rafa'', cp_female = False, cp_premium = True,
     cp_guild = None, cp_rank_level = None, cp_party = Some 3\<rparr>"

definition demo_chat_scripts :: chat_scripts where
  "demo_chat_scripts = \<lparr>sc_canJoin = (\<lambda>_ _. True), sc_onJoin = (\<lambda>_ _. True), sc_onSpeak = (\<lambda>_ _ t _. (True, t))\<rparr>"

text \<open>A private channel of player 1 with player 2 invited and listening.\<close>

definition demo_private :: chat_channel where
  "demo_private = (new_channel 100 ''Mine'')\<lparr>is_private := True, ch_owner := 8, invites := [(9, 2)], users := [(1, 8), (2, 9)]\<rparr>"

definition demo_chat :: chat where
  "demo_chat = chat_init\<lparr>privateChannels := [(100, demo_private)],
     partyChannels := [(3, (new_channel CHANNEL_PARTY ''Party'')\<lparr>users := [(1, 8), (2, 9)]\<rparr>)]\<rparr>"

lemma private_slots_Cons: "private_slots = 100 # map of_nat [Suc 100..<10000]"
proof -
  have "(100 :: nat) < 10000" by simp
  then have "[100..<10000 :: nat] = 100 # [Suc 100..<10000]" by (rule upt_conv_Cons)
  then show ?thesis unfolding private_slots_def by (simp only: list.map of_nat_numeral)
qed

theorem private_channels_private_witness:
  "\<exists>ch. m_find (privateChannels (fold (chat_step demo_chat_scripts) [CreatePrivate (demo_chat_player 1)] chat_init)) 100 = Some ch
     \<and> m_find (users ch) 1 = Some 8 \<and> isInvited 8 ch"
proof -
  let ?c = "fold (chat_step demo_chat_scripts) [CreatePrivate (demo_chat_player 1)] chat_init"
  have "find (\<lambda>i. m_find (privateChannels chat_init) i = None) private_slots = Some 100"
  proof -
    obtain ys where ys: "private_slots = 100 # ys" using private_slots_Cons by blast
    show ?thesis unfolding ys by (simp add: chat_init_def)
  qed
  then obtain ch where ch: "m_find (privateChannels ?c) 100 = Some ch" "m_find (users ch) 1 = Some 8"
    by (simp add: playerCreatePrivateChannel_def createChannel_def getChannel_def chat_init_def
        demo_chat_player_def CHANNEL_GUILD_def CHANNEL_PARTY_def CHANNEL_PRIVATE_def getPrivateChannel_def
        new_channel_def addUser_def executeOnJoinEvent_def chat_emit_def)
  have i: "inj (\<lambda>i :: u32. i + 7)" by (simp add: inj_on_def)
  have "isInvited 8 ch"
    using private_channels_private [OF i, of "[CreatePrivate (demo_chat_player 1)]" chat_init demo_chat_scripts 100 ch] ch
    by (auto simp: demo_chat_player_def chat_init_def)
  with ch show ?thesis by blast
qed

text \<open>C33: a player who leaves the game leaves every channel: the player is a user of no channel of any
  kind, no private channel keeps an invitation for the player's guid, and the player's own
  private channel is gone; every other channel keeps its other users and its owner.\<close>

theorem leaving_removes_from_all_channels:
  assumes "m_ok (privateChannels c)"
  shows "(\<forall>r ch. deref (removeUserFromAllChannels p c) r = Some ch \<longrightarrow>
        m_find (users ch) (cp_id p) = None
        \<and> (\<forall>i. r = Private i \<longrightarrow> m_find (invites ch) (cp_guid p) = None \<and> ch_owner ch \<noteq> cp_guid p))
     \<and> (\<forall>r ch. deref c r = Some ch \<longrightarrow> (\<exists>i. r = Private i \<and> ch_owner ch = cp_guid p) \<or>
          (\<exists>dh. deref (removeUserFromAllChannels p c) r = Some dh \<and> ch_owner dh = ch_owner ch
             \<and> (\<forall>u. u \<noteq> cp_id p \<longrightarrow> m_find (users dh) u = m_find (users ch) u)))"
proof -
  let ?c = "removeUserFromAllChannels p c" and ?rm = "\<lambda>ch. fst (snd (removeUser p ch))"
  have plain: "m_find (fst (remove_from_all p m)) k = map_option ?rm (m_find m k)"
    for m :: "('k \<times> chat_channel) list" and k
    by (simp add: remove_from_all_def m_find_map_snd)
  have d: "deref ?c r = (case r of
        Private i \<Rightarrow> (case m_find (privateChannels c) i of
            Some ch \<Rightarrow> if ch_owner ch \<noteq> cp_guid p then Some (off_channel p ch) else None | None \<Rightarrow> None)
      | _ \<Rightarrow> map_option ?rm (deref c r))" for r
    by (cases r)
      (simp_all add: removeUserFromAllChannels_fields plain remove_from_private_find [OF assms])
  have "m_find (users ch) (cp_id p) = None
        \<and> (\<forall>i. r = Private i \<longrightarrow> m_find (invites ch) (cp_guid p) = None \<and> ch_owner ch \<noteq> cp_guid p)"
    if "deref ?c r = Some ch" for r ch
    using that unfolding d
    by (auto simp: chat_simps off_channel_fields split: channel_ref.splits option.splits if_splits)
  moreover have "(\<exists>i. r = Private i \<and> ch_owner ch = cp_guid p) \<or>
          (\<exists>dh. deref ?c r = Some dh \<and> ch_owner dh = ch_owner ch
             \<and> (\<forall>u. u \<noteq> cp_id p \<longrightarrow> m_find (users dh) u = m_find (users ch) u))"
    if "deref c r = Some ch" for r ch
    using that unfolding d
    by (cases r) (auto simp: chat_simps off_channel_fields)
  ultimately show ?thesis by blast
qed

theorem leaving_removes_from_all_channels_witness:
  "\<exists>dh. deref (removeUserFromAllChannels (demo_chat_player 2) demo_chat) (Private 100) = Some dh
      \<and> m_find (users dh) 1 = Some 8 \<and> m_find (users dh) 2 = None"
proof -
  have ok: "m_ok (privateChannels demo_chat)" by (simp add: demo_chat_def m_ok_def)
  note t = leaving_removes_from_all_channels [OF ok, of "demo_chat_player 2"]
  have d: "deref demo_chat (Private 100) = Some demo_private" "ch_owner demo_private = 8"
      "m_find (users demo_private) 1 = Some 8"
    by (simp_all add: demo_chat_def demo_private_def new_channel_def)
  have p: "cp_guid (demo_chat_player 2) = 9" "cp_id (demo_chat_player 2) = 2"
    by (simp_all add: demo_chat_player_def)
  have gone: "m_find (users ch) 2 = None"
    if "deref (removeUserFromAllChannels (demo_chat_player 2) demo_chat) (Private 100) = Some ch" for ch
    using t [THEN conjunct1] that unfolding p by blast
  have "\<exists>dh. deref (removeUserFromAllChannels (demo_chat_player 2) demo_chat) (Private 100) = Some dh
      \<and> (\<forall>u. u \<noteq> 2 \<longrightarrow> m_find (users dh) u = m_find (users demo_private) u)"
    using t [THEN conjunct2, THEN spec, THEN spec, THEN mp, OF d(1)] unfolding p d(2) by force
  then show ?thesis using d(3) gone by force
qed



text \<open>leaving a party does not leave its chat channel. \<open>leaveParty\<close> and \<open>disband\<close> clear the player's
  party pointer before they call \<open>sendClosePrivate(CHANNEL_PARTY)\<close>, which looks the channel up
  through that pointer: no channel changes, so the former member stays a user and goes on
  receiving every message of the party.\<close>

theorem leaving_party_keeps_channel_user:
  assumes "cp_party p = None"
  shows "player_sendClosePrivate sc p CHANNEL_PARTY c = chat_emit [ChatClosePrivate (cp_id p) CHANNEL_PARTY] c"
  using assms
  by (simp add: player_sendClosePrivate_def removeUserFromChannel_def getChannel_def CHANNEL_PARTY_def
      CHANNEL_GUILD_def)

theorem leaving_party_keeps_channel_user_witness:
  "\<exists>ch. deref (player_sendClosePrivate demo_chat_scripts ((demo_chat_player 2)\<lparr>cp_party := None\<rparr>) CHANNEL_PARTY demo_chat)
         (PartyOf 3) = Some ch \<and> m_find (users ch) 2 = Some 9"
  using leaving_party_keeps_channel_user [of "(demo_chat_player 2)\<lparr>cp_party := None\<rparr>" demo_chat_scripts demo_chat]
  by (simp add: demo_chat_def chat_emit_def new_channel_def)

end
