(* ===== verification/Scheduling.thy ===== *)
theory Scheduling
  imports Prelude
begin

text \<open>
  The dispatcher and the scheduler: \<open>src/src/game/scheduling/tasks.cpp\<close>, \<open>tasks.h\<close>,
  \<open>scheduler.cpp\<close>, \<open>scheduler.h\<close> and \<open>src/src/utils/thread_holder_base.h\<close>. A pass of
  \<open>threadMain\<close> under its lock is one operation; times are milliseconds of the system clock and
  the clock is an argument. What a task does is left abstract: it is the value \<open>func\<close>.
  \<open>std::priority_queue\<close> is used through the interface \<open>priority_queue\<close>.
\<close>

section \<open>The priority queue interface\<close>

locale priority_queue =
  fixes push :: "'a \<Rightarrow> 'q \<Rightarrow> 'q"
    and top :: "'q \<Rightarrow> 'a option"
    and pop :: "'q \<Rightarrow> 'q"
    and elems :: "'q \<Rightarrow> 'a multiset"
    and key :: "'a \<Rightarrow> nat"
    and wf :: "'q \<Rightarrow> bool"
  assumes wf_push: "wf q \<Longrightarrow> wf (push x q)"
    and wf_pop: "wf q \<Longrightarrow> wf (pop q)"
    and elems_push: "elems (push x q) = add_mset x (elems q)"
    and top_None: "top q = None \<longleftrightarrow> elems q = {#}"
    and top_least: "wf q \<Longrightarrow> top q = Some x \<Longrightarrow> y \<in># elems q \<Longrightarrow> key x \<le> key y"
    and elems_pop: "top q = Some x \<Longrightarrow> elems q = add_mset x (elems (pop q))"
begin

lemma top_elem: "top q = Some x \<Longrightarrow> x \<in># elems q"
  using elems_pop by fastforce

lemma size_pop: "top q = Some x \<Longrightarrow> size (elems q) = Suc (size (elems (pop q)))"
  using elems_pop by fastforce

lemma pop_subset: "top q = Some x \<Longrightarrow> y \<in># elems (pop q) \<Longrightarrow> y \<in># elems q"
  using elems_pop by fastforce

end

section \<open>Tasks\<close>

datatype thread_state = THREAD_STATE_RUNNING | THREAD_STATE_CLOSING | THREAD_STATE_TERMINATED

text \<open>A task either calls its function or is the task that \<open>Dispatcher::shutdown\<close> posts.\<close>

datatype 'f action = Call 'f | SetTerminated

record 'f task =
  expiration :: nat
  func :: "'f action"

record 'f scheduler_task = "'f task" +
  eventId :: u32

definition SYSTEM_TIME_ZERO :: nat where "SYSTEM_TIME_ZERO = 0"

definition createTask :: "'f action \<Rightarrow> 'f task" where
  "createTask f = \<lparr>expiration = SYSTEM_TIME_ZERO, func = f\<rparr>"

definition createTask_ms :: "u32 \<Rightarrow> 'f action \<Rightarrow> nat \<Rightarrow> 'f task" where
  "createTask_ms ms f now = \<lparr>expiration = now + unat ms, func = f\<rparr>"

definition setDontExpire :: "('f, 'b) task_scheme \<Rightarrow> ('f, 'b) task_scheme" where
  "setDontExpire t = t\<lparr>expiration := SYSTEM_TIME_ZERO\<rparr>"

definition hasExpired :: "nat \<Rightarrow> ('f, 'b) task_scheme \<Rightarrow> bool" where
  "hasExpired now t = (if expiration t = SYSTEM_TIME_ZERO then False else expiration t < now)"

section \<open>The dispatcher\<close>

record 'f dispatcher =
  disp_state :: thread_state
  taskList :: "'f task list"
  dispatcherCycle :: u64

definition addTask :: "'f task \<Rightarrow> bool \<Rightarrow> 'f dispatcher \<Rightarrow> 'f dispatcher" where
  "addTask t push_front d =
     (if disp_state d = THREAD_STATE_RUNNING
      then (if push_front then d\<lparr>taskList := t # taskList d\<rparr> else d\<lparr>taskList := taskList d @ [t]\<rparr>)
      else d)"

definition disp_shutdown :: "'f dispatcher \<Rightarrow> 'f dispatcher" where
  "disp_shutdown d = d\<lparr>taskList := taskList d @ [createTask SetTerminated]\<rparr>"

definition perform :: "'f action \<Rightarrow> 'f dispatcher \<Rightarrow> 'f dispatcher \<times> 'f list" where
  "perform a d =
     (case a of Call f \<Rightarrow> (d, [f]) | SetTerminated \<Rightarrow> (d\<lparr>disp_state := THREAD_STATE_TERMINATED\<rparr>, []))"

text \<open>One pass of the loop; the second component lists the functions it called.\<close>

definition disp_pass :: "nat \<Rightarrow> 'f dispatcher \<Rightarrow> 'f dispatcher \<times> 'f list" where
  "disp_pass now d =
     (if disp_state d = THREAD_STATE_TERMINATED then (d, [])
      else case taskList d of
        [] \<Rightarrow> (d, [])
      | t # ts \<Rightarrow>
          let d = d\<lparr>taskList := ts\<rparr>
          in if \<not> hasExpired now t
             then perform (func t) (d\<lparr>dispatcherCycle := dispatcherCycle d + 1\<rparr>)
             else (d, []))"

fun disp_passes :: "nat \<Rightarrow> nat \<Rightarrow> 'f dispatcher \<Rightarrow> 'f dispatcher \<times> 'f list" where
  "disp_passes now 0 d = (d, [])"
| "disp_passes now (Suc n) d =
     (let (d, out) = disp_pass now d; (d, outs) = disp_passes now n d in (d, out @ outs))"

definition thread_start :: "'f dispatcher \<Rightarrow> 'f dispatcher" where
  "thread_start d = d\<lparr>disp_state := THREAD_STATE_RUNNING\<rparr>"

definition thread_stop :: "'f dispatcher \<Rightarrow> 'f dispatcher" where
  "thread_stop d = d\<lparr>disp_state := THREAD_STATE_CLOSING\<rparr>"

definition calls :: "nat \<Rightarrow> 'f task list \<Rightarrow> 'f list" where
  "calls now ts = concat (map (\<lambda>t. case func t of Call f \<Rightarrow> [f] | SetTerminated \<Rightarrow> [])
                              (filter (\<lambda>t. \<not> hasExpired now t) ts))"

lemma calls_simps [simp]:
  "calls now [] = []"
  "calls now (t # ts) =
     (if hasExpired now t then [] else case func t of Call f \<Rightarrow> [f] | SetTerminated \<Rightarrow> []) @ calls now ts"
  by (simp_all add: calls_def)

definition ordinary :: "'f task \<Rightarrow> bool" where
  "ordinary t \<longleftrightarrow> func t \<noteq> SetTerminated"

lemma disp_pass_ordinary:
  assumes "disp_state d \<noteq> THREAD_STATE_TERMINATED" "taskList d = t # ts" "ordinary t"
  shows "disp_pass now d =
    (d\<lparr>taskList := ts, dispatcherCycle := dispatcherCycle d + (if hasExpired now t then 0 else 1)\<rparr>,
     if hasExpired now t then [] else case func t of Call f \<Rightarrow> [f] | SetTerminated \<Rightarrow> [])"
  using assms by (cases "func t") (auto simp: disp_pass_def perform_def ordinary_def)

lemma disp_passes_ordinary:
  assumes "disp_state d \<noteq> THREAD_STATE_TERMINATED" "taskList d = ts @ rest" "list_all ordinary ts"
  shows "disp_passes now (length ts) d =
    (d\<lparr>taskList := rest,
       dispatcherCycle := dispatcherCycle d + of_nat (length (filter (\<lambda>t. \<not> hasExpired now t) ts))\<rparr>,
     calls now ts)"
  using assms
proof (induction ts arbitrary: d)
  case Nil
  then show ?case by simp
next
  case (Cons t ts)
  let ?d = "d\<lparr>taskList := ts @ rest,
    dispatcherCycle := dispatcherCycle d + (if hasExpired now t then 0 else 1)\<rparr>"
  have "disp_passes now (length ts) ?d =
    (?d\<lparr>taskList := rest,
       dispatcherCycle := dispatcherCycle ?d + of_nat (length (filter (\<lambda>t. \<not> hasExpired now t) ts))\<rparr>,
     calls now ts)"
    by (rule Cons.IH) (use Cons.prems in simp_all)
  then show ?case
    using Cons.prems disp_pass_ordinary [of d t "ts @ rest" now] by (simp add: ac_simps)
qed

lemma disp_passes_terminated:
  "disp_state d = THREAD_STATE_TERMINATED \<Longrightarrow> disp_passes now n d = (d, [])"
  by (induction n) (simp_all add: disp_pass_def)

lemma disp_passes_add:
  "disp_passes now (m + n) d =
     (let (d, a) = disp_passes now m d; (d, b) = disp_passes now n d in (d, a @ b))"
  by (induction m arbitrary: d) (simp_all add: case_prod_beta Let_def)


definition demo_dispatcher :: "nat dispatcher" where
  "demo_dispatcher =
     addTask (createTask_ms 50 (Call 3) 1000) False
       (addTask (createTask (Call 2)) True
         (addTask (createTask_ms 2000 (Call 1) 1000) False
           (thread_start \<lparr>disp_state = THREAD_STATE_TERMINATED, taskList = [], dispatcherCycle = 0\<rparr>)))"


section \<open>The scheduler\<close>

text \<open>
  \<open>eventList\<close> is the priority queue: a list in ascending \<open>getCycle\<close> order. The standard leaves the
  order of events with the same cycle open; here an event goes after those already queued.
\<close>

record 'f scheduler =
  sch_state :: thread_state
  lastEventId :: u32
  eventList :: "'f scheduler_task list"
  eventIds :: "u32 set"

definition getCycle :: "'f scheduler_task \<Rightarrow> nat" where
  "getCycle t = expiration t"

definition createSchedulerTask :: "u32 \<Rightarrow> 'f action \<Rightarrow> nat \<Rightarrow> 'f scheduler_task" where
  "createSchedulerTask delay f now = \<lparr>expiration = now + unat delay, func = f, eventId = 0\<rparr>"

fun pq_push :: "'f scheduler_task \<Rightarrow> 'f scheduler_task list \<Rightarrow> 'f scheduler_task list" where
  "pq_push t [] = [t]"
| "pq_push t (u # us) = (if getCycle t < getCycle u then t # u # us else u # pq_push t us)"

definition pq_top :: "'f scheduler_task list \<Rightarrow> 'f scheduler_task option" where
  "pq_top q = (case q of [] \<Rightarrow> None | t # _ \<Rightarrow> Some t)"

definition pq_ok :: "'f scheduler_task list \<Rightarrow> bool" where
  "pq_ok q \<longleftrightarrow> sorted (map getCycle q)"

lemma mset_pq_push [simp]: "mset (pq_push t q) = add_mset t (mset q)"
  by (induction t q rule: pq_push.induct) auto

lemma set_pq_push [simp]: "set (pq_push t q) = insert t (set q)"
  by (induction t q rule: pq_push.induct) auto

lemma pq_ok_push: "pq_ok q \<Longrightarrow> pq_ok (pq_push t q)"
  by (induction t q rule: pq_push.induct) (auto simp: pq_ok_def)

lemma pq_ok_tl: "pq_ok q \<Longrightarrow> pq_ok (tl q)"
  by (simp add: pq_ok_def map_tl sorted_tl)

lemma pq_top_least: "pq_ok q \<Longrightarrow> pq_top q = Some t \<Longrightarrow> u \<in> set q \<Longrightarrow> getCycle t \<le> getCycle u"
  by (cases q) (auto simp: pq_ok_def pq_top_def)

interpretation event_queue: priority_queue pq_push pq_top tl mset getCycle pq_ok
proof unfold_locales
  fix q :: "'f scheduler_task list" and t
  show "(pq_top q = None) = (mset q = {#})"
    by (cases q) (simp_all add: pq_top_def)
  show "pq_top q = Some t \<Longrightarrow> mset q = add_mset t (mset (tl q))"
    by (cases q) (simp_all add: pq_top_def)
qed (auto simp: pq_ok_push pq_ok_tl intro: pq_top_least)

definition addEvent ::
    "'f scheduler_task \<Rightarrow> 'f scheduler \<Rightarrow> u32 \<times> 'f scheduler" where
  "addEvent t s =
     (if sch_state s = THREAD_STATE_RUNNING
      then let (t, s) =
             (if eventId t = 0
              then let i = lastEventId s + 1; i = (if i = 0 then 1 else i)
                   in (t\<lparr>eventId := i\<rparr>, s\<lparr>lastEventId := i\<rparr>)
              else (t, s))
           in (eventId t, s\<lparr>eventIds := insert (eventId t) (eventIds s), eventList := pq_push t (eventList s)\<rparr>)
      else (0, s))"

definition stopEvent :: "u32 \<Rightarrow> 'f scheduler \<Rightarrow> bool \<times> 'f scheduler" where
  "stopEvent i s =
     (if i = 0 then (False, s)
      else if i \<notin> eventIds s then (False, s)
      else (True, s\<lparr>eventIds := eventIds s - {i}\<rparr>))"

definition sch_shutdown :: "'f scheduler \<Rightarrow> 'f scheduler" where
  "sch_shutdown s = s\<lparr>sch_state := THREAD_STATE_TERMINATED, eventList := [], eventIds := {}\<rparr>"

text \<open>
  One pass of the loop at time \<open>now\<close>: \<open>wait_until\<close> times out when the cycle of the top event has
  come. The last component is the id of the event handed to the dispatcher, if any.
\<close>

definition sch_pass :: "nat \<Rightarrow> 'f scheduler \<Rightarrow> 'f dispatcher \<Rightarrow> 'f scheduler \<times> 'f dispatcher \<times> u32 list" where
  "sch_pass now s d =
     (if sch_state s = THREAD_STATE_TERMINATED then (s, d, [])
      else case pq_top (eventList s) of
        None \<Rightarrow> (s, d, [])
      | Some t \<Rightarrow>
          if getCycle t \<le> now
          then let s = s\<lparr>eventList := tl (eventList s)\<rparr>
               in if eventId t \<notin> eventIds s then (s, d, [])
                  else (s\<lparr>eventIds := eventIds s - {eventId t}\<rparr>,
                        addTask (task.truncate (setDontExpire t)) True d, [eventId t])
          else (s, d, []))"

fun sch_passes ::
    "nat \<Rightarrow> nat \<Rightarrow> 'f scheduler \<Rightarrow> 'f dispatcher \<Rightarrow> 'f scheduler \<times> 'f dispatcher \<times> u32 list" where
  "sch_passes now 0 s d = (s, d, [])"
| "sch_passes now (Suc n) s d =
     (let (s, d, a) = sch_pass now s d; (s, d, b) = sch_passes now n s d in (s, d, a @ b))"

definition sch_init :: "'f scheduler" where
  "sch_init = \<lparr>sch_state = THREAD_STATE_RUNNING, lastEventId = 0, eventList = [], eventIds = {}\<rparr>"

section \<open>Scheduler and dispatcher together\<close>

text \<open>
  What the threads of the server do to the pair: schedule and cancel events, run a pass of either
  loop, post ordinary tasks, and let time pass. The log records the events that were added (with the
  time they are due), cancelled and handed to the dispatcher.
\<close>

datatype 'f sched_request =
  Schedule u32 'f | Cancel u32 | SchedulerPass | DispatcherPass | Post 'f bool | Elapse nat

datatype sched_entry = Added u32 nat | Cancelled u32 | Dispatched u32 nat

type_synonym 'f sched_system = "nat \<times> 'f scheduler \<times> 'f dispatcher"

fun sched_step :: "'f sched_request \<Rightarrow> 'f sched_system \<Rightarrow> 'f sched_system \<times> sched_entry list" where
  "sched_step (Schedule delay f) (now, s, d) =
     (let t = createSchedulerTask delay (Call f) now; (i, s') = addEvent t s
      in ((now, s', d), if i = 0 then [] else [Added i (getCycle t)]))"
| "sched_step (Cancel i) (now, s, d) =
     (let (ok, s') = stopEvent i s in ((now, s', d), if ok then [Cancelled i] else []))"
| "sched_step SchedulerPass (now, s, d) =
     (let (s, d, ids) = sch_pass now s d in ((now, s, d), map (\<lambda>i. Dispatched i now) ids))"
| "sched_step DispatcherPass (now, s, d) = ((now, s, fst (disp_pass now d)), [])"
| "sched_step (Post f front) (now, s, d) = ((now, s, addTask (createTask (Call f)) front d), [])"
| "sched_step (Elapse k) (now, s, d) = ((now + k, s, d), [])"

fun sched_run :: "'f sched_request list \<Rightarrow> 'f sched_system \<Rightarrow> 'f sched_system \<times> sched_entry list" where
  "sched_run [] x = (x, [])"
| "sched_run (r # rs) x = (let (x, a) = sched_step r x; (x, b) = sched_run rs x in (x, a @ b))"

definition added_ids :: "sched_entry list \<Rightarrow> u32 list" where
  "added_ids l = concat (map (\<lambda>e. case e of Added i _ \<Rightarrow> [i] | _ \<Rightarrow> []) l)"

definition cancelled_ids :: "sched_entry list \<Rightarrow> u32 list" where
  "cancelled_ids l = concat (map (\<lambda>e. case e of Cancelled i \<Rightarrow> [i] | _ \<Rightarrow> []) l)"

definition dispatched_ids :: "sched_entry list \<Rightarrow> u32 list" where
  "dispatched_ids l = concat (map (\<lambda>e. case e of Dispatched i _ \<Rightarrow> [i] | _ \<Rightarrow> []) l)"

lemma log_append [simp]:
  "added_ids (a @ b) = added_ids a @ added_ids b"
  "cancelled_ids (a @ b) = cancelled_ids a @ cancelled_ids b"
  "dispatched_ids (a @ b) = dispatched_ids a @ dispatched_ids b"
  by (simp_all add: added_ids_def cancelled_ids_def dispatched_ids_def)

lemma log_simps [simp]:
  "added_ids [] = []" "cancelled_ids [] = []" "dispatched_ids [] = []"
  "added_ids (Added i n # l) = i # added_ids l"
  "added_ids (Cancelled i # l) = added_ids l"
  "added_ids (Dispatched i n # l) = added_ids l"
  "cancelled_ids (Added i n # l) = cancelled_ids l"
  "cancelled_ids (Cancelled i # l) = i # cancelled_ids l"
  "cancelled_ids (Dispatched i n # l) = cancelled_ids l"
  "dispatched_ids (Added i n # l) = dispatched_ids l"
  "dispatched_ids (Cancelled i # l) = dispatched_ids l"
  "dispatched_ids (Dispatched i n # l) = i # dispatched_ids l"
  by (simp_all add: added_ids_def cancelled_ids_def dispatched_ids_def)

text \<open>Ids are handed out in sequence, so before the counter wraps they are all different.\<close>

lemma of_nat_ids_distinct: "n < 2 ^ LENGTH('a) \<Longrightarrow> distinct (map (of_nat :: nat \<Rightarrow> 'a :: len word) [1..<Suc n])"
  by (auto simp: distinct_map inj_on_def of_nat_inverse dest: arg_cong [where f = unat])

text \<open>The invariant: how the scheduler's state follows from the log so far.\<close>

definition ids_in_sequence :: "sched_entry list \<Rightarrow> bool" where
  "ids_in_sequence l \<longleftrightarrow> added_ids l = map of_nat [1..<Suc (length (added_ids l))]"

definition log_ok :: "sched_entry list \<Rightarrow> bool" where
  "log_ok l \<longleftrightarrow>
     ids_in_sequence l \<and> set (cancelled_ids l) \<subseteq> set (added_ids l) \<and> distinct (dispatched_ids l)
   \<and> set (dispatched_ids l) \<inter> set (cancelled_ids l) = {}
   \<and> (\<forall>i n. Dispatched i n \<in> set l \<longrightarrow> (\<exists>due. Added i due \<in> set l \<and> due \<le> n))"

definition sched_inv :: "sched_entry list \<Rightarrow> 'f scheduler \<Rightarrow> bool" where
  "sched_inv l s \<longleftrightarrow>
     log_ok l
   \<and> (sch_state s = THREAD_STATE_RUNNING \<and> lastEventId s = of_nat (length (added_ids l)))
   \<and> (pq_ok (eventList s) \<and> distinct (map eventId (eventList s))
      \<and> (\<forall>t \<in> set (eventList s). Added (eventId t) (getCycle t) \<in> set l))
   \<and> (eventIds s \<subseteq> eventId ` set (eventList s)
      \<and> eventIds s = set (added_ids l) - set (cancelled_ids l) - set (dispatched_ids l))"

lemma sched_inv_init: "sched_inv [] sch_init"
  by (simp add: sched_inv_def sch_init_def pq_ok_def log_ok_def ids_in_sequence_def)

lemma Added_in_ids: "Added i n \<in> set l \<Longrightarrow> i \<in> set (added_ids l)"
  by (force simp: added_ids_def)

lemma ids_in_log: "i \<in> set (dispatched_ids l) \<Longrightarrow> \<exists>n. Dispatched i n \<in> set l"
  by (auto simp: dispatched_ids_def split: sched_entry.splits)

lemma dispatched_subset_added: "log_ok l \<Longrightarrow> set (dispatched_ids l) \<subseteq> set (added_ids l)"
  unfolding log_ok_def using ids_in_log Added_in_ids by blast

lemma next_id_fresh:
  assumes "ids_in_sequence l" and "Suc (length (added_ids l)) < 2 ^ 32"
    and i: "i = of_nat (length (added_ids l)) + 1"
  shows "i \<noteq> 0" and "i \<notin> set (added_ids l)" and "ids_in_sequence (l @ [Added i n])"
proof -
  let ?n = "length (added_ids l)"
  have eq: "i = (of_nat (Suc ?n) :: u32)" by (simp add: i)
  have "unat (of_nat (Suc ?n) :: u32) = Suc ?n"
    using assms(2) by (intro unat_of_nat_small) simp
  then show "i \<noteq> 0"
    unfolding eq by (metis nat.distinct(1) unat_0)
  have app: "added_ids l @ [i] = map of_nat [1..<Suc (Suc ?n)]"
    using assms(1) unfolding ids_in_sequence_def eq by simp
  then show "ids_in_sequence (l @ [Added i n])"
    by (simp add: ids_in_sequence_def)
  have "distinct (map (of_nat :: nat \<Rightarrow> u32) [1..<Suc (Suc ?n)])"
    using assms(2) by (intro of_nat_ids_distinct) simp
  then show "i \<notin> set (added_ids l)"
    unfolding app [symmetric] by simp
qed

lemma getCycle_eventId [simp]: "getCycle (t\<lparr>eventId := i\<rparr>) = getCycle t"
  by (simp add: getCycle_def)

lemma distinct_ids_push:
  "distinct (map eventId (pq_push t q)) \<longleftrightarrow> eventId t \<notin> eventId ` set q \<and> distinct (map eventId q)"
proof -
  have "mset (map eventId (pq_push t q)) = mset (map eventId (t # q))" by simp
  then have "distinct (map eventId (pq_push t q)) = distinct (map eventId (t # q))"
    by (rule mset_eq_imp_distinct_iff)
  then show ?thesis by simp
qed

lemma log_ok_add:
  assumes "log_ok l" and "i \<notin> set (added_ids l)" and "ids_in_sequence (l @ [Added i n])"
  shows "log_ok (l @ [Added i n])"
  using assms unfolding log_ok_def by simp blast

lemma sched_inv_add:
  assumes inv: "sched_inv l s" and few: "Suc (length (added_ids l)) < 2 ^ 32" and t: "eventId t = 0"
    and add: "addEvent t s = (i, s')"
  shows "i \<noteq> 0" and "sched_inv (l @ [Added i (getCycle t)]) s'"
proof -
  note I = inv [unfolded sched_inv_def]
  have l: "log_ok l" and seq: "ids_in_sequence l"
    using I by (simp_all add: log_ok_def)
  let ?i = "of_nat (length (added_ids l)) + 1"
  note fresh = next_id_fresh [OF seq few refl]
  have i: "i = ?i" and s': "s' = s\<lparr>lastEventId := i, eventIds := insert i (eventIds s),
        eventList := pq_push (t\<lparr>eventId := i\<rparr>) (eventList s)\<rparr>"
    using add I t fresh(1) by (auto simp: addEvent_def Let_def)
  show "i \<noteq> 0" using fresh(1) i by simp
  have i_new: "i \<notin> set (added_ids l)" and seq': "ids_in_sequence (l @ [Added i n])" for n
    using fresh(2,3) i by simp_all
  then have "i \<notin> set (dispatched_ids l)" "i \<notin> set (cancelled_ids l)"
    using l dispatched_subset_added [OF l] unfolding log_ok_def by blast+
  moreover have "i \<notin> eventId ` set (eventList s)"
    using I Added_in_ids i_new by blast
  ultimately show "sched_inv (l @ [Added i (getCycle t)]) s'"
    using I log_ok_add [OF l i_new seq'] unfolding sched_inv_def s'
    by (auto simp: pq_ok_push distinct_ids_push i)
qed

lemma log_ok_cancel:
  assumes "log_ok l" and "i \<in> set (added_ids l)" and "i \<notin> set (dispatched_ids l)"
  shows "log_ok (l @ [Cancelled i])"
  using assms unfolding log_ok_def ids_in_sequence_def by auto

lemma sched_inv_cancel:
  assumes inv: "sched_inv l s" and stop: "stopEvent i s = (ok, s')"
  shows "sched_inv (l @ (if ok then [Cancelled i] else [])) s'"
proof (cases ok)
  case True
  note I = inv [unfolded sched_inv_def]
  have i: "i \<in> eventIds s" and s': "s' = s\<lparr>eventIds := eventIds s - {i}\<rparr>"
    using stop True by (auto simp: stopEvent_def split: if_splits)
  have "log_ok (l @ [Cancelled i])"
    by (rule log_ok_cancel) (use I i in blast)+
  then show ?thesis
    using I True unfolding sched_inv_def s' by auto
next
  case False
  then have "s' = s" using stop by (auto simp: stopEvent_def split: if_splits)
  then show ?thesis using inv False by simp
qed

lemma sch_pass_cases:
  assumes "sch_pass now s d = (s', d', ids)"
  obtains "s' = s" "d' = d" "ids = []"
  | t q where "eventList s = t # q" "getCycle t \<le> now" "eventId t \<notin> eventIds s"
      "s' = s\<lparr>eventList := q\<rparr>" "d' = d" "ids = []"
  | t q where "eventList s = t # q" "getCycle t \<le> now" "eventId t \<in> eventIds s"
      "s' = s\<lparr>eventList := q, eventIds := eventIds s - {eventId t}\<rparr>"
      "d' = addTask (task.truncate (setDontExpire t)) True d" "ids = [eventId t]"
proof (cases "sch_state s = THREAD_STATE_TERMINATED \<or> eventList s = [] \<or> now < getCycle (hd (eventList s))")
  case True
  then show thesis
    using assms by (intro that(1)) (auto simp: sch_pass_def pq_top_def split: list.splits if_splits)
next
  case False
  then obtain t q where q: "eventList s = t # q" "getCycle t \<le> now" by (cases "eventList s") auto
  show thesis
  proof (cases "eventId t \<in> eventIds s")
    case True
    with q False assms show thesis
      by (intro that(3) [OF q True]) (auto simp: sch_pass_def pq_top_def Let_def)
  next
    case no: False
    with q False assms show thesis
      by (intro that(2) [OF q no]) (auto simp: sch_pass_def pq_top_def Let_def)
  qed
qed

lemma log_ok_dispatch:
  assumes "log_ok l" and "i \<notin> set (dispatched_ids l)" and "i \<notin> set (cancelled_ids l)"
    and "Added i due \<in> set l" and "due \<le> n"
  shows "log_ok (l @ [Dispatched i n])"
  using assms unfolding log_ok_def ids_in_sequence_def by auto

lemma sched_inv_pass:
  assumes inv: "sched_inv l s" and pass: "sch_pass now s d = (s', d', ids)"
  shows "sched_inv (l @ map (\<lambda>i. Dispatched i now) ids) s'"
  using pass
proof (cases rule: sch_pass_cases)
  case 1
  then show ?thesis using inv by simp
next
  case (2 t q)
  with inv show ?thesis
    unfolding sched_inv_def by (auto simp: pq_ok_def)
next
  case (3 t q)
  note I = inv [unfolded sched_inv_def]
  have "log_ok (l @ [Dispatched (eventId t) now])"
    by (rule log_ok_dispatch [where due = "getCycle t"]) (use I 3 in auto)
  with I 3 show ?thesis
    unfolding sched_inv_def by (auto simp: pq_ok_def)
qed

lemma sched_inv_step:
  assumes inv: "sched_inv l s" and step: "sched_step r (now, s, d) = ((now', s', d'), a)"
    and few: "length (added_ids (l @ a)) < 2 ^ 32"
  shows "sched_inv (l @ a) s'"
proof (cases r)
  case (Schedule delay f)
  let ?t = "createSchedulerTask delay (Call f) now"
  obtain i s1 where add: "addEvent ?t s = (i, s1)" by (cases "addEvent ?t s")
  have t: "eventId ?t = 0" by (simp add: createSchedulerTask_def)
  show ?thesis
  proof (cases "i = 0")
    case True
    have "i \<noteq> 0" using add t inv by (auto simp: addEvent_def Let_def sched_inv_def split: if_splits)
    with True show ?thesis by blast
  next
    case False
    then have "a = [Added i (getCycle ?t)]" "s' = s1" using step Schedule add by auto
    then show ?thesis using sched_inv_add(2) [OF inv _ t add] few by simp
  qed
next
  case (Cancel i)
  then show ?thesis using step sched_inv_cancel [OF inv] by (auto split: prod.splits)
next
  case SchedulerPass
  then show ?thesis using step sched_inv_pass [OF inv] by (auto split: prod.splits)
qed (use inv step in \<open>auto simp: Let_def\<close>)

lemma sched_inv_run:
  assumes "sched_inv l s" and "sched_run rs (now, s, d) = ((now', s', d'), a)"
    and "length (added_ids (l @ a)) < 2 ^ 32"
  shows "sched_inv (l @ a) s'"
  using assms
proof (induction rs arbitrary: l now s d a)
  case Nil
  then show ?case by simp
next
  case (Cons r rs)
  obtain n1 s1 d1 a1 where step: "sched_step r (now, s, d) = ((n1, s1, d1), a1)"
    by (cases "sched_step r (now, s, d)") auto
  obtain b where run: "sched_run rs (n1, s1, d1) = ((now', s', d'), b)" and a: "a = a1 @ b"
    using Cons.prems(2) step by (auto split: prod.splits)
  have "sched_inv (l @ a1) s1"
    by (rule sched_inv_step [OF Cons.prems(1) step]) (use Cons.prems(3) a in simp)
  from Cons.IH [OF this run] Cons.prems(3) a show ?case by simp
qed

definition dispatcher_started :: "'f dispatcher" where
  "dispatcher_started =
     thread_start \<lparr>disp_state = THREAD_STATE_TERMINATED, taskList = [], dispatcherCycle = 0\<rparr>"



text \<open>
  A pass hands a due event over or drops a cancelled one, so passes at a time when everything queued
  is due empty the queue.
\<close>

definition to_task :: "'f scheduler_task \<Rightarrow> 'f task" where
  "to_task t = task.truncate (setDontExpire t)"

definition pending :: "'f scheduler \<Rightarrow> 'f scheduler_task list" where
  "pending s = filter (\<lambda>t. eventId t \<in> eventIds s) (eventList s)"

lemma sch_passes_due:
  assumes "sch_state s = THREAD_STATE_RUNNING" and "disp_state d = THREAD_STATE_RUNNING"
    and "\<forall>t \<in> set (eventList s). getCycle t \<le> now" and "distinct (map eventId (eventList s))"
  shows "sch_passes now (length (eventList s)) s d =
    (s\<lparr>eventList := [], eventIds := eventIds s - eventId ` set (eventList s)\<rparr>,
     d\<lparr>taskList := rev (map to_task (pending s)) @ taskList d\<rparr>, map eventId (pending s))"
  using assms
proof (induction "eventList s" arbitrary: s d)
  case Nil
  then show ?case by (simp add: pending_def)
next
  case (Cons t q)
  note eq = Cons.hyps(2) [symmetric]
  show ?case
  proof (cases "eventId t \<in> eventIds s")
    case True
    let ?s = "s\<lparr>eventList := q, eventIds := eventIds s - {eventId t}\<rparr>" and ?d = "addTask (to_task t) True d"
    have pass: "sch_pass now s d = (?s, ?d, [eventId t])"
      using Cons.prems True by (simp add: sch_pass_def pq_top_def eq to_task_def)
    have "filter (\<lambda>u. eventId u \<in> eventIds s \<and> eventId u \<noteq> eventId t) q = filter (\<lambda>u. eventId u \<in> eventIds s) q"
      using Cons.prems(4) eq by (intro filter_cong) (auto intro: rev_image_eqI)
    then have p: "pending s = t # pending ?s"
      by (simp add: pending_def eq True)
    have "sch_passes now (length q) ?s ?d =
      (?s\<lparr>eventList := [], eventIds := eventIds ?s - eventId ` set (eventList ?s)\<rparr>,
       ?d\<lparr>taskList := rev (map to_task (pending ?s)) @ taskList ?d\<rparr>, map eventId (pending ?s))"
      using Cons.hyps(1) [of ?s ?d] Cons.prems eq by (simp add: addTask_def)
    then show ?thesis
      using Cons.prems by (simp add: eq pass p addTask_def set_diff_eq)
  next
    case False
    let ?s = "s\<lparr>eventList := q\<rparr>"
    have pass: "sch_pass now s d = (?s, d, [])"
      using Cons.prems False by (simp add: sch_pass_def pq_top_def eq)
    have p: "pending s = pending ?s"
      by (simp add: pending_def eq False)
    have "sch_passes now (length q) ?s d =
      (?s\<lparr>eventList := [], eventIds := eventIds ?s - eventId ` set (eventList ?s)\<rparr>,
       d\<lparr>taskList := rev (map to_task (pending ?s)) @ taskList d\<rparr>, map eventId (pending ?s))"
      using Cons.hyps(1) [of ?s d] Cons.prems eq by simp
    then show ?thesis
      using False by (simp add: eq pass p)
  qed
qed

text \<open>C25: no event is forgotten: in any state the server reaches (with the dispatcher running), as many
  passes as there are queued events, at a time when all of them are due, hand every pending event
  to the dispatcher, without an expiration, and leave nothing queued. Because each is pushed to the
  front of the task list, a batch of events that fell due together runs in the reverse of the
  order in which they were due, ahead of the tasks already waiting.\<close>

theorem due_events_dispatched:
  assumes "sched_run rs (now0, sch_init, d0) = ((now1, s, d), l)" and "length (added_ids l) < 2 ^ 32"
    and "disp_state d = THREAD_STATE_RUNNING" and "\<forall>t \<in> set (eventList s). getCycle t \<le> now"
  shows "\<exists>s' d'. sch_passes now (length (eventList s)) s d = (s', d', map eventId (pending s))
     \<and> eventList s' = [] \<and> eventIds s' = {} \<and> eventIds s = eventId ` set (pending s)
     \<and> sorted (map getCycle (pending s))
     \<and> taskList d' = rev (map (\<lambda>t. \<lparr>expiration = SYSTEM_TIME_ZERO, func = func t\<rparr>) (pending s)) @ taskList d"
proof -
  have inv: "sched_inv l s"
    using sched_inv_run [OF sched_inv_init assms(1)] assms(2) by simp
  note I = inv [unfolded sched_inv_def]
  have running: "sch_state s = THREAD_STATE_RUNNING" and dist: "distinct (map eventId (eventList s))"
    using I by blast+
  have "sorted (map getCycle (pending s))"
    using I by (simp add: pq_ok_def sorted_filter pending_def)
  moreover have "eventIds s = eventId ` set (pending s)"
    using I unfolding pending_def by auto
  moreover have "to_task = (\<lambda>t :: 'a scheduler_task. \<lparr>expiration = SYSTEM_TIME_ZERO, func = func t\<rparr>)"
    by (simp add: fun_eq_iff to_task_def setDontExpire_def task.defs)
  moreover have "eventIds s - eventId ` set (eventList s) = {}"
    using I by blast
  ultimately show ?thesis
    using sch_passes_due [OF running assms(3,4) dist] by simp
qed

theorem due_events_dispatched_witness:
  "\<exists>s' d'. sch_passes 2000 2
      \<lparr>sch_state = THREAD_STATE_RUNNING, lastEventId = 2,
       eventList = [\<lparr>expiration = 1020, func = Call (8 :: nat), eventId = 2\<rparr>,
                    \<lparr>expiration = 1050, func = Call 7, eventId = 1\<rparr>], eventIds = {1, 2}\<rparr> dispatcher_started
      = (s', d', [2, 1]) \<and> map func (taskList d') = [Call 7, Call 8]"
proof -
  let ?s = "\<lparr>sch_state = THREAD_STATE_RUNNING, lastEventId = 2,
       eventList = [\<lparr>expiration = 1020, func = Call (8 :: nat), eventId = 2\<rparr>,
                    \<lparr>expiration = 1050, func = Call 7, eventId = 1\<rparr>], eventIds = {1, 2}\<rparr>"
  have run: "sched_run [Schedule 50 7, Schedule 20 8] (1000, sch_init, dispatcher_started) =
      ((1000, ?s, dispatcher_started), [Added 1 1050, Added 2 1020])"
    by (simp add: sch_init_def createSchedulerTask_def addEvent_def getCycle_def Let_def insert_commute)
  have p: "length (added_ids [Added 1 1050, Added 2 1020]) < 2 ^ 32"
    "disp_state (dispatcher_started :: nat dispatcher) = THREAD_STATE_RUNNING"
    "\<forall>t \<in> set (eventList ?s). getCycle t \<le> 2000"
    by (simp_all add: dispatcher_started_def thread_start_def getCycle_def)
  have q: "pending ?s = eventList ?s" "length (eventList ?s) = 2"
      "taskList (dispatcher_started :: nat dispatcher) = []"
    by (simp_all add: pending_def dispatcher_started_def thread_start_def)
  from due_events_dispatched [OF run p] show ?thesis
    unfolding q by auto
qed

end
