(* ===== verification/Wildcard.thy ===== *)
theory Wildcard
  imports StdMap "HOL-Library.Char_ord" "HOL-Library.List_Lexorder" "HOL-Library.Sublist"
begin

text \<open>
  The players online and the search for them: the prefix tree of \<open>src/src/utils/wildcardtree.cpp\<close>
  and the player tables of \<open>game.cpp\<close>. The tree's contract is the set of names it holds; the
  locale \<open>name_index\<close> states it and the lookup is verified against it.
\<close>

section \<open>The contract of a name index\<close>

locale name_index =
  fixes add :: "string \<Rightarrow> 't \<Rightarrow> 't option"
    and del :: "string \<Rightarrow> 't \<Rightarrow> 't"
    and content :: "'t \<Rightarrow> string set"
    and ok :: "'t \<Rightarrow> bool"
  assumes add_ok: "ok t \<Longrightarrow> s \<noteq> [] \<Longrightarrow> \<exists>t'. add s t = Some t' \<and> ok t' \<and> content t' = insert s (content t)"
    and del_ok: "ok t \<Longrightarrow> ok (del s t) \<and> content (del s t) = content t - {s}"
begin

lemma add_del: "ok t \<Longrightarrow> s \<noteq> [] \<Longrightarrow> s \<notin> content t \<Longrightarrow> content (del s (the (add s t))) = content t"
  using add_ok [of t s] del_ok by (auto; fastforce)

end

section \<open>The tree\<close>

datatype wnode = WNode (children: "(char \<times> wnode) list") (breakpoint: bool)

datatype wildcard_result =
  RETURNVALUE_PLAYERWITHTHISNAMEISNOTONLINE | RETURNVALUE_NAMEISTOOAMBIGUOUS | RETURNVALUE_NOERROR string

definition getChild :: "char \<Rightarrow> wnode \<Rightarrow> wnode option" where
  "getChild ch n = m_find (children n) ch"

text \<open>\<open>addChild\<close> returns a pointer into the tree; here the node and the child it points to.\<close>

definition addChild :: "char \<Rightarrow> bool \<Rightarrow> wnode \<Rightarrow> wnode \<times> wnode" where
  "addChild ch breakp n =
     (case getChild ch n of
        Some child \<Rightarrow>
          (let child = (if breakp \<and> \<not> breakpoint child then WNode (children child) True else child)
           in (WNode (m_put ch child (children n)) (breakpoint n), child))
      | None \<Rightarrow> (let child = WNode [] breakp
                 in (WNode (m_put ch child (children n)) (breakpoint n), child)))"

text \<open>
  On the empty string \<open>length() - 1\<close> wraps and the loop runs past the string: no result. Writing
  through the pointer to a child is \<open>set_child\<close>.
\<close>

definition set_child :: "char \<Rightarrow> wnode \<Rightarrow> wnode \<Rightarrow> wnode" where
  "set_child ch child n = WNode (m_put ch child (children n)) (breakpoint n)"

fun w_insert :: "string \<Rightarrow> wnode \<Rightarrow> wnode option" where
  "w_insert [] n = None"
| "w_insert [c] n = Some (fst (addChild c True n))"
| "w_insert (c # d # s) n =
     (let (n, child) = addChild c False n
      in do { child \<leftarrow> w_insert (d # s) child; Some (set_child c child n) })"

text \<open>
  \<open>remove\<close> walks down, clears the breakpoint and prunes on the way back; the flag says whether the
  pruning loop is still going, that is, whether this node is to be erased from its parent.
\<close>

fun w_remove_loop :: "string \<Rightarrow> wnode \<Rightarrow> (wnode \<times> bool) option" where
  "w_remove_loop [] n = Some (WNode (children n) False, children n = [])"
| "w_remove_loop (c # s) n =
     do { child \<leftarrow> getChild c n;
          (child, pruning) \<leftarrow> w_remove_loop s child;
          Some (if pruning
                then let n = WNode (m_erase c (children n)) (breakpoint n)
                     in (n, children n = [] \<and> \<not> breakpoint n)
                else (set_child c child n, False)) }"

definition w_remove :: "string \<Rightarrow> wnode \<Rightarrow> wnode" where
  "w_remove s n = (case w_remove_loop s n of None \<Rightarrow> n | Some (n', _) \<Rightarrow> n')"

fun w_descend :: "string \<Rightarrow> wnode \<Rightarrow> wnode option" where
  "w_descend [] n = Some n"
| "w_descend (c # s) n = Option.bind (getChild c n) (w_descend s)"

function w_complete :: "string \<Rightarrow> wnode \<Rightarrow> wildcard_result" where
  "w_complete result (WNode cs bp) =
     (case cs of
        [] \<Rightarrow> RETURNVALUE_NOERROR result
      | (c, child) # rest \<Rightarrow>
          if rest \<noteq> [] \<or> bp then RETURNVALUE_NAMEISTOOAMBIGUOUS
          else w_complete (result @ [c]) child)"
  by pat_completeness auto
termination
  by (relation "measure (size \<circ> snd)") auto

definition findOne :: "string \<Rightarrow> wnode \<Rightarrow> wildcard_result" where
  "findOne query n =
     (case w_descend query n of
        None \<Rightarrow> RETURNVALUE_PLAYERWITHTHISNAMEISNOTONLINE
      | Some cur \<Rightarrow> w_complete query cur)"

section \<open>Names and well-formedness\<close>

fun holds :: "wnode \<Rightarrow> string \<Rightarrow> bool" where
  "holds n [] = breakpoint n"
| "holds n (c # s) = (case getChild c n of None \<Rightarrow> False | Some m \<Rightarrow> holds m s)"

definition names :: "wnode \<Rightarrow> string set" where
  "names n = {s. holds n s}"

text \<open>Below the root every leaf is a name, and the maps are ordered.\<close>

inductive w_live :: "wnode \<Rightarrow> bool" where
  "m_ok cs \<Longrightarrow> (\<And>c m. (c, m) \<in> set cs \<Longrightarrow> w_live m) \<Longrightarrow> cs \<noteq> [] \<or> bp \<Longrightarrow> w_live (WNode cs bp)"

inductive_simps w_live_iff: "w_live (WNode cs bp)"

lemma w_liveI:
  "m_ok (children n) \<Longrightarrow> (\<And>c m. m_find (children n) c = Some m \<Longrightarrow> w_live m) \<Longrightarrow>
     children n \<noteq> [] \<or> breakpoint n \<Longrightarrow> w_live n"
  by (cases n) (auto simp: w_live_iff m_find_Some_iff)

lemma w_liveD:
  assumes "w_live n"
  shows "m_ok (children n)" and "m_find (children n) c = Some m \<Longrightarrow> w_live m"
    and "children n \<noteq> [] \<or> breakpoint n"
  using assms by (cases n; auto simp: w_live_iff m_find_Some_iff)+

definition live_below :: "wnode \<Rightarrow> bool" where
  "live_below n \<longleftrightarrow> m_ok (children n) \<and> (\<forall>c m. getChild c n = Some m \<longrightarrow> w_live m)"

lemma w_live_below: "w_live n \<longleftrightarrow> live_below n \<and> (children n \<noteq> [] \<or> breakpoint n)"
  unfolding live_below_def getChild_def using w_liveI w_liveD by metis

lemma live_below_child: "live_below n \<Longrightarrow> getChild c n = Some m \<Longrightarrow> w_live m"
  by (simp add: live_below_def)

lemma live_below_Nil [simp]: "live_below (WNode [] b)"
  by (simp add: live_below_def getChild_def)

lemma live_below_breakpoint [simp]: "live_below (WNode (children n) b) = live_below n"
  by (simp add: live_below_def getChild_def)

lemma m_put_not_Nil [simp]: "m_put k v m \<noteq> []"
  by (induction k v m rule: m_put.induct) auto

lemma m_put_same [simp]: "m_put k v (m_put k w m) = m_put k v m"
  by (induction k w m rule: m_put.induct) auto

lemma children_Nil_iff: "children n = [] \<longleftrightarrow> (\<forall>c. getChild c n = None)"
  by (cases "children n") (auto simp: getChild_def)

lemma getChild_set_child [simp]:
  "getChild d (set_child c child n) = (if d = c then Some child else getChild d n)"
  "breakpoint (set_child c child n) = breakpoint n"
  "children (set_child c child n) \<noteq> []"
  "set_child c child (set_child c child' n) = set_child c child n"
  by (simp_all add: getChild_def set_child_def)

lemma live_below_set_child [simp]:
  "live_below n \<Longrightarrow> w_live child \<Longrightarrow> live_below (set_child c child n)"
  unfolding live_below_def by (auto simp: set_child_def m_ok_put getChild_def)

text \<open>The node below a letter, or the node \<open>addChild\<close> would create there.\<close>

definition below :: "char \<Rightarrow> wnode \<Rightarrow> wnode" where
  "below c n = (case getChild c n of None \<Rightarrow> WNode [] False | Some m \<Rightarrow> m)"

lemma live_below_below [simp]: "live_below n \<Longrightarrow> live_below (below c n)"
  by (auto simp: below_def w_live_below dest: live_below_child split: option.splits)

lemma holds_below: "holds n (c # s) = holds (below c n) s"
  by (cases s) (auto simp: below_def getChild_def split: option.splits)

lemma addChild_eq:
  "addChild c b n =
     (let child = WNode (children (below c n)) (breakpoint (below c n) \<or> b) in (set_child c child n, child))"
proof (cases "getChild c n")
  case (Some m)
  then show ?thesis by (cases m) (auto simp: addChild_def set_child_def below_def Let_def)
qed (simp add: addChild_def set_child_def below_def)

lemma below_set_child [simp]: "below d (set_child c m n) = (if d = c then m else below d n)"
  by (simp add: below_def)

lemma holds_set_child: "holds (set_child c m n) u = (case u of [] \<Rightarrow> breakpoint n | d # v \<Rightarrow>
    if d = c then holds m v else holds n u)"
  by (cases u) auto

lemma holds_with_breakpoint: "holds (WNode (children n) b) v = (if v = [] then b else holds n v)"
  by (cases v) (auto simp: getChild_def)

lemma insert_live:
  assumes "s \<noteq> []" and "live_below n"
  shows "\<exists>n'. w_insert s n = Some n' \<and> live_below n' \<and> children n' \<noteq> [] \<and> breakpoint n' = breakpoint n
     \<and> (\<forall>u. holds n' u \<longleftrightarrow> u = s \<or> holds n u)"
  using assms
proof (induction s n rule: w_insert.induct)
  case (1 n)
  then show ?case by simp
next
  case (2 c n)
  let ?m = "WNode (children (below c n)) True"
  have "holds (set_child c ?m n) u \<longleftrightarrow> u = [c] \<or> holds n u" for u
    by (cases u) (auto simp: holds_with_breakpoint holds_below simp del: holds.simps(2))
  moreover have "w_live ?m" using 2(2) by (simp add: w_live_below)
  ultimately show ?case using 2(2) by (simp add: addChild_eq Let_def)
next
  case (3 c d s n)
  let ?m = "below c n"
  have a: "addChild c False n = (set_child c ?m n, ?m)"
    by (simp add: addChild_eq Let_def)
  obtain m' where m': "w_insert (d # s) ?m = Some m'" "live_below m'" "children m' \<noteq> []"
      "\<forall>u. holds m' u \<longleftrightarrow> u = d # s \<or> holds ?m u"
    using 3(1) [OF a [symmetric] refl] 3(3) by auto
  have "holds (set_child c m' n) u \<longleftrightarrow> u = c # d # s \<or> holds n u" for u
    using m'(4) by (cases u) (auto simp: holds_below simp del: holds.simps(2))
  then show ?case using a m' 3(3) by (simp add: w_live_below)
qed

lemma live_below_erase [simp]:
  "live_below n \<Longrightarrow> live_below (WNode (m_erase c (children n)) b)"
  by (auto simp: live_below_def getChild_def m_ok_erase)

lemma remove_live:
  assumes "live_below n" and "w_remove_loop s n = Some (n', pruning)"
  shows "live_below n' \<and> (breakpoint n' = (breakpoint n \<and> s \<noteq> []))
     \<and> pruning = (children n' = [] \<and> \<not> breakpoint n')
     \<and> (\<forall>u. holds n' u \<longleftrightarrow> u \<noteq> s \<and> holds n u)"
  using assms
proof (induction s n arbitrary: n' pruning rule: w_remove_loop.induct)
  case (1 n)
  have "holds (WNode (children n) False) u \<longleftrightarrow> u \<noteq> [] \<and> holds n u" for u
    by (simp add: holds_with_breakpoint)
  with 1 show ?case by (simp del: holds.simps) (metis wnode.sel live_below_breakpoint)
next
  case (2 c s n)
  obtain m where m: "getChild c n = Some m" using 2(3) by (cases "getChild c n") simp_all
  obtain m' p where m': "w_remove_loop s m = Some (m', p)"
    using 2(3) m by (cases "w_remove_loop s m") auto
  have r: "(n', pruning) = (if p
        then (WNode (m_erase c (children n)) (breakpoint n), m_erase c (children n) = [] \<and> \<not> breakpoint n)
        else (set_child c m' n, False))"
    using 2(3) m m' by (auto simp: Let_def split: if_splits)
  have lm: "live_below m" using live_below_child [OF 2(2) m] by (simp add: w_live_below)
  have IH: "live_below m'" "p = (children m' = [] \<and> \<not> breakpoint m')"
      "\<forall>u. holds m' u \<longleftrightarrow> u \<noteq> s \<and> holds m u"
    using 2(1) [OF m lm m'] by simp_all
  have hm: "holds n (c # u) = holds m u" for u using m by simp
  show ?case
  proof (cases p)
    case True
    then have none: "\<not> holds m' u" for u using IH(2) by (cases u) (auto simp: children_Nil_iff)
    have e: "getChild d (WNode (m_erase c (children n)) b) = (if d = c then None else getChild d n)" for d b
      by (simp add: getChild_def)
    have "holds n' u \<longleftrightarrow> u \<noteq> c # s \<and> holds n u" for u
      using r True none IH(3) hm by (cases u) (auto simp: e)
    with r True 2(2) show ?thesis by auto
  next
    case False
    then have "w_live m'" using IH by (simp add: w_live_below)
    moreover have "holds n' u \<longleftrightarrow> u \<noteq> c # s \<and> holds n u" for u
      using r False IH(3) hm by (cases u) auto
    ultimately show ?thesis using r False 2(2) by auto
  qed
qed

lemma w_remove_live:
  assumes "live_below n"
  shows "live_below (w_remove s n)" and "holds (w_remove s n) u \<longleftrightarrow> u \<noteq> s \<and> holds n u"
    and "breakpoint (w_remove s n) \<longrightarrow> breakpoint n"
proof -
  have none: "w_remove_loop s n = None \<Longrightarrow> \<not> holds n s"
    by (induction s n rule: w_remove_loop.induct) (auto split: Option.bind_splits)
  show "live_below (w_remove s n)" and "holds (w_remove s n) u \<longleftrightarrow> u \<noteq> s \<and> holds n u"
    and "breakpoint (w_remove s n) \<longrightarrow> breakpoint n"
    using assms none remove_live [OF assms]
    by (auto simp: w_remove_def split: option.splits)
qed

definition w_ok :: "wnode \<Rightarrow> bool" where
  "w_ok n \<longleftrightarrow> live_below n \<and> \<not> breakpoint n"

interpretation tree: name_index w_insert w_remove names w_ok
proof unfold_locales
  fix t s
  show "w_ok t \<Longrightarrow> s \<noteq> [] \<Longrightarrow> \<exists>t'. w_insert s t = Some t' \<and> w_ok t' \<and> names t' = insert s (names t)"
    using insert_live [of s t] by (auto simp: w_ok_def names_def)
  show "w_ok t \<Longrightarrow> w_ok (w_remove s t) \<and> names (w_remove s t) = names t - {s}"
    using w_remove_live [of t s] by (auto simp: w_ok_def names_def)
qed

section \<open>Completing a prefix\<close>

text \<open>A live node holds a name, so a branch that is not a single path holds two.\<close>

lemma live_holds_some: "w_live n \<Longrightarrow> \<exists>s. holds n s"
proof (induction n rule: w_live.induct)
  case (1 cs bp)
  show ?case
  proof (cases bp)
    case True
    then have "holds (WNode cs bp) []" by simp
    then show ?thesis by blast
  next
    case False
    then obtain c m rest where cs: "cs = (c, m) # rest" using 1(3) by (cases cs) auto
    then obtain s where "holds m s" using 1 by (metis list.set_intros(1))
    then have "holds (WNode cs bp) (c # s)" by (simp add: getChild_def cs)
    then show ?thesis by blast
  qed
qed

lemma w_complete_names:
  assumes "live_below n"
  shows "(\<forall>r. w_complete p n = RETURNVALUE_NOERROR r \<longrightarrow>
           (if children n = [] then r = p else \<exists>s. r = p @ s \<and> {u. holds n u} = {s}))
     \<and> (w_complete p n = RETURNVALUE_NAMEISTOOAMBIGUOUS \<longrightarrow>
          (\<exists>u v. u \<noteq> v \<and> holds n u \<and> holds n v))
     \<and> w_complete p n \<noteq> RETURNVALUE_PLAYERWITHTHISNAMEISNOTONLINE"
  using assms
proof (induction p n rule: w_complete.induct)
  case (1 p cs bp)
  show ?case
  proof (cases cs)
    case Nil
    then show ?thesis by simp
  next
    case (Cons e rest)
    obtain c m where e: "e = (c, m)" by fastforce
    have m: "getChild c (WNode cs bp) = Some m" by (simp add: getChild_def Cons e)
    then have lm: "w_live m" using live_below_child [OF 1(2)] by blast
    obtain s where s: "holds m s" using live_holds_some [OF lm] by blast
    have ms: "holds (WNode cs bp) (c # s)" using m s by simp
    show ?thesis
    proof (cases "rest \<noteq> [] \<or> bp")
      case True
      have "\<exists>u v. u \<noteq> v \<and> holds (WNode cs bp) u \<and> holds (WNode cs bp) v"
      proof (cases bp)
        case True
        then have "holds (WNode cs bp) []" by simp
        with ms show ?thesis by blast
      next
        case False
        with \<open>rest \<noteq> [] \<or> bp\<close> obtain d m2 rest2 where r: "rest = (d, m2) # rest2" by (cases rest) auto
        have "m_ok cs" using 1(2) by (simp add: live_below_def)
        then have d: "c < d" by (simp add: m_ok_def Cons e r)
        then have m2: "getChild d (WNode cs bp) = Some m2" by (auto simp: getChild_def Cons e r)
        obtain v where "holds m2 v"
          using live_holds_some live_below_child [OF 1(2) m2] by blast
        then have "holds (WNode cs bp) (d # v)" using m2 by simp
        moreover have "c # s \<noteq> d # v" using d by auto
        ultimately show ?thesis using ms by (intro exI [of _ "c # s"] exI [of _ "d # v"] conjI)
      qed
      with True show ?thesis by (simp add: Cons e)
    next
      case False
      then have cs: "cs = [(c, m)]" and bp: "\<not> bp" using Cons e by auto
      have h: "holds (WNode cs bp) u \<longleftrightarrow> (\<exists>v. u = c # v \<and> holds m v)" for u
        by (cases u) (auto simp: cs bp getChild_def)
      have IH: "(\<forall>r. w_complete (p @ [c]) m = RETURNVALUE_NOERROR r \<longrightarrow>
           (if children m = [] then r = p @ [c] else \<exists>s. r = (p @ [c]) @ s \<and> {u. holds m u} = {s}))
         \<and> (w_complete (p @ [c]) m = RETURNVALUE_NAMEISTOOAMBIGUOUS \<longrightarrow>
              (\<exists>u v. u \<noteq> v \<and> holds m u \<and> holds m v))
         \<and> w_complete (p @ [c]) m \<noteq> RETURNVALUE_PLAYERWITHTHISNAMEISNOTONLINE"
        by (rule 1(1) [OF Cons e [symmetric] False]) (use lm in \<open>simp add: w_live_below\<close>)
      have leaf: "{u. holds m u} = {[]}" if "children m = []"
      proof -
        have "breakpoint m" using lm that by (simp add: w_live_below)
        moreover have "\<not> holds m (d # v)" for d v using that by (simp add: children_Nil_iff)
        ultimately show ?thesis by (auto, metis list.exhaust)
      qed
      have set: "{u. holds (WNode cs bp) u} = (#) c ` {v. holds m v}" by (auto simp: h)
      have eq: "w_complete p (WNode cs bp) = w_complete (p @ [c]) m" by (simp add: cs bp)
      show ?thesis
        unfolding eq set
      proof (intro conjI allI impI)
        fix r assume "w_complete (p @ [c]) m = RETURNVALUE_NOERROR r"
        then have "\<exists>s. r = (p @ [c]) @ s \<and> {u. holds m u} = {s}"
          using IH leaf by (cases "children m = []") auto
        then show "if children (WNode cs bp) = [] then r = p
            else \<exists>s. r = p @ s \<and> (#) c ` {v. holds m v} = {s}"
          by (auto simp: cs)
      next
        assume "w_complete (p @ [c]) m = RETURNVALUE_NAMEISTOOAMBIGUOUS"
        then show "\<exists>u v. u \<noteq> v \<and> holds (WNode cs bp) u \<and> holds (WNode cs bp) v"
          unfolding h using IH by blast
      qed (use IH in blast)
    qed
  qed
qed

lemma w_descend_live:
  assumes "live_below n" and "w_descend q n = Some m"
  shows "live_below m \<and> (q \<noteq> [] \<longrightarrow> w_live m) \<and> (\<forall>u. holds m u \<longleftrightarrow> holds n (q @ u))"
  using assms
proof (induction q n rule: w_descend.induct)
  case (2 c s n)
  then obtain k where k: "getChild c n = Some k" "w_descend s k = Some m"
    by (auto split: Option.bind_splits)
  then have "w_live k" using live_below_child 2(2) by blast
  then have k3: "live_below k" "w_live k" by (simp_all add: w_live_below)
  then show ?case using 2(1) [OF k(1) k3(1) k(2)] k by (cases s) auto
qed simp

lemma w_descend_None: "w_descend q n = None \<Longrightarrow> \<not> holds n (q @ u)"
  by (induction q n rule: w_descend.induct) (auto split: Option.bind_splits)

lemma findOne_spec:
  assumes "w_ok n"
  shows "findOne q n = RETURNVALUE_NOERROR r \<Longrightarrow>
      q = [] \<and> r = [] \<and> names n = {} \<or> {u \<in> names n. prefix q u} = {r}"
    and "findOne q n = RETURNVALUE_NAMEISTOOAMBIGUOUS \<Longrightarrow>
      \<exists>u v. u \<noteq> v \<and> u \<in> names n \<and> v \<in> names n \<and> prefix q u \<and> prefix q v"
    and "findOne q n = RETURNVALUE_PLAYERWITHTHISNAMEISNOTONLINE \<Longrightarrow> {u \<in> names n. prefix q u} = {}"
proof -
  have lb: "live_below n" and nb: "\<not> breakpoint n" using assms by (simp_all add: w_ok_def)
  have ext: "{u \<in> names n. prefix q u} = (@) q ` {u. holds m u}" if "w_descend q n = Some m" for m
    using w_descend_live [OF lb that] by (auto simp: names_def prefix_def)
  show "q = [] \<and> r = [] \<and> names n = {} \<or> {u \<in> names n. prefix q u} = {r}"
    if f: "findOne q n = RETURNVALUE_NOERROR r"
  proof -
    obtain m where m: "w_descend q n = Some m" "w_complete q m = RETURNVALUE_NOERROR r"
      using f by (auto simp: findOne_def split: option.splits)
    note d = w_descend_live [OF lb m(1)]
    have lm: "live_below m" using d by blast
    show ?thesis
    proof (cases "children m = []")
      case False
      then obtain s where "r = q @ s" "{u. holds m u} = {s}"
        using w_complete_names [OF lm, of q] m(2) by auto
      then show ?thesis using ext [OF m(1)] by simp
    next
      case True
      then have r: "r = q" using w_complete_names [OF lm, of q] m(2) by auto
      have h: "holds m u \<longleftrightarrow> u = [] \<and> breakpoint m" for u
        using True by (cases u) (auto simp: children_Nil_iff)
      show ?thesis
      proof (cases "q = []")
        case q: True
        then have "m = n" using m(1) by simp
        then show ?thesis using q r h nb by (auto simp: names_def)
      next
        case False
        then have "breakpoint m" using d True by (simp add: w_live_below)
        then show ?thesis using ext [OF m(1)] h r by auto
      qed
    qed
  qed
  show "\<exists>u v. u \<noteq> v \<and> u \<in> names n \<and> v \<in> names n \<and> prefix q u \<and> prefix q v"
    if f: "findOne q n = RETURNVALUE_NAMEISTOOAMBIGUOUS"
  proof -
    obtain m where m: "w_descend q n = Some m" "w_complete q m = RETURNVALUE_NAMEISTOOAMBIGUOUS"
      using f by (auto simp: findOne_def split: option.splits)
    have lm: "live_below m" using w_descend_live [OF lb m(1)] by blast
    obtain u v where uv: "u \<noteq> v" "holds m u" "holds m v"
      using w_complete_names [OF lm, of q] m(2) by blast
    then have "q @ u \<in> {u \<in> names n. prefix q u}" "q @ v \<in> {u \<in> names n. prefix q u}"
      unfolding ext [OF m(1)] by blast+
    moreover have "q @ u \<noteq> q @ v" using uv(1) by simp
    ultimately show ?thesis by blast
  qed
  show "{u \<in> names n. prefix q u} = {}"
    if f: "findOne q n = RETURNVALUE_PLAYERWITHTHISNAMEISNOTONLINE"
  proof -
    have "w_descend q n = None"
    proof (cases "w_descend q n")
      case (Some m)
      then have "live_below m" using w_descend_live [OF lb] by blast
      from w_complete_names [OF this, of q] f Some show ?thesis by (simp add: findOne_def)
    qed
    then show ?thesis using w_descend_None by (auto simp: names_def prefix_def)
  qed
qed

lemma findOne_iff:
  assumes "w_ok n" and "q \<noteq> []"
  shows "(\<forall>r. findOne q n = RETURNVALUE_NOERROR r \<longleftrightarrow> {u \<in> names n. prefix q u} = {r})
     \<and> (findOne q n = RETURNVALUE_NAMEISTOOAMBIGUOUS \<longleftrightarrow>
          (\<exists>u v. u \<noteq> v \<and> {u, v} \<subseteq> {u \<in> names n. prefix q u}))
     \<and> (findOne q n = RETURNVALUE_PLAYERWITHTHISNAMEISNOTONLINE \<longleftrightarrow> {u \<in> names n. prefix q u} = {})"
proof -
  obtain S where S: "S = {u \<in> names n. prefix q u}" by simp
  note spec = findOne_spec [OF assms(1), where q = q, folded S]
  show ?thesis
    unfolding S [symmetric]
  proof (cases "findOne q n")
    case RETURNVALUE_PLAYERWITHTHISNAMEISNOTONLINE
    then have "S = {}" by (rule spec(3))
    then show "(\<forall>r. findOne q n = RETURNVALUE_NOERROR r \<longleftrightarrow> S = {r})
        \<and> (findOne q n = RETURNVALUE_NAMEISTOOAMBIGUOUS \<longleftrightarrow> (\<exists>u v. u \<noteq> v \<and> {u, v} \<subseteq> S))
        \<and> (findOne q n = RETURNVALUE_PLAYERWITHTHISNAMEISNOTONLINE \<longleftrightarrow> S = {})"
      using RETURNVALUE_PLAYERWITHTHISNAMEISNOTONLINE by simp
  next
    case RETURNVALUE_NAMEISTOOAMBIGUOUS
    then obtain u v where "u \<noteq> v" "u \<in> S" "v \<in> S" using spec(2) S by blast
    then show "(\<forall>r. findOne q n = RETURNVALUE_NOERROR r \<longleftrightarrow> S = {r})
        \<and> (findOne q n = RETURNVALUE_NAMEISTOOAMBIGUOUS \<longleftrightarrow> (\<exists>u v. u \<noteq> v \<and> {u, v} \<subseteq> S))
        \<and> (findOne q n = RETURNVALUE_PLAYERWITHTHISNAMEISNOTONLINE \<longleftrightarrow> S = {})"
      using RETURNVALUE_NAMEISTOOAMBIGUOUS by auto
  next
    case (RETURNVALUE_NOERROR r)
    then have "S = {r}" using spec(1) assms(2) by blast
    then show "(\<forall>r. findOne q n = RETURNVALUE_NOERROR r \<longleftrightarrow> S = {r})
        \<and> (findOne q n = RETURNVALUE_NAMEISTOOAMBIGUOUS \<longleftrightarrow> (\<exists>u v. u \<noteq> v \<and> {u, v} \<subseteq> S))
        \<and> (findOne q n = RETURNVALUE_PLAYERWITHTHISNAMEISNOTONLINE \<longleftrightarrow> S = {})"
      using RETURNVALUE_NOERROR by auto
  qed
qed

fun tree_run :: "(bool \<times> string) list \<Rightarrow> wnode \<Rightarrow> wnode option" where
  "tree_run [] n = Some n"
| "tree_run ((ins, s) # qs) n =
     (if ins then Option.bind (w_insert s n) (tree_run qs) else tree_run qs (w_remove s n))"

fun set_run :: "(bool \<times> string) list \<Rightarrow> string set \<Rightarrow> string set" where
  "set_run [] S = S"
| "set_run ((ins, s) # qs) S = set_run qs (if ins then insert s S else S - {s})"

lemma tree_run_refines:
  assumes "w_ok n" and "(True, []) \<notin> set qs"
  shows "\<exists>n'. tree_run qs n = Some n' \<and> w_ok n' \<and> names n' = set_run qs (names n)"
  using assms
proof (induction qs arbitrary: n)
  case (Cons e qs)
  obtain ins s where e: "e = (ins, s)" by fastforce
  show ?case
  proof (cases ins)
    case True
    then have "s \<noteq> []" using Cons.prems(2) e by auto
    then obtain n1 where "w_insert s n = Some n1" "w_ok n1" "names n1 = insert s (names n)"
      using tree.add_ok [OF Cons.prems(1)] by blast
    then show ?thesis using Cons.IH [of n1] Cons.prems(2) True e by simp
  next
    case False
    then show ?thesis
      using Cons.IH [of "w_remove s n"] tree.del_ok [OF Cons.prems(1), of s] Cons.prems(2) e by simp
  qed
qed simp

text \<open>C26: the prefix tree implements a set of names: after any sequence of insertions of non-empty names
  and removals the tree exists, and \<open>findOne\<close> completes a non-empty query exactly to the only
  name that starts with it, reports ambiguity exactly when two names do, and nothing found
  exactly when none does. Pruning never loses a name and never leaves a dead branch behind.\<close>

theorem wildcard_tree_is_a_set:
  assumes "(True, []) \<notin> set qs" and "q \<noteq> []"
  shows "\<exists>n. tree_run qs (WNode [] False) = Some n
     \<and> (\<forall>r. findOne q n = RETURNVALUE_NOERROR r \<longleftrightarrow> {u \<in> set_run qs {}. prefix q u} = {r})
     \<and> (findOne q n = RETURNVALUE_NAMEISTOOAMBIGUOUS \<longleftrightarrow>
          (\<exists>u v. u \<noteq> v \<and> {u, v} \<subseteq> {u \<in> set_run qs {}. prefix q u}))
     \<and> (findOne q n = RETURNVALUE_PLAYERWITHTHISNAMEISNOTONLINE \<longleftrightarrow>
          {u \<in> set_run qs {}. prefix q u} = {})"
proof -
  have ok: "w_ok (WNode [] False)" by (simp add: w_ok_def)
  have "holds (WNode [] False) u = False" for u by (cases u) (simp_all add: getChild_def)
  then have "names (WNode [] False) = {}" by (simp add: names_def)
  then obtain n where "tree_run qs (WNode [] False) = Some n" "w_ok n" "names n = set_run qs {}"
    using tree_run_refines [OF ok assms(1)] by auto
  then show ?thesis using findOne_iff [of n q] assms(2) by auto
qed

theorem wildcard_tree_is_a_set_witness:
  "\<exists>n. tree_run [(True, ''anna''), (True, ''annika''), (True, ''ben''), (False, ''anna'')] (WNode [] False) = Some n
     \<and> findOne ''an'' n = RETURNVALUE_NOERROR ''annika''"
proof -
  have s: "{u \<in> set_run [(True, ''anna''), (True, ''annika''), (True, ''ben''), (False, ''anna'')] {}. prefix ''an'' u}
      = {''annika''}"
    by auto
  show ?thesis
    using wildcard_tree_is_a_set [of "[(True, ''anna''), (True, ''annika''), (True, ''ben''), (False, ''anna'')]" "''an''"]
    unfolding s by auto
qed

section \<open>Players online\<close>

record reg_player =
  rp_id :: u32
  rp_guid :: u32
  rp_account :: u32
  rp_name :: string

record registry =
  reg_players :: "(u32 \<times> reg_player) list"
  mappedPlayerNames :: "(string \<times> reg_player) list"
  wildcardTree :: wnode

definition reg_init :: registry where
  "reg_init = \<lparr>reg_players = [], mappedPlayerNames = [], wildcardTree = WNode [] False\<rparr>"

text \<open>\<open>tolower\<close> of the C locale.\<close>

definition to_lower :: "char \<Rightarrow> char" where
  "to_lower c = (if 65 \<le> (of_char c :: nat) \<and> (of_char c :: nat) \<le> 90 then char_of ((of_char c :: nat) + 32) else c)"

definition asLowerCaseString :: "string \<Rightarrow> string" where
  "asLowerCaseString s = map to_lower s"

definition addPlayer :: "reg_player \<Rightarrow> registry \<Rightarrow> registry option" where
  "addPlayer p r =
     (let lowercase_name = asLowerCaseString (rp_name p)
      in do { t \<leftarrow> w_insert lowercase_name (wildcardTree r);
              Some \<lparr>reg_players = m_put (rp_id p) p (reg_players r),
                    mappedPlayerNames = m_put lowercase_name p (mappedPlayerNames r), wildcardTree = t\<rparr> })"

definition removePlayer :: "reg_player \<Rightarrow> registry \<Rightarrow> registry" where
  "removePlayer p r =
     (let lowercase_name = asLowerCaseString (rp_name p)
      in \<lparr>reg_players = m_erase (rp_id p) (reg_players r),
          mappedPlayerNames = m_erase lowercase_name (mappedPlayerNames r),
          wildcardTree = w_remove lowercase_name (wildcardTree r)\<rparr>)"

definition getPlayerByID :: "u32 \<Rightarrow> registry \<Rightarrow> reg_player option" where
  "getPlayerByID i r = m_find (reg_players r) i"

definition getPlayerByName :: "string \<Rightarrow> registry \<Rightarrow> reg_player option" where
  "getPlayerByName s r = (if s = [] then None else m_find (mappedPlayerNames r) (asLowerCaseString s))"

definition getPlayerByGUID :: "u32 \<Rightarrow> registry \<Rightarrow> reg_player option" where
  "getPlayerByGUID guid r =
     (if guid = 0 then None else find (\<lambda>p. guid = rp_guid p) (map snd (reg_players r)))"

definition getPlayerByAccount :: "u32 \<Rightarrow> registry \<Rightarrow> reg_player option" where
  "getPlayerByAccount acc r = find (\<lambda>p. rp_account p = acc) (map snd (reg_players r))"

datatype player_lookup = NotOnline | TooAmbiguous | Found reg_player

definition getPlayerByNameWildcard :: "string \<Rightarrow> registry \<Rightarrow> player_lookup" where
  "getPlayerByNameWildcard s r =
     (let strlen = length s
      in if strlen = 0 \<or> strlen > 20 then NotOnline
         else if last s = CHR ''~''
         then (case findOne (asLowerCaseString (take (strlen - 1) s)) (wildcardTree r) of
                 RETURNVALUE_PLAYERWITHTHISNAMEISNOTONLINE \<Rightarrow> NotOnline
               | RETURNVALUE_NAMEISTOOAMBIGUOUS \<Rightarrow> TooAmbiguous
               | RETURNVALUE_NOERROR result \<Rightarrow>
                   (case getPlayerByName result r of None \<Rightarrow> NotOnline | Some p \<Rightarrow> Found p))
         else (case getPlayerByName s r of None \<Rightarrow> NotOnline | Some p \<Rightarrow> Found p))"

text \<open>
  Players enter with a fresh id and a name nobody online has, and leave again (\<open>addList\<close> and
  \<open>removeList\<close> of \<open>Player\<close>).
\<close>

inductive reg_reachable :: "registry \<Rightarrow> bool" where
  reg_start: "reg_reachable reg_init"
| reg_enter: "\<lbrakk>reg_reachable r; rp_name p \<noteq> []; getPlayerByID (rp_id p) r = None;
     getPlayerByName (rp_name p) r = None; addPlayer p r = Some r'\<rbrakk> \<Longrightarrow> reg_reachable r'"
| reg_leave: "\<lbrakk>reg_reachable r; getPlayerByID i r = Some p\<rbrakk> \<Longrightarrow> reg_reachable (removePlayer p r)"

definition online_players :: "registry \<Rightarrow> reg_player set" where
  "online_players r = {p. getPlayerByID (rp_id p) r = Some p}"

definition reg_inv :: "registry \<Rightarrow> bool" where
  "reg_inv r \<longleftrightarrow>
     w_ok (wildcardTree r)
   \<and> (\<forall>k. k \<in> names (wildcardTree r) \<longleftrightarrow> m_find (mappedPlayerNames r) k \<noteq> None)
   \<and> (\<forall>k p. m_find (mappedPlayerNames r) k = Some p \<longleftrightarrow>
        m_find (reg_players r) (rp_id p) = Some p \<and> k = asLowerCaseString (rp_name p))
   \<and> (\<forall>i p. m_find (reg_players r) i = Some p \<longrightarrow> rp_id p = i \<and> rp_name p \<noteq> [])"

lemma lower_Nil_iff [simp]: "asLowerCaseString s = [] \<longleftrightarrow> s = []"
  by (simp add: asLowerCaseString_def)

lemma reg_invI:
  assumes "w_ok (wildcardTree r)"
    and "\<And>k. k \<in> names (wildcardTree r) \<longleftrightarrow> m_find (mappedPlayerNames r) k \<noteq> None"
    and "\<And>k p. m_find (mappedPlayerNames r) k = Some p \<longleftrightarrow>
        m_find (reg_players r) (rp_id p) = Some p \<and> k = asLowerCaseString (rp_name p)"
    and "\<And>i p. m_find (reg_players r) i = Some p \<Longrightarrow> rp_id p = i \<and> rp_name p \<noteq> []"
  shows "reg_inv r"
  using assms unfolding reg_inv_def by blast

lemma reg_invD:
  assumes "reg_inv r"
  shows "w_ok (wildcardTree r)"
    and "k \<in> names (wildcardTree r) \<longleftrightarrow> m_find (mappedPlayerNames r) k \<noteq> None"
    and "m_find (mappedPlayerNames r) k = Some p \<longleftrightarrow>
        m_find (reg_players r) (rp_id p) = Some p \<and> k = asLowerCaseString (rp_name p)"
    and "m_find (reg_players r) i = Some p \<Longrightarrow> rp_id p = i"
    and "m_find (reg_players r) i = Some p \<Longrightarrow> rp_name p \<noteq> []"
  using assms unfolding reg_inv_def by blast+

lemma reg_inv_enter:
  assumes inv: "reg_inv r" and p: "rp_name p \<noteq> []" "getPlayerByID (rp_id p) r = None"
      "getPlayerByName (rp_name p) r = None" and add: "addPlayer p r = Some r'"
  shows "reg_inv r'"
proof -
  note I = reg_invD [OF inv]
  let ?k = "asLowerCaseString (rp_name p)"
  obtain t where t: "w_insert ?k (wildcardTree r) = Some t" "w_ok t" "names t = insert ?k (names (wildcardTree r))"
    using tree.add_ok [OF I(1), of ?k] p(1) by auto
  have r': "r' = \<lparr>reg_players = m_put (rp_id p) p (reg_players r),
      mappedPlayerNames = m_put ?k p (mappedPlayerNames r), wildcardTree = t\<rparr>"
    using add t(1) by (simp add: addPlayer_def Let_def)
  have new: "m_find (reg_players r) (rp_id p) = None" "m_find (mappedPlayerNames r) ?k = None"
    using p by (simp_all add: getPlayerByID_def getPlayerByName_def)
  show ?thesis
  proof (rule reg_invI)
    fix k i q
    show "w_ok (wildcardTree r')" by (simp add: r' t)
    show "k \<in> names (wildcardTree r') \<longleftrightarrow> m_find (mappedPlayerNames r') k \<noteq> None"
      using I(2) [of k] by (simp add: r' t(3))
    show "m_find (reg_players r') i = Some q \<Longrightarrow> rp_id q = i \<and> rp_name q \<noteq> []"
      using I(4,5) [of i q] p(1) by (auto simp: r' split: if_splits)
    show "m_find (mappedPlayerNames r') k = Some q \<longleftrightarrow>
        m_find (reg_players r') (rp_id q) = Some q \<and> k = asLowerCaseString (rp_name q)"
    proof (cases "q = p")
      case True
      then show ?thesis using I(3) [of k p] new by (auto simp: r')
    next
      case False
      have "rp_id q \<noteq> rp_id p" if "m_find (reg_players r) (rp_id q) = Some q" using that new(1) by auto
      moreover have "k \<noteq> ?k" if "m_find (mappedPlayerNames r) k = Some q" using that new(2) by auto
      ultimately show ?thesis using I(3) [of k q] False by (auto simp: r')
    qed
  qed
qed

lemma reg_inv_leave:
  assumes inv: "reg_inv r" and p: "getPlayerByID i r = Some p"
  shows "reg_inv (removePlayer p r)"
proof -
  note I = reg_invD [OF inv]
  let ?k = "asLowerCaseString (rp_name p)" and ?r = "removePlayer p r"
  have t: "w_ok (w_remove ?k (wildcardTree r))"
      "names (w_remove ?k (wildcardTree r)) = names (wildcardTree r) - {?k}"
    using tree.del_ok [OF I(1)] by blast+
  have r: "reg_players ?r = m_erase (rp_id p) (reg_players r)"
      "mappedPlayerNames ?r = m_erase ?k (mappedPlayerNames r)"
      "wildcardTree ?r = w_remove ?k (wildcardTree r)"
    by (simp_all add: removePlayer_def Let_def)
  have pi: "m_find (reg_players r) (rp_id p) = Some p" and pk: "m_find (mappedPlayerNames r) ?k = Some p"
    using I(3,4) p by (simp_all add: getPlayerByID_def)
  show ?thesis
  proof (rule reg_invI)
    fix k j q
    show "w_ok (wildcardTree ?r)" by (simp add: r t)
    show "k \<in> names (wildcardTree ?r) \<longleftrightarrow> m_find (mappedPlayerNames ?r) k \<noteq> None"
      using I(2) [of k] by (simp add: r t(2))
    show "m_find (reg_players ?r) j = Some q \<Longrightarrow> rp_id q = j \<and> rp_name q \<noteq> []"
      using I(4,5) [of j q] by (simp add: r split: if_splits)
    show "m_find (mappedPlayerNames ?r) k = Some q \<longleftrightarrow>
        m_find (reg_players ?r) (rp_id q) = Some q \<and> k = asLowerCaseString (rp_name q)"
    proof (cases "q = p")
      case True
      then show ?thesis using I(3) [of k p] by (auto simp: r)
    next
      case False
      have "rp_id q \<noteq> rp_id p" if "m_find (reg_players r) (rp_id q) = Some q" using that pi False by auto
      moreover have "k \<noteq> ?k" if "m_find (mappedPlayerNames r) k = Some q" using that pk False by auto
      ultimately show ?thesis using I(3) [of k q] by (auto simp: r)
    qed
  qed
qed

lemma reg_reachable_inv: "reg_reachable r \<Longrightarrow> reg_inv r"
proof (induction rule: reg_reachable.induct)
  case reg_start
  have "holds (WNode [] False) u = False" for u by (cases u) (simp_all add: getChild_def)
  then show ?case by (simp add: reg_inv_def reg_init_def w_ok_def names_def)
qed (blast intro: reg_inv_enter reg_inv_leave)+

lemma to_lower_idem [simp]: "to_lower (to_lower c) = to_lower c"
  by (auto simp: to_lower_def)

lemma lower_idem [simp]: "asLowerCaseString (asLowerCaseString s) = asLowerCaseString s"
  by (simp add: asLowerCaseString_def)

lemma names_online:
  assumes "reg_inv r"
  shows "{u \<in> names (wildcardTree r). prefix q u} =
      asLowerCaseString ` rp_name ` {p \<in> online_players r. prefix q (asLowerCaseString (rp_name p))}"
    and "p \<in> online_players r \<Longrightarrow> getPlayerByName (asLowerCaseString (rp_name p)) r = Some p"
proof -
  note I = reg_invD [OF assms]
  have key: "u \<in> names (wildcardTree r) \<longleftrightarrow> (\<exists>p \<in> online_players r. u = asLowerCaseString (rp_name p))" for u
    using I(2) [of u] I(3) [of u] by (auto simp: online_players_def getPlayerByID_def)
  then show "{u \<in> names (wildcardTree r). prefix q u} =
      asLowerCaseString ` rp_name ` {p \<in> online_players r. prefix q (asLowerCaseString (rp_name p))}"
    by auto
  show "getPlayerByName (asLowerCaseString (rp_name p)) r = Some p" if "p \<in> online_players r"
    using that I(3) [of "asLowerCaseString (rp_name p)" p] I(5)
    by (simp add: online_players_def getPlayerByID_def getPlayerByName_def)
qed

text \<open>C17: searching for \<open>name~\<close> finds a player exactly when that player is the only one online whose
  name starts with the query, letter case aside; the search says the name is too ambiguous
  exactly when two players match and that nobody is online exactly when none does, whatever
  players entered and left before.\<close>

theorem wildcard_search_finds_unique:
  assumes "reg_reachable r" and "length q < 20"
  shows "(\<forall>p. getPlayerByNameWildcard (q @ ''~'') r = Found p \<longleftrightarrow>
        {x \<in> online_players r. prefix (asLowerCaseString q) (asLowerCaseString (rp_name x))} = {p})
     \<and> (getPlayerByNameWildcard (q @ ''~'') r = TooAmbiguous \<longleftrightarrow>
        (\<exists>x y. x \<noteq> y \<and> {x, y} \<subseteq> {x \<in> online_players r. prefix (asLowerCaseString q) (asLowerCaseString (rp_name x))}))
     \<and> (getPlayerByNameWildcard (q @ ''~'') r = NotOnline \<longleftrightarrow>
        {x \<in> online_players r. prefix (asLowerCaseString q) (asLowerCaseString (rp_name x))} = {})"
proof -
  have inv: "reg_inv r" using assms(1) by (rule reg_reachable_inv)
  let ?q = "asLowerCaseString q" and ?t = "wildcardTree r"
  obtain M where M: "M = {x \<in> online_players r. prefix ?q (asLowerCaseString (rp_name x))}" by simp
  have S: "{u \<in> names ?t. prefix ?q u} = asLowerCaseString ` rp_name ` M"
    unfolding M by (rule names_online(1) [OF inv])
  have found: "getPlayerByName (asLowerCaseString (rp_name p)) r = Some p" if "p \<in> M" for p
    using names_online(2) [OF inv] that M by blast
  have inj: "p = x" if "p \<in> M" "x \<in> M" "asLowerCaseString (rp_name p) = asLowerCaseString (rp_name x)" for p x
    using found [OF that(1)] found [OF that(2)] that(3) by (metis option.inject)
  have g: "getPlayerByNameWildcard (q @ ''~'') r = (case findOne ?q ?t of
                 RETURNVALUE_PLAYERWITHTHISNAMEISNOTONLINE \<Rightarrow> NotOnline
               | RETURNVALUE_NAMEISTOOAMBIGUOUS \<Rightarrow> TooAmbiguous
               | RETURNVALUE_NOERROR result \<Rightarrow>
                   (case getPlayerByName result r of None \<Rightarrow> NotOnline | Some p \<Rightarrow> Found p))"
    using assms(2) by (simp add: getPlayerByNameWildcard_def Let_def)
  note spec = findOne_spec [OF reg_invD(1) [OF inv], where q = ?q, unfolded S]
  have "getPlayerByNameWildcard (q @ ''~'') r = NotOnline \<and> M = {}
      \<or> (\<exists>p. getPlayerByNameWildcard (q @ ''~'') r = Found p \<and> M = {p})
      \<or> getPlayerByNameWildcard (q @ ''~'') r = TooAmbiguous \<and> (\<exists>x y. x \<noteq> y \<and> {x, y} \<subseteq> M)"
  proof (cases "findOne ?q ?t")
    case RETURNVALUE_PLAYERWITHTHISNAMEISNOTONLINE
    then have "M = {}" using spec(3) by blast
    then show ?thesis using g RETURNVALUE_PLAYERWITHTHISNAMEISNOTONLINE by simp
  next
    case RETURNVALUE_NAMEISTOOAMBIGUOUS
    obtain u v where "u \<noteq> v" "u \<in> {u \<in> names ?t. prefix ?q u}" "v \<in> {u \<in> names ?t. prefix ?q u}"
      using findOne_spec(2) [OF reg_invD(1) [OF inv] RETURNVALUE_NAMEISTOOAMBIGUOUS] by blast
    then obtain x y where "x \<in> M" "y \<in> M" "x \<noteq> y" unfolding S by blast
    then show ?thesis using g RETURNVALUE_NAMEISTOOAMBIGUOUS by auto
  next
    case (RETURNVALUE_NOERROR s)
    show ?thesis
    proof (cases "M = {}")
      case True
      then have "s = []" using spec(1) [OF RETURNVALUE_NOERROR] by auto
      then show ?thesis using g RETURNVALUE_NOERROR True by (simp add: getPlayerByName_def)
    next
      case False
      then obtain p where p: "p \<in> M" by blast
      then have "asLowerCaseString (rp_name p) \<in> {u \<in> names ?t. prefix ?q u}" using S by blast
      then have s: "asLowerCaseString ` rp_name ` M = {s}" using spec(1) [OF RETURNVALUE_NOERROR] by auto
      have low: "asLowerCaseString (rp_name x) = s" if "x \<in> M" for x
      proof -
        have "asLowerCaseString (rp_name x) \<in> asLowerCaseString ` rp_name ` M" using that by blast
        then show ?thesis unfolding s by simp
      qed
      then have "x = p" if "x \<in> M" for x using inj [OF that p] that p by simp
      then have "M = {p}" using p by blast
      moreover have "s = asLowerCaseString (rp_name p)" using low [OF p] by simp
      ultimately show ?thesis using g RETURNVALUE_NOERROR found [OF p] by simp
    qed
  qed
  then show ?thesis unfolding M [symmetric] by auto
qed

definition demo_reg_player :: "u32 \<Rightarrow> string \<Rightarrow> reg_player" where
  "demo_reg_player i s = \<lparr>rp_id = i, rp_guid = i, rp_account = i, rp_name = s\<rparr>"

theorem wildcard_search_finds_unique_witness:
  "\<exists>r. reg_reachable r
     \<and> getPlayerByNameWildcard ''aN~'' r = Found (demo_reg_player 7 ''Anna'')"
proof -
  obtain r where add: "addPlayer (demo_reg_player 7 ''Anna'') reg_init = Some r"
    by (simp add: addPlayer_def demo_reg_player_def asLowerCaseString_def to_lower_def Let_def addChild_def
        getChild_def reg_init_def)
  have r: "reg_reachable r"
    by (rule reg_enter [OF reg_start _ _ _ add])
      (simp_all add: demo_reg_player_def getPlayerByID_def getPlayerByName_def reg_init_def)
  have "reg_players r = [(7, demo_reg_player 7 ''Anna'')]"
    using add by (auto simp: addPlayer_def Let_def reg_init_def demo_reg_player_def split: Option.bind_splits)
  then have "online_players r = {demo_reg_player 7 ''Anna''}"
    unfolding online_players_def getPlayerByID_def by (auto simp: demo_reg_player_def split: if_splits)
  moreover have "asLowerCaseString ''aN'' = ''an''" "asLowerCaseString ''Anna'' = ''anna''"
    by code_simp+
  moreover have "rp_name (demo_reg_player 7 ''Anna'') = ''Anna''" by (simp add: demo_reg_player_def)
  ultimately have "{x \<in> online_players r. prefix (asLowerCaseString ''aN'') (asLowerCaseString (rp_name x))}
      = {demo_reg_player 7 ''Anna''}"
    by (auto simp del: One_nat_def)
  then have "getPlayerByNameWildcard (''aN'' @ ''~'') r = Found (demo_reg_player 7 ''Anna'')"
    using wildcard_search_finds_unique [OF r, of "''aN''"] by simp
  with r show ?thesis by (intro exI [of _ r]) simp
qed

end
