(* ===== verification/Waitlist.thy ===== *)
theory Waitlist
  imports Prelude
begin

text \<open>
  The login queue: \<open>src/src/creatures/players/management/waitlist.cpp\<close>. \<open>std::size_t\<close> is 64 bits
  wide. The configuration value, the number of players online and the clock are arguments.
  Using an iterator of one list on the other is undefined behaviour: no result.
\<close>

record wait =
  wt_timeout :: u64
  wt_playerGUID :: u32

record waitlist_info =
  priorityWaitList :: "wait list"
  waitList :: "wait list"

record wait_client =
  wc_guid :: u32
  wc_can_always_login :: bool
  wc_gamemaster :: bool
  wc_premium :: bool

definition wl_init :: waitlist_info where
  "wl_init = \<lparr>priorityWaitList = [], waitList = []\<rparr>"

text \<open>\<open>it->timeout - time\<close> is unsigned, so \<open><= 0\<close> compares with zero only.\<close>

definition cleanupList :: "u64 \<Rightarrow> wait list \<Rightarrow> wait list" where
  "cleanupList time l = filter (\<lambda>w. \<not> wt_timeout w - time \<le> 0) l"

definition wl_getTime :: "u64 \<Rightarrow> u64" where
  "wl_getTime slot =
     (if slot < 5 then 5 else if slot < 10 then 10 else if slot < 20 then 20 else if slot < 50 then 60 else 120)"

definition wl_getTimeout :: "u64 \<Rightarrow> u64" where
  "wl_getTimeout slot = wl_getTime slot + 15"

datatype wait_iterator = InPriority nat | InWait nat | WaitEnd

fun find_from :: "u32 \<Rightarrow> nat \<Rightarrow> wait list \<Rightarrow> nat option" where
  "find_from g i [] = None"
| "find_from g i (w # l) = (if wt_playerGUID w = g then Some i else find_from g (Suc i) l)"

definition findClient :: "wait_client \<Rightarrow> waitlist_info \<Rightarrow> wait_iterator \<times> nat" where
  "findClient p info =
     (case find_from (wc_guid p) 0 (priorityWaitList info) of
        Some i \<Rightarrow> (InPriority i, Suc i)
      | None \<Rightarrow>
          let slot = Suc (length (priorityWaitList info))
          in case find_from (wc_guid p) 0 (waitList info) of
               Some i \<Rightarrow> (InWait i, slot + i)
             | None \<Rightarrow> (WaitEnd, slot + length (waitList info)))"

definition erase_at :: "nat \<Rightarrow> 'a list \<Rightarrow> 'a list" where
  "erase_at i l = take i l @ drop (Suc i) l"

definition set_timeout :: "u64 \<Rightarrow> wait_iterator \<Rightarrow> waitlist_info \<Rightarrow> waitlist_info" where
  "set_timeout t it info =
     (case it of
        InPriority i \<Rightarrow> info\<lparr>priorityWaitList := (priorityWaitList info)[i := (priorityWaitList info ! i)\<lparr>wt_timeout := t\<rparr>]\<rparr>
      | InWait i \<Rightarrow> info\<lparr>waitList := (waitList info)[i := (waitList info ! i)\<lparr>wt_timeout := t\<rparr>]\<rparr>
      | WaitEnd \<Rightarrow> info)"

text \<open>The two clean-ups at the start of \<open>clientLogin\<close>.\<close>

definition cleaned :: "u64 \<Rightarrow> waitlist_info \<Rightarrow> waitlist_info" where
  "cleaned now info =
     \<lparr>priorityWaitList = cleanupList now (priorityWaitList info), waitList = cleanupList now (waitList info)\<rparr>"

definition clientLogin ::
    "u32 \<Rightarrow> nat \<Rightarrow> u64 \<Rightarrow> wait_client \<Rightarrow> waitlist_info \<Rightarrow> (bool \<times> waitlist_info) option" where
  "clientLogin maxPlayers playersOnline now p info =
     (if wc_can_always_login p \<or> wc_gamemaster p then Some (True, info)
      else if maxPlayers = 0 \<or> priorityWaitList info = [] \<and> waitList info = [] \<and> playersOnline < unat maxPlayers
      then Some (True, info)
      else let info = cleaned now info;
               (it, slot) = findClient p info
           in if it \<noteq> WaitEnd
              then if playersOnline + slot \<le> unat maxPlayers
                   then (case it of
                           InWait i \<Rightarrow> Some (True, info\<lparr>waitList := erase_at i (waitList info)\<rparr>)
                         | _ \<Rightarrow> None)
                   else Some (False, set_timeout (now + wl_getTimeout (of_nat slot) * 1000) it info)
              else let slot = length (priorityWaitList info)
                   in if wc_premium p
                      then Some (False, info\<lparr>priorityWaitList := priorityWaitList info @
                             [\<lparr>wt_timeout = now + wl_getTimeout (of_nat (slot + 1)) * 1000, wt_playerGUID = wc_guid p\<rparr>]\<rparr>)
                      else let slot = slot + length (waitList info)
                           in Some (False, info\<lparr>waitList := waitList info @
                             [\<lparr>wt_timeout = now + wl_getTimeout (of_nat (slot + 1)) * 1000, wt_playerGUID = wc_guid p\<rparr>]\<rparr>))"

definition getClientSlot :: "wait_client \<Rightarrow> waitlist_info \<Rightarrow> nat" where
  "getClientSlot p info = (let (it, slot) = findClient p info in if it = WaitEnd then 0 else slot)"

section \<open>The queue of guids\<close>

definition guids :: "wait list \<Rightarrow> u32 list" where
  "guids l = map wt_playerGUID l"

definition queue_of :: "waitlist_info \<Rightarrow> u32 list" where
  "queue_of info = guids (priorityWaitList info) @ guids (waitList info)"

lemma guids_simps [simp]:
  "guids [] = []" "guids (w # l) = wt_playerGUID w # guids l" "guids (l @ k) = guids l @ guids k"
  "length (guids l) = length l" "guids (erase_at i l) = erase_at i (guids l)"
  by (simp_all add: guids_def erase_at_def take_map drop_map)

text \<open>
  The clean-up is meant to drop the entries whose time is over; it drops those that expire in this
  very millisecond.
\<close>

lemma cleanupList_eq: "cleanupList now l = filter (\<lambda>w. wt_timeout w \<noteq> now) l"
  by (simp add: cleanupList_def)

lemma find_from_None: "find_from g i l = None \<longleftrightarrow> g \<notin> set (guids l)"
  by (induction g i l rule: find_from.induct) auto

lemma find_from_Some:
  "find_from g i l = Some j \<Longrightarrow> i \<le> j \<and> j - i < length l \<and> guids l ! (j - i) = g \<and> g \<notin> set (take (j - i) (guids l))"
proof (induction g i l rule: find_from.induct)
  case (2 g i w l)
  show ?case
  proof (cases "wt_playerGUID w = g")
    case True
    then show ?thesis using 2(2) by simp
  next
    case False
    then have "Suc i \<le> j \<and> j - Suc i < length l \<and> guids l ! (j - Suc i) = g \<and> g \<notin> set (take (j - Suc i) (guids l))"
      using 2 by simp
    moreover from this have "j - i = Suc (j - Suc i)" by linarith
    ultimately show ?thesis using False by simp
  qed
qed simp

lemma erase_first:
  "i < length l \<Longrightarrow> l ! i = x \<Longrightarrow> x \<notin> set (take i l) \<Longrightarrow> erase_at i l = remove1 x l"
proof (induction l arbitrary: i)
  case (Cons y l)
  then show ?case by (cases i) (auto simp: erase_at_def)
qed simp

text \<open>\<open>getClientSlot\<close> is the position in the queue, counted from 1.\<close>

lemma findClient_cases:
  obtains i where "findClient p info = (InPriority i, Suc i)" "i < length (priorityWaitList info)"
      "guids (priorityWaitList info) ! i = wc_guid p" "wc_guid p \<notin> set (take i (guids (priorityWaitList info)))"
  | i where "findClient p info = (InWait i, Suc (length (priorityWaitList info)) + i)"
      "wc_guid p \<notin> set (guids (priorityWaitList info))" "i < length (waitList info)"
      "guids (waitList info) ! i = wc_guid p" "wc_guid p \<notin> set (take i (guids (waitList info)))"
  | "findClient p info = (WaitEnd, Suc (length (queue_of info)))" "wc_guid p \<notin> set (queue_of info)"
proof (cases "find_from (wc_guid p) 0 (priorityWaitList info)")
  case (Some i)
  then have "findClient p info = (InPriority i, Suc i)" by (simp add: findClient_def)
  then show thesis using find_from_Some [OF Some] by (intro that(1) [of i]) simp_all
next
  case None
  note out = None
  show thesis
  proof (cases "find_from (wc_guid p) 0 (waitList info)")
    case (Some i)
    then have "findClient p info = (InWait i, Suc (length (priorityWaitList info)) + i)"
      using out by (simp add: findClient_def)
    then show thesis using out find_from_Some [OF Some] unfolding find_from_None
      by (intro that(2) [of i]) simp_all
  next
    case None
    then have "findClient p info = (WaitEnd, Suc (length (queue_of info)))"
      using out by (simp add: findClient_def queue_of_def)
    then show thesis using out None unfolding find_from_None
      by (intro that(3)) (simp_all add: queue_of_def)
  qed
qed

lemma getClientSlot_position:
  "(getClientSlot p info = 0 \<longleftrightarrow> wc_guid p \<notin> set (queue_of info))
   \<and> (\<forall>n. getClientSlot p info = Suc n \<longrightarrow>
        n < length (queue_of info) \<and> queue_of info ! n = wc_guid p \<and> wc_guid p \<notin> set (take n (queue_of info)))"
proof (cases rule: findClient_cases [of p info])
  case (1 i)
  then have "wc_guid p \<in> set (guids (priorityWaitList info))"
    by (metis guids_simps(4) nth_mem)
  with 1 show ?thesis by (simp add: getClientSlot_def queue_of_def nth_append)
next
  case (2 i)
  then have "wc_guid p \<in> set (guids (waitList info))"
    by (metis guids_simps(4) nth_mem)
  with 2 show ?thesis by (auto simp: getClientSlot_def queue_of_def nth_append)
next
  case 3
  then show ?thesis by (simp add: getClientSlot_def)
qed

lemma guids_set_timeout [simp]:
  "guids (priorityWaitList (set_timeout t it info)) = guids (priorityWaitList info)"
  "guids (waitList (set_timeout t it info)) = guids (waitList info)"
  by (auto simp: set_timeout_def guids_def map_update list_update_same_conv nth_equalityI
      split: wait_iterator.splits intro!: nth_equalityI; metis (no_types, lifting) list_update_beyond list_update_id
      nth_list_update nth_map not_less map_update)+

lemma clientLogin_queued:
  assumes "\<not> wc_can_always_login p" "\<not> wc_gamemaster p" "maxPlayers \<noteq> 0"
    and "queue_of info \<noteq> [] \<or> unat maxPlayers \<le> playersOnline"
  shows "clientLogin maxPlayers playersOnline now p info =
     (let c = cleaned now info;
          (it, slot) = findClient p c
      in if it \<noteq> WaitEnd
         then if playersOnline + slot \<le> unat maxPlayers
              then (case it of
                      InWait i \<Rightarrow> Some (True, c\<lparr>waitList := erase_at i (waitList c)\<rparr>)
                    | _ \<Rightarrow> None)
              else Some (False, set_timeout (now + wl_getTimeout (of_nat slot) * 1000) it c)
         else let slot = length (priorityWaitList c)
              in if wc_premium p
                 then Some (False, c\<lparr>priorityWaitList := priorityWaitList c @
                        [\<lparr>wt_timeout = now + wl_getTimeout (of_nat (slot + 1)) * 1000, wt_playerGUID = wc_guid p\<rparr>]\<rparr>)
                 else let slot = slot + length (waitList c)
                      in Some (False, c\<lparr>waitList := waitList c @
                        [\<lparr>wt_timeout = now + wl_getTimeout (of_nat (slot + 1)) * 1000, wt_playerGUID = wc_guid p\<rparr>]\<rparr>))"
  using assms by (auto simp: clientLogin_def queue_of_def guids_def)


definition demo_client :: "u32 \<Rightarrow> bool \<Rightarrow> wait_client" where
  "demo_client g pr = \<lparr>wc_guid = g, wc_can_always_login = False, wc_gamemaster = False, wc_premium = pr\<rparr>"

definition demo_queue :: waitlist_info where
  "demo_queue = \<lparr>priorityWaitList = [\<lparr>wt_timeout = 20000, wt_playerGUID = 5\<rparr>],
     waitList = [\<lparr>wt_timeout = 20000, wt_playerGUID = 6\<rparr>, \<lparr>wt_timeout = 20000, wt_playerGUID = 7\<rparr>]\<rparr>"


text \<open>C40: a premium client that has been queued can never be let in from the queue: as soon as its slot
  fits, the client is erased from the ordinary list with an iterator of the priority list, which
  is undefined.\<close>

theorem queued_premium_login_undefined:
  assumes c: "c = cleaned now info"
    and "\<not> wc_can_always_login p" "\<not> wc_gamemaster p" "maxPlayers \<noteq> 0"
    and "wc_guid p \<in> set (guids (priorityWaitList c))"
    and "playersOnline + getClientSlot p c \<le> unat maxPlayers"
  shows "clientLogin maxPlayers playersOnline now p info = None"
proof -
  have "guids (cleanupList now (priorityWaitList info)) \<noteq> []" using assms(5) c by (auto simp: cleaned_def)
  then have "priorityWaitList info \<noteq> []" by (auto simp: cleanupList_def guids_def)
  then have "queue_of info \<noteq> [] \<or> unat maxPlayers \<le> playersOnline" by (simp add: queue_of_def guids_def)
  note run = clientLogin_queued [OF assms(2-4) this, of now, folded c]
  show ?thesis
    using run assms(5,6) by (cases rule: findClient_cases [of p c]) (auto simp: Let_def getClientSlot_def queue_of_def)
qed

theorem queued_premium_login_undefined_witness:
  "clientLogin 10 8 1000 (demo_client 5 True) demo_queue = None"
proof -
  let ?p = "demo_client 5 True"
  have c: "demo_queue = cleaned 1000 demo_queue" by (simp add: demo_queue_def cleaned_def cleanupList_def)
  have pre: "\<not> wc_can_always_login ?p" "\<not> wc_gamemaster ?p" "(10 :: u32) \<noteq> 0"
    "wc_guid ?p \<in> set (guids (priorityWaitList demo_queue))" "8 + getClientSlot ?p demo_queue \<le> unat (10 :: u32)"
    by (simp_all add: demo_client_def demo_queue_def guids_def getClientSlot_def findClient_def)
  show ?thesis by (rule queued_premium_login_undefined [OF c pre])
qed

text \<open>The clean-up of the queue keeps clients that stopped retrying: an entry is dropped exactly when
  it times out in the current millisecond, so an entry whose time is already over stays, in front
  of those behind it, until its client comes back.\<close>

theorem expired_entries_are_kept:
  "w \<in> set (cleanupList now l) \<longleftrightarrow> w \<in> set l \<and> (wt_timeout w < now \<or> now < wt_timeout w)"
  by (auto simp: cleanupList_def)

end
