(* ===== verification/Ban.thy ===== *)
theory Ban
  imports StdMap
begin

text \<open>
  Connection throttling and bans: \<open>src/src/creatures/players/management/ban.cpp\<close> and \<open>ban.h\<close>. The
  clock is an argument; the row the database returns for a query is an argument, and the queries
  handed to the database thread are an output list.
\<close>

section \<open>Connection attempts\<close>

record connect_block =
  lastAttempt :: u64
  blockTime :: u64
  cb_count :: u32

type_synonym ip_connect_map = "(u32 \<times> connect_block) list"

definition acceptConnection :: "u64 \<Rightarrow> u32 \<Rightarrow> ip_connect_map \<Rightarrow> bool \<times> ip_connect_map" where
  "acceptConnection currentTime clientIP m =
     (case m_find m clientIP of
        None \<Rightarrow> (True, m_put clientIP \<lparr>lastAttempt = currentTime, blockTime = 0, cb_count = 1\<rparr> m)
      | Some b \<Rightarrow>
          if blockTime b > currentTime
          then (False, m_put clientIP (b\<lparr>blockTime := blockTime b + 250\<rparr>) m)
          else let timeDiff = sint (currentTime - lastAttempt b);
                   b = b\<lparr>lastAttempt := currentTime\<rparr>
               in if timeDiff \<le> 5000
                  then let b = b\<lparr>cb_count := cb_count b + 1\<rparr>
                       in if cb_count b > 5
                          then let b = b\<lparr>cb_count := 0\<rparr>
                               in if timeDiff \<le> 500
                                  then (False, m_put clientIP (b\<lparr>blockTime := currentTime + 3000\<rparr>) m)
                                  else (True, m_put clientIP b m)
                          else (True, m_put clientIP b m)
                  else (True, m_put clientIP (b\<lparr>cb_count := 1\<rparr>) m))"

fun attempts :: "u32 \<Rightarrow> u64 list \<Rightarrow> ip_connect_map \<Rightarrow> bool list \<times> ip_connect_map" where
  "attempts ip [] m = ([], m)"
| "attempts ip (t # ts) m =
     (let (ok, m) = acceptConnection t ip m; (oks, m) = attempts ip ts m in (ok # oks, m))"

lemma acceptConnection_other_ip:
  "ip \<noteq> ip' \<Longrightarrow> m_find (snd (acceptConnection t ip m)) ip' = m_find m ip'"
  by (auto simp: acceptConnection_def Let_def split: option.splits)

lemma acceptConnection_find:
  "m_find m ip = Some b \<Longrightarrow>
   acceptConnection t ip m =
     (fst (acceptConnection t ip [(ip, b)]),
      m_put ip (the (m_find (snd (acceptConnection t ip [(ip, b)])) ip)) m)"
  by (auto simp: acceptConnection_def Let_def)

text \<open>\<open>gaps d ts\<close>: each time lies at most \<open>d\<close> after the one before it; \<open>apart d ts\<close>: more than \<open>d\<close>.\<close>

fun gaps :: "nat \<Rightarrow> u64 list \<Rightarrow> bool" where
  "gaps d (s # t # ts) \<longleftrightarrow> unat s \<le> unat t \<and> unat t \<le> unat s + d \<and> gaps d (t # ts)"
| "gaps d _ \<longleftrightarrow> True"

fun apart :: "nat \<Rightarrow> u64 list \<Rightarrow> bool" where
  "apart d (s # t # ts) \<longleftrightarrow> unat s + d < unat t \<and> apart d (t # ts)"
| "apart d _ \<longleftrightarrow> True"

lemma sint_diff:
  fixes s t :: u64
  assumes "unat s \<le> unat t" and "unat t < 2 ^ 62"
  shows "sint (t - s) = int (unat t) - int (unat s)"
proof -
  have le: "s \<le> t" using assms(1) by (simp add: word_le_nat_alt)
  then have u: "unat (t - s) = unat t - unat s" by (rule unat_sub)
  have eq: "uint (t - s) = int (unat t) - int (unat s)"
    using u assms(1) by (simp add: uint_nat of_nat_diff del: of_nat_unat)
  have "int (unat t) < 2 ^ 62" using assms(2) by (metis of_nat_less_iff of_nat_numeral of_nat_power)
  moreover have "(2 :: int) ^ 62 \<le> 2 ^ 63" by simp
  ultimately have "uint (t - s) < 2 ^ 63" using eq by linarith
  moreover have "- (2 ^ 63) \<le> uint (t - s)"
    by (rule order_trans [of _ 0]) simp_all
  ultimately have "signed_take_bit 63 (uint (t - s)) = uint (t - s)"
    by (intro signed_take_bit_int_eq_self)
  then show ?thesis using eq by (simp add: sint_uint)
qed

lemma upt_Suc_shift: "[0..<Suc n] = 0 # map Suc [0..<n]"
  by (simp add: upt_conv_Cons map_Suc_upt del: upt_Suc)

lemma word_less_unat: "(a :: u64) < b \<longleftrightarrow> unat a < unat b"
  by (simp add: word_less_nat_alt)

text \<open>While an address is blocked every attempt extends the block by 250 milliseconds.\<close>

lemma blocked_stays_blocked:
  assumes "m_find m ip = Some b" "gaps 250 (s # ts)" "unat s + 250 < unat (blockTime b)"
    and "unat (blockTime b) + 250 * length ts < 2 ^ 64"
  shows "fst (attempts ip ts m) = replicate (length ts) False"
  using assms
proof (induction ts arbitrary: s m b)
  case (Cons t ts)
  let ?b = "b\<lparr>blockTime := blockTime b + 250\<rparr>"
  have "unat t < unat (blockTime b)" using Cons.prems(2,3) by simp
  then have a: "acceptConnection t ip m = (False, m_put ip ?b m)"
    using Cons.prems(1) by (simp add: acceptConnection_def word_less_unat)
  have "unat (blockTime b + 250) = unat (blockTime b) + unat (250 :: u64)"
    using Cons.prems(4) by (intro unat_plus_no_wrap) simp
  then have u: "unat (blockTime ?b) = unat (blockTime b) + 250" by simp
  have "fst (attempts ip ts (m_put ip ?b m)) = replicate (length ts) False"
    by (rule Cons.IH [of _ ?b t]) (use Cons.prems u in auto)
  then show ?case by (simp add: a case_prod_beta)
qed simp

lemma counting_attempts:
  assumes "m_find m ip = Some \<lparr>lastAttempt = s, blockTime = 0, cb_count = of_nat k\<rparr>" "1 \<le> k" "k \<le> 5"
    and "gaps 250 (s # ts)" "\<forall>t \<in> set (s # ts). unat t < 2 ^ 61" "length ts < 2 ^ 32"
  shows "fst (attempts ip ts m) = map (\<lambda>i. k + i < 5) [0..<length ts]"
  using assms
proof (induction ts arbitrary: s m k)
  case (Cons t ts)
  have le: "unat s \<le> unat t" "unat t \<le> unat s + 250" and t: "unat t < 2 ^ 61"
    using Cons.prems(4,5) by simp_all
  have "sint (t - s) = int (unat t) - int (unat s)"
    using le t by (intro sint_diff) simp_all
  then have d: "sint (t - s) \<le> 250" using le by linarith
  show ?case
  proof (cases "k = 5")
    case False
    then have k: "k < 5" using Cons.prems(3) by simp
    let ?b = "\<lparr>lastAttempt = t, blockTime = 0, cb_count = of_nat (Suc k)\<rparr>"
    have "unat (of_nat (Suc k) :: u32) = Suc k" using k by (intro unat_of_nat_small) simp
    then have "\<not> (5 :: u32) < of_nat (Suc k)" using k by (simp add: word_less_nat_alt)
    then have a: "acceptConnection t ip m = (True, m_put ip ?b m)"
      using Cons.prems(1) d by (simp add: acceptConnection_def Let_def add.commute)
    have "fst (attempts ip ts (m_put ip ?b m)) = map (\<lambda>i. Suc k + i < 5) [0..<length ts]"
      by (rule Cons.IH [of _ t]) (use Cons.prems k in auto)
    then show ?thesis using k by (simp add: a case_prod_beta upt_Suc_shift comp_def del: upt_Suc)
  next
    case True
    let ?b = "\<lparr>lastAttempt = t, blockTime = t + 3000, cb_count = 0\<rparr>"
    have a: "acceptConnection t ip m = (False, m_put ip ?b m)"
      using Cons.prems(1) d True by (simp add: acceptConnection_def Let_def)
    have "unat (t + 3000) = unat t + unat (3000 :: u64)"
      using t by (intro unat_plus_no_wrap) simp
    then have u: "unat (t + 3000) = unat t + 3000" by simp
    have "fst (attempts ip ts (m_put ip ?b m)) = replicate (length ts) False"
      by (rule blocked_stays_blocked [of _ _ ?b t]) (use Cons.prems t u in auto)
    then show ?thesis using True by (simp add: a case_prod_beta map_replicate_const)
  qed
qed simp

text \<open>C28: a flood from one address is cut off: of attempts that follow each other within 250
  milliseconds, however many there are, exactly the first five are accepted, since every refused
  attempt moves the end of the block ahead of the next one.\<close>

theorem flood_is_blocked:
  assumes "m_find m ip = None" and "gaps 250 ts" and "\<forall>t \<in> set ts. unat t < 2 ^ 61"
    and "length ts < 2 ^ 32"
  shows "fst (attempts ip ts m) = map (\<lambda>i. i < 5) [0..<length ts]"
proof (cases ts)
  case (Cons t us)
  let ?b = "\<lparr>lastAttempt = t, blockTime = 0, cb_count = of_nat 1\<rparr> :: connect_block"
  have a: "acceptConnection t ip m = (True, m_put ip ?b m)"
    using assms(1) by (simp add: acceptConnection_def)
  have "fst (attempts ip us (m_put ip ?b m)) = map (\<lambda>i. 1 + i < 5) [0..<length us]"
    by (rule counting_attempts [of _ _ t]) (use assms Cons in auto)
  then show ?thesis by (simp add: Cons a case_prod_beta upt_Suc_shift comp_def del: upt_Suc)
qed simp

theorem flood_is_blocked_witness:
  "fst (attempts 9 [1000, 1100, 1200, 1300, 1400, 1500, 1700] []) = [True, True, True, True, True, False, False]"
  using flood_is_blocked [of "[]" 9 "[1000, 1100, 1200, 1300, 1400, 1500, 1700]"]
  by (simp add: upt_rec)

text \<open>A well-behaved address is never refused: attempts more than five seconds apart are all
  accepted, whatever other addresses do in between.\<close>

theorem spaced_attempts_accepted:
  assumes "m_find m ip = None" and "apart 5000 ts" and "\<forall>t \<in> set ts. unat t < 2 ^ 62"
  shows "fst (attempts ip ts m) = replicate (length ts) True
     \<and> (\<forall>ip'. ip' \<noteq> ip \<longrightarrow> m_find (snd (attempts ip ts m)) ip' = m_find m ip')"
proof -
  have other: "ip' \<noteq> ip \<Longrightarrow> m_find (snd (attempts ip ts m)) ip' = m_find m ip'" for ts m ip'
    by (induction ts arbitrary: m) (simp_all add: case_prod_beta acceptConnection_other_ip)
  have later: "fst (attempts ip us n) = replicate (length us) True"
    if "m_find n ip = Some b" "blockTime b = 0" "apart 5000 (lastAttempt b # us)" "\<forall>t \<in> set us. unat t < 2 ^ 62"
    for us n b
    using that
  proof (induction us arbitrary: n b)
    case (Cons t us)
    have "sint (t - lastAttempt b) = int (unat t) - int (unat (lastAttempt b))"
      using Cons.prems by (intro sint_diff) simp_all
    moreover have "unat (lastAttempt b) + 5000 < unat t" using Cons.prems(3) by simp
    ultimately have "\<not> sint (t - lastAttempt b) \<le> 5000" by linarith
    then have "acceptConnection t ip n = (True, m_put ip (b\<lparr>lastAttempt := t, cb_count := 1\<rparr>) n)"
      using Cons.prems(1,2) by (simp add: acceptConnection_def Let_def)
    moreover have "fst (attempts ip us (m_put ip (b\<lparr>lastAttempt := t, cb_count := 1\<rparr>) n)) = replicate (length us) True"
      by (rule Cons.IH [of _ "b\<lparr>lastAttempt := t, cb_count := 1\<rparr>"]) (use Cons.prems in simp_all)
    ultimately show ?case by (simp add: case_prod_beta)
  qed simp
  have "fst (attempts ip ts m) = replicate (length ts) True"
  proof (cases ts)
    case (Cons t us)
    then show ?thesis
      using later [of "m_put ip \<lparr>lastAttempt = t, blockTime = 0, cb_count = 1\<rparr> m"
          "\<lparr>lastAttempt = t, blockTime = 0, cb_count = 1\<rparr>" us] assms
      by (simp add: acceptConnection_def case_prod_beta)
  qed simp
  then show ?thesis using other by blast
qed

theorem spaced_attempts_accepted_witness:
  "fst (attempts 9 [1000, 6001, 12000] []) = [True, True, True]"
  using spaced_attempts_accepted [of "[]" 9 "[1000, 6001, 12000]"] by simp

section \<open>Bans\<close>

record ban_info =
  bannedBy :: string
  ban_reason :: string
  ban_expiresAt :: int

text \<open>The columns of a ban row, and the statements for the database thread.\<close>

record ban_row =
  br_reason :: string
  br_expires_at :: int
  br_banned_at :: int
  br_banned_by :: u32
  br_name :: string

datatype db_task =
  InsertBanHistory u32 string int int u32 | DeleteAccountBan u32 | DeleteIpBan u32

definition ban_info_of :: "ban_row \<Rightarrow> ban_info" where
  "ban_info_of row = \<lparr>bannedBy = br_name row, ban_reason = br_reason row, ban_expiresAt = br_expires_at row\<rparr>"

definition isAccountBanned ::
    "int \<Rightarrow> u32 \<Rightarrow> ban_row option \<Rightarrow> ban_info \<Rightarrow> bool \<times> ban_info \<times> db_task list" where
  "isAccountBanned now accountId result banInfo =
     (case result of
        None \<Rightarrow> (False, banInfo, [])
      | Some row \<Rightarrow>
          let expiresAt = br_expires_at row
          in if expiresAt \<noteq> 0 \<and> now > expiresAt
             then (False, banInfo,
                   [InsertBanHistory accountId (br_reason row) (br_banned_at row) expiresAt (br_banned_by row),
                    DeleteAccountBan accountId])
             else (True, ban_info_of row, []))"

definition isIpBanned ::
    "int \<Rightarrow> u32 \<Rightarrow> ban_row option \<Rightarrow> ban_info \<Rightarrow> bool \<times> ban_info \<times> db_task list" where
  "isIpBanned now clientIP result banInfo =
     (if clientIP = 0 then (False, banInfo, [])
      else case result of
        None \<Rightarrow> (False, banInfo, [])
      | Some row \<Rightarrow>
          let expiresAt = br_expires_at row
          in if expiresAt \<noteq> 0 \<and> now > expiresAt
             then (False, banInfo, [DeleteIpBan clientIP])
             else (True, ban_info_of row, []))"

definition isPlayerNamelocked :: "'row option \<Rightarrow> bool" where
  "isPlayerNamelocked result \<longleftrightarrow> result \<noteq> None"

end
