(* ===== verification/FileLoader.thy ===== *)
theory FileLoader
  imports Prelude
begin

text \<open>
  The tree format of map and item files: \<open>src/src/io/fileloader.cpp\<close> and \<open>fileloader.h\<close>. The mapped file
  is its list of bytes and an iterator is an index into it; the exception \<open>InvalidOTBFormat\<close> is the
  left value of the result.
\<close>

section \<open>Nodes\<close>

datatype load_error = InvalidOTBFormat

definition ESCAPE :: byte where "ESCAPE = 0xFD"
definition START :: byte where "START = 0xFE"
definition END_NODE :: byte where "END_NODE = 0xFF"

lemmas node_chars = ESCAPE_def START_def END_NODE_def

datatype otb_node =
  OtbNode (nd_type: byte) (propsBegin: nat) (propsEnd: nat) (nd_children: "otb_node list")

definition wildcard :: "byte list" where "wildcard = [0, 0, 0, 0]"

text \<open>The constructor of \<open>Loader\<close>: the size check and the identifier.\<close>

definition open_loader :: "byte list \<Rightarrow> byte list \<Rightarrow> load_error + byte list" where
  "open_loader fileContents acceptedIdentifier =
     (if length fileContents \<le> 4 + 1 + 1 + 1 then Inl InvalidOTBFormat
      else let fileIdentifier = take 4 fileContents
           in if fileIdentifier \<noteq> acceptedIdentifier \<and> fileIdentifier \<noteq> wildcard then Inl InvalidOTBFormat
              else Inr fileContents)"

text \<open>
  The loop of \<open>parseTree\<close> at index \<open>it\<close>, with the bytes from there on. The stack holds the open nodes,
  innermost first; a node is added to its parent's children when it is closed, and a closed root
  is the last argument. The end of the properties is set at the first child or at the end mark.
\<close>

definition close_props :: "nat \<Rightarrow> otb_node \<Rightarrow> otb_node" where
  "close_props it n =
     (if nd_children n = [] then OtbNode (nd_type n) (propsBegin n) it (nd_children n) else n)"

definition add_child :: "otb_node \<Rightarrow> otb_node \<Rightarrow> otb_node" where
  "add_child c n = OtbNode (nd_type n) (propsBegin n) (propsEnd n) (nd_children n @ [c])"

fun parse_loop ::
    "byte list \<Rightarrow> nat \<Rightarrow> otb_node list \<Rightarrow> otb_node option \<Rightarrow> load_error + otb_node" where
  "parse_loop [] it stack root =
     (case (stack, root) of ([], Some r) \<Rightarrow> Inr r | _ \<Rightarrow> Inl InvalidOTBFormat)"
| "parse_loop (b # bs) it stack root =
     (if b = START
      then (case stack of
              [] \<Rightarrow> Inl InvalidOTBFormat
            | cur # st \<Rightarrow>
                (case bs of
                   [] \<Rightarrow> Inl InvalidOTBFormat
                 | t # bs' \<Rightarrow>
                     parse_loop bs' (it + 2) (OtbNode t (it + 2) 0 [] # close_props it cur # st) root))
      else if b = END_NODE
      then (case stack of
              [] \<Rightarrow> Inl InvalidOTBFormat
            | cur # st \<Rightarrow>
                (case st of
                   [] \<Rightarrow> parse_loop bs (it + 1) [] (Some (close_props it cur))
                 | par # st' \<Rightarrow> parse_loop bs (it + 1) (add_child (close_props it cur) par # st') root))
      else if b = ESCAPE
      then (case bs of [] \<Rightarrow> Inl InvalidOTBFormat | _ # bs' \<Rightarrow> parse_loop bs' (it + 2) stack root)
      else parse_loop bs (it + 1) stack root)"

definition parseTree :: "byte list \<Rightarrow> load_error + otb_node" where
  "parseTree fileContents =
     (if fileContents ! 4 \<noteq> START then Inl InvalidOTBFormat
      else parse_loop (drop 6 fileContents) 6 [OtbNode (fileContents ! 5) 6 0 []] None)"

text \<open>\<open>getProps\<close>: the bytes of the properties with the escape marks dropped; no result when there are none.\<close>

fun unescape :: "bool \<Rightarrow> byte list \<Rightarrow> byte list" where
  "unescape lastEscaped [] = []"
| "unescape lastEscaped (b # bs) =
     (let lastEscaped = (b = ESCAPE \<and> \<not> lastEscaped)
      in if \<not> lastEscaped then b # unescape lastEscaped bs else unescape lastEscaped bs)"

definition getProps :: "byte list \<Rightarrow> otb_node \<Rightarrow> byte list option" where
  "getProps fileContents n =
     (if propsEnd n - propsBegin n = 0 then None
      else Some (unescape False (take (propsEnd n - propsBegin n) (drop (propsBegin n) fileContents))))"

section \<open>The format\<close>

text \<open>
  A tree of typed nodes with properties, as it is written: the start mark, the type, the properties
  with the three marks escaped, the children, and the end mark.
\<close>

datatype otb_tree = OtbTree byte "byte list" "otb_tree list"

fun escape :: "byte list \<Rightarrow> byte list" where
  "escape [] = []"
| "escape (b # bs) = (if b = ESCAPE \<or> b = START \<or> b = END_NODE then [ESCAPE, b] else [b]) @ escape bs"

fun encode :: "otb_tree \<Rightarrow> byte list" where
  "encode (OtbTree t props cs) = [START, t] @ escape props @ concat (map encode cs) @ [END_NODE]"

text \<open>What a parsed node stands for, given the file.\<close>

fun tree_of :: "byte list \<Rightarrow> otb_node \<Rightarrow> otb_tree" where
  "tree_of f (OtbNode t b e cs) =
     OtbTree t (case getProps f (OtbNode t b e cs) of None \<Rightarrow> [] | Some ps \<Rightarrow> ps) (map (tree_of f) cs)"

lemma unescape_escape_append: "unescape False (escape bs @ rest) = bs @ unescape False rest"
  by (induction bs) (auto simp: node_chars)

lemma unescape_escape [simp]: "unescape False (escape bs) = bs"
  using unescape_escape_append [of bs "[]"] by simp

lemma escape_Nil_iff [simp]: "escape bs = [] \<longleftrightarrow> bs = []"
  by (cases bs) auto

lemma parse_loop_escape:
  "parse_loop (escape bs @ rest) it stack root = parse_loop rest (it + length (escape bs)) stack root"
  by (induction bs arbitrary: it) (auto simp: node_chars add.assoc)

text \<open>Where the parts of an encoded tree lie when its start mark is at index \<open>it\<close>.\<close>

fun node_at :: "nat \<Rightarrow> otb_tree \<Rightarrow> otb_node" and nodes_at :: "nat \<Rightarrow> otb_tree list \<Rightarrow> otb_node list" where
  "node_at it (OtbTree t props cs) =
     OtbNode t (it + 2) (it + 2 + length (escape props)) (nodes_at (it + 2 + length (escape props)) cs)"
| "nodes_at it [] = []"
| "nodes_at it (c # cs) = node_at it c # nodes_at (it + length (encode c)) cs"

fun children_on :: "nat \<Rightarrow> otb_tree list \<Rightarrow> otb_node \<Rightarrow> otb_node" where
  "children_on it [] n = n"
| "children_on it (c # cs) n =
     children_on (it + length (encode c)) cs (add_child (node_at it c) (close_props it n))"

definition parses_as_child :: "otb_tree \<Rightarrow> bool" where
  "parses_as_child c \<longleftrightarrow>
     (\<forall>rest it cur st root. parse_loop (encode c @ rest) it (cur # st) root =
        parse_loop rest (it + length (encode c)) (add_child (node_at it c) (close_props it cur) # st) root)"

lemma parse_children:
  assumes "\<forall>c \<in> set cs. parses_as_child c"
  shows "parse_loop (concat (map encode cs) @ rest) it (n # st) root =
     parse_loop rest (it + length (concat (map encode cs))) (children_on it cs n # st) root"
  using assms
proof (induction cs arbitrary: it n)
  case (Cons c cs)
  have "parse_loop (encode c @ concat (map encode cs) @ rest) it (n # st) root =
     parse_loop (concat (map encode cs) @ rest) (it + length (encode c))
       (add_child (node_at it c) (close_props it n) # st) root"
    using Cons.prems unfolding parses_as_child_def by simp
  then show ?case using Cons by (simp add: add.assoc)
qed simp

lemma close_children_on_later:
  "nd_children n \<noteq> [] \<Longrightarrow>
   close_props i (children_on it cs n) =
     OtbNode (nd_type n) (propsBegin n) (propsEnd n) (nd_children n @ nodes_at it cs)"
proof (induction cs arbitrary: it n)
  case Nil
  then show ?case by (cases n) (simp add: close_props_def)
next
  case (Cons c cs)
  then show ?case by (simp add: add_child_def close_props_def)
qed

lemma close_children_on:
  assumes "nd_children n = []" and "cs = [] \<longrightarrow> i = it"
  shows "close_props i (children_on it cs n) = OtbNode (nd_type n) (propsBegin n) it (nodes_at it cs)"
proof (cases cs)
  case Nil
  then show ?thesis using assms by (simp add: close_props_def)
next
  case (Cons c cs')
  have "close_props it n = OtbNode (nd_type n) (propsBegin n) it []"
    using assms(1) by (simp add: close_props_def)
  then show ?thesis using Cons by (simp add: close_children_on_later add_child_def)
qed

lemma parses_as_child: "parses_as_child c"
proof (induction c)
  case (OtbTree t props cs)
  then have cs: "\<forall>c \<in> set cs. parses_as_child c" by blast
  show ?case
    unfolding parses_as_child_def
  proof (intro allI)
    fix rest it cur st root
    let ?b = "it + 2" and ?e = "it + 2 + length (escape props)" and ?body = "concat (map encode cs)"
    let ?n = "OtbNode t ?b 0 []"
    have "parse_loop (encode (OtbTree t props cs) @ rest) it (cur # st) root =
        parse_loop (escape props @ ?body @ END_NODE # rest) ?b (?n # close_props it cur # st) root"
      by (simp add: node_chars)
    also have "\<dots> = parse_loop (?body @ END_NODE # rest) ?e (?n # close_props it cur # st) root"
      by (rule parse_loop_escape)
    also have "\<dots> = parse_loop (END_NODE # rest) (?e + length ?body)
        (children_on ?e cs ?n # close_props it cur # st) root"
      by (rule parse_children [OF cs])
    also have "\<dots> = parse_loop rest (?e + length ?body + 1)
        (add_child (close_props (?e + length ?body) (children_on ?e cs ?n)) (close_props it cur) # st) root"
      by (simp add: node_chars)
    also have "close_props (?e + length ?body) (children_on ?e cs ?n) = node_at it (OtbTree t props cs)"
      by (subst close_children_on) simp_all
    also have "?e + length ?body + 1 = it + length (encode (OtbTree t props cs))"
      by simp
    finally show "parse_loop (encode (OtbTree t props cs) @ rest) it (cur # st) root =
        parse_loop rest (it + length (encode (OtbTree t props cs)))
          (add_child (node_at it (OtbTree t props cs)) (close_props it cur) # st) root" .
  qed
qed

lemma parseTree_encode:
  assumes "length ident = 4"
  shows "parseTree (ident @ encode c) = Inr (node_at 4 c)"
proof -
  obtain t props cs where c: "c = OtbTree t props cs" by (cases c)
  let ?e = "6 + length (escape props)" and ?body = "concat (map encode cs)" and ?n = "OtbNode t 6 0 []"
  have "drop 6 ident = []" and "6 - length ident = 2" using assms by simp_all
  then have "drop 6 (ident @ encode c) = escape props @ ?body @ [END_NODE]"
    by (simp add: c numeral_2_eq_2)
  moreover have "(ident @ encode c) ! 4 = START" "(ident @ encode c) ! 5 = t"
    using assms by (simp_all add: nth_append c)
  ultimately have "parseTree (ident @ encode c) = parse_loop (escape props @ ?body @ [END_NODE]) 6 [?n] None"
    by (simp add: parseTree_def)
  also have "\<dots> = parse_loop (?body @ [END_NODE]) ?e [?n] None"
    by (rule parse_loop_escape)
  also have "\<dots> = parse_loop [END_NODE] (?e + length ?body) [children_on ?e cs ?n] None"
    by (rule parse_children) (simp add: parses_as_child)
  also have "\<dots> = Inr (close_props (?e + length ?body) (children_on ?e cs ?n))"
    by (simp add: node_chars)
  also have "close_props (?e + length ?body) (children_on ?e cs ?n) = node_at 4 c"
    unfolding c by (subst close_children_on) simp_all
  finally show ?thesis .
qed

lemma getProps_at:
  assumes "length pre = it"
  shows "(case getProps (pre @ encode (OtbTree t props cs) @ post) (node_at it (OtbTree t props cs)) of
      None \<Rightarrow> [] | Some ps \<Rightarrow> ps) = props"
proof -
  have "drop (it + 2) (pre @ encode (OtbTree t props cs) @ post) =
      escape props @ concat (map encode cs) @ END_NODE # post"
    using assms by simp
  then show ?thesis by (simp add: getProps_def)
qed

lemma tree_of_node_at:
  "length pre = it \<Longrightarrow> tree_of (pre @ encode c @ post) (node_at it c) = c"
proof (induction c arbitrary: pre it post)
  case (OtbTree t props cs)
  let ?f = "pre @ encode (OtbTree t props cs) @ post" and ?e = "it + 2 + length (escape props)"
  have kids: "map (tree_of ?f) (nodes_at i ds) = ds"
    if "?f = p @ concat (map encode ds) @ q" "length p = i" "set ds \<subseteq> set cs" for ds p q i
    using that
  proof (induction ds arbitrary: p i)
    case (Cons d ds)
    have "tree_of (p @ encode d @ concat (map encode ds) @ q) (node_at i d) = d"
      by (rule OtbTree.IH) (use Cons.prems in auto)
    moreover have "?f = p @ encode d @ concat (map encode ds) @ q" using Cons.prems(1) by simp
    moreover have "map (tree_of ?f) (nodes_at (i + length (encode d)) ds) = ds"
      by (rule Cons.IH [of "p @ encode d"]) (use Cons.prems in simp_all)
    ultimately show ?case by simp
  qed simp
  have "map (tree_of ?f) (nodes_at ?e cs) = cs"
    by (rule kids [of "pre @ [START, t] @ escape props" _ "END_NODE # post"]) (use OtbTree.prems in simp_all)
  then show ?case using getProps_at [OF OtbTree.prems, of t props cs post] by simp
qed

text \<open>C24: every tree that is written in the format is read back: for a file that starts with the accepted or
  the wildcard identifier and holds an encoded tree other than a bare root, the loader accepts it
  and the parsed nodes have the types, the unescaped properties and the children of the tree, in
  order, whatever bytes the properties contain.\<close>

theorem otb_roundtrip:
  assumes "length ident = 4" and "ident = accepted \<or> ident = wildcard" and "3 < length (encode c)"
  shows "\<exists>f n. open_loader (ident @ encode c) accepted = Inr f \<and> parseTree f = Inr n \<and> tree_of f n = c"
proof -
  have "open_loader (ident @ encode c) accepted = Inr (ident @ encode c)"
    using assms by (auto simp: open_loader_def)
  moreover have "tree_of (ident @ encode c) (node_at 4 c) = c"
    using tree_of_node_at [of ident 4 c "[]"] assms(1) by simp
  ultimately show ?thesis using parseTree_encode [OF assms(1)] by blast
qed

theorem otb_roundtrip_witness:
  "\<exists>f n. open_loader ([79, 84, 66, 77] @ encode (OtbTree 0 [1, 0xFE] [OtbTree 2 [0xFD, 7] [], OtbTree 3 [] []])) [79, 84, 66, 77] = Inr f
     \<and> parseTree f = Inr n \<and> tree_of f n = OtbTree 0 [1, 0xFE] [OtbTree 2 [0xFD, 7] [], OtbTree 3 [] []]"
  by (rule otb_roundtrip) simp_all

section \<open>Property streams\<close>

text \<open>A \<open>PropStream\<close> is the list of bytes between its pointers.\<close>

definition ps_read :: "nat \<Rightarrow> byte list \<Rightarrow> (nat \<times> byte list) option" where
  "ps_read n s = (if length s < n then None else Some (from_le (take n s), drop n s))"

definition ps_readString :: "byte list \<Rightarrow> byte list option \<times> byte list" where
  "ps_readString s =
     (case ps_read 2 s of
        None \<Rightarrow> (None, s)
      | Some (strLen, s) \<Rightarrow>
          if length s < strLen then (None, s) else (Some (take strLen s), drop strLen s))"

definition ps_skip :: "nat \<Rightarrow> byte list \<Rightarrow> bool \<times> byte list" where
  "ps_skip n s = (if length s < n then (False, s) else (True, drop n s))"

definition pw_write :: "nat \<Rightarrow> nat \<Rightarrow> byte list \<Rightarrow> byte list" where
  "pw_write n v buffer = buffer @ to_le n v"

definition pw_writeString :: "byte list \<Rightarrow> byte list \<Rightarrow> byte list" where
  "pw_writeString str buffer =
     (if length str > 65535 then pw_write 2 0 buffer
      else pw_write 2 (length str) buffer @ str)"

datatype prop_item = PNum nat nat | PStr "byte list"

fun write_item :: "prop_item \<Rightarrow> byte list \<Rightarrow> byte list" where
  "write_item (PNum n v) b = pw_write n v b"
| "write_item (PStr s) b = pw_writeString s b"

text \<open>Read an item of the same kind and width.\<close>

fun read_item :: "prop_item \<Rightarrow> byte list \<Rightarrow> prop_item option \<times> byte list" where
  "read_item (PNum n _) s = (case ps_read n s of None \<Rightarrow> (None, s) | Some (v, s) \<Rightarrow> (Some (PNum n v), s))"
| "read_item (PStr _) s = (case ps_readString s of (None, s) \<Rightarrow> (None, s) | (Some t, s) \<Rightarrow> (Some (PStr t), s))"

fun item_fits :: "prop_item \<Rightarrow> bool" where
  "item_fits (PNum n v) = (v < 256 ^ n)"
| "item_fits (PStr s) = (length s \<le> 65535)"

fun read_items :: "prop_item list \<Rightarrow> byte list \<Rightarrow> prop_item list option" where
  "read_items [] s = Some []"
| "read_items (i # is) s =
     (case read_item i s of (None, _) \<Rightarrow> None | (Some j, s) \<Rightarrow> map_option ((#) j) (read_items is s))"

lemma write_item_append: "write_item i b = b @ write_item i []"
  by (cases i) (simp_all add: pw_write_def pw_writeString_def)

lemma read_item_written: "item_fits i \<Longrightarrow> read_item i (write_item i [] @ rest) = (Some i, rest)"
  by (cases i) (simp_all add: pw_write_def pw_writeString_def ps_read_def ps_readString_def)

lemma read_items_written:
  "list_all item_fits is \<Longrightarrow> read_items is (fold write_item is [] @ rest) = Some is"
proof (induction "is" arbitrary: rest)
  case (Cons i "is")
  have app: "fold write_item js b = b @ fold write_item js []" for js b
    by (induction js arbitrary: b) (simp, metis append_assoc fold_simps(2) write_item_append)
  have "fold write_item (i # is) [] @ rest = write_item i [] @ fold write_item is [] @ rest"
    using app [of "is" "write_item i []"] by simp
  then show ?case using Cons read_item_written by simp
qed simp

text \<open>what is written to a property stream is read back: any sequence of numbers of any width that fits
  them and of strings of at most 65535 bytes comes back in order, and a longer string is written
  as the empty string instead of corrupting what follows.\<close>

theorem prop_stream_roundtrip:
  assumes "list_all item_fits is"
  shows "read_items is (fold write_item is []) = Some is
     \<and> (length s > 65535 \<longrightarrow>
          read_items (is @ [PStr s] @ is) (fold write_item (is @ [PStr s] @ is) []) = Some (is @ [PStr []] @ is))"
proof (intro conjI impI)
  show "read_items is (fold write_item is []) = Some is"
    using read_items_written [OF assms, of "[]"] by simp
  assume long: "length s > 65535"
  have w: "write_item (PStr s) b = write_item (PStr []) b" for b
    using long by (simp add: pw_writeString_def)
  have k: "read_items (js @ [PStr s] @ is) t = read_items (js @ [PStr []] @ is) t" for js t
    by (induction js arbitrary: t) (simp_all split: prod.split option.split)
  have "list_all item_fits (is @ [PStr []] @ is)" using assms by simp
  from read_items_written [OF this, of "[]"]
  show "read_items (is @ [PStr s] @ is) (fold write_item (is @ [PStr s] @ is) []) = Some (is @ [PStr []] @ is)"
    by (simp only: k) (simp add: w del: write_item.simps)
qed

theorem prop_stream_roundtrip_witness:
  "read_items [PNum 2 513, PStr [104, 105], PNum 1 7] (fold write_item [PNum 2 513, PStr [104, 105], PNum 1 7] [])
     = Some [PNum 2 513, PStr [104, 105], PNum 1 7]"
proof -
  have "list_all item_fits [PNum 2 513, PStr [104, 105], PNum 1 7]" by simp
  from prop_stream_roundtrip [OF this] show ?thesis by blast
qed

end
