(* ===== verification/Pathfind.thy ===== *)
theory Pathfind
  imports Position
begin

text \<open>
  The path search of creatures and scripts: \<open>Map::getPathMatching\<close> (both versions), \<open>Map::canWalkTo\<close> and
  \<open>AStarNodes\<close> of \<open>src/src/map/map.cpp\<close>, and \<open>FrozenPathingConditionCall\<close> of \<open>creature.cpp\<close>. A pointer to a
  node is its index in the array \<open>nodes\<close>; the tiles, the walk cache, the answer of \<open>queryAdd\<close> and the
  line of sight are parameters. Costs are \<open>int_fast32_t\<close>, 64 bits wide, and never negative. The
  search loop is a partial function: that it ends is a theorem.
\<close>

section \<open>Parameters of a search\<close>

record find_path_params =
  fullPathSearch :: bool
  clearSight :: bool
  allowDiagonal :: bool
  keepDistance :: bool
  maxSearchDist :: int
  minTargetDist :: int
  maxTargetDist :: int

text \<open>A tile as the search sees it: blocking, a creature visible to the searcher, the field's type.\<close>

record path_tile =
  pt_blocksolid :: bool
  pt_topVisibleCreature :: bool
  pt_field :: "nat option"

record path_creature =
  pc_position :: position
  pc_walkCache :: "position \<Rightarrow> int"
  pc_queryAdd :: "position \<Rightarrow> bool"
  pc_isImmune :: "nat \<Rightarrow> bool"
  pc_hasCondition :: "nat \<Rightarrow> bool"
  pc_monster_canWalkOnField :: "(nat \<Rightarrow> bool) option"

definition canWalkTo :: "(position \<Rightarrow> path_tile option) \<Rightarrow> path_creature \<Rightarrow> position \<Rightarrow> path_tile option" where
  "canWalkTo getTile creature pos =
     (let walkCache = pc_walkCache creature pos
      in if walkCache = 0 then None
         else if walkCache = 1 then getTile pos
         else if pos \<noteq> pc_position creature
         then (case getTile pos of
                 None \<Rightarrow> None
               | Some tile \<Rightarrow> if \<not> pc_queryAdd creature pos then None else Some tile)
         else getTile pos)"

section \<open>The path condition\<close>

definition isInRange :: "position \<Rightarrow> position \<Rightarrow> position \<Rightarrow> find_path_params \<Rightarrow> bool" where
  "isInRange targetPos startPos testPos fpp =
     (if fullPathSearch fpp
      then if getX testPos > getX targetPos + maxTargetDist fpp then False
           else if getX testPos < getX targetPos - maxTargetDist fpp then False
           else if getY testPos > getY targetPos + maxTargetDist fpp then False
           else if getY testPos < getY targetPos - maxTargetDist fpp then False
           else True
      else let dx = getOffsetX startPos targetPos;
               dxMax = (if dx \<ge> 0 then maxTargetDist fpp else 0)
           in if getX testPos > getX targetPos + dxMax then False
              else let dxMin = (if dx \<le> 0 then maxTargetDist fpp else 0)
                   in if getX testPos < getX targetPos - dxMin then False
                      else let dy = getOffsetY startPos targetPos;
                               dyMax = (if dy \<ge> 0 then maxTargetDist fpp else 0)
                           in if getY testPos > getY targetPos + dyMax then False
                              else let dyMin = (if dy \<le> 0 then maxTargetDist fpp else 0)
                                   in if getY testPos < getY targetPos - dyMin then False else True)"

text \<open>The call operator returns its verdict and the new \<open>bestMatchDist\<close>.\<close>

definition pathCondition ::
    "(position \<Rightarrow> position \<Rightarrow> bool) \<Rightarrow> position \<Rightarrow> position \<Rightarrow> position \<Rightarrow> find_path_params \<Rightarrow> int \<Rightarrow> bool \<times> int" where
  "pathCondition isSightClear targetPos startPos testPos fpp bestMatchDist =
     (if \<not> isInRange targetPos startPos testPos fpp then (False, bestMatchDist)
      else if clearSight fpp \<and> \<not> isSightClear testPos targetPos then (False, bestMatchDist)
      else let testDist = max (getDistanceX targetPos testPos) (getDistanceY targetPos testPos)
           in if maxTargetDist fpp = 1
              then (if testDist < minTargetDist fpp \<or> testDist > maxTargetDist fpp
                    then (False, bestMatchDist) else (True, bestMatchDist))
              else if testDist \<le> maxTargetDist fpp
              then (if testDist < minTargetDist fpp then (False, bestMatchDist)
                    else if testDist = maxTargetDist fpp then (True, 0)
                    else if testDist > bestMatchDist then (True, testDist)
                    else (False, bestMatchDist))
              else (False, bestMatchDist))"

section \<open>The node table\<close>

record astar_node =
  an_parent :: "nat option"
  an_f :: nat
  an_x :: u16
  an_y :: u16

text \<open>\<open>curNode\<close> is the length of \<open>as_nodes\<close>; \<open>openNodes\<close> has an entry for each.\<close>

record astar =
  as_nodes :: "astar_node list"
  openNodes :: "bool list"
  nodeTable :: "u32 \<rightharpoonup> nat"
  closedNodes :: int

definition MAX_NODES :: nat where "MAX_NODES = 512"
definition MAP_NORMALWALKCOST :: nat where "MAP_NORMALWALKCOST = 10"
definition MAP_PREFERDIAGONALWALKCOST :: nat where "MAP_PREFERDIAGONALWALKCOST = 14"
definition MAP_DIAGONALWALKCOST :: nat where "MAP_DIAGONALWALKCOST = 25"

lemmas walk_costs = MAP_NORMALWALKCOST_def MAP_PREFERDIAGONALWALKCOST_def MAP_DIAGONALWALKCOST_def

definition node_key :: "u16 \<Rightarrow> u16 \<Rightarrow> u32" where
  "node_key x y = push_bit 16 (ucast x) OR ucast y"

definition astar_init :: "u16 \<Rightarrow> u16 \<Rightarrow> astar" where
  "astar_init x y =
     \<lparr>as_nodes = [\<lparr>an_parent = None, an_f = 0, an_x = x, an_y = y\<rparr>], openNodes = [True],
      nodeTable = [node_key x y \<mapsto> 0], closedNodes = 0\<rparr>"

definition createOpenNode :: "nat \<Rightarrow> u16 \<Rightarrow> u16 \<Rightarrow> nat \<Rightarrow> astar \<Rightarrow> astar option" where
  "createOpenNode parent x y f s =
     (if length (as_nodes s) \<ge> MAX_NODES then None
      else Some (s\<lparr>as_nodes := as_nodes s @ [\<lparr>an_parent = Some parent, an_f = f, an_x = x, an_y = y\<rparr>],
                   openNodes := openNodes s @ [True],
                   nodeTable := (nodeTable s)(node_key x y \<mapsto> length (as_nodes s))\<rparr>))"

fun best_node :: "nat \<Rightarrow> nat \<Rightarrow> nat option \<Rightarrow> astar_node list \<Rightarrow> bool list \<Rightarrow> nat option" where
  "best_node i best_f best (n # ns) (b # bs) =
     (if b \<and> an_f n < best_f then best_node (Suc i) (an_f n) (Some i) ns bs
      else best_node (Suc i) best_f best ns bs)"
| "best_node i best_f best _ _ = best"

definition getBestNode :: "astar \<Rightarrow> nat option" where
  "getBestNode s = best_node 0 2147483647 None (as_nodes s) (openNodes s)"

definition closeNode :: "nat \<Rightarrow> astar \<Rightarrow> astar" where
  "closeNode i s = s\<lparr>openNodes := (openNodes s)[i := False], closedNodes := closedNodes s + 1\<rparr>"

definition openNode :: "nat \<Rightarrow> astar \<Rightarrow> astar" where
  "openNode i s =
     (if \<not> openNodes s ! i
      then s\<lparr>openNodes := (openNodes s)[i := True], closedNodes := closedNodes s - 1\<rparr> else s)"

definition getNodeByPosition :: "u16 \<Rightarrow> u16 \<Rightarrow> astar \<Rightarrow> nat option" where
  "getNodeByPosition x y s = nodeTable s (node_key x y)"

definition getMapWalkCost :: "astar_node \<Rightarrow> position \<Rightarrow> bool \<Rightarrow> nat" where
  "getMapWalkCost n pos preferDiagonal =
     (if \<bar>uint (an_x n) - getX pos\<bar> = \<bar>uint (an_y n) - getY pos\<bar>
      then if preferDiagonal then MAP_PREFERDIAGONALWALKCOST else MAP_DIAGONALWALKCOST
      else MAP_NORMALWALKCOST)"

definition getTileWalkCost :: "path_creature \<Rightarrow> path_tile \<Rightarrow> nat" where
  "getTileWalkCost creature tile =
     (if pt_topVisibleCreature tile then MAP_NORMALWALKCOST * 3 else 0)
     + (case pt_field tile of
          None \<Rightarrow> 0
        | Some combatType \<Rightarrow>
            if \<not> pc_isImmune creature combatType \<and> \<not> pc_hasCondition creature combatType
               \<and> (case pc_monster_canWalkOnField creature of None \<Rightarrow> False | Some ok \<Rightarrow> \<not> ok combatType)
            then MAP_NORMALWALKCOST * 18 else 0)"

section \<open>The search\<close>

text \<open>
  What the two versions of the search differ in: the tile of a position not seen before (none: skip
  it), the extra cost of a tile (none: a null tile is dereferenced) and the preference for diagonals.
\<close>

record path_env =
  pe_getTile :: "position \<Rightarrow> path_tile option"
  pe_newTile :: "position \<Rightarrow> path_tile option"
  pe_extraCost :: "path_tile option \<Rightarrow> nat option"
  pe_preferDiagonal :: bool
  pe_condition :: "position \<Rightarrow> position \<Rightarrow> find_path_params \<Rightarrow> int \<Rightarrow> bool \<times> int"
  pe_inRange :: "position \<Rightarrow> position \<Rightarrow> find_path_params \<Rightarrow> bool"

fun dirNeighbors :: "direction \<Rightarrow> (int \<times> int) list" where
  "dirNeighbors DIRECTION_NORTH = [(-1, 0), (0, 1), (1, 0), (1, 1), (-1, 1)]"
| "dirNeighbors DIRECTION_EAST = [(-1, 0), (0, 1), (0, -1), (-1, -1), (-1, 1)]"
| "dirNeighbors DIRECTION_SOUTH = [(-1, 0), (1, 0), (0, -1), (-1, -1), (1, -1)]"
| "dirNeighbors DIRECTION_WEST = [(0, 1), (1, 0), (0, -1), (1, -1), (1, 1)]"
| "dirNeighbors DIRECTION_SOUTHWEST = [(1, 0), (0, -1), (-1, -1), (1, -1), (1, 1)]"
| "dirNeighbors DIRECTION_SOUTHEAST = [(-1, 0), (0, -1), (-1, -1), (1, -1), (-1, 1)]"
| "dirNeighbors DIRECTION_NORTHWEST = [(0, 1), (1, 0), (1, -1), (1, 1), (-1, 1)]"
| "dirNeighbors DIRECTION_NORTHEAST = [(-1, 0), (0, 1), (-1, -1), (1, 1), (-1, 1)]"
| "dirNeighbors DIRECTION_NONE = []"

definition allNeighbors :: "(int \<times> int) list" where
  "allNeighbors = [(-1, 0), (0, 1), (1, 0), (0, -1), (-1, -1), (1, -1), (1, 1), (-1, 1)]"

text \<open>The row of \<open>dirNeighbors\<close> for a node whose parent lies at the given offset.\<close>

definition neighbor_row :: "find_path_params \<Rightarrow> int \<Rightarrow> int \<Rightarrow> direction" where
  "neighbor_row fpp offset_x offset_y =
     (if offset_y = 0 then (if offset_x = -1 then DIRECTION_WEST else DIRECTION_EAST)
      else if \<not> allowDiagonal fpp \<or> offset_x = 0
      then (if offset_y = -1 then DIRECTION_NORTH else DIRECTION_SOUTH)
      else if offset_y = -1
      then (if offset_x = -1 then DIRECTION_NORTHWEST else DIRECTION_NORTHEAST)
      else if offset_x = -1 then DIRECTION_SOUTHWEST
      else DIRECTION_SOUTHEAST)"

definition neighbors_of :: "find_path_params \<Rightarrow> astar \<Rightarrow> nat \<Rightarrow> (int \<times> int) list" where
  "neighbors_of fpp s n =
     (case an_parent (as_nodes s ! n) of
        None \<Rightarrow> allNeighbors
      | Some p \<Rightarrow>
          let offset_x = uint (an_x (as_nodes s ! p)) - uint (an_x (as_nodes s ! n));
              offset_y = uint (an_y (as_nodes s ! p)) - uint (an_y (as_nodes s ! n))
          in take (if allowDiagonal fpp then 5 else 3) (dirNeighbors (neighbor_row fpp offset_x offset_y)))"

datatype expand_result = ExpandCrash | ExpandFail | Expanded astar

fun expand ::
    "path_env \<Rightarrow> find_path_params \<Rightarrow> position \<Rightarrow> bool \<Rightarrow> nat \<Rightarrow> (int \<times> int) list \<Rightarrow> astar \<Rightarrow> expand_result" where
  "expand env fpp startPos found n [] s = Expanded s"
| "expand env fpp startPos found n ((dx, dy) # nbs) s =
     (let node = as_nodes s ! n;
          pos = Position (an_x node + of_int dx) (an_y node + of_int dy) (pos_z startPos)
      in if maxSearchDist fpp \<noteq> 0 \<and> (getDistanceX startPos pos > maxSearchDist fpp
                                     \<or> getDistanceY startPos pos > maxSearchDist fpp)
         then expand env fpp startPos found n nbs s
         else if keepDistance fpp \<and> \<not> pe_inRange env startPos pos fpp
         then expand env fpp startPos found n nbs s
         else (case getNodeByPosition (pos_x pos) (pos_y pos) s of
                 Some nb \<Rightarrow>
                   (case pe_extraCost env (pe_getTile env pos) of
                      None \<Rightarrow> ExpandCrash
                    | Some extraCost \<Rightarrow>
                        let newf = an_f node + getMapWalkCost node pos (pe_preferDiagonal env) + extraCost
                        in if an_f (as_nodes s ! nb) \<le> newf
                           then expand env fpp startPos found n nbs s
                           else expand env fpp startPos found n nbs
                                  (openNode nb (s\<lparr>as_nodes := (as_nodes s)
                                     [nb := (as_nodes s ! nb)\<lparr>an_f := newf, an_parent := Some n\<rparr>]\<rparr>)))
               | None \<Rightarrow>
                   (case pe_newTile env pos of
                      None \<Rightarrow> expand env fpp startPos found n nbs s
                    | Some tile \<Rightarrow>
                        (case pe_extraCost env (Some tile) of
                           None \<Rightarrow> ExpandCrash
                         | Some extraCost \<Rightarrow>
                             let newf = an_f node + getMapWalkCost node pos (pe_preferDiagonal env) + extraCost
                             in (case createOpenNode n (pos_x pos) (pos_y pos) newf s of
                                   Some s \<Rightarrow> expand env fpp startPos found n nbs s
                                 | None \<Rightarrow> if found then Expanded s else ExpandFail)))))"

datatype search_result = SearchCrash | NotFound | FoundNode nat position astar

definition finish :: "(nat \<times> position) option \<Rightarrow> astar \<Rightarrow> search_result" where
  "finish found s = (case found of None \<Rightarrow> NotFound | Some (i, endPos) \<Rightarrow> FoundNode i endPos s)"

partial_function (option) astar_loop ::
    "path_env \<Rightarrow> find_path_params \<Rightarrow> position \<Rightarrow> int \<Rightarrow> (nat \<times> position) option \<Rightarrow> astar \<Rightarrow> search_result option" where
  "astar_loop env fpp startPos bestMatch found s =
     (if \<not> (maxSearchDist fpp \<noteq> 0 \<or> closedNodes s < 100) then Some (finish found s)
      else case getBestNode s of
        None \<Rightarrow> Some (finish found s)
      | Some n \<Rightarrow>
          let pos = Position (an_x (as_nodes s ! n)) (an_y (as_nodes s ! n)) (pos_z startPos);
              ok = fst (pe_condition env startPos pos fpp bestMatch);
              bestMatch = snd (pe_condition env startPos pos fpp bestMatch);
              found = (if ok then Some (n, pos) else found)
          in if ok \<and> bestMatch = 0 then Some (FoundNode n pos s)
             else (case expand env fpp startPos (found \<noteq> None) n (neighbors_of fpp s n) s of
                     ExpandCrash \<Rightarrow> Some SearchCrash
                   | ExpandFail \<Rightarrow> Some NotFound
                   | Expanded s \<Rightarrow> astar_loop env fpp startPos bestMatch found (closeNode n s)))"

text \<open>The walk back along the parents, which pushes a direction to the front for each step.\<close>

definition step_direction :: "int \<Rightarrow> int \<Rightarrow> direction option" where
  "step_direction dx dy =
     (if dx = 1 \<and> dy = 1 then Some DIRECTION_NORTHWEST
      else if dx = -1 \<and> dy = 1 then Some DIRECTION_NORTHEAST
      else if dx = 1 \<and> dy = -1 then Some DIRECTION_SOUTHWEST
      else if dx = -1 \<and> dy = -1 then Some DIRECTION_SOUTHEAST
      else if dx = 1 then Some DIRECTION_WEST
      else if dx = -1 then Some DIRECTION_EAST
      else if dy = 1 then Some DIRECTION_NORTH
      else if dy = -1 then Some DIRECTION_SOUTH
      else None)"

partial_function (option) trace_back ::
    "astar \<Rightarrow> nat option \<Rightarrow> int \<Rightarrow> int \<Rightarrow> direction list \<Rightarrow> direction list option" where
  "trace_back s found prevx prevy dirList =
     (case found of
        None \<Rightarrow> Some dirList
      | Some i \<Rightarrow>
          let x = uint (an_x (as_nodes s ! i)); y = uint (an_y (as_nodes s ! i))
          in trace_back s (an_parent (as_nodes s ! i)) x y
               (case step_direction (x - prevx) (y - prevy) of None \<Rightarrow> dirList | Some d \<Rightarrow> d # dirList))"

datatype path_result = PathCrash | NoPath | Path "direction list"

definition path_search :: "path_env \<Rightarrow> position \<Rightarrow> direction list \<Rightarrow> find_path_params \<Rightarrow> path_result option" where
  "path_search env startPos dirList fpp =
     do { r \<leftarrow> astar_loop env fpp startPos 0 None (astar_init (pos_x startPos) (pos_y startPos));
          case r of
            SearchCrash \<Rightarrow> Some PathCrash
          | NotFound \<Rightarrow> Some NoPath
          | FoundNode i endPos s \<Rightarrow>
              do { ds \<leftarrow> trace_back s (an_parent (as_nodes s ! i)) (getX endPos) (getY endPos) dirList;
                   Some (Path ds) } }"

definition getPathMatching ::
    "(position \<Rightarrow> path_tile option) \<Rightarrow> (position \<Rightarrow> position \<Rightarrow> bool) \<Rightarrow> path_creature \<Rightarrow> direction list \<Rightarrow> position
      \<Rightarrow> find_path_params \<Rightarrow> path_result option" where
  "getPathMatching getTile isSightClear creature dirList targetPos fpp =
     path_search
       \<lparr>pe_getTile = getTile, pe_newTile = canWalkTo getTile creature,
        pe_extraCost = map_option (getTileWalkCost creature), pe_preferDiagonal = False,
        pe_condition = pathCondition isSightClear targetPos, pe_inRange = isInRange targetPos\<rparr>
       (pc_position creature) dirList fpp"

definition getPathMatching_position ::
    "(position \<Rightarrow> path_tile option) \<Rightarrow> (position \<Rightarrow> position \<Rightarrow> bool) \<Rightarrow> position \<Rightarrow> direction list \<Rightarrow> position
      \<Rightarrow> find_path_params \<Rightarrow> path_result option" where
  "getPathMatching_position getTile isSightClear start dirList targetPos fpp =
     path_search
       \<lparr>pe_getTile = getTile,
        pe_newTile = (\<lambda>pos. case getTile pos of
           None \<Rightarrow> None | Some tile \<Rightarrow> if pt_blocksolid tile then None else Some tile),
        pe_extraCost = (\<lambda>_. Some 0), pe_preferDiagonal = True,
        pe_condition = pathCondition isSightClear targetPos, pe_inRange = isInRange targetPos\<rparr>
       start dirList fpp"

section \<open>Geometry\<close>

definition node_pos :: "u8 \<Rightarrow> astar_node \<Rightarrow> position" where
  "node_pos z n = Position (an_x n) (an_y n) z"

definition adjacent :: "position \<Rightarrow> position \<Rightarrow> bool" where
  "adjacent p q \<longleftrightarrow> getDistanceX p q \<le> 1 \<and> getDistanceY p q \<le> 1 \<and> p \<noteq> q \<and> pos_z p = pos_z q"

definition straight :: "position \<Rightarrow> position \<Rightarrow> bool" where
  "straight p q \<longleftrightarrow> pos_x p = pos_x q \<or> pos_y p = pos_y q"

text \<open>Positions off the outermost rim of the map, where a step cannot wrap around.\<close>

definition interior :: "position \<Rightarrow> bool" where
  "interior p \<longleftrightarrow> 0 < getX p \<and> getX p < 65535 \<and> 0 < getY p \<and> getY p < 65535"

definition unit_offset :: "int \<times> int \<Rightarrow> bool" where
  "unit_offset d \<longleftrightarrow> d \<in> set allNeighbors"

lemma unit_offset_cases:
  "unit_offset (dx, dy) \<longleftrightarrow> dx \<in> {-1, 0, 1} \<and> dy \<in> {-1, 0, 1} \<and> (dx \<noteq> 0 \<or> dy \<noteq> 0)"
  by (auto simp: unit_offset_def allNeighbors_def)

lemma uint_step:
  assumes "0 < uint (x :: u16)" "uint x < 65535" "d \<in> {-1, 0, 1}"
  shows "uint (x + of_int d) = uint x + d"
  using assms uint_inc [of x] uint_dec [of x] by auto

lemma unit_offset_adjacent:
  assumes "interior (node_pos z n)" and "unit_offset (dx, dy)"
  shows "adjacent (node_pos z n) (Position (an_x n + of_int dx) (an_y n + of_int dy) z)"
    and "dx = 0 \<or> dy = 0 \<Longrightarrow> straight (node_pos z n) (Position (an_x n + of_int dx) (an_y n + of_int dy) z)"
proof -
  have x: "uint (an_x n + of_int dx) = uint (an_x n) + dx"
    and y: "uint (an_y n + of_int dy) = uint (an_y n) + dy"
    using assms by (auto simp: interior_def node_pos_def coord_defs unit_offset_cases intro!: uint_step)
  have "an_x n + of_int dx \<noteq> an_x n \<or> an_y n + of_int dy \<noteq> an_y n"
    using x y assms(2) by (metis add_cancel_left_right unit_offset_cases)
  then show "adjacent (node_pos z n) (Position (an_x n + of_int dx) (an_y n + of_int dy) z)"
    using x y assms(2) by (auto simp: adjacent_def node_pos_def coord_defs unit_offset_cases)
  show "straight (node_pos z n) (Position (an_x n + of_int dx) (an_y n + of_int dy) z)" if "dx = 0 \<or> dy = 0"
    using that by (auto simp: straight_def node_pos_def)
qed

lemma of_int_shift: "uint u = uint x + d \<Longrightarrow> u = x + of_int d" for u x :: u16
proof -
  assume "uint u = uint x + d"
  then have "u = of_int (uint x + d)" by (metis word_of_int_uint)
  then show ?thesis by simp
qed

text \<open>The direction computed on the way back leads from the parent to the node.\<close>

lemma step_direction_leads:
  assumes "adjacent p q"
  shows "\<exists>d. step_direction (getX p - getX q) (getY p - getY q) = Some d \<and> getNextPosition d p = q
     \<and> (straight p q \<longrightarrow> d \<in> {DIRECTION_NORTH, DIRECTION_EAST, DIRECTION_SOUTH, DIRECTION_WEST})"
proof -
  obtain x y z where p: "p = Position x y z" by (cases p)
  obtain u v w where q: "q = Position u v w" by (cases q)
  have z: "w = z" using assms by (simp add: adjacent_def p q)
  define dx dy where "dx = uint x - uint u" and "dy = uint y - uint v"
  then have u: "u = x + of_int (- dx)" and v: "v = y + of_int (- dy)"
    using of_int_shift [of u x "- dx"] of_int_shift [of v y "- dy"] by auto
  have "dx \<in> {-1, 0, 1}" "dy \<in> {-1, 0, 1}"
    using assms by (auto simp: adjacent_def p q coord_defs dx_def dy_def)
  moreover have "dx \<noteq> 0 \<or> dy \<noteq> 0"
    using assms u v z by (auto simp: adjacent_def p q)
  moreover have "getX p - getX q = dx" "getY p - getY q = dy"
    by (simp_all add: p q coord_defs dx_def dy_def)
  moreover have "straight p q \<longleftrightarrow> dx = 0 \<or> dy = 0"
    by (simp add: straight_def p q dx_def dy_def word_uint_eq_iff)
  ultimately show ?thesis
    unfolding p q z u v by (auto simp: step_direction_def)
qed

section \<open>The invariant of the node table\<close>

lemma node_key_inj [simp]: "node_key x y = node_key u v \<longleftrightarrow> x = u \<and> y = v"
proof
  assume eq: "node_key x y = node_key u v"
  have bx: "bit (node_key x y) (16 + n) = bit x n" if "n < 16" for x y n
    using that bit_imp_le_length [of y "16 + n"]
    by (auto simp: node_key_def bit_or_iff bit_push_bit_iff bit_ucast_iff)
  have b: "bit (node_key x y) n = bit y n" if "n < 16" for x y n
    using that by (simp add: node_key_def bit_or_iff bit_push_bit_iff bit_ucast_iff)
  have "x = u"
  proof (rule bit_word_eqI)
    fix n assume "n < LENGTH(16)"
    then show "bit x n = bit u n" using bx [of n x y] bx [of n u v] eq by simp
  qed
  moreover have "y = v"
  proof (rule bit_word_eqI)
    fix n assume "n < LENGTH(16)"
    then show "bit y n = bit v n" using b [of n x y] b [of n u v] eq by simp
  qed
  ultimately show "x = u \<and> y = v" by simp
qed simp

text \<open>
  What the search relies on: whatever it is ready to enter can be priced again later, the tile under
  the start can be priced, and tiles that can be entered lie off the rim.
\<close>

definition env_ok :: "path_env \<Rightarrow> position \<Rightarrow> bool" where
  "env_ok env start \<longleftrightarrow>
     interior start \<and> pe_extraCost env (pe_getTile env start) \<noteq> None
   \<and> (\<forall>p. pe_newTile env p \<noteq> None \<longrightarrow>
        interior p \<and> pe_extraCost env (pe_newTile env p) \<noteq> None \<and> pe_extraCost env (pe_getTile env p) \<noteq> None)"

definition link_ok :: "path_env \<Rightarrow> find_path_params \<Rightarrow> u8 \<Rightarrow> astar_node list \<Rightarrow> nat \<Rightarrow> bool" where
  "link_ok env fpp z ns i \<longleftrightarrow>
     (\<exists>p < length ns. an_parent (ns ! i) = Some p \<and> an_f (ns ! p) + MAP_NORMALWALKCOST \<le> an_f (ns ! i)
        \<and> adjacent (node_pos z (ns ! p)) (node_pos z (ns ! i))
        \<and> (allowDiagonal fpp \<or> p = 0 \<or> straight (node_pos z (ns ! p)) (node_pos z (ns ! i)))
        \<and> pe_newTile env (node_pos z (ns ! i)) \<noteq> None)"

definition astar_inv :: "path_env \<Rightarrow> find_path_params \<Rightarrow> position \<Rightarrow> astar \<Rightarrow> bool" where
  "astar_inv env fpp start s \<longleftrightarrow>
     length (openNodes s) = length (as_nodes s) \<and> 0 < length (as_nodes s) \<and> length (as_nodes s) \<le> MAX_NODES
   \<and> as_nodes s ! 0 = \<lparr>an_parent = None, an_f = 0, an_x = pos_x start, an_y = pos_y start\<rparr>
   \<and> (\<forall>i. 0 < i \<and> i < length (as_nodes s) \<longrightarrow> link_ok env fpp (pos_z start) (as_nodes s) i)
   \<and> (\<forall>x y i. getNodeByPosition x y s = Some i \<longleftrightarrow>
        i < length (as_nodes s) \<and> an_x (as_nodes s ! i) = x \<and> an_y (as_nodes s ! i) = y)"

lemma astar_invD:
  assumes "astar_inv env fpp start s"
  shows "length (openNodes s) = length (as_nodes s)" and "0 < length (as_nodes s)"
    and "length (as_nodes s) \<le> MAX_NODES"
    and "as_nodes s ! 0 = \<lparr>an_parent = None, an_f = 0, an_x = pos_x start, an_y = pos_y start\<rparr>"
    and "0 < i \<Longrightarrow> i < length (as_nodes s) \<Longrightarrow> link_ok env fpp (pos_z start) (as_nodes s) i"
    and "getNodeByPosition x y s = Some i \<longleftrightarrow>
        i < length (as_nodes s) \<and> an_x (as_nodes s ! i) = x \<and> an_y (as_nodes s ! i) = y"
  using assms unfolding astar_inv_def by blast+

lemma astar_invI:
  assumes "length (openNodes s) = length (as_nodes s)" and "0 < length (as_nodes s)"
    and "length (as_nodes s) \<le> MAX_NODES"
    and "as_nodes s ! 0 = \<lparr>an_parent = None, an_f = 0, an_x = pos_x start, an_y = pos_y start\<rparr>"
    and "\<And>i. 0 < i \<Longrightarrow> i < length (as_nodes s) \<Longrightarrow> link_ok env fpp (pos_z start) (as_nodes s) i"
    and "\<And>x y i. getNodeByPosition x y s = Some i \<longleftrightarrow>
        i < length (as_nodes s) \<and> an_x (as_nodes s ! i) = x \<and> an_y (as_nodes s ! i) = y"
  shows "astar_inv env fpp start s"
  using assms unfolding astar_inv_def by blast

lemma astar_inv_init: "astar_inv env fpp start (astar_init (pos_x start) (pos_y start))"
  by (rule astar_invI) (auto simp: astar_init_def MAX_NODES_def getNodeByPosition_def)

lemma astar_inv_close: "astar_inv env fpp start s \<Longrightarrow> astar_inv env fpp start (closeNode i s)"
  by (simp add: astar_inv_def closeNode_def getNodeByPosition_def)

lemma link_ok_cong:
  assumes "link_ok env fpp z ns i" and "i < length ns" and "length ns \<le> length ms"
    and "\<And>j. j < length ns \<Longrightarrow> an_x (ms ! j) = an_x (ns ! j) \<and> an_y (ms ! j) = an_y (ns ! j) \<and> an_f (ms ! j) \<le> an_f (ns ! j)"
    and "an_parent (ms ! i) = an_parent (ns ! i)" "an_f (ms ! i) = an_f (ns ! i)"
  shows "link_ok env fpp z ms i"
proof -
  obtain p where p: "p < length ns" "an_parent (ns ! i) = Some p"
      "an_f (ns ! p) + MAP_NORMALWALKCOST \<le> an_f (ns ! i)"
      "adjacent (node_pos z (ns ! p)) (node_pos z (ns ! i))"
      "allowDiagonal fpp \<or> p = 0 \<or> straight (node_pos z (ns ! p)) (node_pos z (ns ! i))"
      "pe_newTile env (node_pos z (ns ! i)) \<noteq> None"
    using assms(1) unfolding link_ok_def by blast
  have "node_pos z (ms ! p) = node_pos z (ns ! p)" "node_pos z (ms ! i) = node_pos z (ns ! i)"
    using assms(2,4) p(1) by (simp_all add: node_pos_def)
  moreover have "an_f (ms ! p) \<le> an_f (ns ! p)" using assms(4) p(1) by blast
  ultimately show ?thesis
    unfolding link_ok_def using p assms(3,5,6) by (intro exI [of _ p]) simp
qed

lemma astar_inv_create:
  assumes inv: "astar_inv env fpp start s" and n: "n < length (as_nodes s)"
    and adj: "adjacent (node_pos (pos_z start) (as_nodes s ! n)) (Position x y (pos_z start))"
    and str: "allowDiagonal fpp \<or> n = 0 \<or> straight (node_pos (pos_z start) (as_nodes s ! n)) (Position x y (pos_z start))"
    and new: "getNodeByPosition x y s = None" "pe_newTile env (Position x y (pos_z start)) \<noteq> None"
    and f: "an_f (as_nodes s ! n) + MAP_NORMALWALKCOST \<le> f"
    and create: "createOpenNode n x y f s = Some s'"
  shows "astar_inv env fpp start s'"
proof -
  note I = astar_invD [OF inv]
  let ?ns = "as_nodes s" and ?z = "pos_z start"
  have s': "as_nodes s' = ?ns @ [\<lparr>an_parent = Some n, an_f = f, an_x = x, an_y = y\<rparr>]"
      "openNodes s' = openNodes s @ [True]" "nodeTable s' = (nodeTable s)(node_key x y \<mapsto> length ?ns)"
    and small: "length ?ns < MAX_NODES"
    using create by (auto simp: createOpenNode_def split: if_splits)
  show ?thesis
  proof (rule astar_invI)
    fix i assume i: "0 < i" "i < length (as_nodes s')"
    show "link_ok env fpp ?z (as_nodes s') i"
    proof (cases "i = length ?ns")
      case True
      then show ?thesis
        unfolding link_ok_def using n f adj str new(2)
        by (intro exI [of _ n]) (simp add: s' nth_append node_pos_def)
    next
      case False
      then have "i < length ?ns" using i by (simp add: s')
      then show ?thesis
        by (intro link_ok_cong [OF I(5) [OF i(1)]]) (simp_all add: s' nth_append)
    qed
  next
    fix u v i
    have "\<not> (an_x (?ns ! j) = x \<and> an_y (?ns ! j) = y)" if "j < length ?ns" for j
      using new(1) I(6) [of x y j] that by auto
    then show "getNodeByPosition u v s' = Some i \<longleftrightarrow>
        i < length (as_nodes s') \<and> an_x (as_nodes s' ! i) = u \<and> an_y (as_nodes s' ! i) = v"
      using I(6) [of u v i]
      by (auto simp: getNodeByPosition_def s' nth_append less_Suc_eq)
  qed (use I(1-4) small in \<open>simp_all add: s' nth_append\<close>)
qed

lemma openNode_fields [simp]:
  "as_nodes (openNode i s) = as_nodes s" "nodeTable (openNode i s) = nodeTable s"
  "length (openNodes (openNode i s)) = length (openNodes s)"
  by (simp_all add: openNode_def)

lemma astar_inv_relink:
  assumes inv: "astar_inv env fpp start s" and n: "n < length (as_nodes s)" and nb: "nb < length (as_nodes s)"
    and adj: "adjacent (node_pos (pos_z start) (as_nodes s ! n)) (node_pos (pos_z start) (as_nodes s ! nb))"
    and str: "allowDiagonal fpp \<or> n = 0
        \<or> straight (node_pos (pos_z start) (as_nodes s ! n)) (node_pos (pos_z start) (as_nodes s ! nb))"
    and f: "an_f (as_nodes s ! n) + MAP_NORMALWALKCOST \<le> f" "f < an_f (as_nodes s ! nb)"
    and s': "s' = s\<lparr>as_nodes := (as_nodes s)[nb := (as_nodes s ! nb)\<lparr>an_f := f, an_parent := Some n\<rparr>]\<rparr>"
  shows "astar_inv env fpp start (openNode nb s')"
proof -
  note I = astar_invD [OF inv]
  let ?ns = "as_nodes s" and ?z = "pos_z start"
  let ?m = "(?ns ! nb)\<lparr>an_f := f, an_parent := Some n\<rparr>"
  have ns': "as_nodes s' = ?ns[nb := ?m]" by (simp add: s')
  have ne: "n \<noteq> nb" using f by auto
  have nb0: "0 < nb" using f(2) I(4) by (cases nb) auto
  have xy: "an_x (as_nodes s' ! j) = an_x (?ns ! j)" "an_y (as_nodes s' ! j) = an_y (?ns ! j)" for j
    using nb by (simp_all add: ns' nth_list_update)
  show ?thesis
  proof (rule astar_invI; (simp only: openNode_fields)?)
    fix i assume i: "0 < i" "i < length (as_nodes s')"
    show "link_ok env fpp ?z (as_nodes s') i"
    proof (cases "i = nb")
      case True
      have "pe_newTile env (node_pos ?z (?ns ! nb)) \<noteq> None"
        using I(5) [OF nb0 nb] by (auto simp: link_ok_def)
      moreover have "node_pos ?z ?m = node_pos ?z (?ns ! nb)" by (simp add: node_pos_def)
      ultimately show ?thesis
        unfolding link_ok_def True using n nb ne f(1) adj str
        by (intro exI [of _ n]) (simp add: ns')
    next
      case False
      then show ?thesis
        using i f(2) nb by (intro link_ok_cong [OF I(5) [OF i(1)]]) (auto simp: ns' nth_list_update)
    qed
  next
    fix u v i
    show "getNodeByPosition u v (openNode nb s') = Some i \<longleftrightarrow>
        i < length (as_nodes s') \<and> an_x (as_nodes s' ! i) = u \<and> an_y (as_nodes s' ! i) = v"
      using I(6) [of u v i] xy by (simp add: getNodeByPosition_def s')
  qed (use I(1-4) nb0 in \<open>simp_all add: s'\<close>)
qed

lemma node_enterable:
  assumes "env_ok env start" and inv: "astar_inv env fpp start s" and n: "n < length (as_nodes s)"
  shows "interior (node_pos (pos_z start) (as_nodes s ! n))"
    and "pe_extraCost env (pe_getTile env (node_pos (pos_z start) (as_nodes s ! n))) \<noteq> None"
proof -
  have "interior (node_pos (pos_z start) (as_nodes s ! n))
      \<and> pe_extraCost env (pe_getTile env (node_pos (pos_z start) (as_nodes s ! n))) \<noteq> None"
  proof (cases "n = 0")
    case True
    then have "node_pos (pos_z start) (as_nodes s ! n) = start"
      using astar_invD(4) [OF inv] by (simp add: node_pos_def)
    then show ?thesis using assms(1) by (simp add: env_ok_def)
  next
    case False
    then have "link_ok env fpp (pos_z start) (as_nodes s) n" using astar_invD(5) [OF inv] n by simp
    then show ?thesis using assms(1) unfolding env_ok_def link_ok_def by blast
  qed
  then show "interior (node_pos (pos_z start) (as_nodes s ! n))"
    and "pe_extraCost env (pe_getTile env (node_pos (pos_z start) (as_nodes s ! n))) \<noteq> None" by blast+
qed

lemma getMapWalkCost_least: "MAP_NORMALWALKCOST \<le> getMapWalkCost n pos b"
  by (simp add: getMapWalkCost_def walk_costs)

text \<open>How the table evolves: nodes are added, at most 512, or get cheaper; none moves.\<close>

definition table_measure :: "astar \<Rightarrow> nat \<times> nat" where
  "table_measure s = (MAX_NODES - length (as_nodes s), sum_list (map an_f (as_nodes s)))"

definition evolves :: "astar \<Rightarrow> astar \<Rightarrow> bool" where
  "evolves s s' \<longleftrightarrow>
     length (as_nodes s) \<le> length (as_nodes s')
   \<and> (\<forall>i < length (as_nodes s). an_x (as_nodes s' ! i) = an_x (as_nodes s ! i) \<and> an_y (as_nodes s' ! i) = an_y (as_nodes s ! i))
   \<and> (s' = s \<or> (table_measure s', table_measure s) \<in> less_than <*lex*> less_than)"

lemma evolves_refl [simp]: "evolves s s"
  by (simp add: evolves_def)

lemma evolves_trans:
  assumes "evolves a b" and "evolves b c" shows "evolves a c"
proof -
  let ?R = "less_than <*lex*> less_than"
  have tr: "trans ?R" by (intro trans_lex_prod trans_less_than)
  have len: "length (as_nodes a) \<le> length (as_nodes b)" "length (as_nodes b) \<le> length (as_nodes c)"
    and ab: "b = a \<or> (table_measure b, table_measure a) \<in> ?R"
    and bc: "c = b \<or> (table_measure c, table_measure b) \<in> ?R"
    using assms unfolding evolves_def by blast+
  have "c = a \<or> (table_measure c, table_measure a) \<in> ?R"
    using ab bc transD [OF tr] by metis
  moreover have "an_x (as_nodes c ! i) = an_x (as_nodes a ! i) \<and> an_y (as_nodes c ! i) = an_y (as_nodes a ! i)"
    if "i < length (as_nodes a)" for i
    using assms that len unfolding evolves_def by (metis order_less_le_trans)
  ultimately show ?thesis using len unfolding evolves_def by simp
qed

lemma evolves_create:
  "createOpenNode n x y f s = Some s' \<Longrightarrow> evolves s s'"
  by (auto simp: createOpenNode_def evolves_def table_measure_def nth_append split: if_splits)

lemma sum_list_update_less:
  "i < length xs \<Longrightarrow> f y < f (xs ! i) \<Longrightarrow> sum_list (map f (xs[i := y])) < (sum_list (map f xs) :: nat)"
proof (induction xs arbitrary: i)
  case (Cons x xs)
  then show ?case by (cases i) auto
qed simp

lemma evolves_relink:
  assumes "nb < length (as_nodes s)" and "f < an_f (as_nodes s ! nb)"
  shows "evolves s (openNode nb (s\<lparr>as_nodes := (as_nodes s)[nb := (as_nodes s ! nb)\<lparr>an_f := f, an_parent := Some n\<rparr>]\<rparr>))"
proof -
  have "sum_list (map an_f ((as_nodes s)[nb := (as_nodes s ! nb)\<lparr>an_f := f, an_parent := Some n\<rparr>]))
      < sum_list (map an_f (as_nodes s))"
    by (rule sum_list_update_less) (use assms in simp_all)
  then show ?thesis
    using assms by (auto simp: evolves_def table_measure_def nth_list_update)
qed

definition nbs_ok :: "find_path_params \<Rightarrow> nat \<Rightarrow> (int \<times> int) list \<Rightarrow> bool" where
  "nbs_ok fpp n nbs \<longleftrightarrow>
     (\<forall>(dx, dy) \<in> set nbs. unit_offset (dx, dy) \<and> (allowDiagonal fpp \<or> n = 0 \<or> dx = 0 \<or> dy = 0))"

lemma expand_ok:
  assumes env: "env_ok env start" and "astar_inv env fpp start s" and "n < length (as_nodes s)" and "nbs_ok fpp n nbs"
  shows "case expand env fpp start found n nbs s of
       ExpandCrash \<Rightarrow> False | ExpandFail \<Rightarrow> \<not> found | Expanded s' \<Rightarrow> astar_inv env fpp start s' \<and> evolves s s'"
  using assms(2-4)
proof (induction nbs arbitrary: s)
  case Nil
  then show ?case by simp
next
  case (Cons d nbs)
  obtain dx dy where d: "d = (dx, dy)" by fastforce
  have u: "unit_offset (dx, dy)" and diag: "allowDiagonal fpp \<or> n = 0 \<or> dx = 0 \<or> dy = 0" and rest: "nbs_ok fpp n nbs"
    using Cons.prems(3) by (auto simp: nbs_ok_def d)
  have IH: "case expand env fpp start found n nbs t of
       ExpandCrash \<Rightarrow> False | ExpandFail \<Rightarrow> \<not> found | Expanded s' \<Rightarrow> astar_inv env fpp start s' \<and> evolves s s'"
    if "astar_inv env fpp start t" "evolves s t" for t
  proof -
    have "n < length (as_nodes t)" using that(2) Cons.prems(2) unfolding evolves_def by linarith
    from Cons.IH [OF that(1) this rest] show ?thesis
      using evolves_trans [OF that(2)] by (auto split: expand_result.splits)
  qed
  let ?node = "as_nodes s ! n" and ?z = "pos_z start"
  let ?x = "an_x ?node + of_int dx" and ?y = "an_y ?node + of_int dy"
  let ?pos = "Position ?x ?y ?z"
  have adj: "adjacent (node_pos ?z ?node) ?pos"
    using unit_offset_adjacent(1) [OF node_enterable(1) [OF env Cons.prems(1,2)] u] .
  have str: "allowDiagonal fpp \<or> n = 0 \<or> straight (node_pos ?z ?node) ?pos"
    using unit_offset_adjacent(2) [OF node_enterable(1) [OF env Cons.prems(1,2)] u] diag by blast
  show ?case
  proof (cases "maxSearchDist fpp \<noteq> 0 \<and> (getDistanceX start ?pos > maxSearchDist fpp
        \<or> getDistanceY start ?pos > maxSearchDist fpp) \<or> keepDistance fpp \<and> \<not> pe_inRange env start ?pos fpp")
    case True
    then have "expand env fpp start found n (d # nbs) s = expand env fpp start found n nbs s"
      by (auto simp: d Let_def)
    then show ?thesis using IH [OF Cons.prems(1)] by simp
  next
    case inside: False
    show ?thesis
    proof (cases "getNodeByPosition ?x ?y s")
      case (Some nb)
      then have nb: "nb < length (as_nodes s)" "node_pos ?z (as_nodes s ! nb) = ?pos"
        using astar_invD(6) [OF Cons.prems(1), of ?x ?y nb] by (simp_all add: node_pos_def)
      obtain e where e: "pe_extraCost env (pe_getTile env ?pos) = Some e"
        using node_enterable(2) [OF env Cons.prems(1) nb(1)] nb(2) by auto
      let ?newf = "an_f ?node + getMapWalkCost ?node ?pos (pe_preferDiagonal env) + e"
      let ?s = "openNode nb (s\<lparr>as_nodes := (as_nodes s)[nb := (as_nodes s ! nb)\<lparr>an_f := ?newf, an_parent := Some n\<rparr>]\<rparr>)"
      have ex: "expand env fpp start found n (d # nbs) s =
          (if an_f (as_nodes s ! nb) \<le> ?newf then expand env fpp start found n nbs s
           else expand env fpp start found n nbs ?s)"
        using inside Some e by (auto simp: d Let_def)
      show ?thesis
      proof (cases "an_f (as_nodes s ! nb) \<le> ?newf")
        case True
        then show ?thesis using ex IH [OF Cons.prems(1)] by simp
      next
        case False
        have "astar_inv env fpp start ?s"
          by (rule astar_inv_relink [OF Cons.prems(1,2) nb(1) _ _ _ _ refl])
            (use adj str nb(2) False getMapWalkCost_least [of ?node ?pos "pe_preferDiagonal env"] in simp_all)
        moreover have "evolves s ?s" using nb(1) False by (intro evolves_relink) simp_all
        ultimately show ?thesis using ex False IH by simp
      qed
    next
      case None
      show ?thesis
      proof (cases "pe_newTile env ?pos")
        case no: None
        then have "expand env fpp start found n (d # nbs) s = expand env fpp start found n nbs s"
          using inside None by (auto simp: d Let_def)
        then show ?thesis using IH [OF Cons.prems(1)] by simp
      next
        case (Some tile)
        then obtain e where e: "pe_extraCost env (Some tile) = Some e"
          using env unfolding env_ok_def by (metis option.distinct(1) option.exhaust)
        let ?newf = "an_f ?node + getMapWalkCost ?node ?pos (pe_preferDiagonal env) + e"
        have ex: "expand env fpp start found n (d # nbs) s =
            (case createOpenNode n ?x ?y ?newf s of
               Some s \<Rightarrow> expand env fpp start found n nbs s
             | None \<Rightarrow> if found then Expanded s else ExpandFail)"
          using inside None Some e by (auto simp: d Let_def)
        show ?thesis
        proof (cases "createOpenNode n ?x ?y ?newf s")
          case full: None
          then show ?thesis using ex Cons.prems(1) by simp
        next
          case (Some t)
          have "astar_inv env fpp start t"
            by (rule astar_inv_create [OF Cons.prems(1,2) adj str None _ _ Some])
              (use \<open>pe_newTile env ?pos = Some tile\<close> getMapWalkCost_least [of ?node ?pos "pe_preferDiagonal env"] in simp_all)
          then show ?thesis using ex Some IH evolves_create [OF Some] by simp
        qed
      qed
    qed
  qed
qed

lemma neighbors_of_ok:
  assumes "astar_inv env fpp start s" and "n < length (as_nodes s)"
  shows "nbs_ok fpp n (neighbors_of fpp s n)"
proof (cases "an_parent (as_nodes s ! n)")
  case None
  have "n = 0"
  proof (rule ccontr)
    assume "n \<noteq> 0"
    then show False using astar_invD(5) [OF assms(1), of n] assms(2) None by (auto simp: link_ok_def)
  qed
  then show ?thesis using None by (auto simp: neighbors_of_def nbs_ok_def unit_offset_def)
next
  case (Some p)
  have unit: "list_all unit_offset (take 5 (dirNeighbors d))" for d
    by (cases d) (simp_all add: unit_offset_def allNeighbors_def)
  have cross: "list_all (\<lambda>(dx, dy). unit_offset (dx, dy) \<and> (dx = 0 \<or> dy = 0)) (take 3 (dirNeighbors d))"
    if "d \<in> {DIRECTION_NORTH, DIRECTION_EAST, DIRECTION_SOUTH, DIRECTION_WEST}" for d
    using that by (auto simp: unit_offset_def allNeighbors_def)
  obtain d where d: "neighbors_of fpp s n = take (if allowDiagonal fpp then 5 else 3) (dirNeighbors d)"
    and s: "\<not> allowDiagonal fpp \<longrightarrow> d \<in> {DIRECTION_NORTH, DIRECTION_EAST, DIRECTION_SOUTH, DIRECTION_WEST}"
  proof (rule that)
    let ?ox = "uint (an_x (as_nodes s ! p)) - uint (an_x (as_nodes s ! n))"
    let ?oy = "uint (an_y (as_nodes s ! p)) - uint (an_y (as_nodes s ! n))"
    show "neighbors_of fpp s n = take (if allowDiagonal fpp then 5 else 3) (dirNeighbors (neighbor_row fpp ?ox ?oy))"
      using Some by (simp add: neighbors_of_def Let_def)
    show "\<not> allowDiagonal fpp \<longrightarrow>
        neighbor_row fpp ?ox ?oy \<in> {DIRECTION_NORTH, DIRECTION_EAST, DIRECTION_SOUTH, DIRECTION_WEST}"
      by (simp add: neighbor_row_def)
  qed
  show ?thesis
  proof (cases "allowDiagonal fpp")
    case True
    then show ?thesis using unit [of d] d by (auto simp: nbs_ok_def list_all_iff)
  next
    case False
    then have "list_all (\<lambda>(dx, dy). unit_offset (dx, dy) \<and> (dx = 0 \<or> dy = 0)) (neighbors_of fpp s n)"
      using cross [of d] d s by simp
    then show ?thesis unfolding nbs_ok_def list_all_iff by blast
  qed
qed

lemma best_node_open:
  "best_node i bf b ns os = Some k \<Longrightarrow> b = Some k \<or> i \<le> k \<and> k - i < length ns \<and> k - i < length os \<and> os ! (k - i)"
proof (induction i bf b ns os rule: best_node.induct)
  case (1 i bf best n ns b bs)
  have "best = Some k \<or> k = i \<and> b \<or> Suc i \<le> k \<and> k - Suc i < length ns \<and> k - Suc i < length bs \<and> bs ! (k - Suc i)"
    using 1 by (auto split: if_splits)
  moreover have "k - i = Suc (k - Suc i)" if "Suc i \<le> k" using that by linarith
  ultimately show ?case by auto
qed simp_all

lemma getBestNode_open:
  "getBestNode s = Some n \<Longrightarrow> n < length (as_nodes s) \<and> n < length (openNodes s) \<and> openNodes s ! n"
  unfolding getBestNode_def using best_node_open [of 0 _ None] by fastforce

section \<open>The search ends\<close>

definition open_count :: "astar \<Rightarrow> nat" where
  "open_count s = length (filter id (openNodes s))"

definition search_rel :: "(astar \<times> astar) set" where
  "search_rel = inv_image ((less_than <*lex*> less_than) <*lex*> less_than) (\<lambda>s. (table_measure s, open_count s))"

lemma wf_search_rel: "wf search_rel"
  unfolding search_rel_def by (intro wf_inv_image wf_lex_prod wf_less_than)

lemma length_filter_close: "i < length bs \<Longrightarrow> bs ! i \<Longrightarrow> length (filter id (bs[i := False])) < length (filter id bs)"
proof (induction bs arbitrary: i)
  case (Cons b bs)
  then show ?case by (cases i) auto
qed simp

lemma close_progress:
  assumes "evolves s s'" and "n < length (openNodes s)" and "openNodes s ! n"
  shows "(closeNode n s', s) \<in> search_rel"
proof (cases "s' = s")
  case True
  then show ?thesis using length_filter_close [OF assms(2,3)]
    by (simp add: search_rel_def closeNode_def table_measure_def open_count_def)
next
  case False
  then have "(table_measure s', table_measure s) \<in> less_than <*lex*> less_than"
    using assms(1) by (simp add: evolves_def)
  then show ?thesis by (simp add: search_rel_def closeNode_def table_measure_def)
qed

definition good_end :: "path_env \<Rightarrow> find_path_params \<Rightarrow> position \<Rightarrow> position \<Rightarrow> bool" where
  "good_end env fpp start p \<longleftrightarrow> (\<exists>bestMatch. fst (pe_condition env start p fpp bestMatch))"

definition found_ok :: "path_env \<Rightarrow> find_path_params \<Rightarrow> position \<Rightarrow> (nat \<times> position) option \<Rightarrow> astar \<Rightarrow> bool" where
  "found_ok env fpp start found s \<longleftrightarrow>
     (\<forall>i p. found = Some (i, p) \<longrightarrow>
        i < length (as_nodes s) \<and> p = node_pos (pos_z start) (as_nodes s ! i) \<and> good_end env fpp start p)"

definition result_ok :: "path_env \<Rightarrow> find_path_params \<Rightarrow> position \<Rightarrow> search_result \<Rightarrow> bool" where
  "result_ok env fpp start r \<longleftrightarrow>
     r \<noteq> SearchCrash
   \<and> (\<forall>i p t. r = FoundNode i p t \<longrightarrow> astar_inv env fpp start t \<and> found_ok env fpp start (Some (i, p)) t)"

lemma finish_ok:
  "astar_inv env fpp start s \<Longrightarrow> found_ok env fpp start found s \<Longrightarrow> result_ok env fpp start (finish found s)"
  by (auto simp: finish_def result_ok_def split: option.splits)

lemma found_ok_evolves:
  assumes "found_ok env fpp start found s" and "evolves s s'"
  shows "found_ok env fpp start found (closeNode n s')"
  using assms unfolding found_ok_def evolves_def closeNode_def node_pos_def by auto

lemma astar_loop_ends:
  assumes env: "env_ok env start"
  shows "astar_inv env fpp start s \<Longrightarrow> found_ok env fpp start found s \<Longrightarrow>
    \<exists>r. astar_loop env fpp start bestMatch found s = Some r \<and> result_ok env fpp start r"
proof (induction s arbitrary: bestMatch found rule: wf_induct_rule [OF wf_search_rel])
  case (1 s)
  note inv = 1(2) and fnd = 1(3)
  show ?case
  proof (cases "maxSearchDist fpp \<noteq> 0 \<or> closedNodes s < 100")
    case False
    then show ?thesis
      by (subst astar_loop.simps) (simp add: finish_ok [OF inv fnd])
  next
    case go: True
    show ?thesis
    proof (cases "getBestNode s")
      case None
      with go show ?thesis
        by (subst astar_loop.simps) (simp add: finish_ok [OF inv fnd])
    next
      case (Some n)
      note n = getBestNode_open [OF Some]
      then have nl: "n < length (as_nodes s)" by blast
      let ?pos = "Position (an_x (as_nodes s ! n)) (an_y (as_nodes s ! n)) (pos_z start)"
      obtain ok bm where c: "pe_condition env start ?pos fpp bestMatch = (ok, bm)" by fastforce
      let ?found = "if ok then Some (n, ?pos) else found"
      have f': "found_ok env fpp start ?found s"
        using fnd n c by (auto simp: found_ok_def node_pos_def good_end_def intro: exI [of _ bestMatch])
      show ?thesis
      proof (cases "ok \<and> bm = 0")
        case True
        then have "astar_loop env fpp start bestMatch found s = Some (FoundNode n ?pos s)"
          using go Some c by (subst astar_loop.simps) (simp add: Let_def)
        then show ?thesis using True inv f' by (simp add: result_ok_def)
      next
        case False
        have step: "astar_loop env fpp start bestMatch found s =
            (case expand env fpp start (?found \<noteq> None) n (neighbors_of fpp s n) s of
               ExpandCrash \<Rightarrow> Some SearchCrash
             | ExpandFail \<Rightarrow> Some NotFound
             | Expanded s \<Rightarrow> astar_loop env fpp start bm ?found (closeNode n s))"
          using go Some False by (subst astar_loop.simps) (auto simp: Let_def c cong: expand_result.case_cong)
        have e: "case expand env fpp start (?found \<noteq> None) n (neighbors_of fpp s n) s of
            ExpandCrash \<Rightarrow> False | ExpandFail \<Rightarrow> \<not> ?found \<noteq> None
          | Expanded s' \<Rightarrow> astar_inv env fpp start s' \<and> evolves s s'"
          by (rule expand_ok [OF env inv nl neighbors_of_ok [OF inv nl]])
        show ?thesis
        proof (cases "expand env fpp start (?found \<noteq> None) n (neighbors_of fpp s n) s")
          case ExpandCrash
          then show ?thesis using e by simp
        next
          case ExpandFail
          then show ?thesis using step by (simp add: result_ok_def)
        next
          case (Expanded t)
          then have t: "astar_inv env fpp start t" "evolves s t" using e by simp_all
          have "(closeNode n t, s) \<in> search_rel" using close_progress t(2) n by blast
          from 1(1) [OF this astar_inv_close [OF t(1)] found_ok_evolves [OF f' t(2)]]
          show ?thesis using step Expanded by simp
        qed
      qed
    qed
  qed
qed

section \<open>The path found\<close>

definition walk :: "position \<Rightarrow> direction list \<Rightarrow> position" where
  "walk p ds = fold getNextPosition ds p"

lemma walk_simps [simp]:
  "walk p [] = p" "walk p (d # ds) = walk (getNextPosition d p) ds" "walk p (ds @ es) = walk (walk p ds) es"
  by (simp_all add: walk_def)

definition diagonal :: "direction \<Rightarrow> bool" where
  "diagonal d \<longleftrightarrow> d \<in> {DIRECTION_SOUTHWEST, DIRECTION_SOUTHEAST, DIRECTION_NORTHWEST, DIRECTION_NORTHEAST}"

text \<open>A walk all of whose steps enter tiles that can be entered, diagonal only where allowed.\<close>

definition legal_walk :: "path_env \<Rightarrow> find_path_params \<Rightarrow> position \<Rightarrow> direction list \<Rightarrow> bool" where
  "legal_walk env fpp start ds \<longleftrightarrow>
     (\<forall>k. 0 < k \<and> k \<le> length ds \<longrightarrow> pe_newTile env (walk start (take k ds)) \<noteq> None)
   \<and> (allowDiagonal fpp \<or> (\<forall>d \<in> set (tl ds). \<not> diagonal d))"

lemma legal_walk_snoc:
  assumes "legal_walk env fpp start ds" and "pe_newTile env (walk start (ds @ [d])) \<noteq> None"
    and "allowDiagonal fpp \<or> ds = [] \<or> \<not> diagonal d"
  shows "legal_walk env fpp start (ds @ [d])"
  unfolding legal_walk_def
proof (intro conjI allI impI)
  fix k assume k: "0 < k \<and> k \<le> length (ds @ [d])"
  show "pe_newTile env (walk start (take k (ds @ [d]))) \<noteq> None"
  proof (cases "k \<le> length ds")
    case True
    then show ?thesis using assms(1) k by (simp add: legal_walk_def)
  next
    case False
    then have "take k (ds @ [d]) = ds @ [d]" using k by simp
    then show ?thesis using assms(2) by (simp del: walk_simps)
  qed
next
  show "allowDiagonal fpp \<or> (\<forall>e \<in> set (tl (ds @ [d])). \<not> diagonal e)"
    using assms(1,3) by (cases ds) (auto simp: legal_walk_def)
qed

lemma trace_back_walk:
  assumes inv: "astar_inv env fpp start s"
  shows "i < length (as_nodes s) \<Longrightarrow> adjacent (node_pos (pos_z start) (as_nodes s ! i)) q \<Longrightarrow>
    allowDiagonal fpp \<or> i = 0 \<or> straight (node_pos (pos_z start) (as_nodes s ! i)) q \<Longrightarrow>
    pe_newTile env q \<noteq> None \<Longrightarrow>
    \<exists>ds. trace_back s (Some i) (getX q) (getY q) acc = Some (ds @ acc) \<and> ds \<noteq> []
       \<and> walk start ds = q \<and> legal_walk env fpp start ds"
proof (induction "an_f (as_nodes s ! i)" arbitrary: i q acc rule: less_induct)
  case less
  let ?n = "as_nodes s ! i" and ?z = "pos_z start"
  let ?p = "node_pos ?z ?n"
  have xy: "getX ?p = uint (an_x ?n)" "getY ?p = uint (an_y ?n)" by (simp_all add: node_pos_def coord_defs)
  obtain d where d: "step_direction (getX ?p - getX q) (getY ?p - getY q) = Some d" "getNextPosition d ?p = q"
      "straight ?p q \<longrightarrow> d \<in> {DIRECTION_NORTH, DIRECTION_EAST, DIRECTION_SOUTH, DIRECTION_WEST}"
    using step_direction_leads [OF less.prems(2)] by blast
  have nd: "straight ?p q \<longrightarrow> \<not> diagonal d" using d(3) by (auto simp: diagonal_def)
  have tr: "trace_back s (Some i) (getX q) (getY q) acc = trace_back s (an_parent ?n) (getX ?p) (getY ?p) (d # acc)"
    using d(1) by (subst trace_back.simps) (simp add: Let_def xy)
  show ?case
  proof (cases "i = 0")
    case True
    then have "an_parent ?n = None" "?p = start"
      using astar_invD(4) [OF inv] by (simp_all add: node_pos_def)
    moreover have "trace_back s None x y l = Some l" for x y l by (subst trace_back.simps) simp
    ultimately show ?thesis
      using tr d(2) less.prems(4) by (intro exI [of _ "[d]"]) (auto simp: legal_walk_def le_Suc_eq)
  next
    case False
    then obtain p where p: "p < length (as_nodes s)" "an_parent ?n = Some p"
        "an_f (as_nodes s ! p) + MAP_NORMALWALKCOST \<le> an_f ?n"
        "adjacent (node_pos ?z (as_nodes s ! p)) ?p"
        "allowDiagonal fpp \<or> p = 0 \<or> straight (node_pos ?z (as_nodes s ! p)) ?p"
        "pe_newTile env ?p \<noteq> None"
      using astar_invD(5) [OF inv, of i] less.prems(1) unfolding link_ok_def by blast
    have "an_f (as_nodes s ! p) < an_f ?n" using p(3) by (simp add: walk_costs)
    from less.hyps [OF this p(1,4,5,6), of "d # acc"]
    obtain ds where ds: "trace_back s (Some p) (getX ?p) (getY ?p) (d # acc) = Some (ds @ d # acc)" "ds \<noteq> []"
        "walk start ds = ?p" "legal_walk env fpp start ds" by blast
    have "legal_walk env fpp start (ds @ [d])"
      using ds(3,4) d(2) less.prems(3,4) False nd by (intro legal_walk_snoc) auto
    then show ?thesis using tr p(2) ds d(2) by (intro exI [of _ "ds @ [d]"]) simp
  qed
qed

lemma path_search_correct:
  assumes env: "env_ok env start"
  shows "\<exists>r. path_search env start dirList fpp = Some r \<and> r \<noteq> PathCrash
    \<and> (\<forall>ds. r = Path ds \<longrightarrow>
         (\<exists>path. ds = path @ dirList \<and> good_end env fpp start (walk start path) \<and> legal_walk env fpp start path))"
proof -
  obtain r where r: "astar_loop env fpp start 0 None (astar_init (pos_x start) (pos_y start)) = Some r"
      "result_ok env fpp start r"
    using astar_loop_ends [OF env astar_inv_init, of fpp None 0] by (auto simp: found_ok_def)
  show ?thesis
  proof (cases r)
    case SearchCrash
    then show ?thesis using r(2) by (simp add: result_ok_def)
  next
    case NotFound
    then show ?thesis using r(1) by (simp add: path_search_def)
  next
    case (FoundNode i p t)
    then have inv: "astar_inv env fpp start t" and i: "i < length (as_nodes t)"
      and p: "p = node_pos (pos_z start) (as_nodes t ! i)" and good: "good_end env fpp start p"
      using r(2) by (auto simp: result_ok_def found_ok_def)
    have "\<exists>path. trace_back t (an_parent (as_nodes t ! i)) (getX p) (getY p) dirList = Some (path @ dirList)
        \<and> walk start path = p \<and> legal_walk env fpp start path"
    proof (cases "i = 0")
      case True
      then have "an_parent (as_nodes t ! i) = None" "p = start"
        using astar_invD(4) [OF inv] by (simp_all add: p node_pos_def)
      then show ?thesis
        by (intro exI [of _ "[]"]) (simp add: trace_back.simps [of t None] legal_walk_def)
    next
      case False
      then obtain k where "k < length (as_nodes t)" "an_parent (as_nodes t ! i) = Some k"
          "adjacent (node_pos (pos_z start) (as_nodes t ! k)) p"
          "allowDiagonal fpp \<or> k = 0 \<or> straight (node_pos (pos_z start) (as_nodes t ! k)) p"
          "pe_newTile env p \<noteq> None"
        using astar_invD(5) [OF inv, of i] i unfolding link_ok_def p by blast
      then show ?thesis using trace_back_walk [OF inv, of k p dirList] by auto
    qed
    then show ?thesis using r(1) FoundNode good by (auto simp: path_search_def)
  qed
qed

lemma pathCondition_true:
  assumes "fst (pathCondition sight target start p fpp bm)"
  shows "isInRange target start p fpp \<and> (clearSight fpp \<longrightarrow> sight p target)
    \<and> minTargetDist fpp \<le> max (getDistanceX target p) (getDistanceY target p)
    \<and> max (getDistanceX target p) (getDistanceY target p) \<le> maxTargetDist fpp"
  using assms by (auto simp: pathCondition_def Let_def split: if_splits)

text \<open>C7: the path search of a creature always ends, follows no null tile, and a path it returns is
  right: walked from the creature's position it enters only tiles the creature can walk to and ends
  at a position that satisfies the path condition (within range, with a clear line of sight where
  one is asked for, and between the minimal and maximal distance from the target). Directions
  already in the list stay behind the path. The creature stands on a tile, and tiles lie off the
  outermost rim of the coordinate range.\<close>

theorem path_search_valid:
  assumes "getTile (pc_position c) \<noteq> None" and "\<And>p. getTile p \<noteq> None \<Longrightarrow> interior p"
  shows "\<exists>r. getPathMatching getTile sight c dirList target fpp = Some r \<and> r \<noteq> PathCrash
    \<and> (\<forall>ds. r = Path ds \<longrightarrow> (\<exists>path. ds = path @ dirList
         \<and> (\<forall>k. 0 < k \<and> k \<le> length path \<longrightarrow> canWalkTo getTile c (walk (pc_position c) (take k path)) \<noteq> None)
         \<and> isInRange target (pc_position c) (walk (pc_position c) path) fpp
         \<and> (clearSight fpp \<longrightarrow> sight (walk (pc_position c) path) target)
         \<and> minTargetDist fpp \<le> max (getDistanceX target (walk (pc_position c) path)) (getDistanceY target (walk (pc_position c) path))
         \<and> max (getDistanceX target (walk (pc_position c) path)) (getDistanceY target (walk (pc_position c) path)) \<le> maxTargetDist fpp))"
proof -
  let ?env = "\<lparr>pe_getTile = getTile, pe_newTile = canWalkTo getTile c,
        pe_extraCost = map_option (getTileWalkCost c), pe_preferDiagonal = False,
        pe_condition = pathCondition sight target, pe_inRange = isInRange target\<rparr>"
  have tile: "canWalkTo getTile c p \<noteq> None \<Longrightarrow> getTile p \<noteq> None" for p
    by (auto simp: canWalkTo_def Let_def split: if_splits option.splits)
  have env: "env_ok ?env (pc_position c)"
    using assms tile by (auto simp: env_ok_def)
  have good: "good_end ?env fpp (pc_position c) p \<Longrightarrow>
      isInRange target (pc_position c) p fpp \<and> (clearSight fpp \<longrightarrow> sight p target)
      \<and> minTargetDist fpp \<le> max (getDistanceX target p) (getDistanceY target p)
      \<and> max (getDistanceX target p) (getDistanceY target p) \<le> maxTargetDist fpp" for p
    using pathCondition_true unfolding good_end_def by fastforce
  obtain r where r: "path_search ?env (pc_position c) dirList fpp = Some r" "r \<noteq> PathCrash"
    "\<And>ds. r = Path ds \<Longrightarrow> \<exists>path. ds = path @ dirList \<and> good_end ?env fpp (pc_position c) (walk (pc_position c) path)
        \<and> legal_walk ?env fpp (pc_position c) path"
    using path_search_correct [OF env, of dirList fpp] by blast
  have "\<exists>path. ds = path @ dirList
         \<and> (\<forall>k. 0 < k \<and> k \<le> length path \<longrightarrow> canWalkTo getTile c (walk (pc_position c) (take k path)) \<noteq> None)
         \<and> isInRange target (pc_position c) (walk (pc_position c) path) fpp
         \<and> (clearSight fpp \<longrightarrow> sight (walk (pc_position c) path) target)
         \<and> minTargetDist fpp \<le> max (getDistanceX target (walk (pc_position c) path)) (getDistanceY target (walk (pc_position c) path))
         \<and> max (getDistanceX target (walk (pc_position c) path)) (getDistanceY target (walk (pc_position c) path)) \<le> maxTargetDist fpp"
    if eq: "r = Path ds" for ds
  proof -
    obtain path where p: "ds = path @ dirList" "good_end ?env fpp (pc_position c) (walk (pc_position c) path)"
        "legal_walk ?env fpp (pc_position c) path"
      using r(3) [OF eq] by blast
    show ?thesis
      by (rule exI [of _ path]) (use p(1,3) good [OF p(2)] in \<open>simp add: legal_walk_def\<close>)
  qed
  with r(1,2) show ?thesis unfolding getPathMatching_def by blast
qed

definition demo_path_creature :: path_creature where
  "demo_path_creature = \<lparr>pc_position = Position 100 100 7, pc_walkCache = (\<lambda>_. 2), pc_queryAdd = (\<lambda>_. True),
     pc_isImmune = (\<lambda>_. False), pc_hasCondition = (\<lambda>_. False), pc_monster_canWalkOnField = None\<rparr>"

text \<open>Two tiles that touch at a corner only.\<close>

definition demo_tiles :: "position \<Rightarrow> path_tile option" where
  "demo_tiles p = (if p = Position 100 100 7 \<or> p = Position 101 101 7
     then Some \<lparr>pt_blocksolid = False, pt_topVisibleCreature = False, pt_field = None\<rparr> else None)"

definition demo_fpp :: "bool \<Rightarrow> find_path_params" where
  "demo_fpp diag = \<lparr>fullPathSearch = True, clearSight = False, allowDiagonal = diag, keepDistance = False,
     maxSearchDist = 0, minTargetDist = 0, maxTargetDist = 0\<rparr>"

lemma demo_path:
  "getPathMatching demo_tiles (\<lambda>_ _. True) demo_path_creature [] (Position 101 101 7) (demo_fpp diag)
     = Some (Path [DIRECTION_SOUTHEAST])"
  by (simp add: getPathMatching_def path_search_def astar_init_def demo_path_creature_def demo_fpp_def
      astar_loop.simps [of _ _ _ _ None] astar_loop.simps [of _ _ _ 0] getBestNode_def pathCondition_def isInRange_def
      coord_defs neighbors_of_def allNeighbors_def demo_tiles_def canWalkTo_def getNodeByPosition_def
      createOpenNode_def MAX_NODES_def getMapWalkCost_def walk_costs getTileWalkCost_def closeNode_def
      trace_back.simps step_direction_def Let_def)

lemma demo_tiles_interior: "demo_tiles p \<noteq> None \<Longrightarrow> interior p"
  by (auto simp: demo_tiles_def interior_def coord_defs split: if_splits)

theorem path_search_valid_witness:
  "\<exists>path. getPathMatching demo_tiles (\<lambda>_ _. True) demo_path_creature [] (Position 101 101 7) (demo_fpp True) = Some (Path path)
     \<and> max (getDistanceX (Position 101 101 7) (walk (Position 100 100 7) path))
           (getDistanceY (Position 101 101 7) (walk (Position 100 100 7) path)) \<le> 0"
proof -
  have c: "pc_position demo_path_creature = Position 100 100 7" and m: "maxTargetDist (demo_fpp True) = 0"
    by (simp_all add: demo_path_creature_def demo_fpp_def)
  have "demo_tiles (pc_position demo_path_creature) \<noteq> None"
    by (simp add: demo_tiles_def demo_path_creature_def)
  note v = path_search_valid [where getTile = demo_tiles and c = demo_path_creature, OF this demo_tiles_interior,
      of "\<lambda>_ _. True" "[]" "Position 101 101 7" "demo_fpp True", unfolded c m]
  show ?thesis using v demo_path [of True] by (metis append_Nil2 option.inject)
qed

text \<open>The search between two positions, which scripts use, ends as well, and a path it returns enters
  only tiles that exist and do not block, and ends where the path condition holds.\<close>

theorem script_path_search_valid:
  assumes "interior start" and "\<And>p. getTile p \<noteq> None \<Longrightarrow> interior p"
  shows "\<exists>r. getPathMatching_position getTile sight start dirList target fpp = Some r \<and> r \<noteq> PathCrash
    \<and> (\<forall>ds. r = Path ds \<longrightarrow> (\<exists>path. ds = path @ dirList
         \<and> (\<forall>k. 0 < k \<and> k \<le> length path \<longrightarrow>
              (\<exists>tile. getTile (walk start (take k path)) = Some tile \<and> \<not> pt_blocksolid tile))
         \<and> isInRange target start (walk start path) fpp \<and> (clearSight fpp \<longrightarrow> sight (walk start path) target)
         \<and> minTargetDist fpp \<le> max (getDistanceX target (walk start path)) (getDistanceY target (walk start path))
         \<and> max (getDistanceX target (walk start path)) (getDistanceY target (walk start path)) \<le> maxTargetDist fpp))"
proof -
  let ?new = "\<lambda>pos. case getTile pos of None \<Rightarrow> None | Some tile \<Rightarrow> if pt_blocksolid tile then None else Some tile"
  let ?env = "\<lparr>pe_getTile = getTile, pe_newTile = ?new, pe_extraCost = (\<lambda>_. Some 0), pe_preferDiagonal = True,
        pe_condition = pathCondition sight target, pe_inRange = isInRange target\<rparr>"
  have tile: "?new p \<noteq> None \<longleftrightarrow> (\<exists>tile. getTile p = Some tile \<and> \<not> pt_blocksolid tile)" for p
    by (auto split: option.splits)
  have env: "env_ok ?env start"
    using assms tile by (auto simp: env_ok_def)
  have good: "good_end ?env fpp start p \<Longrightarrow>
      isInRange target start p fpp \<and> (clearSight fpp \<longrightarrow> sight p target)
      \<and> minTargetDist fpp \<le> max (getDistanceX target p) (getDistanceY target p)
      \<and> max (getDistanceX target p) (getDistanceY target p) \<le> maxTargetDist fpp" for p
    using pathCondition_true unfolding good_end_def by fastforce
  obtain r where r: "path_search ?env start dirList fpp = Some r" "r \<noteq> PathCrash"
    "\<And>ds. r = Path ds \<Longrightarrow> \<exists>path. ds = path @ dirList \<and> good_end ?env fpp start (walk start path)
        \<and> legal_walk ?env fpp start path"
    using path_search_correct [OF env, of dirList fpp] by blast
  have "\<exists>path. ds = path @ dirList
         \<and> (\<forall>k. 0 < k \<and> k \<le> length path \<longrightarrow>
              (\<exists>tile. getTile (walk start (take k path)) = Some tile \<and> \<not> pt_blocksolid tile))
         \<and> isInRange target start (walk start path) fpp \<and> (clearSight fpp \<longrightarrow> sight (walk start path) target)
         \<and> minTargetDist fpp \<le> max (getDistanceX target (walk start path)) (getDistanceY target (walk start path))
         \<and> max (getDistanceX target (walk start path)) (getDistanceY target (walk start path)) \<le> maxTargetDist fpp"
    if eq: "r = Path ds" for ds
  proof -
    obtain path where p: "ds = path @ dirList" "good_end ?env fpp start (walk start path)"
        "legal_walk ?env fpp start path"
      using r(3) [OF eq] by blast
    have "\<exists>tile. getTile (walk start (take k path)) = Some tile \<and> \<not> pt_blocksolid tile"
      if "0 < k \<and> k \<le> length path" for k
      using p(3) that unfolding legal_walk_def tile [symmetric] by simp
    then show ?thesis using p(1) good [OF p(2)] by blast
  qed
  with r(1,2) show ?thesis unfolding getPathMatching_position_def by blast
qed

theorem script_path_search_valid_witness:
  "\<exists>r. getPathMatching_position demo_tiles (\<lambda>_ _. True) (Position 100 100 7) [] (Position 101 101 7) (demo_fpp True) = Some r
     \<and> r \<noteq> PathCrash"
proof -
  have "interior (Position 100 100 7)" by (simp add: interior_def coord_defs)
  from script_path_search_valid [where getTile = demo_tiles, OF this demo_tiles_interior] show ?thesis by blast
qed

text \<open>A search that forbids diagonal steps can still begin with one: every step of a path after the
  first is straight, but the start is expanded in all eight directions, so between two tiles that
  touch at a corner only the creature is sent across the corner.\<close>

theorem diagonal_only_first:
  assumes "getTile (pc_position c) \<noteq> None" and "\<And>p. getTile p \<noteq> None \<Longrightarrow> interior p"
    and "\<not> allowDiagonal fpp" and "getPathMatching getTile sight c [] target fpp = Some (Path path)"
  shows "list_all (\<lambda>d. \<not> diagonal d) (tl path)
     \<and> getPathMatching demo_tiles (\<lambda>_ _. True) demo_path_creature [] (Position 101 101 7) (demo_fpp False)
         = Some (Path [DIRECTION_SOUTHEAST])
     \<and> \<not> allowDiagonal (demo_fpp False) \<and> diagonal DIRECTION_SOUTHEAST"
proof -
  let ?env = "\<lparr>pe_getTile = getTile, pe_newTile = canWalkTo getTile c,
        pe_extraCost = map_option (getTileWalkCost c), pe_preferDiagonal = False,
        pe_condition = pathCondition sight target, pe_inRange = isInRange target\<rparr>"
  have "canWalkTo getTile c p \<noteq> None \<Longrightarrow> getTile p \<noteq> None" for p
    by (auto simp: canWalkTo_def Let_def split: if_splits option.splits)
  then have env: "env_ok ?env (pc_position c)"
    using assms(1,2) by (auto simp: env_ok_def)
  have "legal_walk ?env fpp (pc_position c) path"
    using path_search_correct [OF env, of "[]" fpp] assms(4) unfolding getPathMatching_def by auto
  then have "list_all (\<lambda>d. \<not> diagonal d) (tl path)"
    using assms(3) by (simp add: legal_walk_def list_all_iff)
  moreover have "\<not> allowDiagonal (demo_fpp False)" "diagonal DIRECTION_SOUTHEAST"
    by (simp_all add: demo_fpp_def diagonal_def)
  ultimately show ?thesis using demo_path [of False] by blast
qed

theorem diagonal_only_first_witness:
  "list_all (\<lambda>d. \<not> diagonal d) (tl [DIRECTION_SOUTHEAST]) \<and> diagonal DIRECTION_SOUTHEAST"
proof -
  have pre: "demo_tiles (pc_position demo_path_creature) \<noteq> None" "\<not> allowDiagonal (demo_fpp False)"
    by (simp_all add: demo_tiles_def demo_path_creature_def demo_fpp_def)
  show ?thesis
    using diagonal_only_first [where getTile = demo_tiles and c = demo_path_creature, OF pre(1) demo_tiles_interior pre(2) demo_path [of False]] by blast
qed

end
