(* ===== verification/Items.thy ===== *)
theory Items
  imports StdMap
begin

text \<open>
  Items: the attribute vector of \<open>src/src/items/item.h\<close> and \<open>item.cpp\<close>, the fields of
  \<open>ItemType\<close> (\<open>items.h\<close>) that the modelled code reads, and the operations on single items. The
  item table \<open>Item::items\<close> is loaded from data files; it is the argument \<open>T\<close> of the definitions.
  Items live in a heap from references to objects; a container is an item with contents.
\<close>

section \<open>Attributes\<close>

datatype attr_value = IntAttr int | StrAttr string | CustomAttr nat

record item_attrs =
  attributeBits :: u32
  attributes :: "(u32 \<times> attr_value) list"

definition no_attrs :: item_attrs where
  "no_attrs = \<lparr>attributeBits = 0, attributes = []\<rparr>"

abbreviation "ITEM_ATTRIBUTE_ACTIONID \<equiv> (1 :: u32)"
abbreviation "ITEM_ATTRIBUTE_UNIQUEID \<equiv> (2 :: u32)"
abbreviation "ITEM_ATTRIBUTE_WEIGHT \<equiv> (0x200 :: u32)"
abbreviation "ITEM_ATTRIBUTE_DURATION \<equiv> (0x20000 :: u32)"
abbreviation "ITEM_ATTRIBUTE_DECAYSTATE \<equiv> (0x40000 :: u32)"
abbreviation "ITEM_ATTRIBUTE_CORPSEOWNER \<equiv> (0x80000 :: u32)"
abbreviation "ITEM_ATTRIBUTE_CHARGES \<equiv> (0x100000 :: u32)"
abbreviation "ITEM_ATTRIBUTE_FLUIDTYPE \<equiv> (0x200000 :: u32)"
abbreviation "ITEM_ATTRIBUTE_DURATION_TIMESTAMP \<equiv> (0x8000000 :: u32)"

definition isIntAttrType :: "u32 \<Rightarrow> bool" where
  "isIntAttrType type \<longleftrightarrow>
     type AND (0x1 OR 0x2 OR 0x10 OR 0x200 OR 0x400 OR 0x800 OR 0x1000 OR 0x2000 OR 0x4000 OR 0x8000
               OR 0x10000 OR 0x20000 OR 0x40000 OR 0x80000 OR 0x100000 OR 0x200000 OR 0x400000
               OR 0x1000000 OR 0x2000000 OR 0x4000000 OR 0x8000000) \<noteq> 0"

definition isStrAttrType :: "u32 \<Rightarrow> bool" where
  "isStrAttrType type \<longleftrightarrow> type AND (0x4 OR 0x8 OR 0x20 OR 0x40 OR 0x80 OR 0x100 OR 0x800000) \<noteq> 0"

definition hasAttribute :: "u32 \<Rightarrow> item_attrs \<Rightarrow> bool" where
  "hasAttribute type a \<longleftrightarrow> type AND attributeBits a \<noteq> 0"

definition getExistingAttr :: "u32 \<Rightarrow> item_attrs \<Rightarrow> attr_value option" where
  "getExistingAttr type a = (if hasAttribute type a then map_of (attributes a) type else None)"

definition getIntAttr :: "u32 \<Rightarrow> item_attrs \<Rightarrow> int" where
  "getIntAttr type a =
     (if \<not> isIntAttrType type then 0
      else case getExistingAttr type a of Some (IntAttr n) \<Rightarrow> n | _ \<Rightarrow> 0)"

text \<open>\<open>getAttr\<close> finds the entry of the type or appends one; \<open>setIntAttr\<close> writes through it.\<close>

fun overwrite :: "u32 \<Rightarrow> attr_value \<Rightarrow> (u32 \<times> attr_value) list \<Rightarrow> (u32 \<times> attr_value) list" where
  "overwrite t v [] = []"
| "overwrite t v ((u, w) # as) = (if u = t then (u, v) # as else (u, w) # overwrite t v as)"

definition putAttr :: "u32 \<Rightarrow> attr_value \<Rightarrow> item_attrs \<Rightarrow> item_attrs" where
  "putAttr type v a =
     (if hasAttribute type a \<and> type \<in> fst ` set (attributes a)
      then a\<lparr>attributes := overwrite type v (attributes a)\<rparr>
      else a\<lparr>attributeBits := attributeBits a OR type, attributes := attributes a @ [(type, v)]\<rparr>)"

definition setIntAttr :: "u32 \<Rightarrow> int \<Rightarrow> item_attrs \<Rightarrow> item_attrs" where
  "setIntAttr type n a = (if isIntAttrType type then putAttr type (IntAttr n) a else a)"

text \<open>The removed entry is overwritten with the last one, which is popped.\<close>

definition removeAttribute :: "u32 \<Rightarrow> item_attrs \<Rightarrow> item_attrs" where
  "removeAttribute type a =
     (if \<not> hasAttribute type a then a
      else \<lparr>attributeBits = attributeBits a AND NOT type,
            attributes =
              (let i = length (takeWhile (\<lambda>e. fst e \<noteq> type) (attributes a))
               in if i < length (attributes a)
                  then butlast ((attributes a)[i := last (attributes a)])
                  else attributes a)\<rparr>)"

text \<open>The bits are exactly the types in the vector, each of which is a single bit.\<close>

definition single_bit :: "u32 \<Rightarrow> bool" where
  "single_bit t \<longleftrightarrow> (\<exists>n<32. t = push_bit n 1)"

definition attrs_ok :: "item_attrs \<Rightarrow> bool" where
  "attrs_ok a \<longleftrightarrow> distinct (map fst (attributes a))
     \<and> (\<forall>t. single_bit t \<longrightarrow> hasAttribute t a = (t \<in> fst ` set (attributes a)))
     \<and> (\<forall>t \<in> fst ` set (attributes a). single_bit t)"

lemma single_bit_test: "single_bit t \<Longrightarrow> \<exists>n<32. \<forall>b. t AND b \<noteq> 0 \<longleftrightarrow> bit b n"
  unfolding single_bit_def push_bit_of_1 by (metis and.commute and_exp_eq_0_iff_not_bit)

lemma single_bit_and:
  assumes "single_bit s" and "single_bit t"
  shows "s AND t \<noteq> 0 \<longleftrightarrow> s = t"
proof -
  from assms obtain m n where s: "s = 2 ^ m" "m < 32" and t: "t = 2 ^ n" "n < 32"
    by (auto simp: single_bit_def push_bit_of_1)
  have "s AND t \<noteq> 0 \<longleftrightarrow> bit s n" using t(1) and_exp_eq_0_iff_not_bit by blast
  also have "\<dots> \<longleftrightarrow> m = n" using s t(2) by (auto simp: bit_exp_iff)
  also have "\<dots> \<longleftrightarrow> s = t"
  proof
    assume "s = t"
    then have "bit t m" using s by (auto simp: bit_exp_iff)
    then show "m = n" using t by (auto simp: bit_exp_iff)
  qed (use s t in simp)
  finally show ?thesis .
qed

lemma single_bit_and_or:
  assumes "single_bit s" and "single_bit t"
  shows "s AND (b OR t) \<noteq> 0 \<longleftrightarrow> s AND b \<noteq> 0 \<or> s = t"
proof -
  obtain n where n: "\<And>b. s AND b \<noteq> 0 \<longleftrightarrow> bit b n" using single_bit_test [OF assms(1)] by blast
  have "bit t n \<longleftrightarrow> s = t" using n [of t] single_bit_and [OF assms] by simp
  then show ?thesis by (simp only: n bit_or_iff)
qed

lemma single_bit_and_not:
  assumes "single_bit s" and "single_bit t"
  shows "s AND (b AND NOT t) \<noteq> 0 \<longleftrightarrow> s AND b \<noteq> 0 \<and> s \<noteq> t"
proof -
  obtain n where "n < 32" and n: "\<And>b. s AND b \<noteq> 0 \<longleftrightarrow> bit b n" using single_bit_test [OF assms(1)] by blast
  then have "bit (NOT t) n \<longleftrightarrow> s \<noteq> t"
    using n [of t] single_bit_and [OF assms] by (simp add: bit_not_iff)
  then show ?thesis by (simp only: n bit_and_iff)
qed

lemma fst_overwrite [simp]: "map fst (overwrite t v as) = map fst as"
  by (induction t v as rule: overwrite.induct) auto

lemma map_of_overwrite:
  "t \<in> fst ` set as \<Longrightarrow> map_of (overwrite t v as) u = (if u = t then Some v else map_of as u)"
proof (induction as)
  case (Cons a as)
  then show ?case by (cases a; cases "fst a = t") (auto simp: image_iff split: if_splits)
qed simp

lemma attrs_ok_hasAttribute:
  "attrs_ok a \<Longrightarrow> single_bit t \<Longrightarrow> hasAttribute t a \<longleftrightarrow> t \<in> fst ` set (attributes a)"
  by (simp add: attrs_ok_def)

lemma attrs_ok_no_attrs [simp]: "attrs_ok no_attrs"
  by (simp add: attrs_ok_def no_attrs_def hasAttribute_def)

lemma attrs_ok_put:
  assumes "attrs_ok a" and "single_bit t"
  shows "attrs_ok (putAttr t v a)"
proof (cases "t \<in> fst ` set (attributes a)")
  case True
  then have "hasAttribute t a" using assms by (simp add: attrs_ok_hasAttribute)
  then have "putAttr t v a = a\<lparr>attributes := overwrite t v (attributes a)\<rparr>"
    using True by (simp add: putAttr_def)
  moreover have "fst ` set (overwrite t v (attributes a)) = fst ` set (attributes a)"
    by (metis fst_overwrite set_map)
  ultimately show ?thesis using assms(1) by (simp add: attrs_ok_def hasAttribute_def)
next
  case False
  then have "putAttr t v a = a\<lparr>attributeBits := attributeBits a OR t, attributes := attributes a @ [(t, v)]\<rparr>"
    by (simp add: putAttr_def)
  then show ?thesis
    using False assms by (auto simp: attrs_ok_def hasAttribute_def single_bit_and_or)
qed

lemma getExistingAttr_put:
  assumes "attrs_ok a" and "single_bit t" and "single_bit u"
  shows "getExistingAttr u (putAttr t v a) = (if u = t then Some v else getExistingAttr u a)"
proof -
  have m: "map_of (attributes (putAttr t v a)) u = (if u = t then Some v else map_of (attributes a) u)"
  proof (cases "t \<in> fst ` set (attributes a)")
    case True
    then show ?thesis using assms by (simp add: putAttr_def attrs_ok_hasAttribute map_of_overwrite)
  next
    case False
    then have "map_of (attributes a) t = None" by (simp add: map_of_eq_None_iff)
    then show ?thesis using False by (simp add: putAttr_def map_add_def split: option.splits)
  qed
  have h: "hasAttribute u (putAttr t v a) \<longleftrightarrow> u = t \<or> hasAttribute u a"
    using attrs_ok_hasAttribute [OF attrs_ok_put [OF assms(1,2)] assms(3)] attrs_ok_hasAttribute [OF assms(1,3)]
    by (auto simp: putAttr_def) (metis fst_overwrite image_set imageI fst_conv)+
  show ?thesis unfolding getExistingAttr_def m h by simp
qed

lemma swap_last_erase:
  assumes "distinct (map fst as)" and "t \<in> fst ` set as"
    and "i = length (takeWhile (\<lambda>e. fst e \<noteq> t) as)"
  shows "i < length as \<and> distinct (map fst (butlast (as[i := last as])))
     \<and> set (butlast (as[i := last as])) = {e \<in> set as. fst e \<noteq> t}"
proof -
  let ?x = "(t, the (map_of as t))"
  have x: "e \<in> set as \<Longrightarrow> fst e = t \<longleftrightarrow> e = ?x" for e
    using assms(1,2) by (cases e) (auto simp: image_iff)
  have mem: "?x \<in> set as" using assms(2) x by (metis imageE)
  have d: "distinct as" using assms(1) by (simp add: distinct_map)
  have "takeWhile (\<lambda>e. fst e \<noteq> t) as = takeWhile ((\<noteq>) ?x) as"
    by (rule takeWhile_cong) (use x in auto)
  then have eq: "butlast (as[i := last as]) = swap_pop as ?x" and i: "i < length as"
    using mem assms(3) length_takeWhile_neq [OF mem] by (simp_all add: swap_pop_def Let_def)
  have st: "set (swap_pop as ?x) = set as - {?x}" using d by (rule set_swap_pop)
  have "distinct (map fst (swap_pop as ?x))"
    using distinct_swap_pop [OF d] assms(1) st by (auto simp: distinct_map intro: inj_on_subset)
  then show ?thesis using i st x by (auto simp: eq)
qed

lemma attrs_ok_remove:
  assumes "attrs_ok a" and "single_bit t"
  shows "attrs_ok (removeAttribute t a)"
proof (cases "hasAttribute t a")
  case True
  let ?i = "length (takeWhile (\<lambda>e. fst e \<noteq> t) (attributes a))"
  have mem: "t \<in> fst ` set (attributes a)" using True assms by (simp add: attrs_ok_hasAttribute)
  note e = swap_last_erase [OF _ mem refl]
  have "distinct (map fst (attributes a))" using assms(1) by (simp add: attrs_ok_def)
  note e = e [OF this]
  then show ?thesis using True assms(1)
    by (auto simp: attrs_ok_def removeAttribute_def Let_def hasAttribute_def single_bit_and_not assms(2))
next
  case False
  then show ?thesis using assms(1) by (simp add: removeAttribute_def)
qed

lemma getExistingAttr_remove:
  assumes "attrs_ok a" and "single_bit t" and "single_bit u"
  shows "getExistingAttr u (removeAttribute t a) = (if u = t then None else getExistingAttr u a)"
proof (cases "hasAttribute t a")
  case True
  have mem: "t \<in> fst ` set (attributes a)" using True assms by (simp add: attrs_ok_hasAttribute)
  have d: "distinct (map fst (attributes a))" using assms(1) by (simp add: attrs_ok_def)
  let ?r = "attributes (removeAttribute t a)"
  have r: "distinct (map fst ?r)" "set ?r = {e \<in> set (attributes a). fst e \<noteq> t}"
    using swap_last_erase [OF d mem refl] True by (auto simp: removeAttribute_def Let_def)
  have m: "map_of ?r u = (if u = t then None else map_of (attributes a) u)"
  proof (cases "map_of ?r u")
    case None
    then have "u \<notin> fst ` set ?r" by (simp add: map_of_eq_None_iff)
    then have "u = t \<or> u \<notin> fst ` set (attributes a)" using r(2) by auto
    then show ?thesis using None by (metis map_of_eq_None_iff)
  next
    case (Some v)
    then have "(u, v) \<in> set (attributes a)" "u \<noteq> t" using r(2) map_of_SomeD by fastforce+
    then show ?thesis using Some d by simp
  qed
  have h: "hasAttribute u (removeAttribute t a) \<longleftrightarrow> hasAttribute u a \<and> u \<noteq> t"
    using True single_bit_and_not [OF assms(3,2)] by (simp add: removeAttribute_def hasAttribute_def)
  show ?thesis unfolding getExistingAttr_def m h by simp
next
  case False
  then show ?thesis by (auto simp: removeAttribute_def getExistingAttr_def)
qed

section \<open>Item types\<close>

datatype item_group = ITEM_GROUP_NONE | ITEM_GROUP_GROUND | ITEM_GROUP_CONTAINER | ITEM_GROUP_WEAPON
  | ITEM_GROUP_AMMUNITION | ITEM_GROUP_ARMOR | ITEM_GROUP_CHARGES | ITEM_GROUP_TELEPORT
  | ITEM_GROUP_MAGICFIELD | ITEM_GROUP_WRITEABLE | ITEM_GROUP_KEY | ITEM_GROUP_SPLASH
  | ITEM_GROUP_FLUID | ITEM_GROUP_DOOR | ITEM_GROUP_DEPRECATED

datatype item_type_kind = ITEM_TYPE_NONE | ITEM_TYPE_DEPOT | ITEM_TYPE_MAILBOX | ITEM_TYPE_TRASHHOLDER
  | ITEM_TYPE_CONTAINER | ITEM_TYPE_DOOR | ITEM_TYPE_MAGICFIELD | ITEM_TYPE_TELEPORT | ITEM_TYPE_BED
  | ITEM_TYPE_KEY | ITEM_TYPE_RUNE | ITEM_TYPE_SUPPLY | ITEM_TYPE_REWARDCHEST | ITEM_TYPE_CARPET

datatype weapon_kind = WEAPON_NONE | WEAPON_AMMO | WEAPON_QUIVER | WEAPON_OTHER

text \<open>
  The fields of \<open>ItemType\<close> that the modelled operations read. \<open>ty_fieldDamage\<close> is the total damage of the
  condition of a magic field, zero where there is none.
\<close>

record item_type =
  ty_group :: item_group
  ty_type :: item_type_kind
  ty_weaponType :: weapon_kind
  ty_id :: u16
  ty_stackable :: bool
  ty_weight :: u32
  ty_charges :: u32
  ty_decayTime :: u32
  ty_decayTo :: int
  ty_maxItems :: u16
  ty_floorChange :: u8
  ty_alwaysOnTopOrder :: u8
  ty_hasHeight :: bool
  ty_blockSolid :: bool
  ty_blockProjectile :: bool
  ty_blockPathFind :: bool
  ty_allowPickupable :: bool
  ty_pickupable :: bool
  ty_replaceable :: bool
  ty_wrapable :: bool
  ty_wrapableTo :: int
  ty_moveable :: bool
  ty_alwaysOnTop :: bool
  ty_isVertical :: bool
  ty_isHorizontal :: bool
  ty_isHangable :: bool
  ty_lookThrough :: bool
  ty_stopTime :: bool
  ty_walkStack :: bool
  ty_combatType :: u16
  ty_fieldDamage :: int
  ty_magicEffect :: u8

text \<open>A default-constructed \<open>ItemType\<close>.\<close>

definition default_type :: "u16 \<Rightarrow> item_type" where
  "default_type i = \<lparr>ty_group = ITEM_GROUP_NONE, ty_type = ITEM_TYPE_NONE, ty_weaponType = WEAPON_NONE,
     ty_id = i, ty_stackable = False, ty_weight = 0, ty_charges = 0, ty_decayTime = 0, ty_decayTo = -1,
     ty_maxItems = 8, ty_floorChange = 0, ty_alwaysOnTopOrder = 0, ty_hasHeight = False,
     ty_blockSolid = False, ty_blockProjectile = False, ty_blockPathFind = False,
     ty_allowPickupable = False, ty_pickupable = False, ty_replaceable = True, ty_wrapable = False,
     ty_wrapableTo = 0, ty_moveable = False, ty_alwaysOnTop = False, ty_isVertical = False,
     ty_isHorizontal = False, ty_isHangable = False, ty_lookThrough = False, ty_stopTime = False,
     ty_walkStack = True, ty_combatType = 0, ty_fieldDamage = 0, ty_magicEffect = 0\<rparr>"

definition isGroundTile :: "item_type \<Rightarrow> bool" where "isGroundTile t \<longleftrightarrow> ty_group t = ITEM_GROUP_GROUND"
definition isSplash :: "item_type \<Rightarrow> bool" where "isSplash t \<longleftrightarrow> ty_group t = ITEM_GROUP_SPLASH"
definition isFluidContainer :: "item_type \<Rightarrow> bool" where "isFluidContainer t \<longleftrightarrow> ty_group t = ITEM_GROUP_FLUID"
definition isMagicField :: "item_type \<Rightarrow> bool" where "isMagicField t \<longleftrightarrow> ty_type t = ITEM_TYPE_MAGICFIELD"
definition isBed :: "item_type \<Rightarrow> bool" where "isBed t \<longleftrightarrow> ty_type t = ITEM_TYPE_BED"
definition isDoor :: "item_type \<Rightarrow> bool" where "isDoor t \<longleftrightarrow> ty_type t = ITEM_TYPE_DOOR"
definition hasSubType :: "item_type \<Rightarrow> bool" where
  "hasSubType t \<longleftrightarrow> isFluidContainer t \<or> isSplash t \<or> ty_stackable t \<or> ty_charges t \<noteq> 0"

section \<open>Items\<close>

text \<open>
  The parent of a thing is a cylinder: an item such as a container, a tile, a creature or the virtual
  cylinder of the code. The dynamic class of an item is fixed by \<open>CreateItem\<close>.
\<close>

datatype cylinder = CItem nat | CTile nat | CCreature nat | CVirtual

datatype item_class = Class_Item | Class_Container | Class_Teleport | Class_MagicField | Class_Mailbox
  | Class_TrashHolder | Class_Bed | Class_Door | Class_DepotLocker

record container =
  maxSize :: u32
  totalWeight :: u32
  itemlist :: "nat list"
  unlocked :: bool
  pagination :: bool
  is_inbox :: bool

record item =
  it_id :: u16
  it_count :: u8
  it_attrs :: item_attrs
  it_parent :: "cylinder option"
  it_loadedFromMap :: bool
  it_class :: item_class
  it_container :: "container option"

type_synonym item_table = "u16 \<Rightarrow> item_type"

definition type_of :: "item_table \<Rightarrow> item \<Rightarrow> item_type" where "type_of T i = T (it_id i)"

definition getBaseWeight :: "item_table \<Rightarrow> item \<Rightarrow> u32" where
  "getBaseWeight T i =
     (if hasAttribute ITEM_ATTRIBUTE_WEIGHT (it_attrs i)
      then of_int (getIntAttr ITEM_ATTRIBUTE_WEIGHT (it_attrs i)) else ty_weight (type_of T i))"

definition getWeight :: "item_table \<Rightarrow> item \<Rightarrow> u32" where
  "getWeight T i =
     (let weight = getBaseWeight T i;
          own = (if ty_stackable (type_of T i) then weight * max 1 (ucast (it_count i)) else weight)
      in case it_container i of None \<Rightarrow> own | Some c \<Rightarrow> own + totalWeight c)"

definition isWrapable :: "item_table \<Rightarrow> item \<Rightarrow> bool" where
  "isWrapable T i \<longleftrightarrow> ty_wrapable (type_of T i) \<and> ty_wrapableTo (type_of T i) \<noteq> 0"

definition getSubType :: "item_table \<Rightarrow> item \<Rightarrow> u16" where
  "getSubType T i =
     (let t = type_of T i
      in if isFluidContainer t \<or> isSplash t then of_int (getIntAttr ITEM_ATTRIBUTE_FLUIDTYPE (it_attrs i))
         else if ty_stackable t then ucast (it_count i)
         else if ty_charges t \<noteq> 0 then of_int (getIntAttr ITEM_ATTRIBUTE_CHARGES (it_attrs i))
         else ucast (it_count i))"

definition setSubType :: "item_table \<Rightarrow> u16 \<Rightarrow> item \<Rightarrow> item" where
  "setSubType T n i =
     (let t = type_of T i
      in if isFluidContainer t \<or> isSplash t
         then i\<lparr>it_attrs := setIntAttr ITEM_ATTRIBUTE_FLUIDTYPE (uint n) (it_attrs i)\<rparr>
         else if ty_stackable t then i\<lparr>it_count := ucast n\<rparr>
         else if ty_charges t \<noteq> 0
         then i\<lparr>it_attrs := setIntAttr ITEM_ATTRIBUTE_CHARGES (uint n) (it_attrs i)\<rparr>
         else i\<lparr>it_count := ucast n\<rparr>)"

text \<open>\<open>countByType\<close> takes the subtype as a signed 32-bit value, \<open>-1\<close> meaning any.\<close>

definition countByType :: "item_table \<Rightarrow> item \<Rightarrow> int \<Rightarrow> u32" where
  "countByType T i subType =
     (if subType = -1 \<or> subType = uint (getSubType T i) then ucast (it_count i) else 0)"

text \<open>\<open>setID\<close>: the decay attributes follow the new type.\<close>

abbreviation (input) "DECAYING_FALSE \<equiv> (0 :: int)"
abbreviation (input) "DECAYING_PENDING \<equiv> (2 :: int)"
abbreviation (input) "DECAYING_STOPPING \<equiv> (3 :: int)"

definition setDecaying :: "int \<Rightarrow> item_attrs \<Rightarrow> item_attrs" where
  "setDecaying decayState a =
     (let a = setIntAttr ITEM_ATTRIBUTE_DECAYSTATE decayState a
      in if decayState = DECAYING_FALSE then removeAttribute ITEM_ATTRIBUTE_DURATION_TIMESTAMP a else a)"

definition isRewardCorpse :: "item_attrs \<Rightarrow> bool" where
  "isRewardCorpse a \<longleftrightarrow> (of_int (getIntAttr ITEM_ATTRIBUTE_CORPSEOWNER a) :: u32) = 2147483647"

definition setID :: "item_table \<Rightarrow> u16 \<Rightarrow> item \<Rightarrow> item" where
  "setID T newid i =
     (let prevIt = type_of T i; t = T newid; newDuration = ty_decayTime t * 1000; a = it_attrs i;
          a = (if newDuration = 0 \<and> \<not> ty_stopTime t \<and> ty_decayTo t < 0
               then removeAttribute ITEM_ATTRIBUTE_DURATION
                      (if hasAttribute ITEM_ATTRIBUTE_DECAYSTATE a then setDecaying DECAYING_STOPPING a else a)
               else a);
          a = (if \<not> isRewardCorpse a then removeAttribute ITEM_ATTRIBUTE_CORPSEOWNER a else a);
          a = (if newDuration > 0 \<and> (\<not> ty_stopTime prevIt \<or> \<not> hasAttribute ITEM_ATTRIBUTE_DURATION a)
               then setIntAttr ITEM_ATTRIBUTE_DURATION (max 0 (sint newDuration)) (setDecaying DECAYING_PENDING a)
               else a)
      in i\<lparr>it_id := newid, it_attrs := a\<rparr>)"

text \<open>
  \<open>equals\<close>: the same type and the same attributes; entries of one type are compared by value.
\<close>

definition item_equals :: "item \<Rightarrow> item option \<Rightarrow> bool" where
  "item_equals i oo =
     (case oo of None \<Rightarrow> False
      | Some j \<Rightarrow>
          it_id i = it_id j
          \<and> (if attributeBits (it_attrs i) = 0 then attributeBits (it_attrs j) = 0
             else attributeBits (it_attrs i) = attributeBits (it_attrs j)
               \<and> list_all (\<lambda>(t, v). list_all (\<lambda>(u, w). t = u \<longrightarrow> v = w) (attributes (it_attrs j)))
                   (attributes (it_attrs i))))"

definition ITEM_GOLD_COIN :: u16 where "ITEM_GOLD_COIN = 2148"
definition ITEM_PLATINUM_COIN :: u16 where "ITEM_PLATINUM_COIN = 2152"
definition ITEM_CRYSTAL_COIN :: u16 where "ITEM_CRYSTAL_COIN = 2160"

definition getWorth :: "item \<Rightarrow> u32" where
  "getWorth i =
     (if it_id i = ITEM_GOLD_COIN then ucast (it_count i)
      else if it_id i = ITEM_PLATINUM_COIN then ucast (it_count i) * 100
      else if it_id i = ITEM_CRYSTAL_COIN then ucast (it_count i) * 10000
      else 0)"

text \<open>\<open>equals\<close> decides whether the types and the attribute maps agree.\<close>

lemma attr_bits_eq_iff:
  assumes "attrs_ok a" and "attrs_ok b"
  shows "attributeBits a = attributeBits b \<longleftrightarrow> fst ` set (attributes a) = fst ` set (attributes b)"
proof
  assume eq: "attributeBits a = attributeBits b"
  show "fst ` set (attributes a) = fst ` set (attributes b)"
    using assms eq unfolding attrs_ok_def hasAttribute_def by (metis subsetI subset_antisym)
next
  assume eq: "fst ` set (attributes a) = fst ` set (attributes b)"
  show "attributeBits a = attributeBits b"
  proof (rule bit_eqI)
    fix n
    assume "possible_bit TYPE(u32) n"
    then have "n < 32" by (simp add: possible_bit_word)
    then have sb: "single_bit (2 ^ n)" by (auto simp: single_bit_def push_bit_of_1)
    have "bit (attributeBits x) n \<longleftrightarrow> hasAttribute (2 ^ n) x" for x
      by (simp add: hasAttribute_def and_exp_eq_0_iff_not_bit and.commute)
    then show "bit (attributeBits a) n \<longleftrightarrow> bit (attributeBits b) n"
      using attrs_ok_hasAttribute [OF assms(1) sb] attrs_ok_hasAttribute [OF assms(2) sb] eq by simp
  qed
qed

lemma item_equals_iff:
  assumes a: "attrs_ok (it_attrs i)" and b: "attrs_ok (it_attrs j)"
  shows "item_equals i (Some j) \<longleftrightarrow>
     it_id i = it_id j \<and> map_of (attributes (it_attrs i)) = map_of (attributes (it_attrs j))"
proof -
  let ?A = "attributes (it_attrs i)" and ?B = "attributes (it_attrs j)"
  have dA: "distinct (map fst ?A)" and dB: "distinct (map fst ?B)" using a b by (simp_all add: attrs_ok_def)
  have zero: "attributeBits x = 0 \<longleftrightarrow> attributes x = []" if "attrs_ok x" for x
    using attr_bits_eq_iff [OF that attrs_ok_no_attrs] by (simp add: no_attrs_def)
  have "list_all (\<lambda>(t, v). list_all (\<lambda>(u, w). t = u \<longrightarrow> v = w) ?B) ?A \<and> fst ` set ?A = fst ` set ?B
     \<longleftrightarrow> map_of ?A = map_of ?B"
  proof
    assume "list_all (\<lambda>(t, v). list_all (\<lambda>(u, w). t = u \<longrightarrow> v = w) ?B) ?A \<and> fst ` set ?A = fst ` set ?B"
    then have vals: "(t, v) \<in> set ?A \<Longrightarrow> (t, w) \<in> set ?B \<Longrightarrow> v = w" and dom: "fst ` set ?A = fst ` set ?B" for t v w
      by (fastforce simp: list_all_iff)+
    show "map_of ?A = map_of ?B"
    proof
      fix t
      show "map_of ?A t = map_of ?B t"
      proof (cases "map_of ?A t")
        case None
        then have "t \<notin> fst ` set ?B" using dom by (metis map_of_eq_None_iff)
        then show ?thesis using None by (metis map_of_eq_None_iff)
      next
        case (Some v)
        then have v: "(t, v) \<in> set ?A" by (rule map_of_SomeD)
        then have "t \<in> fst ` set ?B" using dom by (metis fst_conv image_eqI)
        then obtain w where w: "(t, w) \<in> set ?B" by force
        then show ?thesis using Some vals [OF v w] dB by simp
      qed
    qed
  next
    assume eq: "map_of ?A = map_of ?B"
    have "(t, v) \<in> set ?A \<Longrightarrow> (t, w) \<in> set ?B \<Longrightarrow> v = w" for t v w
      using eq dA dB by (metis map_of_is_SomeI option.inject)
    moreover have "fst ` set ?A = fst ` set ?B"
      using eq by (metis dom_map_of_conv_image_fst)
    ultimately show "list_all (\<lambda>(t, v). list_all (\<lambda>(u, w). t = u \<longrightarrow> v = w) ?B) ?A \<and> fst ` set ?A = fst ` set ?B"
      by (fastforce simp: list_all_iff)
  qed
  then show ?thesis
    using attr_bits_eq_iff [OF a b] zero [OF a] zero [OF b]
    by (auto simp: item_equals_def map_of_eq_empty_iff)
qed

end
