(* ===== verification/Container.thy ===== *)
theory Container
  imports Items
begin

text \<open>
  Containers: \<open>src/src/items/containers/container.h\<close> and \<open>container.cpp\<close> with the chain of parents of
  \<open>item.cpp\<close>. The world is the heap of items together with the tiles that creatures stand on;
  notifications are collected as events. A loop that climbs the parents does not end when the
  parents form a cycle, so it is a partial function, and the invariant shows that it ends.
  The classes derived from \<open>Container\<close> (depot, inbox, rewards) are represented by the fields they set.
\<close>

section \<open>State\<close>

datatype return_value = RV_NOERROR | RV_NOTPOSSIBLE | RV_NOTENOUGHROOM | RV_NOTMOVEABLE
  | RV_NEEDEXCHANGE | RV_CONTAINERNOTENOUGHROOM | RV_ONLYAMMOINQUIVER | RV_NOTENOUGHCAPACITY
  | RV_CANNOTPICKUP | RV_THISISIMPOSSIBLE | RV_PLAYERISPZLOCKED | RV_PLAYERISPZLOCKEDENTERPVPZONE
  | RV_PLAYERISPZLOCKEDLEAVEPVPZONE | RV_PLAYERISNOTINVITED | RV_CANNOTTHROW | RV_OTHER nat

datatype item_event =
    AddContainerItem nat nat              \<comment> \<open>container, item\<close>
  | UpdateContainerItem nat nat nat nat   \<comment> \<open>container, index, old item, new item\<close>
  | RemoveContainerItem nat nat nat       \<comment> \<open>container, index, item\<close>

record item_world =
  heap :: "nat \<Rightarrow> item"
  tile_of :: "nat \<Rightarrow> nat option"
  item_events :: "item_event list"

abbreviation (input) "FLAG_NOLIMIT \<equiv> (1 :: u32)"
abbreviation (input) "FLAG_IGNOREBLOCKITEM \<equiv> (2 :: u32)"
abbreviation (input) "FLAG_IGNOREBLOCKCREATURE \<equiv> (4 :: u32)"
abbreviation (input) "FLAG_CHILDISOWNER \<equiv> (8 :: u32)"
abbreviation (input) "FLAG_PATHFINDING \<equiv> (16 :: u32)"
abbreviation (input) "FLAG_IGNOREFIELDDAMAGE \<equiv> (32 :: u32)"
abbreviation (input) "FLAG_IGNORENOTMOVEABLE \<equiv> (64 :: u32)"
abbreviation (input) "FLAG_IGNOREAUTOSTACK \<equiv> (128 :: u32)"

definition hasBitSet :: "u32 \<Rightarrow> u32 \<Rightarrow> bool" where
  "hasBitSet flag flags \<longleftrightarrow> flags AND flag \<noteq> 0"

text \<open>The container a reference points to, and updates of one item or one container.\<close>

definition cont :: "item_world \<Rightarrow> nat \<Rightarrow> container option" where
  "cont w r = it_container (heap w r)"

definition upd_item :: "nat \<Rightarrow> (item \<Rightarrow> item) \<Rightarrow> item_world \<Rightarrow> item_world" where
  "upd_item r f w = w\<lparr>heap := (heap w)(r := f (heap w r))\<rparr>"

definition upd_cont :: "nat \<Rightarrow> (container \<Rightarrow> container) \<Rightarrow> item_world \<Rightarrow> item_world" where
  "upd_cont r f = upd_item r (\<lambda>i. i\<lparr>it_container := map_option f (it_container i)\<rparr>)"

definition setParent :: "cylinder option \<Rightarrow> nat \<Rightarrow> item_world \<Rightarrow> item_world" where
  "setParent p r = upd_item r (\<lambda>i. i\<lparr>it_parent := p\<rparr>)"

definition emit_item :: "item_event list \<Rightarrow> item_world \<Rightarrow> item_world" where
  "emit_item es w = w\<lparr>item_events := item_events w @ es\<rparr>"

definition weight :: "item_table \<Rightarrow> item_world \<Rightarrow> nat \<Rightarrow> u32" where
  "weight T w r = getWeight T (heap w r)"

section \<open>Parents\<close>

fun cyl_parent :: "item_world \<Rightarrow> cylinder \<Rightarrow> cylinder option" where
  "cyl_parent w (CItem r) = it_parent (heap w r)"
| "cyl_parent w (CTile t) = None"
| "cyl_parent w (CCreature c) = map_option CTile (tile_of w c)"
| "cyl_parent w CVirtual = None"

fun as_container :: "item_world \<Rightarrow> cylinder \<Rightarrow> nat option" where
  "as_container w (CItem r) = (if cont w r \<noteq> None then Some r else None)"
| "as_container w c = None"

definition getParentContainer :: "item_world \<Rightarrow> nat \<Rightarrow> nat option" where
  "getParentContainer w r = (case it_parent (heap w r) of None \<Rightarrow> None | Some p \<Rightarrow> as_container w p)"

text \<open>\<open>Item::getTopParent\<close>: the cylinder below the outermost one.\<close>

partial_function (option) top_parent_loop ::
    "item_world \<Rightarrow> cylinder option \<Rightarrow> cylinder \<Rightarrow> cylinder option" where
  "top_parent_loop w prev aux =
     (case cyl_parent w aux of
        Some a \<Rightarrow> top_parent_loop w (Some aux) a
      | None \<Rightarrow> Some (case prev of Some p \<Rightarrow> p | None \<Rightarrow> aux))"

definition self_cylinder :: "item_world \<Rightarrow> nat \<Rightarrow> cylinder option" where
  "self_cylinder w r = (if cont w r \<noteq> None then Some (CItem r) else None)"

definition getTopParent :: "item_world \<Rightarrow> nat \<Rightarrow> cylinder option option" where
  "getTopParent w r =
     (case it_parent (heap w r) of
        None \<Rightarrow> Some (self_cylinder w r)
      | Some aux \<Rightarrow> map_option Some (top_parent_loop w (self_cylinder w r) aux))"

text \<open>\<open>Container::getTopParentContainer\<close>: the loop keeps the cylinder before the one it stands on.\<close>

partial_function (option) top_container_loop ::
    "item_world \<Rightarrow> cylinder \<Rightarrow> cylinder \<Rightarrow> cylinder option" where
  "top_container_loop w prevThing thing =
     (case cyl_parent w thing of
        None \<Rightarrow> Some prevThing
      | Some p \<Rightarrow> if as_container w p \<noteq> None then top_container_loop w thing p else Some prevThing)"

definition getTopParentContainer :: "item_world \<Rightarrow> nat \<Rightarrow> nat option option" where
  "getTopParentContainer w r =
     (case it_parent (heap w r) of
        None \<Rightarrow> Some (as_container w (CItem r))
      | Some thing \<Rightarrow> map_option (as_container w) (top_container_loop w (CItem r) thing))"

text \<open>\<open>updateItemWeight\<close>: the difference is added to the container and to every container around it.\<close>

definition add_weight :: "u32 \<Rightarrow> nat \<Rightarrow> item_world \<Rightarrow> item_world" where
  "add_weight diff r = upd_cont r (\<lambda>c. c\<lparr>totalWeight := totalWeight c + diff\<rparr>)"

partial_function (option) weight_loop :: "u32 \<Rightarrow> nat \<Rightarrow> item_world \<Rightarrow> item_world option" where
  "weight_loop diff r w =
     (case getParentContainer w r of
        None \<Rightarrow> Some w
      | Some p \<Rightarrow> weight_loop diff p (add_weight diff p w))"

definition updateItemWeight :: "u32 \<Rightarrow> nat \<Rightarrow> item_world \<Rightarrow> item_world option" where
  "updateItemWeight diff r w = weight_loop diff r (add_weight diff r w)"

section \<open>The iterator\<close>

text \<open>
  \<open>ContainerIterator\<close>: a queue of containers and a position in the first one. \<open>iterate\<close> runs it to
  the end and collects the items it stands on.
\<close>

record container_iterator =
  over :: "nat list"
  cur :: nat

definition items_in :: "item_world \<Rightarrow> nat \<Rightarrow> nat list" where
  "items_in w r = (case cont w r of None \<Rightarrow> [] | Some c \<Rightarrow> itemlist c)"

definition iterator :: "item_world \<Rightarrow> nat \<Rightarrow> container_iterator" where
  "iterator w r = (if items_in w r \<noteq> [] then \<lparr>over = [r], cur = 0\<rparr> else \<lparr>over = [], cur = 0\<rparr>)"

definition hasNext :: "container_iterator \<Rightarrow> bool" where
  "hasNext it \<longleftrightarrow> over it \<noteq> []"

definition deref :: "item_world \<Rightarrow> container_iterator \<Rightarrow> nat" where
  "deref w it = items_in w (hd (over it)) ! cur it"

definition advance_iter :: "item_world \<Rightarrow> container_iterator \<Rightarrow> container_iterator" where
  "advance_iter w it =
     (let i = deref w it;
          it = (if items_in w i \<noteq> [] then it\<lparr>over := over it @ [i]\<rparr> else it);
          it = it\<lparr>cur := cur it + 1\<rparr>
      in if cur it = length (items_in w (hd (over it)))
         then \<lparr>over = tl (over it), cur = 0\<rparr>
         else it)"

partial_function (option) iterate :: "item_world \<Rightarrow> container_iterator \<Rightarrow> nat list option" where
  "iterate w it =
     (if hasNext it
      then do { is \<leftarrow> iterate w (advance_iter w it); Some (deref w it # is) }
      else Some [])"

definition getItemHoldingCount :: "item_world \<Rightarrow> nat \<Rightarrow> u32 option" where
  "getItemHoldingCount w r = map_option (\<lambda>is. of_nat (length is)) (iterate w (iterator w r))"

definition getContainerHoldingCount :: "item_world \<Rightarrow> nat \<Rightarrow> u32 option" where
  "getContainerHoldingCount w r =
     map_option (\<lambda>is. of_nat (length (filter (\<lambda>i. cont w i \<noteq> None) is))) (iterate w (iterator w r))"

definition isHoldingItem :: "item_world \<Rightarrow> nat \<Rightarrow> nat \<Rightarrow> bool option" where
  "isHoldingItem w r i = map_option (\<lambda>is. i \<in> set is) (iterate w (iterator w r))"

text \<open>\<open>getFreeSlots\<close> and \<open>getStowableItems\<close> recurse through the contents. \<open>std::max<uint16_t>(0, n)\<close> is \<open>n\<close>.\<close>

definition own_slots :: "container \<Rightarrow> u16" where
  "own_slots c = ucast (maxSize c - of_nat (length (itemlist c)))"

partial_function (option) free_slots_loop :: "item_world \<Rightarrow> u16 \<Rightarrow> nat list \<Rightarrow> u16 option" where
  "free_slots_loop w counter is =
     (case is of
        [] \<Rightarrow> Some counter
      | i # is \<Rightarrow>
          (case cont w i of
             None \<Rightarrow> free_slots_loop w counter is
           | Some c \<Rightarrow> do { sub \<leftarrow> free_slots_loop w (own_slots c) (itemlist c);
                            free_slots_loop w (counter + sub) is }))"

definition getFreeSlots :: "item_world \<Rightarrow> nat \<Rightarrow> u16 option" where
  "getFreeSlots w r = (case cont w r of None \<Rightarrow> Some 0 | Some c \<Rightarrow> free_slots_loop w (own_slots c) (itemlist c))"

section \<open>Queries\<close>

text \<open>
  The environment: the item table, the limits of the configuration, and the answers of the
  cylinders that are not containers (tiles and players) to the queries a container passes on.
\<close>

record item_env =
  env_items :: item_table
  env_maxItem :: u32
  env_maxContainer :: u32
  env_queryAdd :: "item_world \<Rightarrow> cylinder \<Rightarrow> nat \<Rightarrow> u32 \<Rightarrow> u32 \<Rightarrow> return_value"
  env_houseQueryRemove :: "item_world \<Rightarrow> nat \<Rightarrow> nat \<Rightarrow> u32 \<Rightarrow> u32 \<Rightarrow> return_value option"

datatype thing = TItem nat | TCreature nat

fun thing_item :: "thing \<Rightarrow> nat option" where
  "thing_item (TItem i) = Some i"
| "thing_item (TCreature c) = None"

abbreviation (input) "INDEX_WHEREEVER \<equiv> (-1 :: int)"

definition getThingIndex :: "item_world \<Rightarrow> nat \<Rightarrow> thing \<Rightarrow> int" where
  "getThingIndex w r t =
     (case t of
        TItem i \<Rightarrow> if i \<in> set (items_in w r) then int (length (takeWhile ((\<noteq>) i) (items_in w r))) else -1
      | TCreature c \<Rightarrow> -1)"

definition getItemByIndex :: "item_world \<Rightarrow> nat \<Rightarrow> int \<Rightarrow> nat option" where
  "getItemByIndex w r index =
     (if 0 \<le> index \<and> nat index < length (items_in w r) then Some (items_in w r ! nat index) else None)"

text \<open>The loops over the cylinders around the container: a cycle is refused, and so is an inbox.\<close>

definition is_inbox_cylinder :: "item_world \<Rightarrow> cylinder \<Rightarrow> bool" where
  "is_inbox_cylinder w c = (case as_container w c of Some r \<Rightarrow> is_inbox (the (cont w r)) | None \<Rightarrow> False)"

partial_function (option) query_around ::
    "item_world \<Rightarrow> bool \<Rightarrow> nat \<Rightarrow> cylinder \<Rightarrow> return_value option" where
  "query_around w limited i c =
     (if c = CItem i then Some RV_THISISIMPOSSIBLE
      else if limited \<and> is_inbox_cylinder w c then Some RV_CONTAINERNOTENOUGHROOM
      else case cyl_parent w c of
             None \<Rightarrow> Some RV_NOERROR
           | Some p \<Rightarrow> query_around w limited i p)"

definition query_holding :: "item_env \<Rightarrow> item_world \<Rightarrow> nat \<Rightarrow> nat \<Rightarrow> return_value option" where
  "query_holding e w r i =
     do { topParent \<leftarrow> getTopParentContainer w r;
          case topParent of
            None \<Rightarrow> Some RV_NOERROR
          | Some tc \<Rightarrow> do {
              held \<leftarrow> getItemHoldingCount w tc;
              heldContainers \<leftarrow> getContainerHoldingCount w tc;
              refuse \<leftarrow>
                (if cont w i \<noteq> None
                 then do { addContainers \<leftarrow> getContainerHoldingCount w i;
                           addItems \<leftarrow> getItemHoldingCount w i;
                           Some (addContainers + 1 + heldContainers > env_maxContainer e
                               \<or> addItems + 1 + held > env_maxItem e) }
                 else Some False);
              Some (if refuse then RV_NOTPOSSIBLE
                    else if held + 1 > env_maxItem e then RV_NOTPOSSIBLE
                    else RV_NOERROR) } }"

definition queryAdd ::
    "item_env \<Rightarrow> item_world \<Rightarrow> nat \<Rightarrow> int \<Rightarrow> thing \<Rightarrow> u32 \<Rightarrow> u32 \<Rightarrow> return_value option" where
  "queryAdd e w r addIndex thing addCount flags =
     (case cont w r of None \<Rightarrow> None | Some c \<Rightarrow>
        if hasBitSet FLAG_CHILDISOWNER flags then Some RV_NOERROR
        else if \<not> unlocked c then Some RV_NOTPOSSIBLE
        else (case thing_item thing of
          None \<Rightarrow> Some RV_NOTPOSSIBLE
        | Some i \<Rightarrow>
            if \<not> ty_pickupable (type_of (env_items e) (heap w i)) then Some RV_CANNOTPICKUP
            else if i = r then Some RV_THISISIMPOSSIBLE
            else do {
              around \<leftarrow> (case it_parent (heap w r) of
                           None \<Rightarrow> Some RV_NOERROR
                         | Some p \<Rightarrow> query_around w (\<not> hasBitSet FLAG_NOLIMIT flags) i p);
              if around \<noteq> RV_NOERROR then Some around
              else if \<not> hasBitSet FLAG_NOLIMIT flags \<and> addIndex = INDEX_WHEREEVER
                      \<and> length (itemlist c) \<ge> unat (maxSize c) \<and> \<not> pagination c
              then Some RV_CONTAINERNOTENOUGHROOM
              else do {
                holding \<leftarrow> query_holding e w r i;
                if holding \<noteq> RV_NOERROR then Some holding
                else if ty_weaponType (type_of (env_items e) (heap w r)) = WEAPON_QUIVER
                        \<and> ty_weaponType (type_of (env_items e) (heap w i)) \<noteq> WEAPON_AMMO
                then Some RV_ONLYAMMOINQUIVER
                else do {
                  topParent \<leftarrow> getTopParent w r;
                  (case topParent of
                     None \<Rightarrow> None
                   | Some (CItem t) \<Rightarrow> Some RV_NOERROR
                   | Some t \<Rightarrow> Some (env_queryAdd e w t i addCount (flags OR FLAG_CHILDISOWNER))) } } }))"

definition freeSlots :: "container \<Rightarrow> int" where
  "freeSlots c = max (sint (maxSize c - of_nat (length (itemlist c)))) 0"

definition count_of :: "item_world \<Rightarrow> nat \<Rightarrow> nat" where
  "count_of w i = unat (it_count (heap w i))"

text \<open>The free places on stacks of the same item, as far as the container would accept them.\<close>

fun stack_room ::
    "item_env \<Rightarrow> item_world \<Rightarrow> nat \<Rightarrow> nat \<Rightarrow> u32 \<Rightarrow> int \<Rightarrow> nat list \<Rightarrow> u32 \<Rightarrow> u32 option" where
  "stack_room e w r i flags slotIndex [] n = Some n"
| "stack_room e w r i flags slotIndex (j # js) n =
     (if j \<noteq> i \<and> item_equals (heap w j) (Some (heap w i)) \<and> count_of w j < 100
      then let remainder = 100 - of_nat (count_of w j)
           in do { ret \<leftarrow> queryAdd e w r slotIndex (TItem i) remainder flags;
                   stack_room e w r i flags (slotIndex + 1) js (if ret = RV_NOERROR then n + remainder else n) }
      else stack_room e w r i flags slotIndex js n)"

definition stack_space :: "item_env \<Rightarrow> item_world \<Rightarrow> nat \<Rightarrow> nat \<Rightarrow> int \<Rightarrow> u32 \<Rightarrow> u32 option" where
  "stack_space e w r i index flags =
     (if index = INDEX_WHEREEVER then stack_room e w r i flags 0 (items_in w r) 0
      else case getItemByIndex w r index of
             None \<Rightarrow> Some 0
           | Some d \<Rightarrow> Some (if item_equals (heap w i) (Some (heap w d)) \<and> count_of w d < 100
                            then 100 - of_nat (count_of w d) else 0))"

definition queryMaxCount ::
    "item_env \<Rightarrow> item_world \<Rightarrow> nat \<Rightarrow> int \<Rightarrow> thing \<Rightarrow> u32 \<Rightarrow> u32 \<Rightarrow> (return_value \<times> u32) option" where
  "queryMaxCount e w r index thing amount flags =
     (case (cont w r, thing_item thing) of
        (None, _) \<Rightarrow> None
      | (Some c, None) \<Rightarrow> Some (RV_NOTPOSSIBLE, 0)
      | (Some c, Some i) \<Rightarrow>
          if hasBitSet FLAG_NOLIMIT flags \<or> pagination c then Some (RV_NOERROR, max 1 amount)
          else let free = of_int (freeSlots c)
               in if ty_stackable (type_of (env_items e) (heap w i))
                  then map_option (\<lambda>n. let maxQueryCount = free * 100 + n
                                      in (if maxQueryCount < amount then RV_CONTAINERNOTENOUGHROOM else RV_NOERROR,
                                          maxQueryCount))
                         (stack_space e w r i index flags)
                  else Some (if free = 0 then RV_CONTAINERNOTENOUGHROOM else RV_NOERROR, free))"

definition queryRemove ::
    "item_env \<Rightarrow> item_world \<Rightarrow> nat \<Rightarrow> thing \<Rightarrow> u32 \<Rightarrow> u32 \<Rightarrow> return_value option" where
  "queryRemove e w r thing amount flags =
     (if getThingIndex w r thing = -1 then Some RV_NOTPOSSIBLE
      else (case thing_item thing of
        None \<Rightarrow> Some RV_NOTPOSSIBLE
      | Some i \<Rightarrow>
          if amount = 0 \<or> ty_stackable (type_of (env_items e) (heap w i)) \<and> unat amount > count_of w i
          then Some RV_NOTPOSSIBLE
          else if \<not> ty_moveable (type_of (env_items e) (heap w i)) \<and> \<not> hasBitSet FLAG_IGNORENOTMOVEABLE flags
          then Some RV_NOTMOVEABLE
          else do {
            topParent \<leftarrow> getTopParent w r;
            (case topParent of
               Some (CTile t) \<Rightarrow>
                 (case env_houseQueryRemove e w t i amount flags of None \<Rightarrow> Some RV_NOERROR | Some ret \<Rightarrow> Some ret)
             | _ \<Rightarrow> Some RV_NOERROR) }))"

text \<open>
  \<open>queryDestination\<close> returns the cylinder to add to, the index and the item in the way. An item
  that is a cylinder itself is entered.
\<close>

definition item_cylinder :: "item_world \<Rightarrow> nat option \<Rightarrow> cylinder option" where
  "item_cylinder w d =
     (case d of None \<Rightarrow> None
      | Some i \<Rightarrow> if it_class (heap w i) \<in> {Class_Container, Class_Teleport, Class_Mailbox,
                                             Class_TrashHolder, Class_DepotLocker}
                  then Some (CItem i) else None)"

fun find_stack :: "item_world \<Rightarrow> nat \<Rightarrow> nat \<Rightarrow> nat list \<Rightarrow> (nat \<times> nat) option" where
  "find_stack w i n [] = None"
| "find_stack w i n (j # js) =
     (if j \<noteq> i \<and> item_equals (heap w j) (Some (heap w i)) \<and> count_of w j < 100 then Some (j, n)
      else find_stack w i (n + 1) js)"

definition queryDestination ::
    "item_env \<Rightarrow> item_world \<Rightarrow> nat \<Rightarrow> int \<Rightarrow> thing \<Rightarrow> nat option \<Rightarrow> u32 \<Rightarrow> (cylinder \<times> int \<times> nat option) option" where
  "queryDestination e w r index thing destItem flags =
     (case cont w r of None \<Rightarrow> None | Some c \<Rightarrow>
        Some (if \<not> unlocked c then (CItem r, index, None)
              else if index = 254
              then (case getParentContainer w r of
                      Some p \<Rightarrow> (CItem p, INDEX_WHEREEVER, None)
                    | None \<Rightarrow> (CItem r, INDEX_WHEREEVER, None))
              else let (index, destItem) =
                         (if index = 255 then (INDEX_WHEREEVER, None)
                          else if index \<ge> sint (maxSize c) \<and> \<not> pagination c then (INDEX_WHEREEVER, None)
                          else (index, destItem))
                   in case thing_item thing of
                        None \<Rightarrow> (CItem r, index, destItem)
                      | Some i \<Rightarrow>
                          let destItem = (if index \<noteq> INDEX_WHEREEVER \<and> getItemByIndex w r index \<noteq> None
                                          then getItemByIndex w r index else destItem)
                          in case (if index \<noteq> INDEX_WHEREEVER then item_cylinder w destItem else None) of
                               Some sub \<Rightarrow> (sub, INDEX_WHEREEVER, None)
                             | None \<Rightarrow>
                                 if \<not> hasBitSet FLAG_IGNOREAUTOSTACK flags
                                    \<and> ty_stackable (type_of (env_items e) (heap w i))
                                    \<and> it_parent (heap w i) \<noteq> Some (CItem r)
                                 then (case destItem of
                                         Some d \<Rightarrow>
                                           if item_equals (heap w d) (Some (heap w i)) \<and> count_of w d < 100
                                           then (CItem r, index, Some d)
                                           else (case find_stack w i 0 (itemlist c) of
                                                   Some (j, n) \<Rightarrow> (CItem r, int n, Some j)
                                                 | None \<Rightarrow> (CItem r, index, Some d))
                                       | None \<Rightarrow>
                                           (case find_stack w i 0 (itemlist c) of
                                              Some (j, n) \<Rightarrow> (CItem r, int n, Some j)
                                            | None \<Rightarrow> (CItem r, index, None)))
                                 else (CItem r, index, destItem)))"

section \<open>Operations\<close>

definition observed :: "item_world \<Rightarrow> nat \<Rightarrow> bool" where
  "observed w r \<longleftrightarrow> it_parent (heap w r) \<noteq> None \<and> it_parent (heap w r) \<noteq> Some CVirtual"

definition push_front :: "nat \<Rightarrow> nat \<Rightarrow> item_world \<Rightarrow> item_world" where
  "push_front r i w = upd_cont r (\<lambda>c. c\<lparr>itemlist := i # itemlist c\<rparr>) (setParent (Some (CItem r)) i w)"

definition push_back :: "nat \<Rightarrow> nat \<Rightarrow> item_world \<Rightarrow> item_world" where
  "push_back r i w = setParent (Some (CItem r)) i (upd_cont r (\<lambda>c. c\<lparr>itemlist := itemlist c @ [i]\<rparr>) w)"

definition addThing :: "item_env \<Rightarrow> nat \<Rightarrow> int \<Rightarrow> thing \<Rightarrow> item_world \<Rightarrow> item_world option" where
  "addThing e r index thing w =
     (case cont w r of None \<Rightarrow> None | Some c \<Rightarrow>
        if index \<ge> sint (maxSize c) then Some w
        else case thing_item thing of
          None \<Rightarrow> Some w
        | Some i \<Rightarrow> do {
            w \<leftarrow> updateItemWeight (weight (env_items e) w i) r (push_front r i w);
            Some (if observed w r then emit_item [AddContainerItem r i] w else w) })"

definition addItemBack :: "item_env \<Rightarrow> nat \<Rightarrow> nat \<Rightarrow> item_world \<Rightarrow> item_world option" where
  "addItemBack e r i w =
     do { w \<leftarrow> updateItemWeight (weight (env_items e) w i) r (push_back r i w);
          Some (if observed w r then emit_item [AddContainerItem r i] w else w) }"

definition internalAddThing :: "item_env \<Rightarrow> nat \<Rightarrow> thing \<Rightarrow> item_world \<Rightarrow> item_world option" where
  "internalAddThing e r thing w =
     (case thing_item thing of
        None \<Rightarrow> Some w
      | Some i \<Rightarrow> updateItemWeight (weight (env_items e) w i) r (push_front r i w))"

definition updateThing :: "item_env \<Rightarrow> nat \<Rightarrow> thing \<Rightarrow> u16 \<Rightarrow> u32 \<Rightarrow> item_world \<Rightarrow> item_world option" where
  "updateThing e r thing itemId amount w =
     (let index = getThingIndex w r thing
      in if index = -1 then Some w
         else case thing_item thing of
           None \<Rightarrow> Some w
         | Some i \<Rightarrow>
             let oldWeight = weight (env_items e) w i;
                 w = upd_item i (setSubType (env_items e) (ucast amount) \<circ> setID (env_items e) itemId) w
             in do { w \<leftarrow> updateItemWeight (- oldWeight + weight (env_items e) w i) r w;
                     Some (if it_parent (heap w r) \<noteq> None
                           then emit_item [UpdateContainerItem r (nat index) i i] w else w) })"

definition replaceThing :: "item_env \<Rightarrow> nat \<Rightarrow> u32 \<Rightarrow> thing \<Rightarrow> item_world \<Rightarrow> item_world option" where
  "replaceThing e r index thing w =
     (case thing_item thing of
        None \<Rightarrow> Some w
      | Some i \<Rightarrow>
          (case getItemByIndex w r (uint index) of
             None \<Rightarrow> Some w
           | Some replaced \<Rightarrow> do {
               let w = setParent (Some (CItem r)) i (upd_cont r (\<lambda>c. c\<lparr>itemlist := (itemlist c)[unat index := i]\<rparr>) w);
               w \<leftarrow> updateItemWeight (- weight (env_items e) w replaced + weight (env_items e) w i) r w;
               let w = (if it_parent (heap w r) \<noteq> None
                        then emit_item [UpdateContainerItem r (unat index) replaced i] w else w);
               Some (setParent None replaced w) }))"

definition setItemCount :: "u8 \<Rightarrow> nat \<Rightarrow> item_world \<Rightarrow> item_world" where
  "setItemCount n i = upd_item i (\<lambda>x. x\<lparr>it_count := n\<rparr>)"

definition erase_index :: "nat \<Rightarrow> 'a list \<Rightarrow> 'a list" where
  "erase_index n xs = take n xs @ drop (n + 1) xs"

definition removeThing :: "item_env \<Rightarrow> nat \<Rightarrow> thing \<Rightarrow> u32 \<Rightarrow> item_world \<Rightarrow> item_world option" where
  "removeThing e r thing amount w =
     (case thing_item thing of
        None \<Rightarrow> Some w
      | Some i \<Rightarrow>
          let index = getThingIndex w r thing
          in if index = -1 then Some w
             else if ty_stackable (type_of (env_items e) (heap w i)) \<and> amount \<noteq> of_nat (count_of w i)
             then let newCount = of_int (max 0 (sint (of_nat (count_of w i) - amount)));
                      oldWeight = weight (env_items e) w i;
                      w = setItemCount newCount i w
                  in do { w \<leftarrow> updateItemWeight (- oldWeight + weight (env_items e) w i) r w;
                          Some (if it_parent (heap w r) \<noteq> None
                                then emit_item [UpdateContainerItem r (nat index) i i] w else w) }
             else do { w \<leftarrow> updateItemWeight (- weight (env_items e) w i) r w;
                       let w = (if it_parent (heap w r) \<noteq> None
                                then emit_item [RemoveContainerItem r (nat index) i] w else w);
                       Some (upd_cont r (\<lambda>c. c\<lparr>itemlist := erase_index (nat index) (itemlist c)\<rparr>)
                              (setParent None i w)) })"

definition getItemTypeCount :: "item_env \<Rightarrow> item_world \<Rightarrow> nat \<Rightarrow> u16 \<Rightarrow> int \<Rightarrow> u32" where
  "getItemTypeCount e w r itemId subType =
     (\<Sum>i \<leftarrow> items_in w r. if it_id (heap w i) = itemId then countByType (env_items e) (heap w i) subType else 0)"

section \<open>The invariant\<close>

text \<open>
  Contents and parents agree and no item is in two places; climbing the parents ends; and the
  weight a container caches is the weight of its contents.
\<close>

inductive rooted :: "item_world \<Rightarrow> cylinder \<Rightarrow> bool" for w where
  rootedI: "(\<And>p. cyl_parent w c = Some p \<Longrightarrow> rooted w p) \<Longrightarrow> rooted w c"

inductive around :: "item_world \<Rightarrow> cylinder \<Rightarrow> cylinder \<Rightarrow> bool" for w where
  around_refl: "around w c c"
| around_step: "cyl_parent w c = Some p \<Longrightarrow> around w p d \<Longrightarrow> around w c d"

inductive_cases around_cases: "around w c d"

definition linked :: "item_world \<Rightarrow> bool" where
  "linked w \<longleftrightarrow>
     (\<forall>r. distinct (items_in w r) \<and> (\<forall>i. i \<in> set (items_in w r) \<longleftrightarrow> it_parent (heap w i) = Some (CItem r)))"

definition defect :: "item_table \<Rightarrow> item_world \<Rightarrow> nat \<Rightarrow> u32 \<Rightarrow> bool" where
  "defect T w r d \<longleftrightarrow>
     (\<forall>x c. cont w x = Some c \<longrightarrow>
        (\<Sum>i \<leftarrow> itemlist c. weight T w i) = totalWeight c + (if x = r then d else 0))"

definition weights_ok :: "item_table \<Rightarrow> item_world \<Rightarrow> bool" where
  "weights_ok T w \<longleftrightarrow> (\<forall>x c. cont w x = Some c \<longrightarrow> (\<Sum>i \<leftarrow> itemlist c. weight T w i) = totalWeight c)"

definition forest_ok :: "item_table \<Rightarrow> item_world \<Rightarrow> bool" where
  "forest_ok T w \<longleftrightarrow> linked w \<and> (\<forall>c. rooted w c) \<and> weights_ok T w"

lemma rooted_CTile [simp]: "rooted w (CTile t)" "rooted w CVirtual" "rooted w (CCreature c)"
proof -
  show t: "rooted w (CTile t)" for t by (rule rootedI) simp
  show "rooted w CVirtual" by (rule rootedI) simp
  show "rooted w (CCreature c)" by (rule rootedI) (use t in auto)
qed

lemma around_trans: "around w c d \<Longrightarrow> around w d x \<Longrightarrow> around w c x"
  by (induction rule: around.induct) (auto intro: around.intros)

lemma around_unfold: "around w c d \<longleftrightarrow> c = d \<or> (\<exists>p. cyl_parent w c = Some p \<and> around w p d)"
  by (auto elim: around_cases intro: around.intros)

lemma rooted_not_around: "rooted w c \<Longrightarrow> cyl_parent w c = Some p \<Longrightarrow> \<not> around w p c"
proof (induction arbitrary: p rule: rooted.induct)
  case (rootedI c)
  show ?case
  proof
    assume "around w p c"
    then consider "p = c" | q where "cyl_parent w p = Some q" "around w q c"
      using around_unfold [of w p c] by blast
    then show False
    proof cases
      case 1
      then have "cyl_parent w c = Some c" using rootedI.prems by simp
      then show False using rootedI.IH [of c c] around_refl by blast
    next
      case 2
      have "around w q p" using 2(2) rootedI.prems by (metis around_trans around_step around_refl)
      then show False using rootedI.IH [OF rootedI.prems 2(1)] by blast
    qed
  qed
qed

text \<open>Worlds that differ in cached weights only.\<close>

definition forget :: "item \<Rightarrow> item" where
  "forget i = i\<lparr>it_container := map_option (\<lambda>c. c\<lparr>totalWeight := 0\<rparr>) (it_container i)\<rparr>"

definition same_shape :: "item_world \<Rightarrow> item_world \<Rightarrow> bool" where
  "same_shape w w' \<longleftrightarrow> (\<forall>r. forget (heap w' r) = forget (heap w r))
     \<and> tile_of w' = tile_of w \<and> item_events w' = item_events w"

lemma same_shape_refl [simp]: "same_shape w w"
  by (simp add: same_shape_def)

lemma same_shape_trans: "same_shape w w' \<Longrightarrow> same_shape w' w'' \<Longrightarrow> same_shape w w''"
  by (simp add: same_shape_def)

lemma forget_fields:
  assumes "forget i = forget j"
  shows "it_id i = it_id j" "it_count i = it_count j" "it_attrs i = it_attrs j" "it_parent i = it_parent j"
    "it_class i = it_class j" "it_loadedFromMap i = it_loadedFromMap j"
    "map_option (\<lambda>c. c\<lparr>totalWeight := 0\<rparr>) (it_container i) = map_option (\<lambda>c. c\<lparr>totalWeight := 0\<rparr>) (it_container j)"
  using assms by (cases i; cases j; simp add: forget_def)+

lemma forget_cont:
  assumes "map_option (\<lambda>c. c\<lparr>totalWeight := 0\<rparr>) a = map_option (\<lambda>c. c\<lparr>totalWeight := 0 :: u32\<rparr>) b"
  shows "map_option itemlist a = map_option itemlist b" "a = None \<longleftrightarrow> b = None"
    "map_option maxSize a = map_option maxSize b" "map_option pagination a = map_option pagination b"
    "map_option unlocked a = map_option unlocked b" "map_option is_inbox a = map_option is_inbox b"
proof -
  show "a = None \<longleftrightarrow> b = None" using assms by (cases a; cases b) auto
  have *: "map_option f a = map_option f b" if "\<And>c. f (c\<lparr>totalWeight := 0\<rparr>) = f c" for f
    using arg_cong [OF assms, of "map_option f"] that by (simp add: option.map_comp comp_def)
  show "map_option itemlist a = map_option itemlist b" by (rule *) simp
  show "map_option maxSize a = map_option maxSize b" by (rule *) simp
  show "map_option pagination a = map_option pagination b" by (rule *) simp
  show "map_option unlocked a = map_option unlocked b" by (rule *) simp
  show "map_option is_inbox a = map_option is_inbox b" by (rule *) simp
qed

lemma items_in_map: "items_in w r = (case map_option itemlist (cont w r) of None \<Rightarrow> [] | Some is \<Rightarrow> is)"
  by (simp add: items_in_def split: option.splits)

lemma same_shapeD:
  assumes "same_shape w w'"
  shows "it_parent (heap w' r) = it_parent (heap w r)" "cont w' r = None \<longleftrightarrow> cont w r = None"
    "items_in w' r = items_in w r" "cyl_parent w' c = cyl_parent w c"
proof -
  have f: "forget (heap w' r) = forget (heap w r)" for r using assms by (simp add: same_shape_def)
  show p: "it_parent (heap w' r) = it_parent (heap w r)" for r using forget_fields(4) [OF f] .
  show "cont w' r = None \<longleftrightarrow> cont w r = None"
    using forget_cont(2) [OF forget_fields(7) [OF f]] by (simp add: cont_def)
  show "items_in w' r = items_in w r"
    using forget_cont(1) [OF forget_fields(7) [OF f]] by (simp add: items_in_map cont_def)
  show "cyl_parent w' c = cyl_parent w c"
    using assms p by (cases c) (simp_all add: same_shape_def)
qed

lemma same_shape_around: "same_shape w w' \<Longrightarrow> around w' c d \<longleftrightarrow> around w c d"
proof -
  assume s: "same_shape w w'"
  have "around w' c d \<Longrightarrow> around w c d" for c d
    by (induction rule: around.induct) (auto intro: around.intros simp: same_shapeD(4) [OF s])
  moreover have "around w c d \<Longrightarrow> around w' c d" for c d
    by (induction rule: around.induct) (auto intro: around.intros simp: same_shapeD(4) [OF s])
  ultimately show ?thesis by blast
qed

lemma same_shape_rooted: "rooted w c \<Longrightarrow> same_shape w w' \<Longrightarrow> rooted w' c"
  by (induction rule: rooted.induct) (auto intro: rooted.intros simp: same_shapeD(4))

lemma same_shape_linked: "same_shape w w' \<Longrightarrow> linked w' = linked w"
  by (simp add: linked_def same_shapeD)

section \<open>Weights\<close>

lemma sum_list_upd_distinct:
  fixes f g :: "'a \<Rightarrow> 'b :: comm_monoid_add"
  assumes "distinct xs" and "\<And>x. g x = f x + (if x = p then d else 0)"
  shows "(\<Sum>x\<leftarrow>xs. g x) = (\<Sum>x\<leftarrow>xs. f x) + (if p \<in> set xs then d else 0)"
  using assms(1)
proof (induction xs)
  case (Cons a xs)
  then show ?case by (auto simp: assms(2) ac_simps)
qed simp

lemma add_weight_shape: "same_shape w (add_weight d r w)"
proof -
  have "forget (i\<lparr>it_container := map_option (\<lambda>c. c\<lparr>totalWeight := totalWeight c + d\<rparr>) (it_container i)\<rparr>) = forget i" for i
    by (simp add: forget_def option.map_comp comp_def)
  then show ?thesis by (simp add: same_shape_def add_weight_def upd_cont_def upd_item_def)
qed

lemma cont_add_weight:
  "cont (add_weight d r w) x =
     (if x = r then map_option (\<lambda>c. c\<lparr>totalWeight := totalWeight c + d\<rparr>) (cont w r) else cont w x)"
  by (simp add: cont_def add_weight_def upd_cont_def upd_item_def)

lemma weight_add_weight:
  "weight T (add_weight d r w) x = weight T w x + (if x = r then (if cont w r = None then 0 else d) else 0)"
  by (auto simp: weight_def getWeight_def add_weight_def upd_cont_def upd_item_def cont_def type_of_def
      getBaseWeight_def Let_def split: option.splits)

lemma updateItemWeight_unfold:
  "updateItemWeight d r w =
     (case getParentContainer w r of
        None \<Rightarrow> Some (add_weight d r w)
      | Some p \<Rightarrow> updateItemWeight d p (add_weight d r w))"
proof -
  have "getParentContainer (add_weight d r w) r = getParentContainer w r"
  proof -
    have "as_container (add_weight d r w) q = as_container w q" for q
      by (cases q) (simp_all add: same_shapeD(2) [OF add_weight_shape])
    then show ?thesis
      by (simp add: getParentContainer_def same_shapeD(1) [OF add_weight_shape] split: option.split)
  qed
  then show ?thesis unfolding updateItemWeight_def by (subst weight_loop.simps) simp
qed

lemma items_in_cont: "cont w r = Some c \<Longrightarrow> items_in w r = itemlist c"
  by (simp add: items_in_def)

text \<open>A surplus of \<open>d\<close> in one container is what the loop adds, to it and to all around it.\<close>

lemma updateItemWeight_from_shape:
  assumes "rooted w0 (CItem r)" and "same_shape w0 w" and "linked w" and "cont w r \<noteq> None" and "defect T w r d"
  shows "\<exists>w'. updateItemWeight d r w = Some w' \<and> weights_ok T w' \<and> same_shape w w'"
  using assms
proof (induction "CItem r" arbitrary: r w rule: rooted.induct)
  case (rootedI r w)
  let ?w = "add_weight d r w"
  have shape: "same_shape w ?w" by (rule add_weight_shape)
  have shape0: "same_shape w0 ?w" using rootedI.prems(1) shape by (rule same_shape_trans)
  have rooted: "rooted w (CItem r)"
    by (rule same_shape_rooted [OF rooted.intros rootedI.prems(1)]) (use rootedI.hyps(1) in auto)
  have lists: "itemlist c = items_in w x" if "cont ?w x = Some c" for x c
    using items_in_cont [OF that] same_shapeD(3) [OF shape] by simp
  have own: "\<not> r \<in> set (items_in w r)"
  proof
    assume "r \<in> set (items_in w r)"
    then have "cyl_parent w (CItem r) = Some (CItem r)" using rootedI.prems(2) by (simp add: linked_def)
    then show False using rooted_not_around [OF rooted] around_refl by blast
  qed
  have sums: "(\<Sum>i \<leftarrow> itemlist c. weight T ?w i) = totalWeight c + (if r \<in> set (items_in w x) then d else 0)"
    if c: "cont ?w x = Some c" for x c
  proof -
    obtain c0 where c0: "cont w x = Some c0" using c shape by (metis same_shapeD(2) not_Some_eq)
    have d0: "totalWeight c = totalWeight c0 + (if x = r then d else 0)"
      using c c0 by (auto simp: cont_add_weight)
    have "(\<Sum>i \<leftarrow> itemlist c. weight T ?w i)
       = (\<Sum>i \<leftarrow> itemlist c. weight T w i) + (if r \<in> set (itemlist c) then d else 0)"
      by (rule sum_list_upd_distinct)
        (use rootedI.prems(2) lists [OF c] rootedI.prems(3) in \<open>auto simp: linked_def weight_add_weight\<close>)
    moreover have "itemlist c = itemlist c0" using lists [OF c] items_in_cont [OF c0] by simp
    moreover have "(\<Sum>i \<leftarrow> itemlist c0. weight T w i) = totalWeight c0 + (if x = r then d else 0)"
      using rootedI.prems(4) c0 by (simp add: defect_def)
    ultimately show ?thesis using d0 lists [OF c] by simp
  qed
  show ?case
  proof (cases "getParentContainer w r")
    case None
    have "r \<notin> set (items_in w x)" if "cont ?w x \<noteq> None" for x
    proof
      assume "r \<in> set (items_in w x)"
      then have "it_parent (heap w r) = Some (CItem x)" using rootedI.prems(2) by (simp add: linked_def)
      moreover have "cont w x \<noteq> None" using that shape by (simp add: same_shapeD)
      ultimately show False using None by (simp add: getParentContainer_def)
    qed
    then have "weights_ok T ?w" using sums by (force simp: weights_ok_def)
    then show ?thesis using None shape by (simp add: updateItemWeight_unfold)
  next
    case (Some p)
    then have p: "it_parent (heap w r) = Some (CItem p)" "cont w p \<noteq> None"
      by (auto simp: getParentContainer_def split: option.splits if_splits elim: as_container.elims)
    have "r \<in> set (items_in w x) \<longleftrightarrow> x = p" for x
      using p(1) rootedI.prems(2) by (auto simp: linked_def)
    then have "defect T ?w p d" using sums by (simp add: defect_def)
    then obtain w' where "updateItemWeight d p ?w = Some w'" "weights_ok T w'" "same_shape ?w w'"
      using rootedI.hyps(2) [of p ?w] p rootedI.prems(1,2) shape0 shape
      by (auto simp: same_shapeD same_shape_linked)
    then show ?thesis using Some shape by (auto simp: updateItemWeight_unfold intro: same_shape_trans)
  qed
qed

lemma updateItemWeight_correct:
  assumes "rooted w (CItem r)" and "linked w" and "cont w r \<noteq> None" and "defect T w r d"
  shows "\<exists>w'. updateItemWeight d r w = Some w' \<and> weights_ok T w' \<and> same_shape w w'"
  using updateItemWeight_from_shape [OF assms(1) same_shape_refl assms(2-4)] .

text \<open>Whatever the weights are, only weights change.\<close>

lemma updateItemWeight_shape_from:
  assumes "rooted w0 (CItem r)" and "same_shape w0 w"
  shows "\<exists>w'. updateItemWeight d r w = Some w' \<and> same_shape w w'"
  using assms
proof (induction "CItem r" arbitrary: r w rule: rooted.induct)
  case (rootedI r w)
  show ?case
  proof (cases "getParentContainer w r")
    case None
    then show ?thesis by (simp add: updateItemWeight_unfold [of _ _ w] add_weight_shape)
  next
    case (Some q)
    then have "cyl_parent w0 (CItem r) = Some (CItem q)"
      using same_shapeD(1) [OF rootedI.prems(1)]
      by (auto simp: getParentContainer_def split: option.splits if_splits elim: as_container.elims)
    then obtain w' where "updateItemWeight d q (add_weight d r w) = Some w'" "same_shape (add_weight d r w) w'"
      using rootedI.hyps(2) [of q "add_weight d r w"] same_shape_trans [OF rootedI.prems(1) add_weight_shape] by auto
    then show ?thesis using Some same_shape_trans [OF add_weight_shape] by (auto simp: updateItemWeight_unfold [of _ _ w])
  qed
qed

lemmas updateItemWeight_shape = updateItemWeight_shape_from [OF _ same_shape_refl]

section \<open>Moving items in and out\<close>

text \<open>Every structural change gives an item a parent and a container a new list.\<close>

definition relocate :: "cylinder option \<Rightarrow> nat \<Rightarrow> nat \<Rightarrow> nat list \<Rightarrow> item_world \<Rightarrow> item_world" where
  "relocate p i r is w = upd_cont r (\<lambda>c. c\<lparr>itemlist := is\<rparr>) (setParent p i w)"

lemmas world_defs = relocate_def upd_cont_def upd_item_def setParent_def cont_def items_in_def

lemma relocate_simps [simp]:
  "it_parent (heap (relocate p i r is w) x) = (if x = i then p else it_parent (heap w x))"
  "cont (relocate p i r is w) x =
     (if x = r then map_option (\<lambda>c. c\<lparr>itemlist := is\<rparr>) (cont w r) else cont w x)"
  "tile_of (relocate p i r is w) = tile_of w"
  "weight T (relocate p i r is w) x = weight T w x"
  by (auto simp: world_defs weight_def getWeight_def type_of_def getBaseWeight_def Let_def split: option.splits)

lemma items_in_relocate [simp]:
  "items_in (relocate p i r is w) x = (if x = r \<and> cont w r \<noteq> None then is else items_in w x)"
  by (auto simp: items_in_def split: option.splits)

lemma cyl_parent_relocate [simp]:
  "cyl_parent (relocate p i r is w) c = (if c = CItem i then p else cyl_parent w c)"
  by (cases c) auto

lemma rooted_mono:
  "rooted w c \<Longrightarrow> (\<And>c p. cyl_parent w' c = Some p \<Longrightarrow> cyl_parent w c = Some p) \<Longrightarrow> rooted w' c"
  by (induction rule: rooted.induct) (metis rooted.intros)

lemma rooted_avoiding:
  "rooted w c \<Longrightarrow> \<not> around w c (CItem i) \<Longrightarrow> (\<And>c. c \<noteq> CItem i \<Longrightarrow> cyl_parent w' c = cyl_parent w c) \<Longrightarrow> rooted w' c"
proof (induction rule: rooted.induct)
  case (rootedI c)
  show ?case
  proof (rule rooted.intros)
    fix p
    assume "cyl_parent w' c = Some p"
    then have "cyl_parent w c = Some p" using rootedI.prems by (metis around_refl)
    then show "rooted w' p" using rootedI by (metis around_step)
  qed
qed

lemma rooted_attach:
  assumes "\<And>c. rooted w c" and "\<not> around w (CItem r) (CItem i)"
  shows "rooted (relocate (Some (CItem r)) i r is w) c"
proof -
  let ?w = "relocate (Some (CItem r)) i r is w"
  have r: "rooted ?w (CItem r)" by (rule rooted_avoiding [OF assms]) simp
  show ?thesis using assms(1) [of c]
  proof (induction rule: rooted.induct)
    case (rootedI c)
    show ?case by (rule rooted.intros) (use rootedI.IH r in \<open>simp split: if_splits\<close>)
  qed
qed

lemma rooted_detach: "rooted w c \<Longrightarrow> rooted (relocate None i r is w) c"
  by (erule rooted_mono) (simp split: if_splits)

lemma linked_attach:
  assumes "linked w" and "it_parent (heap w i) = None" and "cont w r \<noteq> None"
    and "distinct is" and "set is = insert i (set (items_in w r))"
  shows "linked (relocate (Some (CItem r)) i r is w)"
proof -
  have out: "i \<notin> set (items_in w x)" for x using assms(1,2) by (simp add: linked_def)
  have iff: "j \<in> set (items_in w x) \<longleftrightarrow> it_parent (heap w j) = Some (CItem x)" "distinct (items_in w x)" for j x
    using assms(1) by (simp_all add: linked_def)
  show ?thesis unfolding linked_def
  proof (intro allI conjI)
    fix x j
    show "distinct (items_in (relocate (Some (CItem r)) i r is w) x)" using iff(2) assms(4) by simp
    show "j \<in> set (items_in (relocate (Some (CItem r)) i r is w) x)
       \<longleftrightarrow> it_parent (heap (relocate (Some (CItem r)) i r is w) j) = Some (CItem x)"
      using out [of x] assms(3) by (cases "x = r"; cases "j = i") (simp_all add: assms(5) iff(1))
  qed
qed

lemma linked_detach:
  assumes "linked w" and "it_parent (heap w i) = Some (CItem r)" and "distinct is"
    and "set is = set (items_in w r) - {i}" and "cont w r \<noteq> None"
  shows "linked (relocate None i r is w)"
proof -
  have iff: "j \<in> set (items_in w x) \<longleftrightarrow> it_parent (heap w j) = Some (CItem x)" "distinct (items_in w x)" for j x
    using assms(1) by (simp_all add: linked_def)
  show ?thesis unfolding linked_def
  proof (intro allI conjI)
    fix x j
    show "distinct (items_in (relocate None i r is w) x)" using iff(2) assms(3) by simp
    show "j \<in> set (items_in (relocate None i r is w) x)
       \<longleftrightarrow> it_parent (heap (relocate None i r is w) j) = Some (CItem x)"
      using assms(2,5) by (cases "x = r"; cases "j = i") (simp_all add: assms(4) iff(1))
  qed
qed

lemma defect_relocate:
  assumes "weights_ok T w" and "(\<Sum>j \<leftarrow> is. weight T w j) = (\<Sum>j \<leftarrow> items_in w r. weight T w j) + d"
  shows "defect T (relocate p i r is w) r d"
  using assms by (auto simp: defect_def weights_ok_def items_in_def)

text \<open>The weights can be updated before or after the change.\<close>

lemma container_update_swap:
  "(\<lambda>x :: container. x\<lparr>itemlist := is, totalWeight := totalWeight x + d\<rparr>)
     = (\<lambda>x. x\<lparr>totalWeight := totalWeight x + d, itemlist := is\<rparr>)"
proof
  fix x :: container
  show "x\<lparr>itemlist := is, totalWeight := totalWeight x + d\<rparr> = x\<lparr>totalWeight := totalWeight x + d, itemlist := is\<rparr>"
    by (cases x) simp
qed

lemma upd_item_commute:
  assumes "\<And>x. a = b \<Longrightarrow> f (g x) = g (f x)"
  shows "upd_item a f (upd_item b g w) = upd_item b g (upd_item a f w)"
  using assms by (cases "a = b") (auto simp: upd_item_def fun_upd_twist)

lemma updateItemWeight_relocate_from:
  assumes "rooted w0 (CItem r)" and "same_shape w0 w" and "\<not> around w0 (CItem r) (CItem i)"
  shows "updateItemWeight d r (relocate p i s is w) = map_option (relocate p i s is) (updateItemWeight d r w)"
  using assms
proof (induction "CItem r" arbitrary: r w rule: rooted.induct)
  case (rootedI r w)
  let ?w = "add_weight d r w"
  have comm: "add_weight d r (relocate p i s is w) = relocate p i s is ?w"
    unfolding add_weight_def relocate_def upd_cont_def setParent_def
    by (subst upd_item_commute, simp add: option.map_comp comp_def container_update_swap,
        subst (2) upd_item_commute, simp_all)
  have ne: "r \<noteq> i" using rootedI.prems(2) around_refl by auto
  have par: "getParentContainer (relocate p i s is w) r = getParentContainer w r"
    using ne by (auto simp: getParentContainer_def split: option.split elim!: as_container.elims)
      (metis as_container.simps relocate_simps(2) cylinder.exhaust option.map_disc_iff)+
  show ?case
  proof (cases "getParentContainer w r")
    case None
    then show ?thesis
      by (simp add: updateItemWeight_unfold [of _ _ "relocate p i s is w"] updateItemWeight_unfold [of _ _ w] par comm)
  next
    case (Some q)
    then have q: "cyl_parent w0 (CItem r) = Some (CItem q)"
      using same_shapeD(1) [OF rootedI.prems(1)]
      by (auto simp: getParentContainer_def split: option.splits if_splits elim: as_container.elims)
    have "\<not> around w0 (CItem q) (CItem i)" using rootedI.prems(2) q by (metis around_step)
    then have "updateItemWeight d q (relocate p i s is ?w) = map_option (relocate p i s is) (updateItemWeight d q ?w)"
      using rootedI.hyps(2) [of q ?w] q same_shape_trans [OF rootedI.prems(1) add_weight_shape] by simp
    then show ?thesis using Some
      by (simp add: updateItemWeight_unfold [of _ _ "relocate p i s is w"] updateItemWeight_unfold [of _ _ w] par comm)
  qed
qed

lemmas updateItemWeight_relocate = updateItemWeight_relocate_from [OF _ same_shape_refl]

section \<open>The queries end, and refuse cycles\<close>

lemma query_around_ok:
  "rooted w c \<Longrightarrow> \<exists>ret. query_around w lim i c = Some ret \<and> (ret = RV_NOERROR \<longrightarrow> \<not> around w c (CItem i))"
proof (induction rule: rooted.induct)
  case (rootedI c)
  show ?case
  proof (cases "cyl_parent w c")
    case None
    then show ?thesis by (subst query_around.simps) (auto simp: around_unfold [of w c])
  next
    case (Some p)
    from rootedI.IH [OF this] obtain ret where
      "query_around w lim i p = Some ret" "ret = RV_NOERROR \<longrightarrow> \<not> around w p (CItem i)" by blast
    then show ?thesis using Some by (subst query_around.simps) (auto simp: around_unfold [of w c])
  qed
qed

lemma queryAdd_refuses_cycles:
  assumes "queryAdd e w r index (TItem i) n flags = Some RV_NOERROR"
    and "\<not> hasBitSet FLAG_CHILDISOWNER flags" and "\<And>c. rooted w c"
  shows "\<not> around w (CItem r) (CItem i) \<and> cont w r \<noteq> None"
proof -
  from assms(1,2) have ir: "i \<noteq> r" and c: "cont w r \<noteq> None"
    and q: "case it_parent (heap w r) of None \<Rightarrow> True
      | Some p \<Rightarrow> query_around w (\<not> hasBitSet FLAG_NOLIMIT flags) i p = Some RV_NOERROR"
    by (auto simp: queryAdd_def bind_eq_Some_conv split: option.splits if_splits)
  have "\<not> around w p (CItem i)" if "it_parent (heap w r) = Some p" for p
    using q that query_around_ok [OF assms(3), where c = p and i = i and lim = "\<not> hasBitSet FLAG_NOLIMIT flags"] by auto
  then show ?thesis using ir c by (subst around_unfold) auto
qed

section \<open>The operations keep the invariant\<close>

lemma cyl_parent_events [simp]: "cyl_parent (w\<lparr>item_events := x\<rparr>) c = cyl_parent w c"
  by (cases c) simp_all

lemma emit_simps [simp]:
  "cont (emit_item x w) r = cont w r" "items_in (emit_item x w) r = items_in w r"
  "heap (emit_item x w) = heap w" "cyl_parent (emit_item x w) c = cyl_parent w c"
  "weight T (emit_item x w) r = weight T w r"
  by (simp_all add: emit_item_def cont_def items_in_def weight_def)

lemma rooted_emit [simp]: "rooted (emit_item x w) c = rooted w c"
  by (auto intro: rooted_mono)

lemma forest_ok_emit [simp]: "forest_ok T (emit_item x w) = forest_ok T w"
  by (simp add: forest_ok_def linked_def weights_ok_def)

lemma forest_okD:
  assumes "forest_ok T w"
  shows "linked w" "rooted w c" "weights_ok T w"
  using assms by (simp_all add: forest_ok_def)

lemma update_restores:
  assumes "linked w" and "\<And>c. rooted w c" and "cont w r \<noteq> None" and "defect T w r d"
  shows "\<exists>w'. updateItemWeight d r w = Some w' \<and> forest_ok T w' \<and> same_shape w w'"
proof -
  obtain w' where w': "updateItemWeight d r w = Some w'" "weights_ok T w'" "same_shape w w'"
    using updateItemWeight_correct [OF assms(2,1,3,4)] by blast
  then show ?thesis using assms(1) same_shape_rooted [OF assms(2) w'(3)]
    by (auto simp: forest_ok_def same_shape_linked)
qed

lemma push_front_relocate: "cont w r \<noteq> None \<Longrightarrow> push_front r i w = relocate (Some (CItem r)) i r (i # items_in w r) w"
  by (auto simp: push_front_def world_defs fun_eq_iff split: option.splits)

lemma push_back_relocate:
  "cont w r \<noteq> None \<Longrightarrow> push_back r i w = relocate (Some (CItem r)) i r (items_in w r @ [i]) w"
proof -
  have "setParent p i (upd_cont r f w) = upd_cont r f (setParent p i w)" for p f
    unfolding setParent_def upd_cont_def by (rule upd_item_commute) simp
  then show "cont w r \<noteq> None \<Longrightarrow> ?thesis"
    by (auto simp: push_back_def world_defs fun_eq_iff split: option.splits)
qed

lemma attach_restores:
  assumes "forest_ok T w" and "it_parent (heap w i) = None" and "cont w r \<noteq> None"
    and "\<not> around w (CItem r) (CItem i)" and "is = i # items_in w r \<or> is = items_in w r @ [i]"
  shows "\<exists>w'. updateItemWeight (weight T w i) r (relocate (Some (CItem r)) i r is w) = Some w' \<and> forest_ok T w'"
proof -
  have out: "i \<notin> set (items_in w r)" "distinct (items_in w r)"
    using assms(1,2) by (simp_all add: forest_ok_def linked_def)
  let ?w = "relocate (Some (CItem r)) i r is w"
  have "linked ?w" by (rule linked_attach [OF forest_okD(1) [OF assms(1)] assms(2,3)]) (use out assms(5) in auto)
  moreover have "rooted ?w c" for c by (rule rooted_attach [OF forest_okD(2) [OF assms(1)] assms(4)])
  moreover have "defect T ?w r (weight T w i)"
    by (rule defect_relocate [OF forest_okD(3) [OF assms(1)]]) (use assms(5) in auto)
  ultimately show ?thesis using update_restores [of ?w r T "weight T w i"] assms(3) by auto
qed

lemma addThing_ok:
  assumes "forest_ok (env_items e) w" and "it_parent (heap w i) = None" and "cont w r \<noteq> None"
    and "\<not> around w (CItem r) (CItem i)"
  shows "\<exists>w'. addThing e r index (TItem i) w = Some w' \<and> forest_ok (env_items e) w'"
  using assms attach_restores [OF assms, of "i # items_in w r"]
  by (auto simp: addThing_def push_front_relocate)

lemma internalAddThing_ok:
  assumes "forest_ok (env_items e) w" and "it_parent (heap w i) = None" and "cont w r \<noteq> None"
    and "\<not> around w (CItem r) (CItem i)"
  shows "\<exists>w'. internalAddThing e r (TItem i) w = Some w' \<and> forest_ok (env_items e) w'"
  using assms attach_restores [OF assms, of "i # items_in w r"]
  by (auto simp: internalAddThing_def push_front_relocate)

lemma addItemBack_ok:
  assumes "forest_ok (env_items e) w" and "it_parent (heap w i) = None" and "cont w r \<noteq> None"
    and "\<not> around w (CItem r) (CItem i)"
  shows "\<exists>w'. addItemBack e r i w = Some w' \<and> forest_ok (env_items e) w'"
  using assms attach_restores [OF assms, of "items_in w r @ [i]"]
  by (auto simp: addItemBack_def push_back_relocate)

lemma linked_index: "linked w \<Longrightarrow> getThingIndex w r (TItem i) \<noteq> -1 \<Longrightarrow> it_parent (heap w i) = Some (CItem r)"
  by (auto simp: getThingIndex_def linked_def split: if_splits)

lemma linked_parent_cont: "linked w \<Longrightarrow> it_parent (heap w i) = Some (CItem r) \<Longrightarrow> cont w r \<noteq> None"
  unfolding linked_def items_in_def by (metis empty_iff list.set(1) option.simps(4))

text \<open>An item that changes in place, without moving.\<close>

lemma change_restores:
  assumes ok: "forest_ok T w" and par: "it_parent (heap w i) = Some (CItem r)"
    and f: "\<And>x. it_parent (f x) = it_parent x" "\<And>x. it_container (f x) = it_container x"
  shows "\<exists>w'. updateItemWeight (- weight T w i + weight T (upd_item i f w) i) r (upd_item i f w) = Some w'
           \<and> forest_ok T w'"
proof -
  let ?w = "upd_item i f w"
  let ?d = "- weight T w i + weight T ?w i"
  have [simp]: "it_parent (heap ?w x) = it_parent (heap w x)" "cont ?w x = cont w x" for x
    using f by (simp_all add: upd_item_def cont_def)
  then have [simp]: "items_in ?w x = items_in w x" for x by (simp add: items_in_def)
  have [simp]: "cyl_parent ?w c = cyl_parent w c" for c by (cases c) (simp_all add: upd_item_def f)
  have "linked ?w" using forest_okD(1) [OF ok] by (simp add: linked_def)
  moreover have "rooted ?w c" for c by (rule rooted_mono [OF forest_okD(2) [OF ok]]) simp
  moreover have "defect T ?w r ?d"
    unfolding defect_def
  proof (intro allI impI)
    fix x c
    assume c: "cont ?w x = Some c"
    have "itemlist c = items_in w x" using c items_in_cont [of w x c] by simp
    then have l: "distinct (itemlist c)" "i \<in> set (itemlist c) \<longleftrightarrow> x = r"
      using par forest_okD(1) [OF ok] by (auto simp: linked_def)
    have "weight T ?w j = weight T w j + (if j = i then ?d else 0)" for j
      by (simp add: weight_def upd_item_def)
    then have "(\<Sum>j \<leftarrow> itemlist c. weight T ?w j) = (\<Sum>j \<leftarrow> itemlist c. weight T w j) + (if i \<in> set (itemlist c) then ?d else 0)"
      by (intro sum_list_upd_distinct l(1))
    then show "(\<Sum>j \<leftarrow> itemlist c. weight T ?w j) = totalWeight c + (if x = r then ?d else 0)"
      using c forest_okD(3) [OF ok] l(2) by (simp add: weights_ok_def)
  qed
  ultimately show ?thesis
    using update_restores [of ?w r T ?d] linked_parent_cont [OF forest_okD(1) [OF ok] par] by auto
qed

lemma setSubType_fields [simp]:
  "it_parent (setSubType T n x) = it_parent x" "it_container (setSubType T n x) = it_container x"
  by (simp_all add: setSubType_def Let_def)

lemma setID_fields [simp]:
  "it_parent (setID T n x) = it_parent x" "it_container (setID T n x) = it_container x"
  by (simp_all add: setID_def Let_def)

lemma updateThing_ok:
  assumes "forest_ok (env_items e) w"
  shows "\<exists>w'. updateThing e r (TItem i) itemId n w = Some w' \<and> forest_ok (env_items e) w'"
proof (cases "getThingIndex w r (TItem i) = -1")
  case True
  then show ?thesis using assms by (simp add: updateThing_def)
next
  case False
  then have "it_parent (heap w i) = Some (CItem r)" using assms by (simp add: linked_index forest_okD)
  from change_restores [OF assms this, of "setSubType (env_items e) (ucast n) \<circ> setID (env_items e) itemId"]
  show ?thesis using False by (auto simp: updateThing_def Let_def)
qed

lemma erase_index_remove1:
  assumes "i \<in> set xs"
  shows "erase_index (length (takeWhile ((\<noteq>) i) xs)) xs = remove1 i xs"
  using assms unfolding erase_index_def by (induction xs) auto

lemma sum_list_remove1:
  fixes f :: "'a \<Rightarrow> 'b :: ab_group_add"
  assumes "i \<in> set xs"
  shows "(\<Sum>x \<leftarrow> remove1 i xs. f x) = (\<Sum>x \<leftarrow> xs. f x) - f i"
  using assms by (induction xs) (auto simp: algebra_simps)

lemma relocate_current: "relocate p i r (items_in w r) w = setParent p i w"
  by (auto simp: world_defs fun_eq_iff split: option.splits)

text \<open>The weights may be updated before an item is taken out.\<close>

lemma detach_restores:
  assumes ok: "forest_ok T w" and par: "it_parent (heap w i) = Some (CItem r)"
  shows "\<exists>w1. updateItemWeight (- weight T w i) r w = Some w1
     \<and> forest_ok T (relocate None i r (remove1 i (items_in w r)) w1) \<and> same_shape w w1"
proof -
  let ?is = "remove1 i (items_in w r)"
  let ?w = "relocate None i r ?is w"
  have c: "cont w r \<noteq> None" by (rule linked_parent_cont [OF forest_okD(1) [OF ok] par])
  have i: "i \<in> set (items_in w r)" "distinct (items_in w r)"
    using forest_okD(1) [OF ok] par by (simp_all add: linked_def)
  have na: "\<not> around w (CItem r) (CItem i)"
    using rooted_not_around [OF forest_okD(2) [OF ok]] par by simp
  have "linked ?w" by (rule linked_detach [OF forest_okD(1) [OF ok] par]) (use i c in \<open>auto simp: set_remove1_eq\<close>)
  moreover have "rooted ?w c" for c by (rule rooted_detach [OF forest_okD(2) [OF ok]])
  moreover have "defect T ?w r (- weight T w i)"
    by (rule defect_relocate [OF forest_okD(3) [OF ok]]) (simp add: sum_list_remove1 [OF i(1)])
  moreover have "cont ?w r \<noteq> None" using c by simp
  ultimately obtain w' where w': "updateItemWeight (- weight T w i) r ?w = Some w'" "forest_ok T w'"
    using update_restores [of ?w r T "- weight T w i"] by blast
  then obtain w1 where w1: "updateItemWeight (- weight T w i) r w = Some w1" "w' = relocate None i r ?is w1"
    using updateItemWeight_relocate [OF forest_okD(2) [OF ok] na, of "- weight T w i" None r ?is] by auto
  obtain w2 where "updateItemWeight (- weight T w i) r w = Some w2" "same_shape w w2"
    using updateItemWeight_shape [OF forest_okD(2) [OF ok]] by blast
  then show ?thesis using w' w1 by auto
qed

lemma removeThing_ok:
  assumes "forest_ok (env_items e) w"
  shows "\<exists>w'. removeThing e r (TItem i) n w = Some w' \<and> forest_ok (env_items e) w'"
proof (cases "getThingIndex w r (TItem i) = -1")
  case True
  then show ?thesis using assms by (simp add: removeThing_def)
next
  case False
  then have par: "it_parent (heap w i) = Some (CItem r)" using assms by (simp add: linked_index forest_okD)
  have idx: "nat (getThingIndex w r (TItem i)) = length (takeWhile ((\<noteq>) i) (items_in w r))"
    and i: "i \<in> set (items_in w r)"
    using False by (auto simp: getThingIndex_def split: if_splits)
  show ?thesis
  proof (cases "ty_stackable (type_of (env_items e) (heap w i)) \<and> n \<noteq> of_nat (count_of w i)")
    case True
    let ?new = "of_int (max 0 (sint (of_nat (count_of w i) - n))) :: u8"
    from change_restores [OF assms par, of "\<lambda>x. x\<lparr>it_count := ?new\<rparr>"]
    show ?thesis using True False by (auto simp: removeThing_def Let_def setItemCount_def)
  next
    case no: False
    obtain w1 where w1: "updateItemWeight (- weight (env_items e) w i) r w = Some w1"
      "forest_ok (env_items e) (relocate None i r (remove1 i (items_in w r)) w1)" "same_shape w w1"
      using detach_restores [OF assms par] by blast
    have "upd_cont r (\<lambda>c. c\<lparr>itemlist := erase_index (nat (getThingIndex w r (TItem i))) (itemlist c)\<rparr>) (setParent None i v)
        = relocate None i r (remove1 i (items_in w r)) v" if "items_in v r = items_in w r" for v
    proof (cases "cont v r")
      case None
      then show ?thesis by (auto simp: world_defs fun_eq_iff)
    next
      case (Some c)
      then have "itemlist c = items_in w r" using that by (simp add: items_in_def)
      then show ?thesis using Some erase_index_remove1 [OF i]
        by (auto simp: world_defs fun_eq_iff idx split: option.splits)
    qed
    moreover have "items_in w1 r = items_in w r" using w1(3) by (simp add: same_shapeD)
    moreover have "relocate None i r is (emit_item es w1) = emit_item es (relocate None i r is w1)" for "is" es
      by (simp add: world_defs emit_item_def)
    ultimately show ?thesis using no False w1 by (auto simp: removeThing_def Let_def)
  qed
qed

lemma relocate_twice:
  assumes "i \<noteq> j"
  shows "relocate p i r is (relocate q j r js w) = relocate q j r is (relocate p i r is w)"
  using assms by (cases "i = r"; cases "j = r") (auto simp: world_defs fun_upd_twist option.map_comp comp_def)

lemma sum_list_update_group:
  fixes f :: "'a \<Rightarrow> 'b :: ab_group_add"
  assumes "n < length xs"
  shows "(\<Sum>x \<leftarrow> xs[n := y]. f x) = (\<Sum>x \<leftarrow> xs. f x) + (- f (xs ! n) + f y)"
  using assms by (induction xs arbitrary: n) (auto simp: algebra_simps split: nat.splits)

lemma around_mono:
  "around w' c d \<Longrightarrow> (\<And>c p. cyl_parent w' c = Some p \<Longrightarrow> cyl_parent w c = Some p) \<Longrightarrow> around w c d"
  by (induction rule: around.induct) (auto intro: around.intros)

lemma replaceThing_ok:
  assumes ok: "forest_ok (env_items e) w" and new: "it_parent (heap w i) = None"
    and na: "\<not> around w (CItem r) (CItem i)"
  shows "\<exists>w'. replaceThing e r index (TItem i) w = Some w' \<and> forest_ok (env_items e) w'"
proof (cases "getItemByIndex w r (uint index)")
  case None
  then show ?thesis using ok by (simp add: replaceThing_def)
next
  case (Some old)
  let ?T = "env_items e" and ?n = "unat index"
  let ?is = "(items_in w r)[?n := i]" and ?js = "remove1 old (items_in w r)"
  have n: "?n < length (items_in w r)" and old: "old = items_in w r ! ?n"
    using Some by (auto simp: getItemByIndex_def split: if_splits)
  have d: "distinct (items_in w r)" using forest_okD(1) [OF ok] by (simp add: linked_def)
  have par: "it_parent (heap w old) = Some (CItem r)"
    using forest_okD(1) [OF ok] n old by (auto simp: linked_def dest: nth_mem)
  have ne: "i \<noteq> old" using par new by auto
  have c: "cont w r \<noteq> None" by (rule linked_parent_cont [OF forest_okD(1) [OF ok] par])
  have out: "i \<notin> set (items_in w r)" using forest_okD(1) [OF ok] new by (simp add: linked_def)
  let ?wd = "relocate None old r ?js w"
  let ?wa = "relocate (Some (CItem r)) i r ?is w"
  have ld: "linked ?wd"
    by (rule linked_detach [OF forest_okD(1) [OF ok] par]) (use d c in \<open>auto simp: set_remove1_eq\<close>)
  have both: "relocate (Some (CItem r)) i r ?is ?wd = relocate None old r ?is ?wa"
    using ne by (rule relocate_twice)
  have "set ?is = insert i (set (items_in w r) - {old})"
    using n d unfolding old by (simp add: set_update_distinct)
  then have "linked (relocate (Some (CItem r)) i r ?is ?wd)"
    by (intro linked_attach [OF ld]) (use new ne c d out in \<open>auto simp: distinct_list_update set_remove1_eq\<close>)
  then have l: "linked (relocate None old r ?is ?wa)" by (simp add: both)
  have rd: "rooted ?wd c" for c by (rule rooted_detach [OF forest_okD(2) [OF ok]])
  have "\<not> around ?wd (CItem r) (CItem i)"
  proof
    assume "around ?wd (CItem r) (CItem i)"
    then have "around w (CItem r) (CItem i)" by (rule around_mono) (simp split: if_splits)
    with na show False by contradiction
  qed
  then have ro: "rooted (relocate None old r ?is ?wa) c" for c
    using rooted_attach [OF rd] both by metis
  let ?d = "- weight ?T w old + weight ?T w i"
  have df: "defect ?T (relocate None old r ?is ?wa) r ?d"
  proof -
    have "defect ?T ?wa r ?d"
      by (rule defect_relocate [OF forest_okD(3) [OF ok]]) (use n old in \<open>simp add: sum_list_update_group\<close>)
    moreover have "cont (relocate None old r ?is ?wa) x = cont ?wa x" for x
      by (simp add: option.map_comp comp_def)
    ultimately show ?thesis by (simp only: defect_def relocate_simps(4))
  qed
  have naw: "\<not> around ?wa (CItem r) (CItem old)" and rwa: "rooted ?wa c" for c
  proof -
    show rwa: "rooted ?wa c" for c by (rule rooted_attach [OF forest_okD(2) [OF ok] na])
    show "\<not> around ?wa (CItem r) (CItem old)"
      using rooted_not_around [OF rwa, of "CItem old" "CItem r"] par ne by simp
  qed
  have "cont (relocate None old r ?is ?wa) r \<noteq> None" using c by simp
  then obtain w' where w': "updateItemWeight ?d r (relocate None old r ?is ?wa) = Some w'" "forest_ok ?T w'"
    using update_restores [OF l ro _ df] by blast
  then obtain w1 where w1: "updateItemWeight ?d r ?wa = Some w1" "w' = relocate None old r ?is w1"
    using updateItemWeight_relocate [OF rwa naw] by auto
  have "same_shape ?wa w1" using updateItemWeight_shape [OF rwa] w1(1) by (metis option.inject)
  then have "items_in w1 r = ?is" using c by (simp add: same_shapeD)
  then have w'_eq: "w' = setParent None old w1" using w1(2) relocate_current [of None old r w1, symmetric] by simp
  have start: "setParent (Some (CItem r)) i (upd_cont r (\<lambda>c. c\<lparr>itemlist := (itemlist c)[?n := i]\<rparr>) w) = ?wa"
  proof -
    have "setParent p i (upd_cont r f w) = upd_cont r f (setParent p i w)" for p f
      unfolding setParent_def upd_cont_def by (rule upd_item_commute) simp
    then show ?thesis using c by (auto simp: world_defs fun_eq_iff split: option.splits)
  qed
  have "setParent None old (emit_item es w1) = emit_item es (setParent None old w1)" for es
    by (simp add: setParent_def upd_item_def emit_item_def)
  then show ?thesis using Some w1(1) w'(2) w'_eq start
    by (auto simp: replaceThing_def Let_def)
qed

section \<open>What the iterator visits\<close>

text \<open>\<open>sub w i\<close> is the item with everything in it, at any depth; \<open>contents\<close> leaves the item itself out.\<close>

definition sub :: "item_world \<Rightarrow> nat \<Rightarrow> nat set" where
  "sub w i = {j. around w (CItem j) (CItem i)}"

definition contents :: "item_world \<Rightarrow> nat \<Rightarrow> nat set" where
  "contents w r = {j. \<exists>p. it_parent (heap w j) = Some p \<and> around w p (CItem r)}"

definition heap_finite :: "item_world \<Rightarrow> bool" where
  "heap_finite w \<longleftrightarrow> finite {i. it_parent (heap w i) \<noteq> None}"

lemma around_last: "around w c d \<Longrightarrow> c = d \<or> (\<exists>k. cyl_parent w k = Some d \<and> around w c k)"
  by (induction rule: around.induct) (auto intro: around.intros)

lemma around_linear: "around w j a \<Longrightarrow> around w j b \<Longrightarrow> around w a b \<or> around w b a"
proof (induction rule: around.induct)
  case (around_step c p d)
  then show ?case using around_unfold [of w c b] by (metis around.around_step option.inject)
qed simp

lemma cyl_parent_CItem: "cyl_parent w k = Some (CItem r) \<Longrightarrow> \<exists>i. k = CItem i \<and> it_parent (heap w i) = Some (CItem r)"
  by (cases k) auto

lemma contents_sub: "linked w \<Longrightarrow> contents w r = (\<Union>i \<in> set (items_in w r). sub w i)"
proof (intro set_eqI iffI)
  fix j
  assume l: "linked w" and "j \<in> contents w r"
  then obtain p where p: "it_parent (heap w j) = Some p" "around w p (CItem r)" by (auto simp: contents_def)
  then consider "p = CItem r" | k where "cyl_parent w k = Some (CItem r)" "around w p k"
    using around_last by blast
  then show "j \<in> (\<Union>i \<in> set (items_in w r). sub w i)"
  proof cases
    case 1
    then show ?thesis using p(1) l by (auto simp: linked_def sub_def intro: around_refl)
  next
    case 2
    then obtain i where "k = CItem i" "it_parent (heap w i) = Some (CItem r)" using cyl_parent_CItem by blast
    then show ?thesis using 2 p(1) l by (auto simp: linked_def sub_def intro!: around_step [of w "CItem j" p])
  qed
next
  fix j
  assume l: "linked w" and "j \<in> (\<Union>i \<in> set (items_in w r). sub w i)"
  then obtain i where i: "it_parent (heap w i) = Some (CItem r)" "around w (CItem j) (CItem i)"
    by (auto simp: sub_def linked_def)
  then consider "j = i" | p where "it_parent (heap w j) = Some p" "around w p (CItem i)"
    using around_unfold [of w "CItem j"] by auto
  then show "j \<in> contents w r"
  proof cases
    case 1
    then show ?thesis using i by (auto simp: contents_def intro: around_refl)
  next
    case 2
    have "around w (CItem i) (CItem r)" using i(1) by (auto intro: around.intros)
    then show ?thesis using 2 by (auto simp: contents_def dest: around_trans)
  qed
qed

lemma sub_contents: "sub w i = insert i (contents w i)"
proof (rule set_eqI)
  fix j
  show "j \<in> sub w i \<longleftrightarrow> j \<in> insert i (contents w i)"
    unfolding sub_def contents_def using around_unfold [of w "CItem j" "CItem i"] by simp
qed

lemma not_in_own_contents: "rooted w (CItem r) \<Longrightarrow> r \<notin> contents w r"
  using rooted_not_around [of w "CItem r"] by (auto simp: contents_def)

lemma contents_finite: "heap_finite w \<Longrightarrow> finite (contents w r)"
  unfolding heap_finite_def contents_def by (erule finite_subset [rotated]) auto

lemma sub_finite: "heap_finite w \<Longrightarrow> finite (sub w i)"
  by (simp add: sub_contents contents_finite)

text \<open>Items none of which contains another have nothing in common.\<close>

definition apart :: "item_world \<Rightarrow> nat list \<Rightarrow> bool" where
  "apart w xs \<longleftrightarrow> distinct xs \<and> (\<forall>a \<in> set xs. \<forall>b \<in> set xs. a \<noteq> b \<longrightarrow> \<not> around w (CItem a) (CItem b))"

lemma apart_disjoint: "apart w xs \<Longrightarrow> a \<in> set xs \<Longrightarrow> b \<in> set xs \<Longrightarrow> a \<noteq> b \<Longrightarrow> sub w a \<inter> sub w b = {}"
proof (rule ccontr)
  assume "apart w xs" "a \<in> set xs" "b \<in> set xs" "a \<noteq> b" "sub w a \<inter> sub w b \<noteq> {}"
  moreover then obtain j where "around w (CItem j) (CItem a)" "around w (CItem j) (CItem b)"
    unfolding sub_def by blast
  ultimately show False unfolding apart_def using around_linear by metis
qed

lemma apart_items:
  assumes "linked w" and "\<And>c. rooted w c"
  shows "apart w (items_in w r)"
proof -
  have "\<not> around w (CItem a) (CItem b)"
    if "it_parent (heap w a) = Some (CItem r)" "it_parent (heap w b) = Some (CItem r)" "a \<noteq> b" for a b
    using that around_unfold [of w "CItem a" "CItem b"] rooted_not_around [OF assms(2), of "CItem b" "CItem r"] by auto
  then show ?thesis using assms(1) by (simp add: apart_def linked_def)
qed

lemma apart_open:
  assumes "linked w" and "\<And>c. rooted w c" and "apart w (i # xs)"
  shows "apart w (xs @ items_in w i)"
proof -
  have child: "it_parent (heap w k) = Some (CItem i)" if "k \<in> set (items_in w i)" for k
    using that assms(1) by (simp add: linked_def)
  have up: "around w (CItem k) (CItem b) \<Longrightarrow> k = b \<or> around w (CItem i) (CItem b)" if "k \<in> set (items_in w i)" for k b
    using child [OF that] around_unfold [of w "CItem k" "CItem b"] by auto
  have down: "around w (CItem b) (CItem k) \<Longrightarrow> around w (CItem b) (CItem i)" if "k \<in> set (items_in w i)" for k b
    using child [OF that] by (metis around_trans around_step around_refl cyl_parent.simps(1))
  have xs: "b \<in> set xs \<Longrightarrow> b \<noteq> i \<and> \<not> around w (CItem i) (CItem b) \<and> \<not> around w (CItem b) (CItem i)" for b
    using assms(3) by (auto simp: apart_def)
  have disj: "b \<notin> set (items_in w i)" if "b \<in> set xs" for b
    using xs [OF that] down [of b b] around_refl by blast
  have ax: "apart w xs" using assms(3) by (simp add: apart_def)
  note ai = apart_items [OF assms(1,2), of i]
  have "distinct (xs @ items_in w i)" using ax ai disj by (auto simp: apart_def)
  moreover have "\<not> around w (CItem a) (CItem b)"
    if ab: "a \<in> set (xs @ items_in w i)" "b \<in> set (xs @ items_in w i)" "a \<noteq> b" for a b
  proof -
    consider "a \<in> set xs" "b \<in> set xs" | "a \<in> set (items_in w i)" "b \<in> set (items_in w i)"
      | "a \<in> set xs" "b \<in> set (items_in w i)" | "a \<in> set (items_in w i)" "b \<in> set xs"
      using ab(1,2) by auto
    then show ?thesis
    proof cases
      case 1
      then show ?thesis using ax ab(3) by (simp add: apart_def)
    next
      case 2
      then show ?thesis using ai ab(3) by (simp add: apart_def)
    next
      case 3
      then show ?thesis using xs down by blast
    next
      case 4
      then show ?thesis using xs up ab(3) by blast
    qed
  qed
  ultimately show ?thesis unfolding apart_def by blast
qed

definition pending :: "item_world \<Rightarrow> container_iterator \<Rightarrow> nat list" where
  "pending w it =
     (case over it of [] \<Rightarrow> [] | c # cs \<Rightarrow> drop (cur it) (items_in w c) @ concat (map (items_in w) cs))"

definition iter_ok :: "item_world \<Rightarrow> container_iterator \<Rightarrow> bool" where
  "iter_ok w it \<longleftrightarrow>
     (case over it of [] \<Rightarrow> True
      | c # cs \<Rightarrow> cur it < length (items_in w c) \<and> (\<forall>d \<in> set cs. items_in w d \<noteq> []))"

lemma advance_iter_correct:
  assumes "iter_ok w it" and "hasNext it"
  shows "pending w it = deref w it # tl (pending w it)
     \<and> pending w (advance_iter w it) = tl (pending w it) @ items_in w (deref w it)
     \<and> iter_ok w (advance_iter w it)"
proof -
  obtain c cs where c: "over it = c # cs" using assms(2) by (cases "over it") (auto simp: hasNext_def)
  have n: "cur it < length (items_in w c)" and ne: "\<forall>d \<in> set cs. items_in w d \<noteq> []"
    using assms(1) c by (auto simp: iter_ok_def)
  have i: "deref w it = items_in w c ! cur it" using c by (simp add: deref_def)
  have hd: "drop (cur it) (items_in w c) = deref w it # drop (Suc (cur it)) (items_in w c)"
    using n i by (simp add: Cons_nth_drop_Suc)
  define cs' where "cs' = cs @ (if items_in w (deref w it) \<noteq> [] then [deref w it] else [])"
  have cs': "concat (map (items_in w) cs') = concat (map (items_in w) cs) @ items_in w (deref w it)"
    "\<forall>d \<in> set cs'. items_in w d \<noteq> []"
    using ne by (auto simp: cs'_def)
  have adv: "advance_iter w it =
      (if Suc (cur it) = length (items_in w c) then \<lparr>over = cs', cur = 0\<rparr> else \<lparr>over = c # cs', cur = Suc (cur it)\<rparr>)"
    using c by (cases it) (auto simp: advance_iter_def Let_def cs'_def)
  have "pending w (advance_iter w it) = drop (Suc (cur it)) (items_in w c) @ concat (map (items_in w) cs')"
    using n by (auto simp: adv pending_def split: list.split)
  moreover have "iter_ok w (advance_iter w it)"
    using n cs'(2) by (auto simp: adv iter_ok_def split: list.split)
  ultimately show ?thesis using hd c cs'(1) by (simp add: pending_def)
qed

lemma iterate_correct:
  assumes "linked w" and "\<And>c. rooted w c" and "heap_finite w"
    and "iter_ok w it" and "apart w (pending w it)"
  shows "\<exists>is. iterate w it = Some is \<and> distinct is \<and> set is = (\<Union>i \<in> set (pending w it). sub w i)"
  using assms(4,5)
proof (induction "card (\<Union>i \<in> set (pending w it). sub w i)" arbitrary: it rule: less_induct)
  case less
  show ?case
  proof (cases "hasNext it")
    case False
    then show ?thesis by (subst iterate.simps) (auto simp: pending_def hasNext_def)
  next
    case True
    let ?i = "deref w it" and ?xs = "tl (pending w it)" and ?it = "advance_iter w it"
    have p: "pending w it = ?i # ?xs" "pending w ?it = ?xs @ items_in w ?i" "iter_ok w ?it"
      using advance_iter_correct [OF less.prems(1) True] by auto
    have ap: "apart w (?i # ?xs)" using less.prems(2) p(1) by simp
    let ?U = "\<Union>j \<in> set (pending w ?it). sub w j"
    have U: "?U = (\<Union>j \<in> set ?xs. sub w j) \<union> contents w ?i"
      by (simp add: p(2) contents_sub [OF assms(1)])
    have all: "(\<Union>j \<in> set (pending w it). sub w j) = insert ?i ?U"
    proof -
      have "set (pending w it) = insert ?i (set ?xs)" using arg_cong [OF p(1), of set] by simp
      then show ?thesis by (simp add: U sub_contents [of w ?i] Un_ac)
    qed
    have "?i \<notin> sub w j" if "j \<in> set ?xs" for j
      using ap that by (auto simp: apart_def sub_def)
    then have new: "?i \<notin> ?U" using not_in_own_contents [OF assms(2)] by (auto simp: U)
    have "finite ?U" using assms(3) by (simp add: U contents_finite sub_finite)
    then have "card ?U < card (\<Union>j \<in> set (pending w it). sub w j)" using new by (simp add: all)
    moreover have "apart w (pending w ?it)" using apart_open [OF assms(1,2) ap] p(2) by simp
    ultimately obtain "is" where "iterate w ?it = Some is" "distinct is" "set is = ?U"
      using less.hyps [of ?it] p(3) by blast
    then show ?thesis using True new all by (subst iterate.simps) auto
  qed
qed

lemma iterator_start:
  assumes "linked w" and "\<And>c. rooted w c"
  shows "iter_ok w (iterator w r)" "pending w (iterator w r) = items_in w r"
  by (auto simp: iterator_def iter_ok_def pending_def)

lemma iterate_contents:
  assumes "linked w" and "\<And>c. rooted w c" and "heap_finite w"
  shows "\<exists>is. iterate w (iterator w r) = Some is \<and> distinct is \<and> set is = contents w r"
  using iterate_correct [OF assms iterator_start(1) [OF assms(1,2)], of r] iterator_start(2) [OF assms(1,2), of r]
    apart_items [OF assms(1,2), of r] contents_sub [OF assms(1), of r] by simp

text \<open>The weight a container shows is its own and that of everything in it, at any depth.\<close>

definition own_weight :: "item_table \<Rightarrow> item_world \<Rightarrow> nat \<Rightarrow> u32" where
  "own_weight T w i = getWeight T ((heap w i)\<lparr>it_container := None\<rparr>)"

lemma weight_own: "weight T w i = own_weight T w i + (case cont w i of None \<Rightarrow> 0 | Some c \<Rightarrow> totalWeight c)"
  by (simp add: weight_def own_weight_def getWeight_def cont_def type_of_def getBaseWeight_def Let_def
      split: option.split)

lemma weight_deep:
  assumes ok: "forest_ok T w" and fin: "heap_finite w"
  shows "weight T w r = own_weight T w r + (\<Sum>i \<in> contents w r. own_weight T w i)"
proof (induction "card (contents w r)" arbitrary: r rule: less_induct)
  case less
  note l = forest_okD(1) [OF ok] and ro = forest_okD(2) [OF ok]
  let ?is = "items_in w r"
  have d: "distinct ?is" using l by (simp add: linked_def)
  have "weight T w r = own_weight T w r + (\<Sum>i \<leftarrow> ?is. weight T w i)"
    using forest_okD(3) [OF ok] by (auto simp: weight_own [of T w r] weights_ok_def items_in_def split: option.split)
  also have "(\<Sum>i \<leftarrow> ?is. weight T w i) = (\<Sum>i \<in> set ?is. weight T w i)"
    using d by (simp add: sum_list_distinct_conv_sum_set)
  also have "\<dots> = (\<Sum>i \<in> set ?is. \<Sum>j \<in> sub w i. own_weight T w j)"
  proof (rule sum.cong [OF refl])
    fix i
    assume i: "i \<in> set ?is"
    have "contents w i \<subseteq> contents w r" "i \<in> contents w r"
      using i by (auto simp: contents_sub [OF l, of r] sub_contents)
    then have "card (contents w i) < card (contents w r)"
      using not_in_own_contents [OF ro] by (intro psubset_card_mono contents_finite fin) blast
    then show "weight T w i = (\<Sum>j \<in> sub w i. own_weight T w j)"
      using less not_in_own_contents [OF ro] by (simp add: sub_contents contents_finite fin)
  qed
  also have "\<dots> = (\<Sum>j \<in> contents w r. own_weight T w j)"
    unfolding contents_sub [OF l, of r]
    by (rule sum.UNION_disjoint [symmetric])
      (use apart_disjoint [OF apart_items [OF l ro]] sub_finite [OF fin] in auto)
  finally show ?case .
qed

section \<open>Sequences of operations\<close>

text \<open>
  What the game does to containers: an item that lies nowhere is added after \<open>queryAdd\<close> agreed, a
  fresh item replaces another, items change in place and are taken out, whole or in part.
\<close>

inductive container_step :: "item_env \<Rightarrow> item_world \<Rightarrow> item_world \<Rightarrow> bool" for e where
  step_add: "container_step e w w'"
    if "queryAdd e w r index (TItem i) n flags = Some RV_NOERROR" "\<not> hasBitSet FLAG_CHILDISOWNER flags"
      "it_parent (heap w i) = None" "addThing e r index' (TItem i) w = Some w'"
| step_back: "container_step e w w'"
    if "queryAdd e w r index (TItem i) n flags = Some RV_NOERROR" "\<not> hasBitSet FLAG_CHILDISOWNER flags"
      "it_parent (heap w i) = None" "addItemBack e r i w = Some w'"
| step_load: "container_step e w w'"
    if "it_parent (heap w i) = None" "items_in w i = []" "i \<noteq> r" "cont w r \<noteq> None"
      "internalAddThing e r (TItem i) w = Some w'"
| step_replace: "container_step e w w'"
    if "it_parent (heap w i) = None" "items_in w i = []" "i \<noteq> r" "replaceThing e r index (TItem i) w = Some w'"
| step_update: "container_step e w w'"
    if "updateThing e r (TItem i) itemId n w = Some w'"
| step_remove: "container_step e w w'"
    if "removeThing e r (TItem i) n w = Some w'"

lemma empty_not_around:
  assumes "linked w" and "items_in w i = []" and "i \<noteq> r"
  shows "\<not> around w (CItem r) (CItem i)"
proof
  assume "around w (CItem r) (CItem i)"
  then obtain k where "cyl_parent w k = Some (CItem i)" using around_last assms(3) by blast
  then obtain j where "it_parent (heap w j) = Some (CItem i)" using cyl_parent_CItem by blast
  then have "j \<in> set (items_in w i)" using assms(1) by (simp add: linked_def)
  then show False using assms(2) by simp
qed

lemma container_step_ok:
  assumes "container_step e w w'" and ok: "forest_ok (env_items e) w"
  shows "forest_ok (env_items e) w'"
  using assms(1)
proof cases
  case (step_add r index i n flags index')
  then show ?thesis
    using queryAdd_refuses_cycles [OF step_add(1,2) forest_okD(2) [OF ok]] addThing_ok [OF ok step_add(3), of r index'] by auto
next
  case (step_back r index i n flags)
  then show ?thesis
    using queryAdd_refuses_cycles [OF step_back(1,2) forest_okD(2) [OF ok]] addItemBack_ok [OF ok step_back(3), of r] by auto
next
  case (step_load i r)
  then show ?thesis
    using internalAddThing_ok [OF ok step_load(1,4) empty_not_around [OF forest_okD(1) [OF ok] step_load(2,3)]] by auto
next
  case (step_replace i r index)
  then show ?thesis
    using replaceThing_ok [OF ok step_replace(1) empty_not_around [OF forest_okD(1) [OF ok] step_replace(2,3)], of index] by auto
next
  case (step_update r i itemId n)
  then show ?thesis using updateThing_ok [OF ok, of r i itemId n] by auto
next
  case (step_remove r i n)
  then show ?thesis using removeThing_ok [OF ok, of r i n] by auto
qed

lemma container_steps_ok:
  "(container_step e)\<^sup>*\<^sup>* w w' \<Longrightarrow> forest_ok (env_items e) w \<Longrightarrow> forest_ok (env_items e) w'"
  by (induction rule: rtranclp_induct) (auto intro: container_step_ok)

text \<open>A world in which no item lies anywhere.\<close>

definition loose :: "item_world \<Rightarrow> bool" where
  "loose w \<longleftrightarrow> (\<forall>r. it_parent (heap w r) = None)
     \<and> (\<forall>r c. cont w r = Some c \<longrightarrow> itemlist c = [] \<and> totalWeight c = 0)"

lemma loose_forest_ok: "loose w \<Longrightarrow> forest_ok T w"
proof -
  assume l: "loose w"
  have "rooted w c" for c
  proof (cases c)
    case (CItem r)
    then show ?thesis using l by (auto simp: loose_def intro: rooted.intros)
  qed simp_all
  then show ?thesis using l
    by (auto simp: forest_ok_def linked_def weights_ok_def loose_def items_in_def split: option.split)
qed

lemma weight_loop_shape: "weight_loop d r w = Some w' \<Longrightarrow> same_shape w w'"
proof (induction rule: weight_loop.raw_induct [rotated, consumes 1, case_names loop])
  case (loop f d r w w')
  show ?case
  proof (cases "getParentContainer w r")
    case None
    then show ?thesis using loop(2) by simp
  next
    case (Some p)
    then have "f d p (add_weight d p w) = Some w'" using loop(2) by simp
    then have "same_shape (add_weight d p w) w'" by (rule loop(1))
    then show ?thesis by (rule same_shape_trans [OF add_weight_shape])
  qed
qed

lemma updateItemWeight_parents:
  "updateItemWeight d r w = Some w' \<Longrightarrow> \<forall>x. it_parent (heap w' x) = it_parent (heap w x)"
  unfolding updateItemWeight_def
  using same_shapeD(1) [OF same_shape_trans [OF add_weight_shape weight_loop_shape]] by blast

lemma set_parent_simps [simp]:
  "it_parent (heap (setParent p i w) x) = (if x = i then p else it_parent (heap w x))"
  "it_parent (heap (upd_cont r f w) x) = it_parent (heap w x)"
  "it_parent (heap (setItemCount n i w) x) = it_parent (heap w x)"
  by (simp_all add: setParent_def upd_cont_def upd_item_def setItemCount_def)

lemma step_parents:
  assumes "container_step e w w'"
  shows "\<exists>S. finite S \<and> (\<forall>x. x \<notin> S \<longrightarrow> it_parent (heap w' x) = it_parent (heap w x))"
  using assms
proof cases
  case (step_add r index i n flags index')
  then show ?thesis
    by (intro exI [of _ "{i}"]) (auto simp: addThing_def push_front_def bind_eq_Some_conv
        split: option.splits if_splits dest!: updateItemWeight_parents)
next
  case (step_back r index i n flags)
  then show ?thesis
    by (intro exI [of _ "{i}"]) (auto simp: addItemBack_def push_back_def bind_eq_Some_conv
        split: option.splits if_splits dest!: updateItemWeight_parents)
next
  case (step_load i r)
  then show ?thesis
    by (intro exI [of _ "{i}"]) (auto simp: internalAddThing_def push_front_def dest!: updateItemWeight_parents)
next
  case (step_replace i r index)
  then show ?thesis
    by (intro exI [of _ "{i} \<union> set_option (getItemByIndex w r (uint index))"])
      (auto simp: replaceThing_def bind_eq_Some_conv Let_def split: option.splits if_splits dest!: updateItemWeight_parents)
next
  case (step_update r i itemId n)
  then have "it_parent (heap w' x) = it_parent (heap w x)" for x
    by (auto simp: updateThing_def Let_def bind_eq_Some_conv upd_item_def split: if_splits dest!: updateItemWeight_parents)
  then show ?thesis by blast
next
  case (step_remove r i n)
  then show ?thesis
    by (intro exI [of _ "{i}"]) (auto simp: removeThing_def bind_eq_Some_conv Let_def split: if_splits dest!: updateItemWeight_parents)
qed

lemma step_finite: "container_step e w w' \<Longrightarrow> heap_finite w \<Longrightarrow> heap_finite w'"
proof -
  assume "container_step e w w'" and f: "heap_finite w"
  then obtain S where S: "finite S" "\<And>x. x \<notin> S \<Longrightarrow> it_parent (heap w' x) = it_parent (heap w x)"
    using step_parents by metis
  have "{i. it_parent (heap w' i) \<noteq> None} \<subseteq> {i. it_parent (heap w i) \<noteq> None} \<union> S" using S(2) by auto
  then show "heap_finite w'" using f S(1) unfolding heap_finite_def by (meson finite_Un finite_subset)
qed

lemma container_steps_finite: "(container_step e)\<^sup>*\<^sup>* w w' \<Longrightarrow> heap_finite w \<Longrightarrow> heap_finite w'"
  by (induction rule: rtranclp_induct) (auto intro: step_finite)

lemma loose_finite: "loose w \<Longrightarrow> heap_finite w"
  by (simp add: loose_def heap_finite_def)

lemma top_parent_loop_total: "rooted w c \<Longrightarrow> \<exists>t. top_parent_loop w prev c = Some t"
proof (induction arbitrary: prev rule: rooted.induct)
  case (rootedI c)
  then show ?case by (subst top_parent_loop.simps) (auto split: option.split)
qed

lemma top_container_loop_total: "rooted w c \<Longrightarrow> \<exists>t. top_container_loop w prev c = Some t"
proof (induction arbitrary: prev rule: rooted.induct)
  case (rootedI c)
  then show ?case by (subst top_container_loop.simps) (auto split: option.split)
qed

lemma getTopParent_total: "(\<And>c. rooted w c) \<Longrightarrow> cont w r \<noteq> None \<Longrightarrow> \<exists>t. getTopParent w r = Some (Some t)"
  using top_parent_loop_total by (auto simp: getTopParent_def self_cylinder_def split: option.split)

lemma getTopParentContainer_total: "(\<And>c. rooted w c) \<Longrightarrow> \<exists>t. getTopParentContainer w r = Some t"
  using top_container_loop_total by (auto simp: getTopParentContainer_def split: option.split)

lemma holding_total:
  assumes "linked w" and "\<And>c. rooted w c" and "heap_finite w"
  shows "getItemHoldingCount w r = Some (of_nat (card (contents w r)))"
    "getContainerHoldingCount w r = Some (of_nat (card {i \<in> contents w r. cont w i \<noteq> None}))"
    "isHoldingItem w r i = Some (i \<in> contents w r)"
proof -
  obtain "is" where it: "iterate w (iterator w r) = Some is" "distinct is" "set is = contents w r"
    using iterate_contents [OF assms] by blast
  have "length is = card (contents w r)" using it(2,3) distinct_card by metis
  then show "getItemHoldingCount w r = Some (of_nat (card (contents w r)))"
    using it(1) by (simp add: getItemHoldingCount_def)
  have "length (filter (\<lambda>i. cont w i \<noteq> None) is) = card (set (filter (\<lambda>i. cont w i \<noteq> None) is))"
    by (rule distinct_card [symmetric]) (use it(2) in simp)
  then show "getContainerHoldingCount w r = Some (of_nat (card {i \<in> contents w r. cont w i \<noteq> None}))"
    using it(1,3) by (simp add: getContainerHoldingCount_def)
  show "isHoldingItem w r i = Some (i \<in> contents w r)" using it(1,3) by (simp add: isHoldingItem_def)
qed

lemma queryAdd_total:
  assumes "linked w" and "\<And>c. rooted w c" and "heap_finite w" and "cont w r \<noteq> None"
  shows "\<exists>ret. queryAdd e w r index thing n flags = Some ret"
proof -
  have hold: "\<exists>ret. query_holding e w r i = Some ret" for i
  proof -
    obtain t where "getTopParentContainer w r = Some t" using getTopParentContainer_total [OF assms(2)] by blast
    then show ?thesis
      by (cases t) (simp_all add: query_holding_def holding_total [OF assms(1-3)])
  qed
  have around: "\<exists>ret. (case it_parent (heap w r) of None \<Rightarrow> Some RV_NOERROR
      | Some p \<Rightarrow> query_around w lim i p) = Some ret" for lim i
  proof (cases "it_parent (heap w r)")
    case (Some p)
    then show ?thesis using query_around_ok [OF assms(2), of lim i p] by auto
  qed simp
  obtain c where c: "cont w r = Some c" using assms(4) by blast
  obtain t where t: "getTopParent w r = Some (Some t)" using getTopParent_total [OF assms(2,4)] by blast
  show ?thesis
  proof (cases "thing_item thing")
    case None
    then show ?thesis using c by (simp add: queryAdd_def)
  next
    case (Some i)
    obtain a where a: "(case it_parent (heap w r) of None \<Rightarrow> Some RV_NOERROR
      | Some p \<Rightarrow> query_around w (\<not> hasBitSet FLAG_NOLIMIT flags) i p) = Some a" using around by blast
    obtain h where h: "query_holding e w r i = Some h" using hold by blast
    show ?thesis unfolding queryAdd_def c a
      by (cases t) (simp_all add: Some a h t)
  qed
qed

section \<open>Properties\<close>

text \<open>A bag and a coin that lie nowhere yet.\<close>

definition demo_item :: "u16 \<Rightarrow> container option \<Rightarrow> item" where
  "demo_item i c = \<lparr>it_id = i, it_count = 1, it_attrs = no_attrs, it_parent = None, it_loadedFromMap = False,
     it_class = (if c = None then Class_Item else Class_Container), it_container = c\<rparr>"

definition demo_bag :: container where
  "demo_bag = \<lparr>maxSize = 8, totalWeight = 0, itemlist = [], unlocked = True, pagination = False, is_inbox = False\<rparr>"

definition demo_world :: item_world where
  "demo_world = \<lparr>heap = (\<lambda>r. if r = 0 then demo_item 1987 (Some demo_bag) else demo_item 2148 None),
     tile_of = (\<lambda>_. None), item_events = []\<rparr>"

definition demo_env :: item_env where
  "demo_env = \<lparr>env_items = (\<lambda>i. (default_type i)\<lparr>ty_pickupable := True, ty_weight := 10\<rparr>),
     env_maxItem = 100, env_maxContainer = 10, env_queryAdd = (\<lambda>_ _ _ _ _. RV_NOERROR),
     env_houseQueryRemove = (\<lambda>_ _ _ _ _. None)\<rparr>"

lemmas demo_defs = demo_item_def demo_bag_def demo_world_def demo_env_def

lemma demo_loose: "loose demo_world"
  by (auto simp: loose_def cont_def demo_defs split: if_splits)

lemma demo_step:
  "\<exists>w. container_step demo_env demo_world w \<and> it_parent (heap w 1) = Some (CItem 0)"
proof -
  have q: "queryAdd demo_env demo_world 0 (-1) (TItem 1) 1 0 = Some RV_NOERROR"
    by (simp add: queryAdd_def query_holding_def getTopParentContainer_def getItemHoldingCount_def
        getContainerHoldingCount_def iterate.simps hasNext_def iterator_def items_in_def cont_def
        getTopParent_def self_cylinder_def hasBitSet_def type_of_def default_type_def demo_defs)
  obtain w where w: "addThing demo_env 0 (-1) (TItem 1) demo_world = Some w"
    using addThing_ok [where e = demo_env and i = 1 and r = 0 and index = "-1", OF loose_forest_ok [OF demo_loose]]
      queryAdd_refuses_cycles [OF q _ forest_okD(2) [OF loose_forest_ok [OF demo_loose]]]
    by (auto simp: hasBitSet_def demo_defs)
  have "container_step demo_env demo_world w"
    by (rule step_add [OF q _ _ w]) (simp_all add: hasBitSet_def demo_defs)
  moreover have "it_parent (heap w 1) = Some (CItem 0)"
    using w by (auto simp: addThing_def push_front_def bind_eq_Some_conv cont_def demo_defs
        split: if_splits dest!: updateItemWeight_parents)
  ultimately show ?thesis by blast
qed



text \<open>C23: the queue of the container iterator is a traversal of the whole tree: in a consistent world
  the holding counts are the numbers of items and of containers at any depth, \<open>isHoldingItem\<close> finds
  exactly those, and an addition that \<open>queryAdd\<close> accepts, other than on behalf of an outer cylinder,
  never closes a cycle.\<close>

theorem holding_counts_exact:
  assumes "forest_ok T w" and "heap_finite w"
  shows "getItemHoldingCount w r = Some (of_nat (card (contents w r)))
     \<and> getContainerHoldingCount w r = Some (of_nat (card {i \<in> contents w r. cont w i \<noteq> None}))
     \<and> isHoldingItem w r i = Some (i \<in> contents w r)
     \<and> (queryAdd e w r index (TItem i) n flags \<noteq> Some RV_NOERROR \<or> hasBitSet FLAG_CHILDISOWNER flags
         \<or> r \<noteq> i \<and> r \<notin> contents w i)"
proof -
  note l = forest_okD(1) [OF assms(1)] and ro = forest_okD(2) [OF assms(1)]
  have "r \<notin> sub w i" if "queryAdd e w r index (TItem i) n flags = Some RV_NOERROR" "\<not> hasBitSet FLAG_CHILDISOWNER flags"
    using queryAdd_refuses_cycles [OF that ro] by (simp add: sub_def)
  then show ?thesis using holding_total [OF l ro assms(2)] by (auto simp: sub_contents)
qed

theorem holding_counts_exact_witness:
  "getItemHoldingCount demo_world 0 = Some (of_nat (card (contents demo_world 0)))
     \<and> isHoldingItem demo_world 0 1 = Some (1 \<in> contents demo_world 0)"
  using holding_counts_exact [OF loose_forest_ok [OF demo_loose] loose_finite [OF demo_loose]] by blast

text \<open>The limits on the contents are checked on the wrong container: for a container that lies in the
  outermost one, \<open>getTopParentContainer\<close> returns the container itself.\<close>

theorem top_parent_container_stops_early:
  assumes "getParentContainer w r = Some p" and "getParentContainer w p = None" and "cont w r \<noteq> None"
  shows "getTopParentContainer w r = Some (Some r)"
proof -
  obtain q where q: "it_parent (heap w r) = Some q" "as_container w q = Some p"
    using assms(1) by (auto simp: getParentContainer_def split: option.splits)
  then have qp: "q = CItem p" by (cases q) (auto split: if_splits)
  have "top_container_loop w (CItem r) q = Some (CItem r)"
    using assms(2) unfolding qp
    by (subst top_container_loop.simps) (auto simp: getParentContainer_def split: option.split)
  then show ?thesis using q(1) assms(3) by (simp add: getTopParentContainer_def)
qed

end
