(* ===== verification/MapGrid.thy ===== *)
theory MapGrid
  imports Position StdMap
begin

text \<open>
  The map's index of tiles and creatures: \<open>src/src/map/map.h\<close> and the quadtree of
  \<open>src/src/map/map.cpp\<close>. Leaves are a store from references to records, so that the links to the
  leaf south and east of a leaf are explicit; tiles and creatures are references. A leaf covers
  8 by 8 fields; \<open>path\<close> is the way to it from the root, one step per bit of the coordinates.
\<close>

section \<open>Data\<close>

abbreviation "FLOOR_BITS \<equiv> (3 :: u32)"
abbreviation "FLOOR_SIZE \<equiv> (8 :: u32)"
abbreviation "FLOOR_MASK \<equiv> (7 :: u32)"
abbreviation "MAP_MAX_LAYERS \<equiv> (16 :: u8)"

type_synonym floor = "u32 \<Rightarrow> u32 \<Rightarrow> nat option"

definition empty_floor :: floor where
  "empty_floor = (\<lambda>x y. None)"

datatype qnode =
    QLeaf nat
  | QNode "qnode option" "qnode option" "qnode option" "qnode option"

definition new_node :: qnode where
  "new_node = QNode None None None None"

record qleaf =
  leafS :: "nat option"
  leafE :: "nat option"
  floors :: "u32 \<Rightarrow> floor option"
  creature_list :: "nat list"
  player_list :: "nat list"

definition new_leaf :: qleaf where
  "new_leaf = \<lparr>leafS = None, leafE = None, floors = (\<lambda>z. None), creature_list = [], player_list = []\<rparr>"

type_synonym spectator_cache = "(position \<times> nat set) list"

record grid =
  g_root :: qnode
  g_leaves :: "qleaf list"
  spectatorCache :: spectator_cache
  playersSpectatorCache :: spectator_cache

definition new_grid :: grid where
  "new_grid = \<lparr>g_root = new_node, g_leaves = [], spectatorCache = [], playersSpectatorCache = []\<rparr>"

section \<open>The quadtree\<close>

definition child_index :: "u32 \<Rightarrow> u32 \<Rightarrow> u32" where
  "child_index x y = drop_bit 15 (x AND 0x8000) OR drop_bit 14 (y AND 0x8000)"

text \<open>A leaf has an array of children too, all of them null.\<close>

fun child :: "qnode \<Rightarrow> u32 \<Rightarrow> qnode option" where
  "child (QLeaf l) i = None"
| "child (QNode a b c d) i = (if i = 0 then a else if i = 1 then b else if i = 2 then c else d)"

fun set_child :: "u32 \<Rightarrow> qnode \<Rightarrow> qnode \<Rightarrow> qnode" where
  "set_child i n (QLeaf l) = QLeaf l"
| "set_child i n (QNode a b c d) =
     (if i = 0 then QNode (Some n) b c d else if i = 1 then QNode a (Some n) c d
      else if i = 2 then QNode a b (Some n) d else QNode a b c (Some n))"

lemma size_child: "child n i = Some m \<Longrightarrow> size m < size n"
  by (cases n) (auto split: if_splits)

function getLeaf :: "qnode \<Rightarrow> u32 \<Rightarrow> u32 \<Rightarrow> nat option" where
  "getLeaf (QLeaf l) x y = Some l"
| "getLeaf (QNode a b c d) x y =
     (case child (QNode a b c d) (child_index x y) of
        None \<Rightarrow> None
      | Some node \<Rightarrow> getLeaf node (push_bit 1 x) (push_bit 1 y))"
  by pat_completeness auto
termination
  by (relation "measure (\<lambda>(n, x, y). size n)") (use size_child in fastforce)+

function getLeafStatic :: "qnode \<Rightarrow> u32 \<Rightarrow> u32 \<Rightarrow> nat option" where
  "getLeafStatic node x y =
     (case child node (child_index x y) of
        None \<Rightarrow> None
      | Some (QLeaf l) \<Rightarrow> Some l
      | Some (QNode a b c d) \<Rightarrow> getLeafStatic (QNode a b c d) (push_bit 1 x) (push_bit 1 y))"
  by pat_completeness auto
termination
  by (relation "measure (\<lambda>(n, x, y). size n)") (auto dest: size_child)

declare getLeafStatic.simps [simp del]

text \<open>
  \<open>createLeaf\<close> returns the tree, the leaf and whether it is new (the static \<open>newLeaf\<close>); a new leaf
  gets the next free reference. The recursion descends into the tree or, where there is no node
  yet, towards the level of leaves.
\<close>

function createLeaf :: "nat \<Rightarrow> u32 \<Rightarrow> u32 \<Rightarrow> u32 \<Rightarrow> qnode \<Rightarrow> qnode \<times> nat \<times> bool" where
  "createLeaf fresh x y level (QLeaf l) = (QLeaf l, l, False)"
| "createLeaf fresh x y level (QNode a b c d) =
     (let index = child_index x y in
      case child (QNode a b c d) index of
        Some node \<Rightarrow>
          (let (node, l, newLeaf) = createLeaf fresh (x * 2) (y * 2) (level - 1) node
           in (set_child index node (QNode a b c d), l, newLeaf))
      | None \<Rightarrow>
          if level \<noteq> FLOOR_BITS
          then (let (node, l, newLeaf) = createLeaf fresh (x * 2) (y * 2) (level - 1) new_node
                in (set_child index node (QNode a b c d), l, newLeaf))
          else (let (node, l, newLeaf) = createLeaf fresh (x * 2) (y * 2) (level - 1) (QLeaf fresh)
                in (set_child index node (QNode a b c d), l, True)))"
  by pat_completeness auto

lemma level_decreases: "level \<noteq> FLOOR_BITS \<Longrightarrow> unat (level - 1 - FLOOR_BITS) < unat (level - FLOOR_BITS)"
proof -
  assume "level \<noteq> FLOOR_BITS"
  then have "level - FLOOR_BITS \<noteq> 0" by simp
  then have "unat (level - FLOOR_BITS - 1) < unat (level - FLOOR_BITS)"
    by (metis measure_unat)
  then show ?thesis by (simp add: algebra_simps)
qed

lemma size_new_node: "size new_node \<le> size (QNode a b c d)"
  by (cases a; cases b; cases c; cases d; simp add: new_node_def)

termination createLeaf
proof (relation "measures [\<lambda>(f, x, y, level, n). size n, \<lambda>(f, x, y, level, n). unat (level - FLOOR_BITS)]")
  fix fresh :: nat and x y level :: u32 and a b c d node and i :: u32
  assume "child (QNode a b c d) i = Some node"
  then have "size node < size (QNode a b c d)" by (rule size_child)
  then show "((fresh, x * 2, y * 2, level - 1, node), fresh, x, y, level, QNode a b c d)
      \<in> measures [\<lambda>(f, x, y, level, n). size n, \<lambda>(f, x, y, level, n). unat (level - FLOOR_BITS)]"
    by simp
next
  fix fresh :: nat and x y level :: u32 and a b c d
  assume "level \<noteq> FLOOR_BITS"
  then show "((fresh, x * 2, y * 2, level - 1, new_node), fresh, x, y, level, QNode a b c d)
      \<in> measures [\<lambda>(f, x, y, level, n). size n, \<lambda>(f, x, y, level, n). unat (level - FLOOR_BITS)]"
    using size_new_node [of a b c d] level_decreases [of level] by auto
qed simp_all

text \<open>A node \<open>k\<close> levels above the leaves, and the leaf at the end of a way down.\<close>

fun tree_ok :: "nat \<Rightarrow> qnode \<Rightarrow> bool" where
  "tree_ok 0 n \<longleftrightarrow> (case n of QLeaf l \<Rightarrow> True | QNode a b c d \<Rightarrow> False)"
| "tree_ok (Suc k) n \<longleftrightarrow>
     (case n of QLeaf l \<Rightarrow> False
      | QNode a b c d \<Rightarrow> list_all (\<lambda>m. case m of None \<Rightarrow> True | Some m \<Rightarrow> tree_ok k m) [a, b, c, d])"

fun follow :: "qnode \<Rightarrow> u32 list \<Rightarrow> nat option" where
  "follow (QLeaf l) [] = Some l"
| "follow (QNode a b c d) [] = None"
| "follow n (i # is) = (case child n i of None \<Rightarrow> None | Some m \<Rightarrow> follow m is)"

fun path :: "nat \<Rightarrow> u32 \<Rightarrow> u32 \<Rightarrow> u32 list" where
  "path 0 x y = []"
| "path (Suc k) x y = child_index x y # path k (x * 2) (y * 2)"

lemma bit_0x8000: "bit (0x8000 :: u32) m \<longleftrightarrow> m = 15"
  using bit_exp_iff [of 15 m, where 'a = u32] by auto

lemma child_index_bits: "child_index x y = of_bool (bit x 15) OR push_bit 1 (of_bool (bit y 15))"
proof -
  have "drop_bit 15 (x AND 0x8000) = (of_bool (bit x 15) :: u32)"
    by (rule bit_word_eqI, simp only: bit_drop_bit_eq comp_def bit_and_iff bit_0x8000 bit_of_bool_iff) auto
  moreover have "bit (drop_bit 14 (y AND 0x8000)) n = bit (push_bit 1 (of_bool (bit y 15)) :: u32) n" for n
    by (cases "n = 1") (simp_all only: bit_drop_bit_eq comp_def bit_and_iff bit_0x8000 bit_of_bool_iff
        bit_push_bit_iff, auto)
  ultimately show ?thesis unfolding child_index_def by (metis bit_eqI)
qed

lemma child_index_less: "child_index x y < 4"
  by (simp add: child_index_bits)

lemma child_index_eq:
  "child_index x y = child_index x' y' \<longleftrightarrow> bit x 15 = bit x' 15 \<and> bit y 15 = bit y' 15"
  by (simp add: child_index_bits)

lemma path_eq:
  "k \<le> 15 \<Longrightarrow> path k x y = path k x' y' \<longleftrightarrow>
     (\<forall>n<k. bit x (15 - n) = bit x' (15 - n) \<and> bit y (15 - n) = bit y' (15 - n))"
proof (induction k arbitrary: x y x' y')
  case (Suc k)
  have s: "bit (w * 2) (15 - n) = bit w (15 - Suc n)" if "n < k" for n and w :: u32
  proof -
    have n: "15 - n = Suc (15 - Suc n)" using that Suc.prems by simp
    have "w * 2 = push_bit 1 w" by simp
    then show ?thesis unfolding n by (simp only: bit_push_bit_iff) (auto dest: bit_imp_le_length)
  qed
  have "k \<le> 15" using Suc.prems by simp
  from Suc.IH [OF this] show ?case by (auto simp: child_index_eq s All_less_Suc2)
qed simp

lemma path_less: "i \<in> set (path k x y) \<Longrightarrow> i < 4"
  by (induction k arbitrary: x y) (auto simp: child_index_less)

lemma length_path [simp]: "length (path k x y) = k"
  by (induction k arbitrary: x y) auto

lemma tree_ok_child: "tree_ok (Suc k) n \<Longrightarrow> child n i = Some m \<Longrightarrow> tree_ok k m"
  by (cases n) (auto split: if_splits)

lemma child_set_child:
  "tree_ok (Suc k) n \<Longrightarrow> i < 4 \<Longrightarrow> j < 4 \<Longrightarrow> child (set_child i m n) j = (if i = j then Some m else child n j)"
proof -
  assume "i < 4" "j < 4"
  have four: "w = 0 \<or> w = 1 \<or> w = 2 \<or> w = 3" if "w < 4" for w :: u32
  proof -
    have "unat w < 4" using that by (simp add: word_less_nat_alt)
    then have "unat w = 0 \<or> unat w = 1 \<or> unat w = 2 \<or> unat w = 3" by arith
    then show ?thesis by (auto simp: word_unat_eq_iff)
  qed
  assume "tree_ok (Suc k) n"
  then show ?thesis using four [OF \<open>i < 4\<close>] four [OF \<open>j < 4\<close>] by (cases n) auto
qed

lemma tree_ok_set_child: "tree_ok (Suc k) n \<Longrightarrow> tree_ok k m \<Longrightarrow> tree_ok (Suc k) (set_child i m n)"
  by (cases n) auto

lemma tree_ok_SucD: "tree_ok (Suc k) n \<Longrightarrow> \<exists>a b c d. n = QNode a b c d"
  by (cases n) auto

lemma getLeaf_follow: "tree_ok k n \<Longrightarrow> getLeaf n x y = follow n (path k x y)"
proof (induction k arbitrary: n x y)
  case 0
  then show ?case by (cases n) auto
next
  case (Suc k)
  then obtain a b c d where n: "n = QNode a b c d" using tree_ok_SucD by blast
  show ?case
  proof (cases "child n (child_index x y)")
    case None
    then show ?thesis by (simp add: n del: child.simps)
  next
    case (Some m)
    then show ?thesis using Suc.IH [OF tree_ok_child [OF Suc.prems Some]] by (simp add: n del: child.simps)
  qed
qed

lemma getLeafStatic_follow: "tree_ok (Suc k) n \<Longrightarrow> getLeafStatic n x y = follow n (path (Suc k) x y)"
proof (induction k arbitrary: n x y)
  case 0
  then obtain a b c d where n: "n = QNode a b c d" using tree_ok_SucD by blast
  show ?case
  proof (cases "child n (child_index x y)")
    case None
    then show ?thesis by (subst getLeafStatic.simps) (simp add: n del: child.simps)
  next
    case (Some m)
    then have "tree_ok 0 m" using tree_ok_child [OF 0] by blast
    then show ?thesis using Some by (subst getLeafStatic.simps) (cases m; simp add: n del: child.simps)
  qed
next
  case (Suc k)
  then obtain a b c d where n: "n = QNode a b c d" using tree_ok_SucD by blast
  show ?case
  proof (cases "child n (child_index x y)")
    case None
    then show ?thesis by (subst getLeafStatic.simps) (simp add: n del: child.simps)
  next
    case (Some m)
    then have ok: "tree_ok (Suc k) m" using tree_ok_child [OF Suc.prems] by blast
    then obtain a' b' c' d' where m: "m = QNode a' b' c' d'" using tree_ok_SucD by blast
    have "getLeafStatic n x y = getLeafStatic m (x * 2) (y * 2)"
      using Some by (subst getLeafStatic.simps) (simp add: m)
    then show ?thesis using Some by (simp only: Suc.IH [OF ok]) (simp add: n)
  qed
qed

text \<open>Creating a leaf changes the tree at one path only. \<open>k + 2\<close> is the level of a node \<open>k\<close> above the leaves.\<close>

lemma follow_set_child:
  "tree_ok (Suc k) n \<Longrightarrow> i < 4 \<Longrightarrow> \<forall>j \<in> set p. j < 4 \<Longrightarrow> length p = Suc k \<Longrightarrow>
   follow (set_child i m n) p = (if hd p = i then follow m (tl p) else follow n p)"
  by (cases p; cases n) (auto simp: child_set_child simp del: child.simps set_child.simps tree_ok.simps
      dest: tree_ok_SucD)

lemma tree_ok_new_node: "tree_ok (Suc k) new_node"
  by (simp add: new_node_def)

lemma follow_new_node [simp]: "follow new_node p = None"
  by (cases p) (auto simp: new_node_def)

lemma follow_QLeaf: "length p = 0 \<Longrightarrow> follow (QLeaf l) p = Some l"
  by simp

definition leaf_created ::
    "nat \<Rightarrow> nat \<Rightarrow> u32 list \<Rightarrow> qnode \<Rightarrow> qnode \<times> nat \<times> bool \<Rightarrow> bool" where
  "leaf_created k fresh p n r \<longleftrightarrow>
     (case r of (n', l, newLeaf) \<Rightarrow>
        tree_ok k n'
        \<and> (\<forall>q. length q = k \<longrightarrow> (\<forall>j \<in> set q. j < 4) \<longrightarrow> follow n' q = (if q = p then Some l else follow n q))
        \<and> follow n p = (if newLeaf then None else Some l) \<and> (newLeaf \<longrightarrow> l = fresh))"

definition below :: "qnode \<Rightarrow> u32 \<Rightarrow> u32 list \<Rightarrow> nat option" where
  "below n i q = (case child n i of None \<Rightarrow> None | Some c \<Rightarrow> follow c q)"

lemma leaf_created_step:
  assumes n: "tree_ok (Suc k) n" and i: "i < 4" and m: "tree_ok k m"
    and q: "\<And>q. length q = k \<Longrightarrow> \<forall>j \<in> set q. j < 4 \<Longrightarrow>
          follow m q = (if q = p then Some l else below n i q)"
    and p: "below n i p = (if newLeaf then None else Some l)" and new: "newLeaf \<Longrightarrow> l = fresh"
  shows "leaf_created (Suc k) fresh (i # p) n (set_child i m n, l, newLeaf)"
proof -
  have cons: "follow n (i # p) = below n i p" for i p
    using tree_ok_SucD [OF n] by (auto simp: below_def)
  have at_cons: "follow (set_child i m n) (j # q') = (if j # q' = i # p then Some l else follow n (j # q'))"
    if "length q' = k" "\<forall>j \<in> set (j # q'). j < 4" for j q'
    using follow_set_child [OF n i, of "j # q'" m] that q [of q'] by (auto simp: cons below_def)
  have "follow (set_child i m n) q = (if q = i # p then Some l else follow n q)"
    if lq: "length q = Suc k" and vq: "\<forall>j \<in> set q. j < 4" for q
  proof -
    obtain j q' where q: "q = j # q'" using lq by (cases q) auto
    show ?thesis unfolding q by (rule at_cons) (use lq vq q in simp_all)
  qed
  moreover have "follow n (i # p) = (if newLeaf then None else Some l)" using p by (simp only: cons)
  ultimately show ?thesis
    unfolding leaf_created_def prod.case using tree_ok_set_child [OF n m] new by (intro conjI) simp_all
qed

lemma createLeaf_created:
  "tree_ok k n \<Longrightarrow> k \<le> 13 \<Longrightarrow> level = of_nat k + 2 \<Longrightarrow>
   leaf_created k fresh (path k x y) n (createLeaf fresh x y level n)"
proof (induction k arbitrary: n x y level)
  case 0
  then show ?case by (cases n) (auto simp: leaf_created_def)
next
  case (Suc k)
  obtain a b c d where n: "n = QNode a b c d" using tree_ok_SucD [OF Suc.prems(1)] by blast
  let ?i = "child_index x y" and ?p = "path k (x * 2) (y * 2)"
  have level: "level - 1 = of_nat k + 2" "k \<le> 13" using Suc.prems by simp_all
  note step = leaf_created_step [OF Suc.prems(1) child_index_less [of x y]]
  show ?case
  proof (cases "child n ?i")
    case (Some m)
    obtain m' l nl where r: "createLeaf fresh (x * 2) (y * 2) (level - 1) m = (m', l, nl)"
      by (metis prod_cases3)
    have IH: "leaf_created k fresh ?p m (m', l, nl)"
      using Suc.IH [OF tree_ok_child [OF Suc.prems(1) Some] level(2,1), where x = "x * 2" and y = "y * 2"] by (simp add: r)
    have "leaf_created (Suc k) fresh (?i # ?p) n (set_child ?i m' n, l, nl)"
      by (rule step) (use IH in \<open>auto simp: leaf_created_def below_def Some\<close>)
    then show ?thesis using Some r by (simp add: n del: child.simps set_child.simps)
  next
    case None
    show ?thesis
    proof (cases "level = FLOOR_BITS")
      case True
      then have "(of_nat k :: u32) = 0" using level by simp
      moreover have "unat (of_nat k :: u32) = k" by (rule unat_of_nat_small) (use level in simp)
      ultimately have k: "k = 0" by simp
      have "leaf_created (Suc k) fresh (?i # ?p) n (set_child ?i (QLeaf fresh) n, fresh, True)"
        by (rule step) (use None k in \<open>auto simp: below_def\<close>)
      then show ?thesis using None True by (simp add: n del: child.simps set_child.simps)
    next
      case False
      then obtain k' where k: "k = Suc k'" using Suc.prems(3) by (cases k) auto
      obtain m' l nl where r: "createLeaf fresh (x * 2) (y * 2) (level - 1) new_node = (m', l, nl)"
        by (metis prod_cases3)
      have IH: "leaf_created k fresh ?p new_node (m', l, nl)"
        unfolding r [symmetric]
        by (rule Suc.IH) (use level tree_ok_new_node [of k'] k in \<open>simp_all del: tree_ok.simps\<close>)
      have "leaf_created (Suc k) fresh (?i # ?p) n (set_child ?i m' n, l, nl)"
        by (rule step) (use IH None in \<open>auto simp: leaf_created_def below_def split: if_splits\<close>)
      then show ?thesis using None False r by (simp add: n del: child.simps set_child.simps)
    qed
  qed
qed

section \<open>Leaves of a map\<close>

definition getQTNode :: "grid \<Rightarrow> u16 \<Rightarrow> u16 \<Rightarrow> nat option" where
  "getQTNode g x y = getLeafStatic (g_root g) (ucast x) (ucast y)"

definition leaf :: "grid \<Rightarrow> nat \<Rightarrow> qleaf" where
  "leaf g l = g_leaves g ! l"

definition upd_leaf :: "nat \<Rightarrow> (qleaf \<Rightarrow> qleaf) \<Rightarrow> grid \<Rightarrow> grid" where
  "upd_leaf l f g = g\<lparr>g_leaves := (g_leaves g)[l := f (g_leaves g ! l)]\<rparr>"

definition upd_leaf_opt :: "nat option \<Rightarrow> (qleaf \<Rightarrow> qleaf) \<Rightarrow> grid \<Rightarrow> grid" where
  "upd_leaf_opt lo f g = (case lo of None \<Rightarrow> g | Some l \<Rightarrow> upd_leaf l f g)"

text \<open>
  The first half of \<open>Map::setTile\<close>: the leaf of the field, linked to its neighbours when it is new.
  The coordinates are unsigned, so the neighbours of a leaf at the border are those at the other side.
\<close>

definition link_leaf :: "u16 \<Rightarrow> u16 \<Rightarrow> grid \<Rightarrow> nat \<times> grid" where
  "link_leaf x16 y16 g =
     (let x = ucast x16; y = ucast y16;
          (root, leaf, newLeaf) = createLeaf (length (g_leaves g)) x y 15 (g_root g);
          g = g\<lparr>g_root := root, g_leaves := g_leaves g @ (if newLeaf then [new_leaf] else [])\<rparr>
      in (leaf,
          if newLeaf
          then (let northLeaf = getLeaf root x (y - FLOOR_SIZE);
                    g = upd_leaf_opt northLeaf (\<lambda>l. l\<lparr>leafS := Some leaf\<rparr>) g;
                    westLeaf = getLeaf root (x - FLOOR_SIZE) y;
                    g = upd_leaf_opt westLeaf (\<lambda>l. l\<lparr>leafE := Some leaf\<rparr>) g;
                    southLeaf = getLeaf root x (y + FLOOR_SIZE);
                    g = (if southLeaf \<noteq> None then upd_leaf leaf (\<lambda>l. l\<lparr>leafS := southLeaf\<rparr>) g else g);
                    eastLeaf = getLeaf root (x + FLOOR_SIZE) y;
                    g = (if eastLeaf \<noteq> None then upd_leaf leaf (\<lambda>l. l\<lparr>leafE := eastLeaf\<rparr>) g else g)
                in g)
          else g))"

definition createFloor :: "u32 \<Rightarrow> qleaf \<Rightarrow> floor \<times> qleaf" where
  "createFloor z l =
     (case floors l z of
        Some f \<Rightarrow> (f, l)
      | None \<Rightarrow> (empty_floor, l\<lparr>floors := (floors l)(z := Some empty_floor)\<rparr>))"

definition getTile :: "grid \<Rightarrow> u16 \<Rightarrow> u16 \<Rightarrow> u8 \<Rightarrow> nat option" where
  "getTile g x y z =
     (if z \<ge> MAP_MAX_LAYERS then None
      else case getLeafStatic (g_root g) (ucast x) (ucast y) of
        None \<Rightarrow> None
      | Some l \<Rightarrow>
          (case floors (leaf g l) (ucast z) of
             None \<Rightarrow> None
           | Some f \<Rightarrow> f (ucast x AND FLOOR_MASK) (ucast y AND FLOOR_MASK)))"

text \<open>
  The rest of \<open>Map::setTile\<close>: an empty field takes the tile; otherwise the old tile is returned,
  into which the new one is to be merged.
\<close>

definition setTile_slot :: "u16 \<Rightarrow> u16 \<Rightarrow> u8 \<Rightarrow> nat \<Rightarrow> grid \<Rightarrow> nat option \<times> grid" where
  "setTile_slot x y z newTile g =
     (if z \<ge> MAP_MAX_LAYERS then (None, g)
      else let (l, g) = link_leaf x y g;
               (floor, lf) = createFloor (ucast z) (leaf g l);
               g = upd_leaf l (\<lambda>_. lf) g;
               offsetX = ucast x AND FLOOR_MASK;
               offsetY = ucast y AND FLOOR_MASK
           in case floor offsetX offsetY of
                Some old \<Rightarrow> (Some old, g)
              | None \<Rightarrow>
                  (None, upd_leaf l (\<lambda>lf. lf\<lparr>floors := (floors lf)(ucast z :=
                           Some (floor(offsetX := (floor offsetX)(offsetY := Some newTile))))\<rparr>) g))"

definition addCreature :: "bool \<Rightarrow> nat \<Rightarrow> qleaf \<Rightarrow> qleaf" where
  "addCreature isPlayer c l =
     (let l = l\<lparr>creature_list := creature_list l @ [c]\<rparr>
      in if isPlayer then l\<lparr>player_list := player_list l @ [c]\<rparr> else l)"

text \<open>A creature that is not in the list fails the assertion.\<close>

definition removeCreature :: "bool \<Rightarrow> nat \<Rightarrow> qleaf \<Rightarrow> qleaf option" where
  "removeCreature isPlayer c l =
     (if c \<notin> set (creature_list l) then None
      else let l = l\<lparr>creature_list := swap_pop (creature_list l) c\<rparr>
           in if isPlayer
              then (if c \<notin> set (player_list l) then None
                    else Some (l\<lparr>player_list := swap_pop (player_list l) c\<rparr>))
              else Some l)"

section \<open>The invariant of the leaves\<close>

text \<open>Two fields share a leaf when their coordinates agree above the lowest three bits.\<close>

definition same_leaf :: "u16 \<Rightarrow> u16 \<Rightarrow> u16 \<Rightarrow> u16 \<Rightarrow> bool" where
  "same_leaf x y x' y' \<longleftrightarrow> drop_bit 3 x = drop_bit 3 x' \<and> drop_bit 3 y = drop_bit 3 y'"

definition grid_ok :: "grid \<Rightarrow> bool" where
  "grid_ok g \<longleftrightarrow>
     tree_ok 13 (g_root g)
     \<and> (\<forall>x y l. getQTNode g x y = Some l \<longrightarrow> l < length (g_leaves g))
     \<and> (\<forall>x y x' y' l. getQTNode g x y = Some l \<longrightarrow> getQTNode g x' y' = Some l \<longrightarrow> same_leaf x y x' y')
     \<and> (\<forall>x y l. getQTNode g x y = Some l \<longrightarrow>
           leafE (leaf g l) = getQTNode g (x + 8) y \<and> leafS (leaf g l) = getQTNode g x (y + 8))"

lemma same_leaf_refl [simp]: "same_leaf x y x y"
  by (simp add: same_leaf_def)

lemma same_leaf_sym: "same_leaf x y x' y' \<longleftrightarrow> same_leaf x' y' x y"
  by (auto simp: same_leaf_def)

lemma same_leaf_trans: "same_leaf x y x' y' \<Longrightarrow> same_leaf x' y' x'' y'' \<Longrightarrow> same_leaf x y x'' y''"
  by (auto simp: same_leaf_def)

lemma drop_bit_3_eq: "drop_bit 3 (x :: u16) = drop_bit 3 x' \<longleftrightarrow> uint x div 8 = uint x' div 8"
  unfolding word_uint_eq_iff [of "drop_bit 3 x"] by (simp add: drop_bit_eq_div uint_div)

lemma uint_div_8: "0 \<le> uint (x :: u16) div 8" "uint (x :: u16) div 8 < 8192"
proof -
  show "0 \<le> uint x div 8" by (simp add: pos_imp_zdiv_nonneg_iff)
  have "uint x < 65536" using uint_bounded [of x] by simp
  then show "uint x div 8 < 8192" by (simp add: div_less_iff_less_mult)
qed

lemma cell_plus: "uint (x + 8 :: u16) div 8 = (uint x div 8 + 1) mod 8192"
proof -
  have s: "uint (x + 8) = (uint x + 8) mod 65536" by (simp add: uint_word_ariths)
  have b: "0 \<le> uint x" "uint x < 65536" using uint_bounded [of x] by simp_all
  show ?thesis
  proof (cases "uint x < 65528")
    case True
    then have "(uint x + 8) mod 65536 = uint x + 8" using b by simp
    moreover have "uint x div 8 + 1 < 8192" "0 \<le> uint x div 8 + 1" using True b by linarith+
    ultimately show ?thesis unfolding s by simp
  next
    case False
    then have "(uint x + 8) mod 65536 = uint x - 65528"
      using b mod_add_self2 [of "uint x - 65528" 65536] by (simp add: mod_pos_pos_trivial add.commute)
    moreover have "(uint x - 65528) div 8 = 0" "uint x div 8 = 8191" using False b by linarith+
    ultimately show ?thesis unfolding s by simp
  qed
qed

lemma cell_minus: "uint (x - 8 :: u16) div 8 = (uint x div 8 - 1) mod 8192"
proof -
  have "uint x div 8 = (uint (x - 8) div 8 + 1) mod 8192" using cell_plus [of "x - 8"] by simp
  then have "(uint x div 8 - 1) mod 8192 = (uint (x - 8) div 8) mod 8192" by (simp add: mod_diff_left_eq)
  then show ?thesis using uint_div_8 [of "x - 8"] by simp
qed

lemma cell_shift:
  "drop_bit 3 (x :: u16) = drop_bit 3 (x' - 8) \<longleftrightarrow> drop_bit 3 (x + 8) = drop_bit 3 x'"
  "drop_bit 3 (x :: u16) = drop_bit 3 x' \<Longrightarrow> drop_bit 3 (x + 8) = drop_bit 3 (x' + 8)"
  "drop_bit 3 (x + 8 :: u16) \<noteq> drop_bit 3 x" "drop_bit 3 (x - 8 :: u16) \<noteq> drop_bit 3 x"
proof -
  have ne: "(u + 1) mod 8192 \<noteq> u" if "0 \<le> u" "u < 8192" for u :: int
    using that by (cases "u = 8191") (simp_all add: mod_pos_pos_trivial)
  show neq: "drop_bit 3 (x + 8 :: u16) \<noteq> drop_bit 3 x" for x
    unfolding drop_bit_3_eq cell_plus using uint_div_8 [of x] ne by blast
  show "drop_bit 3 (x - 8 :: u16) \<noteq> drop_bit 3 x" using neq [of "x - 8"] by simp
  show cong: "drop_bit 3 x = drop_bit 3 x' \<Longrightarrow> drop_bit 3 (x + 8) = drop_bit 3 (x' + 8)" for x x' :: u16
    unfolding drop_bit_3_eq cell_plus by simp
  have "drop_bit 3 (x + 8) = drop_bit 3 x' \<Longrightarrow> drop_bit 3 x = drop_bit 3 (x' - 8)"
  proof -
    assume "drop_bit 3 (x + 8) = drop_bit 3 x'"
    then have "(uint x div 8 + 1) mod 8192 = uint x' div 8" by (simp add: drop_bit_3_eq cell_plus)
    then have "(uint x' div 8 - 1) mod 8192 = (uint x div 8) mod 8192" by (metis add_diff_cancel_right' mod_diff_left_eq)
    then show ?thesis using uint_div_8 [of x] by (simp add: drop_bit_3_eq cell_minus)
  qed
  then show "drop_bit 3 x = drop_bit 3 (x' - 8) \<longleftrightarrow> drop_bit 3 (x + 8) = drop_bit 3 x'"
    using cong [of x "x' - 8"] by auto
qed

lemma drop_bit_3_bits: "drop_bit 3 (x :: u16) = drop_bit 3 x' \<longleftrightarrow> (\<forall>m\<ge>3. bit x m = bit x' m)"
proof
  assume d: "drop_bit 3 x = drop_bit 3 x'"
  have "bit x (3 + n) = bit x' (3 + n)" for n
    using arg_cong [OF d, of "\<lambda>w. bit w n"] by (simp only: bit_drop_bit_eq comp_apply)
  then show "\<forall>m\<ge>3. bit x m = bit x' m" using le_Suc_ex by metis
next
  assume "\<forall>m\<ge>3. bit x m = bit x' m"
  then show "drop_bit 3 x = drop_bit 3 x'" by (intro bit_eqI) (simp only: bit_drop_bit_eq comp_apply le_add1)
qed

lemma bits_above_3:
  "(\<forall>n<13. bit (ucast x :: u32) (15 - n) = bit (ucast x' :: u32) (15 - n)) \<longleftrightarrow>
   (\<forall>m\<ge>3. bit (x :: u16) m = bit (x' :: u16) m)"
proof -
  have u: "bit (ucast w :: u32) k = bit w k" for w :: u16 and k
    by (auto simp: bit_ucast_iff dest: bit_imp_le_length)
  have "bit w m \<Longrightarrow> m < 16" for w :: u16 and m using bit_imp_le_length [of w m] by simp
  then have "(\<forall>m\<ge>3. bit x m = bit x' m) \<longleftrightarrow> (\<forall>m. 3 \<le> m \<and> m < 16 \<longrightarrow> bit x m = bit x' m)" by metis
  also have "\<dots> \<longleftrightarrow> (\<forall>n<13. bit x (15 - n) = bit x' (15 - n))"
  proof
    assume a: "\<forall>n<13. bit x (15 - n) = bit x' (15 - n)"
    show "\<forall>m. 3 \<le> m \<and> m < 16 \<longrightarrow> bit x m = bit x' m"
    proof (intro allI impI)
      fix m :: nat assume "3 \<le> m \<and> m < 16"
      then have "15 - m < 13" "15 - (15 - m) = m" by linarith+
      then show "bit x m = bit x' m" using a by metis
    qed
  next
    assume a: "\<forall>m. 3 \<le> m \<and> m < 16 \<longrightarrow> bit x m = bit x' m"
    show "\<forall>n<13. bit x (15 - n) = bit x' (15 - n)"
      by (intro allI impI, rule a [rule_format]) linarith
  qed
  finally show ?thesis unfolding u by simp
qed

lemma path_same_leaf:
  "path 13 (ucast x) (ucast y) = path 13 (ucast x') (ucast y') \<longleftrightarrow> same_leaf x y x' y'"
  unfolding same_leaf_def drop_bit_3_bits bits_above_3 [symmetric] by (subst path_eq) auto

lemma getQTNode_cong: "tree_ok 13 (g_root g) \<Longrightarrow> same_leaf x y x' y' \<Longrightarrow> getQTNode g x y = getQTNode g x' y'"
  using path_same_leaf [of x y x' y'] getLeafStatic_follow [of 12 "g_root g"]
  by (simp add: getQTNode_def del: tree_ok.simps path.simps)

lemma getLeaf_16: "tree_ok 13 (g_root g) \<Longrightarrow>
    getLeaf (g_root g) (ucast x) (ucast y) = getQTNode g x y"
  using getLeaf_follow [of 13 "g_root g"] getLeafStatic_follow [of 12 "g_root g"]
  by (simp add: getQTNode_def del: tree_ok.simps path.simps)

text \<open>The offsets to the neighbours are taken at 32 bits; only the lower 16 count.\<close>

lemma getLeaf_low: "tree_ok 13 n \<Longrightarrow> (ucast x :: u16) = ucast x' \<Longrightarrow> (ucast y :: u16) = ucast y' \<Longrightarrow>
    getLeaf n x y = getLeaf n x' y'"
proof -
  assume ok: "tree_ok 13 n" and "(ucast x :: u16) = ucast x'" "(ucast y :: u16) = ucast y'"
  then have "bit (ucast x :: u16) k = bit (ucast x' :: u16) k" "bit (ucast y :: u16) k = bit (ucast y' :: u16) k" for k
    by simp_all
  then have "k < 16 \<and> bit x k \<longleftrightarrow> k < 16 \<and> bit x' k" "k < 16 \<and> bit y k \<longleftrightarrow> k < 16 \<and> bit y' k" for k
    by (simp_all add: bit_ucast_iff)
  then have b: "bit x k = bit x' k" "bit y k = bit y' k" if "k < 16" for k
    using that by blast+
  have "path 13 x y = path 13 x' y'" by (subst path_eq) (auto simp: b)
  then show ?thesis by (simp only: getLeaf_follow [OF ok])
qed

lemma getLeaf_neighbour:
  assumes "tree_ok 13 (g_root g)"
  shows "getLeaf (g_root g) (ucast x) (ucast y - 8) = getQTNode g x (y - 8)"
    "getLeaf (g_root g) (ucast x - 8) (ucast y) = getQTNode g (x - 8) y"
    "getLeaf (g_root g) (ucast x) (ucast y + 8) = getQTNode g x (y + 8)"
    "getLeaf (g_root g) (ucast x + 8) (ucast y) = getQTNode g (x + 8) y"
proof -
  have low: "(ucast (of_int k :: u32) :: u16) = of_int k" for k
    by (rule ucast_down_wi) (simp add: is_down)
  have m: "(ucast (ucast w - 8 :: u32) :: u16) = ucast (ucast (w - 8) :: u32)"
    "(ucast (ucast w + 8 :: u32) :: u16) = ucast (ucast (w + 8) :: u32)" for w :: u16
    using low [of "uint w - 8"] low [of "uint w + 8"] low [of "uint (w - 8)"] low [of "uint (w + 8)"] by simp_all
  show "getLeaf (g_root g) (ucast x) (ucast y - 8) = getQTNode g x (y - 8)"
    "getLeaf (g_root g) (ucast x - 8) (ucast y) = getQTNode g (x - 8) y"
    "getLeaf (g_root g) (ucast x) (ucast y + 8) = getQTNode g x (y + 8)"
    "getLeaf (g_root g) (ucast x + 8) (ucast y) = getQTNode g (x + 8) y"
    unfolding getLeaf_16 [OF assms, symmetric] by (rule getLeaf_low [OF assms]; simp only: m refl)+
qed

text \<open>What a leaf holds besides its links.\<close>

definition contents :: "qleaf \<Rightarrow> qleaf" where
  "contents l = l\<lparr>leafS := None, leafE := None\<rparr>"

lemma contents_simps [simp]:
  "contents (l\<lparr>leafS := s\<rparr>) = contents l" "contents (l\<lparr>leafE := s\<rparr>) = contents l"
  "floors (contents l) = floors l" "creature_list (contents l) = creature_list l"
  "player_list (contents l) = player_list l"
  by (simp_all add: contents_def)

lemma contents_eqD:
  assumes "contents l = contents l'"
  shows "floors l = floors l'" "creature_list l = creature_list l'" "player_list l = player_list l'"
  using assms by (metis contents_simps(3-5))+

lemma leaf_upd_leaf:
  "leaf (upd_leaf l f g) k = (if k = l \<and> l < length (g_leaves g) then f (leaf g l) else leaf g k)"
  by (cases "l < length (g_leaves g)")
    (auto simp: leaf_def upd_leaf_def nth_list_update list_update_beyond)

lemma upd_leaf_simps [simp]:
  "g_root (upd_leaf l f g) = g_root g" "length (g_leaves (upd_leaf l f g)) = length (g_leaves g)"
  "spectatorCache (upd_leaf l f g) = spectatorCache g"
  "playersSpectatorCache (upd_leaf l f g) = playersSpectatorCache g"
  "g_root (upd_leaf_opt lo f g) = g_root g" "length (g_leaves (upd_leaf_opt lo f g)) = length (g_leaves g)"
  "spectatorCache (upd_leaf_opt lo f g) = spectatorCache g"
  "playersSpectatorCache (upd_leaf_opt lo f g) = playersSpectatorCache g"
  "getQTNode (upd_leaf l f g) = getQTNode g" "getQTNode (upd_leaf_opt lo f g) = getQTNode g"
  by (simp_all add: upd_leaf_def upd_leaf_opt_def getQTNode_def fun_eq_iff split: option.split)

lemma leaf_upd_leaf_opt:
  "leaf (upd_leaf_opt lo f g) k = (if lo = Some k \<and> k < length (g_leaves g) then f (leaf g k) else leaf g k)"
  by (auto simp: upd_leaf_opt_def leaf_upd_leaf split: option.split)

lemma createLeaf_lookup:
  assumes ok: "tree_ok 13 (g_root g)"
    and r: "createLeaf (length (g_leaves g)) (ucast x) (ucast y) 15 (g_root g) = (root, l, newLeaf)"
  shows "tree_ok 13 root"
    and "g_root h = root \<Longrightarrow> getQTNode h x' y' = (if same_leaf x' y' x y then Some l else getQTNode g x' y')"
    and "getQTNode g x y = (if newLeaf then None else Some l)" and "newLeaf \<Longrightarrow> l = length (g_leaves g)"
proof -
  have "leaf_created 13 (length (g_leaves g)) (path 13 (ucast x) (ucast y)) (g_root g)
      (createLeaf (length (g_leaves g)) (ucast x) (ucast y) 15 (g_root g))"
    by (rule createLeaf_created [OF ok]) simp_all
  then have c: "leaf_created 13 (length (g_leaves g)) (path 13 (ucast x) (ucast y)) (g_root g) (root, l, newLeaf)"
    unfolding r .
  then show ok': "tree_ok 13 root" and "newLeaf \<Longrightarrow> l = length (g_leaves g)"
    by (auto simp: leaf_created_def simp del: tree_ok.simps path.simps)
  have f: "getQTNode h a b = follow (g_root h) (path 13 (ucast a) (ucast b))" if "tree_ok 13 (g_root h)" for h a b
    using that getLeafStatic_follow [of 12 "g_root h"] by (simp add: getQTNode_def del: tree_ok.simps path.simps)
  show "getQTNode g x y = (if newLeaf then None else Some l)"
    using c f [OF ok] by (auto simp: leaf_created_def simp del: tree_ok.simps path.simps)
  show "getQTNode h x' y' = (if same_leaf x' y' x y then Some l else getQTNode g x' y')" if "g_root h = root"
    using c path_less [of _ 13 "ucast x'" "ucast y'"] path_same_leaf [of x' y' x y]
    unfolding f [OF ok] f [of h, unfolded that, OF ok']
    by (auto simp: leaf_created_def simp del: tree_ok.simps path.simps)
qed

lemma grid_okD:
  assumes "grid_ok g"
  shows "tree_ok 13 (g_root g)"
    and "getQTNode g x y = Some l \<Longrightarrow> l < length (g_leaves g)"
    and "getQTNode g x y = Some l \<Longrightarrow> getQTNode g x' y' = Some l \<Longrightarrow> same_leaf x y x' y'"
    and "getQTNode g x y = Some l \<Longrightarrow> leafE (leaf g l) = getQTNode g (x + 8) y"
    and "getQTNode g x y = Some l \<Longrightarrow> leafS (leaf g l) = getQTNode g x (y + 8)"
    and "same_leaf x y x' y' \<Longrightarrow> getQTNode g x y = getQTNode g x' y'"
  using assms getQTNode_cong [of g x y x' y'] unfolding grid_ok_def by blast+

lemma getQTNode_new [simp]: "getQTNode new_grid x y = None"
  by (simp add: getQTNode_def new_grid_def new_node_def getLeafStatic.simps)

lemma grid_ok_new: "grid_ok new_grid"
  by (simp add: grid_ok_def) (simp add: new_grid_def new_node_def eval_nat_numeral)

text \<open>A new leaf, as it is after its neighbours have been updated.\<close>

definition linked_leaf :: "u16 \<Rightarrow> u16 \<Rightarrow> grid \<Rightarrow> qnode \<Rightarrow> nat \<Rightarrow> qleaf" where
  "linked_leaf x y g root k =
     (if k = length (g_leaves g)
      then new_leaf\<lparr>leafS := getQTNode g x (y + 8), leafE := getQTNode g (x + 8) y\<rparr>
      else let l = (if getQTNode g x (y - 8) = Some k then (leaf g k)\<lparr>leafS := Some (length (g_leaves g))\<rparr>
                    else leaf g k)
           in if getQTNode g (x - 8) y = Some k then l\<lparr>leafE := Some (length (g_leaves g))\<rparr> else l)"

lemma link_leaf_new:
  assumes ok: "grid_ok g" and new: "getQTNode g x y = None"
  obtains root where "link_leaf x y g = (length (g_leaves g), snd (link_leaf x y g))"
    and "g_root (snd (link_leaf x y g)) = root" and "tree_ok 13 root"
    and "length (g_leaves (snd (link_leaf x y g))) = Suc (length (g_leaves g))"
    and "\<And>k. k \<le> length (g_leaves g) \<Longrightarrow> leaf (snd (link_leaf x y g)) k = linked_leaf x y g root k"
    and "\<And>x' y'. getQTNode (snd (link_leaf x y g)) x' y' =
           (if same_leaf x' y' x y then Some (length (g_leaves g)) else getQTNode g x' y')"
    and "spectatorCache (snd (link_leaf x y g)) = spectatorCache g"
    and "playersSpectatorCache (snd (link_leaf x y g)) = playersSpectatorCache g"
proof -
  let ?n = "length (g_leaves g)"
  obtain root l newLeaf where r: "createLeaf ?n (ucast x) (ucast y) 15 (g_root g) = (root, l, newLeaf)"
    by (metis prod_cases3)
  note c = createLeaf_lookup [OF grid_okD(1) [OF ok] r]
  have l: "newLeaf" "l = ?n" using c(3,4) new by (auto split: if_splits)
  define g1 where "g1 = g\<lparr>g_root := root, g_leaves := g_leaves g @ [new_leaf]\<rparr>"
  have look1: "getQTNode g1 x' y' = (if same_leaf x' y' x y then Some ?n else getQTNode g x' y')" for x' y'
    using c(2) [of g1] l by (simp add: g1_def)
  have root1: "g_root g1 = root" by (simp add: g1_def)
  have tree1: "tree_ok 13 (g_root g1)" using c(1) by (simp only: root1)
  note nb = getLeaf_neighbour [OF tree1, unfolded root1]
  have neq: "\<not> same_leaf x (y - 8) x y" "\<not> same_leaf (x - 8) y x y" "\<not> same_leaf x (y + 8) x y"
    "\<not> same_leaf (x + 8) y x y"
    by (simp_all only: same_leaf_def cell_shift(3,4) simp_thms)
  define g2 where "g2 = upd_leaf_opt (getQTNode g x (y - 8)) (\<lambda>l. l\<lparr>leafS := Some ?n\<rparr>) g1"
  define g3 where "g3 = upd_leaf_opt (getQTNode g (x - 8) y) (\<lambda>l. l\<lparr>leafE := Some ?n\<rparr>) g2"
  define g4 where "g4 = (if getQTNode g x (y + 8) \<noteq> None then upd_leaf ?n (\<lambda>l. l\<lparr>leafS := getQTNode g x (y + 8)\<rparr>) g3 else g3)"
  define g5 where "g5 = (if getQTNode g (x + 8) y \<noteq> None then upd_leaf ?n (\<lambda>l. l\<lparr>leafE := getQTNode g (x + 8) y\<rparr>) g4 else g4)"
  have eq: "link_leaf x y g = (?n, g5)"
    unfolding link_leaf_def Let_def r prod.case g5_def g4_def g3_def g2_def
    by (simp only: l if_True g1_def [symmetric] nb look1 neq if_False)
  have len: "length (g_leaves g1) = Suc ?n" "length (g_leaves g2) = Suc ?n" "length (g_leaves g3) = Suc ?n"
    "length (g_leaves g4) = Suc ?n" "length (g_leaves g5) = Suc ?n"
    by (simp_all add: g1_def g2_def g3_def g4_def g5_def)
  have leaf1: "leaf g1 k = (if k = ?n then new_leaf else leaf g k)" if "k \<le> ?n" for k
    using that by (simp add: leaf_def g1_def nth_append)
  have old: "getQTNode g a b \<noteq> Some ?n" for a b using grid_okD(2) [OF ok, of a b ?n] by auto
  have "leaf g5 k = linked_leaf x y g root k" if k: "k \<le> ?n" for k
    using k old
    by (auto simp: linked_leaf_def g5_def g4_def g3_def g2_def leaf_upd_leaf leaf_upd_leaf_opt len(1)
        leaf1 Let_def new_leaf_def)
  moreover have "g_root g5 = root" "getQTNode g5 = getQTNode g1"
    by (simp_all add: g5_def g4_def g3_def g2_def root1)
  moreover have "spectatorCache g5 = spectatorCache g" "playersSpectatorCache g5 = playersSpectatorCache g"
    by (simp_all add: g5_def g4_def g3_def g2_def g1_def)
  ultimately show ?thesis using that [of root] c(1) len(5) look1 by (simp add: eq del: tree_ok.simps)
qed

lemma link_leaf_old:
  assumes ok: "grid_ok g" and old: "getQTNode g x y = Some l"
  obtains g' where "link_leaf x y g = (l, g')" and "tree_ok 13 (g_root g')" and "g_leaves g' = g_leaves g"
    and "getQTNode g' = getQTNode g"
    and "spectatorCache g' = spectatorCache g" "playersSpectatorCache g' = playersSpectatorCache g"
proof -
  let ?n = "length (g_leaves g)"
  obtain root l' newLeaf where r: "createLeaf ?n (ucast x) (ucast y) 15 (g_root g) = (root, l', newLeaf)"
    by (metis prod_cases3)
  note c = createLeaf_lookup [OF grid_okD(1) [OF ok] r]
  have l: "\<not> newLeaf" "l' = l" using c(3) old by (auto split: if_splits)
  define g' where "g' = g\<lparr>g_root := root\<rparr>"
  have look: "getQTNode g' x' y' = getQTNode g x' y'" for x' y'
    using c(2) [of g'] l old grid_okD(6) [OF ok, of x' y' x y] by (auto simp: g'_def)
  have "link_leaf x y g = (l, g')" using l by (simp add: link_leaf_def r g'_def)
  then show ?thesis using that [of g'] look c(1) by (simp add: g'_def fun_eq_iff del: tree_ok.simps)
qed

text \<open>What is known of the eight by eight fields around a field.\<close>

definition cell :: "grid \<Rightarrow> u16 \<Rightarrow> u16 \<Rightarrow> qleaf option" where
  "cell g x y = map_option (\<lambda>l. contents (leaf g l)) (getQTNode g x y)"

lemma link_leaf_ok:
  assumes ok: "grid_ok g" and new: "getQTNode g x y = None"
  shows "grid_ok (snd (link_leaf x y g))"
proof -
  let ?n = "length (g_leaves g)" and ?g = "snd (link_leaf x y g)"
  obtain root where r: "tree_ok 13 root" "g_root ?g = root" "length (g_leaves ?g) = Suc ?n"
    and leaves: "\<And>k. k \<le> ?n \<Longrightarrow> leaf ?g k = linked_leaf x y g root k"
    and look: "\<And>x' y'. getQTNode ?g x' y' = (if same_leaf x' y' x y then Some ?n else getQTNode g x' y')"
    using link_leaf_new [OF ok new] by metis
  have old: "k < ?n" if "getQTNode g a b = Some k" for a b k using grid_okD(2) [OF ok that] .
  have bound: "k < Suc ?n" if "getQTNode ?g a b = Some k" for a b k
    using that old by (fastforce simp: look split: if_splits)
  have inj: "same_leaf a b a' b'" if "getQTNode ?g a b = Some k" "getQTNode ?g a' b' = Some k" for a b a' b' k
    using that old grid_okD(3) [OF ok, of a b k a' b'] same_leaf_sym same_leaf_trans
    unfolding look by (metis less_irrefl option.inject)
  have links: "leafE (leaf ?g k) = getQTNode ?g (a + 8) b \<and> leafS (leaf ?g k) = getQTNode ?g a (b + 8)"
    if k: "getQTNode ?g a b = Some k" for a b k
  proof (cases "same_leaf a b x y")
    case True
    then have "k = ?n" using k by (simp add: look)
    then have l: "leafE (leaf ?g k) = getQTNode g (x + 8) y" "leafS (leaf ?g k) = getQTNode g x (y + 8)"
      using leaves [of ?n] by (simp_all add: linked_leaf_def)
    have s: "same_leaf (a + 8) b (x + 8) y" "same_leaf a (b + 8) x (y + 8)"
      using True cell_shift(2) [of a x] cell_shift(2) [of b y] unfolding same_leaf_def by simp_all
    then have "\<not> same_leaf (a + 8) b x y" "\<not> same_leaf a (b + 8) x y"
      using cell_shift(3) [of x] cell_shift(3) [of y] unfolding same_leaf_def by simp_all
    then show ?thesis using l grid_okD(6) [OF ok s(1)] grid_okD(6) [OF ok s(2)] by (simp add: look)
  next
    case False
    then have g: "getQTNode g a b = Some k" using k by (simp add: look)
    then have k': "k < ?n" by (rule old)
    have W: "getQTNode g (x - 8) y = Some k \<longleftrightarrow> same_leaf (a + 8) b x y"
    proof -
      have "same_leaf a b (x - 8) y \<longleftrightarrow> same_leaf (a + 8) b x y" by (simp only: same_leaf_def cell_shift(1))
      then show ?thesis using grid_okD(3) [OF ok g] grid_okD(6) [OF ok, of a b "x - 8" y] g by metis
    qed
    have N: "getQTNode g x (y - 8) = Some k \<longleftrightarrow> same_leaf a (b + 8) x y"
    proof -
      have "same_leaf a b x (y - 8) \<longleftrightarrow> same_leaf a (b + 8) x y" by (simp only: same_leaf_def cell_shift(1))
      then show ?thesis using grid_okD(3) [OF ok g] grid_okD(6) [OF ok, of a b x "y - 8"] g by metis
    qed
    have "leafE (leaf ?g k) = (if same_leaf (a + 8) b x y then Some ?n else leafE (leaf g k))"
      "leafS (leaf ?g k) = (if same_leaf a (b + 8) x y then Some ?n else leafS (leaf g k))"
      using leaves [of k] k' W N by (simp_all add: linked_leaf_def Let_def)
    then show ?thesis using grid_okD(4,5) [OF ok g] by (simp add: look)
  qed
  show ?thesis unfolding grid_ok_def
  proof (intro conjI allI impI)
    show "tree_ok 13 (g_root ?g)" using r by (simp only:)
    show "l < length (g_leaves ?g)" if "getQTNode ?g a b = Some l" for a b l using bound [OF that] r(3) by simp
    show "same_leaf a b a' b'" if "getQTNode ?g a b = Some l" "getQTNode ?g a' b' = Some l" for a b a' b' l
      using that by (rule inj)
    show "leafE (leaf ?g l) = getQTNode ?g (a + 8) b" if "getQTNode ?g a b = Some l" for a b l
      using links [OF that] by simp
    show "leafS (leaf ?g l) = getQTNode ?g a (b + 8)" if "getQTNode ?g a b = Some l" for a b l
      using links [OF that] by simp
  qed
qed

lemma linked_leaf_contents:
  "contents (linked_leaf x y g root k) = (if k = length (g_leaves g) then new_leaf else contents (leaf g k))"
  by (simp add: linked_leaf_def Let_def) (simp add: contents_def new_leaf_def)

lemma link_leaf_spec:
  assumes ok: "grid_ok g" and r: "link_leaf x y g = (l, g')"
  shows "grid_ok g'" and "getQTNode g' x y = Some l"
    and "cell g' a b = (if same_leaf a b x y then Some (case cell g x y of None \<Rightarrow> new_leaf | Some c \<Rightarrow> c) else cell g a b)"
    and "spectatorCache g' = spectatorCache g" "playersSpectatorCache g' = playersSpectatorCache g"
proof -
  have "grid_ok g' \<and> getQTNode g' x y = Some l
      \<and> cell g' a b = (if same_leaf a b x y then Some (case cell g x y of None \<Rightarrow> new_leaf | Some c \<Rightarrow> c) else cell g a b)
      \<and> spectatorCache g' = spectatorCache g \<and> playersSpectatorCache g' = playersSpectatorCache g"
  proof (cases "getQTNode g x y")
    case None
    let ?n = "length (g_leaves g)"
    obtain root where e: "link_leaf x y g = (?n, g')"
      and leaves: "\<And>k. k \<le> ?n \<Longrightarrow> leaf g' k = linked_leaf x y g root k"
      and look: "\<And>x' y'. getQTNode g' x' y' = (if same_leaf x' y' x y then Some ?n else getQTNode g x' y')"
      and c: "spectatorCache g' = spectatorCache g" "playersSpectatorCache g' = playersSpectatorCache g"
      using link_leaf_new [OF ok None] r by (metis snd_conv)
    have "l = ?n" using e r by simp
    moreover have "cell g' a b = (if same_leaf a b x y then Some new_leaf else cell g a b)"
    proof (cases "getQTNode g a b")
      case None
      then show ?thesis using leaves [of ?n] by (simp add: cell_def look linked_leaf_contents)
    next
      case (Some k)
      then have "k < ?n" using grid_okD(2) [OF ok] by blast
      then show ?thesis using leaves [of ?n] leaves [of k] Some by (simp add: cell_def look linked_leaf_contents)
    qed
    ultimately show ?thesis using link_leaf_ok [OF ok None] None c by (simp add: r look cell_def)
  next
    case (Some k)
    obtain h where h: "link_leaf x y g = (k, h)" "tree_ok 13 (g_root h)" "g_leaves h = g_leaves g"
      "getQTNode h = getQTNode g" "spectatorCache h = spectatorCache g" "playersSpectatorCache h = playersSpectatorCache g"
      using link_leaf_old [OF ok Some] by metis
    have "grid_ok h" using ok h(2-4) by (simp add: grid_ok_def leaf_def del: tree_ok.simps)
    moreover have "cell h = cell g" using h(3,4) by (simp add: cell_def leaf_def fun_eq_iff)
    ultimately show ?thesis
      using h r Some grid_okD(6) [OF ok, of a b x y] by (auto simp: cell_def)
  qed
  then show "grid_ok g'" and "getQTNode g' x y = Some l"
    and "cell g' a b = (if same_leaf a b x y then Some (case cell g x y of None \<Rightarrow> new_leaf | Some c \<Rightarrow> c) else cell g a b)"
    and "spectatorCache g' = spectatorCache g" "playersSpectatorCache g' = playersSpectatorCache g"
    by blast+
qed

lemma cell_same_leaf: "grid_ok g \<Longrightarrow> same_leaf a b x y \<Longrightarrow> cell g a b = cell g x y"
  by (simp add: cell_def grid_okD(6) [of g a b x y])

lemma upd_leaf_ok:
  assumes ok: "grid_ok g" and l: "getQTNode g x y = Some l"
    and f: "leafS (f (leaf g l)) = leafS (leaf g l)" "leafE (f (leaf g l)) = leafE (leaf g l)"
  shows "grid_ok (upd_leaf l f g)"
    and "cell (upd_leaf l f g) a b = (if same_leaf a b x y then Some (contents (f (leaf g l))) else cell g a b)"
proof -
  have "l < length (g_leaves g)" using grid_okD(2) [OF ok l] .
  then have e: "leaf (upd_leaf l f g) k = (if k = l then f (leaf g l) else leaf g k)" for k
    by (simp add: leaf_upd_leaf)
  have links: "leafS (leaf (upd_leaf l f g) k) = leafS (leaf g k)" "leafE (leaf (upd_leaf l f g) k) = leafE (leaf g k)" for k
    using f by (simp_all add: e)
  show "grid_ok (upd_leaf l f g)" using ok unfolding grid_ok_def by (simp add: links del: tree_ok.simps)
  have "getQTNode g a b = Some l \<longleftrightarrow> same_leaf a b x y"
    using grid_okD(3) [OF ok _ l] grid_okD(6) [OF ok, of a b x y] l by metis
  then show "cell (upd_leaf l f g) a b = (if same_leaf a b x y then Some (contents (f (leaf g l))) else cell g a b)"
    by (cases "getQTNode g a b") (auto simp: cell_def e)
qed

section \<open>The map as a function from positions to tiles\<close>

lemma field_eq:
  "same_leaf x y x' y' \<Longrightarrow> (ucast x AND 7 :: u32) = ucast x' AND 7 \<Longrightarrow> (ucast y AND 7 :: u32) = ucast y' AND 7 \<Longrightarrow>
   x = x' \<and> y = y'"
proof -
  have eq: "x = x'" if d: "drop_bit 3 x = drop_bit 3 x'" and m: "(ucast x AND 7 :: u32) = ucast x' AND 7" for x x' :: u16
  proof (rule bit_eqI)
    fix n
    have "(7 :: u32) = mask 3" by (simp add: mask_eq_exp_minus_1)
    then have "bit (ucast x AND mask 3 :: u32) n = bit (ucast x' AND mask 3 :: u32) n" using m by simp
    then show "bit x n = bit x' n"
      using d unfolding drop_bit_3_bits
      by (cases "n < 3") (auto simp: bit_and_iff bit_mask_iff bit_ucast_iff)
  qed
  assume "same_leaf x y x' y'" "(ucast x AND 7 :: u32) = ucast x' AND 7" "(ucast y AND 7 :: u32) = ucast y' AND 7"
  then show ?thesis using eq unfolding same_leaf_def by blast
qed

lemma getTile_cell:
  "getTile g x y z =
     (if z \<ge> MAP_MAX_LAYERS then None
      else case cell g x y of None \<Rightarrow> None
      | Some c \<Rightarrow> (case floors c (ucast z) of None \<Rightarrow> None
                  | Some f \<Rightarrow> f (ucast x AND FLOOR_MASK) (ucast y AND FLOOR_MASK)))"
  by (auto simp: getTile_def cell_def getQTNode_def [symmetric] split: option.split)

lemma ucast_layer_eq: "(ucast (z :: u8) :: u32) = ucast z' \<longleftrightarrow> z = z'"
  by (metis unat_ucast_u8_u32 word_unat_eq_iff)

lemma setTile_slot_spec:
  assumes ok: "grid_ok g" and z: "\<not> z \<ge> MAP_MAX_LAYERS"
    and r: "setTile_slot x y z newTile g = (old, g')"
  shows "grid_ok g'" and "old = getTile g x y z"
    and "getTile g' x' y' z' =
           (if x' = x \<and> y' = y \<and> z' = z \<and> old = None then Some newTile else getTile g x' y' z')"
    and "map_option creature_list (cell g' a b) = (case cell g a b of
           None \<Rightarrow> if same_leaf a b x y then Some [] else None | Some c \<Rightarrow> Some (creature_list c))"
    and "map_option player_list (cell g' a b) = (case cell g a b of
           None \<Rightarrow> if same_leaf a b x y then Some [] else None | Some c \<Rightarrow> Some (player_list c))"
    and "spectatorCache g' = spectatorCache g" "playersSpectatorCache g' = playersSpectatorCache g"
proof -
  let ?x = "ucast x AND FLOOR_MASK" and ?y = "ucast y AND FLOOR_MASK" and ?z = "ucast z :: u32"
  obtain l g1 where g1: "link_leaf x y g = (l, g1)" by fastforce
  note s1 = link_leaf_spec [OF ok g1]
  define f lf where "f = fst (createFloor ?z (leaf g1 l))" and "lf = snd (createFloor ?z (leaf g1 l))"
  define g2 where "g2 = upd_leaf l (\<lambda>_. lf) g1"
  define lf' where "lf' = (if f ?x ?y = None
     then lf\<lparr>floors := (floors lf)(?z := Some (f(?x := (f ?x)(?y := Some newTile))))\<rparr> else lf)"
  have lf: "leafS lf = leafS (leaf g1 l)" "leafE lf = leafE (leaf g1 l)" "creature_list lf = creature_list (leaf g1 l)"
    "player_list lf = player_list (leaf g1 l)" "floors lf = (floors (leaf g1 l))(?z := Some f)"
    and f: "f = (case floors (leaf g1 l) ?z of None \<Rightarrow> empty_floor | Some f \<Rightarrow> f)"
    by (auto simp: f_def lf_def createFloor_def split: option.split)
  have g': "old = f ?x ?y" "g' = upd_leaf l (\<lambda>_. lf') g1"
  proof -
    have l: "l < length (g_leaves g1)" using grid_okD(2) [OF s1(1,2)] .
    have lf2: "leaf g2 l = lf" using l by (simp add: g2_def leaf_upd_leaf)
    have upd2: "upd_leaf l h g2 = upd_leaf l (\<lambda>_. h lf) g1" for h
      using l by (simp add: g2_def upd_leaf_def)
    have cf: "createFloor ?z (leaf g1 l) = (f, lf)" by (simp add: f_def lf_def)
    have "setTile_slot x y z newTile g = (case f ?x ?y of Some old \<Rightarrow> (Some old, g2)
        | None \<Rightarrow> (None, upd_leaf l (\<lambda>lf. lf\<lparr>floors := (floors lf)(?z := Some (f(?x := (f ?x)(?y := Some newTile))))\<rparr>) g2))"
      using z by (simp only: setTile_slot_def g1 cf Let_def prod.case if_False g2_def)
    then show "old = f ?x ?y" "g' = upd_leaf l (\<lambda>_. lf') g1"
      unfolding r upd2 by (cases "f ?x ?y"; simp add: lf'_def g2_def)+
  qed
  have links: "leafS lf' = leafS (leaf g1 l)" "leafE lf' = leafE (leaf g1 l)"
    "creature_list lf' = creature_list (leaf g1 l)" "player_list lf' = player_list (leaf g1 l)"
    using lf by (simp_all add: lf'_def)
  note s2 = upd_leaf_ok [OF s1(1,2), of "\<lambda>_. lf'", folded g'(2), OF links(1,2)]
  show "grid_ok g'" by (rule s2(1))
  show "spectatorCache g' = spectatorCache g" "playersSpectatorCache g' = playersSpectatorCache g"
    using s1(4,5) by (simp_all add: g'(2))
  define c where "c = (case cell g x y of None \<Rightarrow> new_leaf | Some c \<Rightarrow> c)"
  have c: "contents (leaf g1 l) = c" using s1(2) s1(3) [of x y] by (simp add: cell_def c_def)
  have cell: "cell g' a b = (if same_leaf a b x y then Some (contents lf') else cell g a b)" for a b
    using s2(2) s1(3) [of a b] by simp
  have lists: "creature_list lf' = creature_list c" "player_list lf' = player_list c"
    using links(3,4) c by (metis contents_simps(4,5))+
  have fl: "floors (leaf g1 l) = floors c" using c by (metis contents_simps(3))
  show "map_option creature_list (cell g' a b) = (case cell g a b of
           None \<Rightarrow> if same_leaf a b x y then Some [] else None | Some c \<Rightarrow> Some (creature_list c))"
    "map_option player_list (cell g' a b) = (case cell g a b of
           None \<Rightarrow> if same_leaf a b x y then Some [] else None | Some c \<Rightarrow> Some (player_list c))"
    using cell_same_leaf [OF ok, of a b x y] by (auto simp: cell lists c_def new_leaf_def split: option.split)
  have old: "old = getTile g x y z"
    using z by (simp add: g'(1) f fl getTile_cell c_def new_leaf_def empty_floor_def split: option.split)
  then show "old = getTile g x y z" .
  have floors': "floors lf' = (floors c)(?z := Some (if f ?x ?y = None then f(?x := (f ?x)(?y := Some newTile)) else f))"
    using lf(5) by (simp add: lf'_def fl)
  show "getTile g' x' y' z' = (if x' = x \<and> y' = y \<and> z' = z \<and> old = None then Some newTile else getTile g x' y' z')"
  proof (cases "same_leaf x' y' x y")
    case False
    then have "\<not> (x' = x \<and> y' = y)" by auto
    then show ?thesis using False by (auto simp: getTile_cell cell)
  next
    case True
    have g: "cell g x' y' = cell g x y" by (rule cell_same_leaf [OF ok True])
    show ?thesis
    proof (cases "z' = z")
      case False
      then show ?thesis using True g
        by (simp add: getTile_cell cell floors' ucast_layer_eq c_def new_leaf_def split: option.split)
    next
      case z': True
      have "(ucast x' AND 7 :: u32) = ucast x AND 7 \<and> (ucast y' AND 7 :: u32) = ucast y AND 7 \<longleftrightarrow> x' = x \<and> y' = y"
        using field_eq [OF True] by auto
      then show ?thesis using True z z' old g
        by (auto simp: getTile_cell cell floors' g'(1) f fl c_def new_leaf_def empty_floor_def split: option.splits)
    qed
  qed
qed

section \<open>Maps built from tiles\<close>

definition put_tiles :: "((u16 \<times> u16 \<times> u8) \<times> nat) list \<Rightarrow> grid \<Rightarrow> grid" where
  "put_tiles ps g = fold (\<lambda>((x, y, z), t) g. snd (setTile_slot x y z t g)) ps g"

lemma put_tiles_map:
  "grid_ok g \<Longrightarrow>
   grid_ok (put_tiles ps g)
   \<and> getTile (put_tiles ps g) x y z =
       (case getTile g x y z of Some t \<Rightarrow> Some t
        | None \<Rightarrow> if z \<ge> MAP_MAX_LAYERS then None else map_of ps (x, y, z))"
proof (induction ps arbitrary: g)
  case Nil
  then show ?case by (simp add: put_tiles_def getTile_def split: option.split)
next
  case (Cons p ps)
  obtain a b c t where p: "p = ((a, b, c), t)" by (metis prod.collapse)
  define g' where "g' = snd (setTile_slot a b c t g)"
  have fold: "put_tiles (((a, b, c), t) # ps) g = put_tiles ps g'" by (simp add: put_tiles_def g'_def)
  show ?case
  proof (cases "c \<ge> MAP_MAX_LAYERS")
    case True
    then have "g' = g" by (simp add: g'_def setTile_slot_def)
    then show ?thesis unfolding p fold using Cons.IH [OF Cons.prems] True by (simp split: option.split)
  next
    case False
    obtain old where r: "setTile_slot a b c t g = (old, g')" unfolding g'_def by (metis prod.collapse)
    note s = setTile_slot_spec [OF Cons.prems False r]
    show ?thesis unfolding p fold using Cons.IH [OF s(1)] s(3) [of x y z] s(2) False
      by (simp split: option.split)
  qed
qed

text \<open>C10: The map built by any sequence of \<open>setTile\<close> calls answers \<open>getTile\<close> as a finite map from
  positions to tiles would: the first tile put on a position with a valid floor is found there, and
  nothing is found anywhere else. The quadtree, its links and the masked coordinates do not show.\<close>

theorem map_is_a_function_of_positions:
  "getTile (put_tiles ps new_grid) x y z = (if z \<ge> MAP_MAX_LAYERS then None else map_of ps (x, y, z))"
proof -
  have "getTile new_grid x y z = None" by (simp add: getTile_cell cell_def)
  then show ?thesis using put_tiles_map [OF grid_ok_new, of ps x y z] by simp
qed

end
