(* ===== verification/Spectators.thy ===== *)
theory Spectators
  imports MapGrid
begin

text \<open>
  The search for the creatures around a position: \<open>getSpectatorsInternal\<close>, \<open>getSpectators\<close> and its two
  caches, \<open>clearSpectatorCache\<close>, \<open>canThrowObjectTo\<close>, \<open>checkSightLine\<close> and \<open>isSightClear\<close> of
  \<open>src/src/map/map.cpp\<close>. A set of spectators is a \<open>nat set\<close>; what the search reads of creatures and
  tiles is passed to it: the position of a creature and whether it is a player.
\<close>

record creature_view =
  cv_position :: "nat \<Rightarrow> position"
  cv_isPlayer :: "nat \<Rightarrow> bool"

record view_range =
  minRangeX :: int
  maxRangeX :: int
  minRangeY :: int
  maxRangeY :: int
  minRangeZ :: int
  maxRangeZ :: int

section \<open>The scan of the leaves\<close>

text \<open>The tests on one creature of a leaf.\<close>

definition in_view :: "position \<Rightarrow> view_range \<Rightarrow> position \<Rightarrow> bool" where
  "in_view centerPos r cpos \<longleftrightarrow>
     (if minRangeZ r > getZ cpos \<or> maxRangeZ r < getZ cpos then False
      else let offsetZ = getOffsetZ centerPos cpos;
               min_y = getY centerPos + minRangeY r;
               min_x = getX centerPos + minRangeX r;
               max_y = getY centerPos + maxRangeY r;
               max_x = getX centerPos + maxRangeX r
           in \<not> (min_y + offsetZ > getY cpos \<or> max_y + offsetZ < getY cpos
                \<or> min_x + offsetZ > getX cpos \<or> max_x + offsetZ < getX cpos))"

definition scan_leaf :: "creature_view \<Rightarrow> position \<Rightarrow> view_range \<Rightarrow> bool \<Rightarrow> qleaf \<Rightarrow> nat set \<Rightarrow> nat set" where
  "scan_leaf v centerPos r onlyPlayers l spectators =
     spectators \<union> set (filter (\<lambda>c. in_view centerPos r (cv_position v c))
                         (if onlyPlayers then player_list l else creature_list l))"

function scan_row ::
    "grid \<Rightarrow> (qleaf \<Rightarrow> nat set \<Rightarrow> nat set) \<Rightarrow> int \<Rightarrow> int \<Rightarrow> int \<Rightarrow> nat option \<Rightarrow> nat set \<Rightarrow> nat set" where
  "scan_row g scan endx2 ny nx leaf_E spectators =
     (if nx \<le> endx2
      then (case leaf_E of
              Some l \<Rightarrow> scan_row g scan endx2 ny (nx + 8) (leafE (leaf g l)) (scan (leaf g l) spectators)
            | None \<Rightarrow> scan_row g scan endx2 ny (nx + 8)
                        (getLeafStatic (g_root g) (of_int (nx + 8)) (of_int ny)) spectators)
      else spectators)"
  by pat_completeness auto
termination
  by (relation "measure (\<lambda>(g, scan, endx2, ny, nx, e, s). nat (endx2 + 8 - nx))") auto

function scan_rows ::
    "grid \<Rightarrow> (qleaf \<Rightarrow> nat set \<Rightarrow> nat set) \<Rightarrow> int \<Rightarrow> int \<Rightarrow> int \<Rightarrow> int \<Rightarrow> nat option \<Rightarrow> nat set \<Rightarrow> nat set" where
  "scan_rows g scan startx1 endx2 endy2 ny leaf_S spectators =
     (if ny \<le> endy2
      then let spectators = scan_row g scan endx2 ny startx1 leaf_S spectators
           in scan_rows g scan startx1 endx2 endy2 (ny + 8)
                (case leaf_S of
                   Some l \<Rightarrow> leafS (leaf g l)
                 | None \<Rightarrow> getLeafStatic (g_root g) (of_int startx1) (of_int (ny + 8))) spectators
      else spectators)"
  by pat_completeness auto
termination
  by (relation "measure (\<lambda>(g, scan, startx1, endx2, endy2, ny, l, s). nat (endy2 + 8 - ny))") auto

declare scan_row.simps [simp del] scan_rows.simps [simp del]

text \<open>A corner of the area, clamped to 16 bits, and the corner of the leaf it lies in.\<close>

definition clamp :: "int \<Rightarrow> int" where
  "clamp n = min 0xFFFF (max 0 n)"

definition leaf_corner :: "int \<Rightarrow> int" where
  "leaf_corner n = n - n mod 8"

definition getSpectatorsInternal ::
    "creature_view \<Rightarrow> grid \<Rightarrow> position \<Rightarrow> view_range \<Rightarrow> bool \<Rightarrow> nat set \<Rightarrow> nat set" where
  "getSpectatorsInternal v g centerPos r onlyPlayers spectators =
     (let min_y = getY centerPos + minRangeY r;
          min_x = getX centerPos + minRangeX r;
          max_y = getY centerPos + maxRangeY r;
          max_x = getX centerPos + maxRangeX r;
          minoffset = getZ centerPos - maxRangeZ r;
          x1 = clamp (min_x + minoffset);
          y1 = clamp (min_y + minoffset);
          maxoffset = getZ centerPos - minRangeZ r;
          x2 = clamp (max_x + maxoffset);
          y2 = clamp (max_y + maxoffset);
          startx1 = leaf_corner x1;
          starty1 = leaf_corner y1;
          endx2 = leaf_corner x2;
          endy2 = leaf_corner y2;
          startLeaf = getLeafStatic (g_root g) (of_int startx1) (of_int starty1)
      in scan_rows g (scan_leaf v centerPos r onlyPlayers) startx1 endx2 endy2 starty1 startLeaf spectators)"

section \<open>The caches\<close>

definition floor_range :: "position \<Rightarrow> bool \<Rightarrow> int \<times> int" where
  "floor_range centerPos multifloor =
     (if multifloor
      then (if getZ centerPos > 7 then (max (getZ centerPos - 2) 0, min (getZ centerPos + 2) 15)
            else if getZ centerPos = 6 then (0, 8)
            else if getZ centerPos = 7 then (0, 9)
            else (0, 7))
      else (getZ centerPos, getZ centerPos))"

abbreviation "maxViewportX \<equiv> (11 :: int)"
abbreviation "maxViewportY \<equiv> (11 :: int)"

text \<open>The range searched, where a zero asks for the default, and the look into the caches.\<close>

definition asked_range :: "position \<Rightarrow> bool \<Rightarrow> int \<Rightarrow> int \<Rightarrow> int \<Rightarrow> int \<Rightarrow> view_range" where
  "asked_range p multifloor rMinX rMaxX rMinY rMaxY =
     \<lparr>minRangeX = (if rMinX = 0 then - maxViewportX else - rMinX),
      maxRangeX = (if rMaxX = 0 then maxViewportX else rMaxX),
      minRangeY = (if rMinY = 0 then - maxViewportY else - rMinY),
      maxRangeY = (if rMaxY = 0 then maxViewportY else rMaxY),
      minRangeZ = fst (floor_range p multifloor), maxRangeZ = snd (floor_range p multifloor)\<rparr>"

definition cache_lookup :: "creature_view \<Rightarrow> grid \<Rightarrow> position \<Rightarrow> bool \<Rightarrow> nat set \<Rightarrow> nat set option" where
  "cache_lookup v g centerPos onlyPlayers spectators =
     (case (if onlyPlayers then m_find (playersSpectatorCache g) centerPos else None) of
        Some cached \<Rightarrow> Some (spectators \<union> cached)
      | None \<Rightarrow>
          (case m_find (spectatorCache g) centerPos of
             Some cached \<Rightarrow>
               Some (if \<not> onlyPlayers then spectators \<union> cached
                     else spectators \<union> {c \<in> cached. cv_isPlayer v c})
           | None \<Rightarrow> None))"

definition getSpectators ::
    "creature_view \<Rightarrow> position \<Rightarrow> bool \<Rightarrow> bool \<Rightarrow> int \<Rightarrow> int \<Rightarrow> int \<Rightarrow> int \<Rightarrow> grid \<times> nat set \<Rightarrow> grid \<times> nat set" where
  "getSpectators v centerPos multifloor onlyPlayers rMinX rMaxX rMinY rMaxY gs =
     (case gs of (g, spectators) \<Rightarrow>
      if pos_z centerPos \<ge> MAP_MAX_LAYERS then (g, spectators)
      else
        let r = asked_range centerPos multifloor rMinX rMaxX rMinY rMaxY;
            cacheable = (minRangeX r = - maxViewportX \<and> maxRangeX r = maxViewportX
                         \<and> minRangeY r = - maxViewportY \<and> maxRangeY r = maxViewportY \<and> multifloor)
        in case (if cacheable then cache_lookup v g centerPos onlyPlayers spectators else None) of
             Some spectators \<Rightarrow> (g, spectators)
           | None \<Rightarrow>
               let spectators = getSpectatorsInternal v g centerPos r onlyPlayers spectators
               in (if cacheable
                   then (if onlyPlayers
                         then g\<lparr>playersSpectatorCache := m_put centerPos spectators (playersSpectatorCache g)\<rparr>
                         else g\<lparr>spectatorCache := m_put centerPos spectators (spectatorCache g)\<rparr>)
                   else g, spectators))"

definition clearSpectatorCache :: "grid \<Rightarrow> grid" where
  "clearSpectatorCache g = g\<lparr>spectatorCache := [], playersSpectatorCache := []\<rparr>"

section \<open>What the scan visits\<close>

lemma getLeafStatic_16:
  assumes "tree_ok 13 (g_root g)"
  shows "getLeafStatic (g_root g) (of_int n) (of_int m) = getQTNode g (of_int n) (of_int m)"
proof -
  have down: "(ucast (of_int k :: u32) :: u16) = of_int k" for k
    by (rule ucast_down_wi) (simp add: is_down)
  have up: "(ucast (ucast (of_int k :: u16) :: u32) :: u16) = of_int k" for k
    by (rule ucast_up_ucast_id) (simp add: is_up)
  have "getLeaf (g_root g) (of_int n) (of_int m) = getLeaf (g_root g) (ucast (of_int n :: u16)) (ucast (of_int m :: u16))"
    by (rule getLeaf_low [OF assms]) (simp_all only: down up)
  moreover have "getLeafStatic (g_root g) (of_int n) (of_int m) = getLeaf (g_root g) (of_int n) (of_int m)"
    using getLeaf_follow [OF assms] getLeafStatic_follow [of 12 "g_root g"] assms
    by (simp del: tree_ok.simps path.simps)
  ultimately show ?thesis by (simp only: getLeaf_16 [OF assms])
qed

text \<open>A scan that adds to the set what a leaf offers, and what the leaf of a field offers.\<close>

definition offer :: "grid \<Rightarrow> (qleaf \<Rightarrow> nat set) \<Rightarrow> int \<Rightarrow> int \<Rightarrow> nat set" where
  "offer g F x y = (case getQTNode g (of_int x) (of_int y) of None \<Rightarrow> {} | Some l \<Rightarrow> F (leaf g l))"

definition steps_to :: "int \<Rightarrow> int \<Rightarrow> int set" where
  "steps_to a b = {n. a \<le> n \<and> n \<le> b \<and> (n - a) mod 8 = 0}"

lemma steps_to_empty: "\<not> a \<le> b \<Longrightarrow> steps_to a b = {}"
  by (auto simp: steps_to_def)

lemma steps_to_step: "a \<le> b \<Longrightarrow> steps_to a b = insert a (steps_to (a + 8) b)"
proof -
  assume ab: "a \<le> b"
  have m: "(n - (a + 8)) mod 8 = (n - a) mod 8" for n
    using mod_diff_right_eq [of "n - a" 8 8] by (simp add: algebra_simps)
  have split: "a \<le> n \<longrightarrow> (n - a) mod 8 = 0 \<longrightarrow> n = a \<or> a + 8 \<le> n" for n
  proof (intro impI)
    assume le: "a \<le> n" and "(n - a) mod 8 = 0"
    then obtain k where "n - a = 8 * k" by (auto simp: mod_eq_0_iff_dvd)
    then show "n = a \<or> a + 8 \<le> n" using le by (cases "k = 0") auto
  qed
  have "a \<le> n \<and> n \<le> b \<and> (n - a) mod 8 = 0 \<longleftrightarrow> n = a \<or> a + 8 \<le> n \<and> n \<le> b \<and> (n - a) mod 8 = 0" for n
    using split [of n] ab by (cases "n = a"; cases "a + 8 \<le> n"; simp)
  then show ?thesis unfolding steps_to_def m by (intro set_eqI) (simp only: mem_Collect_eq insert_iff)
qed

lemma of_int_add_8: "(of_int (n + 8) :: u16) = of_int n + 8"
  by simp

lemma scan_row_offers:
  assumes ok: "grid_ok g" and scan: "\<And>l s. scan l s = s \<union> F l"
  shows "e = getQTNode g (of_int nx) (of_int ny) \<Longrightarrow>
     scan_row g scan endx2 ny nx e s = s \<union> (\<Union>x \<in> steps_to nx endx2. offer g F x ny)"
proof (induction "nat (endx2 + 8 - nx)" arbitrary: nx e s rule: less_induct)
  case less
  show ?case
  proof (cases "nx \<le> endx2")
    case False
    then show ?thesis by (simp add: scan_row.simps steps_to_empty)
  next
    case True
    then have m: "nat (endx2 + 8 - (nx + 8)) < nat (endx2 + 8 - nx)" by simp
    define e' where "e' = getQTNode g (of_int (nx + 8)) (of_int ny)"
    have IH: "scan_row g scan endx2 ny (nx + 8) e' s' = s' \<union> (\<Union>x \<in> steps_to (nx + 8) endx2. offer g F x ny)" for s'
      by (rule less.hyps [OF m]) (simp add: e'_def)
    have "scan_row g scan endx2 ny nx e s = scan_row g scan endx2 ny (nx + 8) e' (s \<union> offer g F nx ny)"
    proof (cases e)
      case None
      then have "offer g F nx ny = {}" using less.prems by (simp add: offer_def)
      moreover have "getLeafStatic (g_root g) (of_int (nx + 8)) (of_int ny) = e'"
        unfolding e'_def by (rule getLeafStatic_16 [OF grid_okD(1) [OF ok]])
      ultimately show ?thesis using True None by (subst scan_row.simps) (simp only: option.case if_True Un_empty_right)
    next
      case (Some l)
      then have q: "getQTNode g (of_int nx) (of_int ny) = Some l" using less.prems by simp
      have "leafE (leaf g l) = e'" using grid_okD(4) [OF ok q] unfolding e'_def of_int_add_8 .
      moreover have "offer g F nx ny = F (leaf g l)" by (simp add: offer_def q)
      ultimately show ?thesis using True Some by (subst scan_row.simps) (simp only: option.case if_True scan)
    qed
    then show ?thesis unfolding IH steps_to_step [OF True] by auto
  qed
qed

lemma scan_rows_offers:
  assumes ok: "grid_ok g" and scan: "\<And>l s. scan l s = s \<union> F l"
  shows "e = getQTNode g (of_int startx1) (of_int ny) \<Longrightarrow>
     scan_rows g scan startx1 endx2 endy2 ny e s =
       s \<union> (\<Union>y \<in> steps_to ny endy2. \<Union>x \<in> steps_to startx1 endx2. offer g F x y)"
proof (induction "nat (endy2 + 8 - ny)" arbitrary: ny e s rule: less_induct)
  case less
  show ?case
  proof (cases "ny \<le> endy2")
    case False
    then show ?thesis by (simp add: scan_rows.simps steps_to_empty)
  next
    case True
    then have m: "nat (endy2 + 8 - (ny + 8)) < nat (endy2 + 8 - ny)" by simp
    define e' where "e' = getQTNode g (of_int startx1) (of_int (ny + 8))"
    let ?row = "\<Union>x \<in> steps_to startx1 endx2. offer g F x ny"
    have next_row: "(case e of Some l \<Rightarrow> leafS (leaf g l)
        | None \<Rightarrow> getLeafStatic (g_root g) (of_int startx1) (of_int (ny + 8))) = e'"
    proof (cases e)
      case None
      then show ?thesis
        unfolding e'_def getLeafStatic_16 [OF grid_okD(1) [OF ok]] by simp
    next
      case (Some l)
      then have "getQTNode g (of_int startx1) (of_int ny) = Some l" using less.prems by simp
      then show ?thesis using Some grid_okD(5) [OF ok] unfolding e'_def of_int_add_8 by simp
    qed
    have "scan_rows g scan startx1 endx2 endy2 ny e s
        = scan_rows g scan startx1 endx2 endy2 (ny + 8) e' (scan_row g scan endx2 ny startx1 e s)"
      using True by (subst scan_rows.simps) (simp only: if_True Let_def next_row)
    also have "scan_row g scan endx2 ny startx1 e s = s \<union> ?row"
      by (rule scan_row_offers [OF ok scan less.prems])
    also have "scan_rows g scan startx1 endx2 endy2 (ny + 8) e' (s \<union> ?row) =
        s \<union> ?row \<union> (\<Union>y \<in> steps_to (ny + 8) endy2. \<Union>x \<in> steps_to startx1 endx2. offer g F x y)"
      by (rule less.hyps [OF m]) (simp add: e'_def)
    finally show ?thesis unfolding steps_to_step [OF True] by auto
  qed
qed

section \<open>The creatures found\<close>

text \<open>
  The leaves list the creatures of a set \<open>S\<close> by their positions. \<open>watchers\<close> are the creatures of \<open>S\<close>
  that the search is meant to find.
\<close>

definition indexed :: "creature_view \<Rightarrow> grid \<Rightarrow> nat set \<Rightarrow> bool" where
  "indexed v g S \<longleftrightarrow>
     (\<forall>x y. (case cell g x y of None \<Rightarrow> {} | Some c \<Rightarrow> set (creature_list c))
              = {c \<in> S. same_leaf (pos_x (cv_position v c)) (pos_y (cv_position v c)) x y}
          \<and> (case cell g x y of None \<Rightarrow> {} | Some c \<Rightarrow> set (player_list c))
              = {c \<in> S. cv_isPlayer v c \<and> same_leaf (pos_x (cv_position v c)) (pos_y (cv_position v c)) x y})"

definition watchers :: "creature_view \<Rightarrow> nat set \<Rightarrow> position \<Rightarrow> view_range \<Rightarrow> bool \<Rightarrow> nat set" where
  "watchers v S centerPos r onlyPlayers =
     {c \<in> S. in_view centerPos r (cv_position v c) \<and> (onlyPlayers \<longrightarrow> cv_isPlayer v c)}"

lemma indexedD:
  assumes "indexed v g S"
  shows "(case cell g x y of None \<Rightarrow> {} | Some c \<Rightarrow> set (creature_list c))
      = {c \<in> S. same_leaf (pos_x (cv_position v c)) (pos_y (cv_position v c)) x y}"
    "(case cell g x y of None \<Rightarrow> {} | Some c \<Rightarrow> set (player_list c))
      = {c \<in> S. cv_isPlayer v c \<and> same_leaf (pos_x (cv_position v c)) (pos_y (cv_position v c)) x y}"
  using assms unfolding indexed_def by blast+

lemma leaf_corner_mod: "leaf_corner n mod 8 = 0" "leaf_corner n = 8 * (n div 8)"
  by (simp_all add: leaf_corner_def minus_mod_eq_mult_div)

lemma leaf_corner_mono: "a \<le> b \<Longrightarrow> leaf_corner a \<le> leaf_corner b"
  by (simp add: leaf_corner_mod zdiv_mono1)

lemma leaf_corner_steps: "a \<le> n \<Longrightarrow> n \<le> b \<Longrightarrow> leaf_corner n \<in> steps_to (leaf_corner a) (leaf_corner b)"
  using leaf_corner_mono leaf_corner_mod(1) by (auto simp: steps_to_def mod_diff_eq [symmetric])

lemma leaf_corner_same: "drop_bit 3 (of_int (leaf_corner (uint x)) :: u16) = drop_bit 3 x"
proof -
  have "uint (of_int (leaf_corner (uint x)) :: u16) = leaf_corner (uint x)"
  proof -
    have "0 \<le> leaf_corner (uint x)" "leaf_corner (uint x) \<le> uint x"
      using zmod_le_nonneg_dividend [of "uint x" 8] by (simp_all add: leaf_corner_def)
    then show ?thesis using uint_bounded [of x] by (simp add: word_of_int_inverse)
  qed
  then show ?thesis unfolding drop_bit_3_eq by (simp add: leaf_corner_mod(2))
qed

lemma clamp_bounds: "0 \<le> n \<Longrightarrow> n \<le> 0xFFFF \<Longrightarrow> a \<le> n \<Longrightarrow> clamp a \<le> n" "0 \<le> n \<Longrightarrow> n \<le> 0xFFFF \<Longrightarrow> n \<le> b \<Longrightarrow> n \<le> clamp b"
  by (auto simp: clamp_def)

lemma in_view_bounds:
  assumes "in_view centerPos r cpos"
  shows "getX centerPos + minRangeX r + (getZ centerPos - maxRangeZ r) \<le> getX cpos"
    "getX cpos \<le> getX centerPos + maxRangeX r + (getZ centerPos - minRangeZ r)"
    "getY centerPos + minRangeY r + (getZ centerPos - maxRangeZ r) \<le> getY cpos"
    "getY cpos \<le> getY centerPos + maxRangeY r + (getZ centerPos - minRangeZ r)"
  using assms by (auto simp: in_view_def Let_def getOffsetZ_def split: if_splits)

lemma scan_finds_watchers:
  assumes ok: "grid_ok g" and idx: "indexed v g S"
  shows "getSpectatorsInternal v g centerPos r onlyPlayers s = s \<union> watchers v S centerPos r onlyPlayers"
proof -
  define F where "F = (\<lambda>l :: qleaf. set (filter (\<lambda>c. in_view centerPos r (cv_position v c))
                         (if onlyPlayers then player_list l else creature_list l)))"
  have scan: "scan_leaf v centerPos r onlyPlayers l s = s \<union> F l" for l s
    by (simp add: scan_leaf_def F_def)
  define x1 where "x1 = clamp (getX centerPos + minRangeX r + (getZ centerPos - maxRangeZ r))"
  define x2 where "x2 = clamp (getX centerPos + maxRangeX r + (getZ centerPos - minRangeZ r))"
  define y1 where "y1 = clamp (getY centerPos + minRangeY r + (getZ centerPos - maxRangeZ r))"
  define y2 where "y2 = clamp (getY centerPos + maxRangeY r + (getZ centerPos - minRangeZ r))"
  have offer: "offer g F a b = {c \<in> watchers v S centerPos r onlyPlayers.
        same_leaf (pos_x (cv_position v c)) (pos_y (cv_position v c)) (of_int a) (of_int b)}" for a b
  proof -
    have l: "creature_list (leaf g l) = creature_list c" "player_list (leaf g l) = player_list c"
      if "cell g x y = Some c" "getQTNode g x y = Some l" for l c x y
      using that by (auto simp: cell_def)
    show ?thesis
    proof (cases "getQTNode g (of_int a) (of_int b)")
      case None
      then have "cell g (of_int a) (of_int b) = None" by (simp add: cell_def)
      then show ?thesis using indexedD(1) [OF idx, of "of_int a" "of_int b"] None
        by (auto simp: offer_def watchers_def)
    next
      case (Some k)
      then obtain c where c: "cell g (of_int a) (of_int b) = Some c" by (simp add: cell_def)
      note lists = l [OF c Some]
      have "set (creature_list c) = {c \<in> S. same_leaf (pos_x (cv_position v c)) (pos_y (cv_position v c)) (of_int a) (of_int b)}"
        "set (player_list c) = {c \<in> S. cv_isPlayer v c \<and> same_leaf (pos_x (cv_position v c)) (pos_y (cv_position v c)) (of_int a) (of_int b)}"
        using indexedD [OF idx, of "of_int a" "of_int b"] c by simp_all
      then show ?thesis by (auto simp: offer_def Some F_def lists watchers_def)
    qed
  qed
  have "getSpectatorsInternal v g centerPos r onlyPlayers s =
      s \<union> (\<Union>y \<in> steps_to (leaf_corner y1) (leaf_corner y2). \<Union>x \<in> steps_to (leaf_corner x1) (leaf_corner x2). offer g F x y)"
    unfolding getSpectatorsInternal_def Let_def x1_def [symmetric] x2_def [symmetric] y1_def [symmetric] y2_def [symmetric]
    by (rule scan_rows_offers [OF ok scan getLeafStatic_16 [OF grid_okD(1) [OF ok]]])
  also have "\<dots> = s \<union> watchers v S centerPos r onlyPlayers"
  proof -
    have "c \<in> (\<Union>y \<in> steps_to (leaf_corner y1) (leaf_corner y2). \<Union>x \<in> steps_to (leaf_corner x1) (leaf_corner x2). offer g F x y)"
      if c: "c \<in> watchers v S centerPos r onlyPlayers" for c
    proof -
      let ?p = "cv_position v c"
      have v: "in_view centerPos r ?p" using c by (simp add: watchers_def)
      have b: "0 \<le> getX ?p" "getX ?p \<le> 0xFFFF" "0 \<le> getY ?p" "getY ?p \<le> 0xFFFF"
        using uint_bounded [of "pos_x ?p"] uint_bounded [of "pos_y ?p"] by (simp_all add: getX_def getY_def)
      have "leaf_corner (getX ?p) \<in> steps_to (leaf_corner x1) (leaf_corner x2)"
        "leaf_corner (getY ?p) \<in> steps_to (leaf_corner y1) (leaf_corner y2)"
        unfolding x1_def x2_def y1_def y2_def
        by (rule leaf_corner_steps; rule clamp_bounds [OF b(1,2)] clamp_bounds [OF b(3,4)]; rule in_view_bounds [OF v])+
      moreover have "c \<in> offer g F (leaf_corner (getX ?p)) (leaf_corner (getY ?p))"
        using c leaf_corner_same [of "pos_x ?p"] leaf_corner_same [of "pos_y ?p"]
        by (simp add: offer same_leaf_def getX_def getY_def)
      ultimately show ?thesis by blast
    qed
    then show ?thesis by (auto simp: offer)
  qed
  finally show ?thesis .
qed

section \<open>The caches agree with the scan\<close>

text \<open>
  A cached set is what a scan would find now, as long as the caches are cleared whenever a creature
  enters or leaves a tile. A search that misses stores the set it was given together with what it
  found, so it keeps the caches right only when the given set is among the creatures found.
\<close>

definition cached_range :: "position \<Rightarrow> view_range" where
  "cached_range p =
     (let (minZ, maxZ) = floor_range p True
      in \<lparr>minRangeX = - maxViewportX, maxRangeX = maxViewportX, minRangeY = - maxViewportY,
          maxRangeY = maxViewportY, minRangeZ = minZ, maxRangeZ = maxZ\<rparr>)"

definition cache_ok :: "creature_view \<Rightarrow> nat set \<Rightarrow> grid \<Rightarrow> bool" where
  "cache_ok v S g \<longleftrightarrow>
     (\<forall>p s. m_find (spectatorCache g) p = Some s \<longrightarrow> s = watchers v S p (cached_range p) False)
     \<and> (\<forall>p s. m_find (playersSpectatorCache g) p = Some s \<longrightarrow> s = watchers v S p (cached_range p) True)"

lemma cache_ok_clear [simp]: "cache_ok v S (clearSpectatorCache g)"
  by (simp add: cache_ok_def clearSpectatorCache_def)

lemma leaf_caches [simp]:
  "leaf (g\<lparr>spectatorCache := a\<rparr>) = leaf g" "leaf (g\<lparr>playersSpectatorCache := a\<rparr>) = leaf g"
  by (simp_all add: leaf_def fun_eq_iff)

lemma grid_ok_caches [simp]:
  "grid_ok (g\<lparr>spectatorCache := a\<rparr>) = grid_ok g" "grid_ok (g\<lparr>playersSpectatorCache := a\<rparr>) = grid_ok g"
  by (simp_all add: grid_ok_def getQTNode_def del: tree_ok.simps)

lemma cell_caches [simp]:
  "cell (g\<lparr>spectatorCache := a\<rparr>) = cell g" "cell (g\<lparr>playersSpectatorCache := a\<rparr>) = cell g"
  by (simp_all add: cell_def getQTNode_def fun_eq_iff)

lemma getTile_caches [simp]:
  "getTile (g\<lparr>spectatorCache := a\<rparr>) = getTile g" "getTile (g\<lparr>playersSpectatorCache := a\<rparr>) = getTile g"
  by (simp_all add: getTile_cell fun_eq_iff)

text \<open>The search finds the creatures of the area, from the caches or by the scan.\<close>

lemma getSpectators_spec:
  assumes ok: "grid_ok g" and idx: "indexed v g S" and cache: "cache_ok v S g"
    and z: "\<not> pos_z p \<ge> MAP_MAX_LAYERS"
    and r: "getSpectators v p multifloor onlyPlayers a b c d (g, s) = (g', s')"
  shows "s' = s \<union> watchers v S p (asked_range p multifloor a b c d) onlyPlayers"
    and "s = {} \<Longrightarrow> cache_ok v S g'"
    and "grid_ok g'" "cell g' = cell g" "getTile g' = getTile g" "g_root g' = g_root g" "g_leaves g' = g_leaves g"
proof -
  let ?r = "asked_range p multifloor a b c d"
  let ?c = "minRangeX ?r = - maxViewportX \<and> maxRangeX ?r = maxViewportX \<and> minRangeY ?r = - maxViewportY
      \<and> maxRangeY ?r = maxViewportY \<and> multifloor"
  let ?s = "s \<union> watchers v S p ?r onlyPlayers"
  let ?found = "if ?c then cache_lookup v g p onlyPlayers s else None"
  have range: "?c \<Longrightarrow> ?r = cached_range p"
    by (simp add: asked_range_def cached_range_def split: prod.split)
  have step: "(g', s') = (case ?found of Some s \<Rightarrow> (g, s)
      | None \<Rightarrow> (if ?c then (if onlyPlayers then g\<lparr>playersSpectatorCache := m_put p ?s (playersSpectatorCache g)\<rparr>
                          else g\<lparr>spectatorCache := m_put p ?s (spectatorCache g)\<rparr>) else g, ?s))"
    using z unfolding r [symmetric] getSpectators_def scan_finds_watchers [OF ok idx] prod.case Let_def by (simp only: if_False)
  have hit: "f = s \<union> watchers v S p (cached_range p) onlyPlayers" if "cache_lookup v g p onlyPlayers s = Some f" for f
    using that cache by (auto simp: cache_ok_def cache_lookup_def watchers_def split: if_splits option.splits)
  have found: "f = ?s" if "?found = Some f" for f
    using that hit [of f] range by (simp split: if_splits)
  show "s' = ?s" using step found by (cases ?found) simp_all
  show "s = {} \<Longrightarrow> cache_ok v S g'"
  proof (cases ?found)
    case None
    assume s: "s = {}"
    show ?thesis
    proof (cases ?c)
      case True
      then show ?thesis using step None cache range [OF True] s by (cases onlyPlayers) (simp_all add: cache_ok_def)
    next
      case False
      then show ?thesis using step cache by (simp only: if_False option.case prod.inject)
    qed
  qed (use step cache in simp)
  show "grid_ok g'" "cell g' = cell g" "getTile g' = getTile g" "g_root g' = g_root g" "g_leaves g' = g_leaves g"
    using step ok by (cases ?found; cases ?c; cases onlyPlayers; simp only: option.case if_True if_False prod.inject; simp)+
qed

section \<open>Lines of sight\<close>

text \<open>
  \<open>tile_view\<close> is what the search for a free line reads of the map: the field's tile, whether it
  blocks projectiles and how many things lie on it.
\<close>

record tile_view =
  tv_tile :: "u16 \<Rightarrow> u16 \<Rightarrow> u8 \<Rightarrow> nat option"
  tv_blocks :: "nat \<Rightarrow> bool"
  tv_things :: "nat \<Rightarrow> nat"

definition sgn_step :: "u16 \<Rightarrow> u16 \<Rightarrow> int" where
  "sgn_step a b = (if a < b then 1 else if a = b then 0 else -1)"

text \<open>One step of the ray: at most one field in each direction.\<close>

definition ray_step :: "int \<Rightarrow> int \<Rightarrow> int \<Rightarrow> int \<Rightarrow> int \<Rightarrow> u16 \<times> u16 \<Rightarrow> u16 \<times> u16 \<Rightarrow> u16 \<times> u16" where
  "ray_step mx my A B C destination start =
     (let (dx, dy) = destination; (x, y) = start;
          move_hor = \<bar>A * (uint x + mx) + B * uint y + C\<bar>;
          move_ver = \<bar>A * uint x + B * (uint y + my) + C\<bar>;
          move_cross = \<bar>A * (uint x + mx) + B * (uint y + my) + C\<bar>;
          y = (if y \<noteq> dy \<and> (x = dx \<or> move_hor > move_ver \<or> move_hor > move_cross) then y + of_int my else y);
          x = (if x \<noteq> dx \<and> (y = dy \<or> move_ver > move_hor \<or> move_ver > move_cross) then x + of_int mx else x)
      in (x, y))"

partial_function (option) ray_loop ::
    "tile_view \<Rightarrow> (u16 \<times> u16 \<Rightarrow> u16 \<times> u16) \<Rightarrow> u8 \<Rightarrow> u16 \<times> u16 \<Rightarrow> u16 \<times> u16 \<Rightarrow> bool option" where
  "ray_loop tv step z destination start =
     (if start = destination then Some True
      else let next_field = step start
           in case tv_tile tv (fst next_field) (snd next_field) z of
                None \<Rightarrow> ray_loop tv step z destination next_field
              | Some t \<Rightarrow> if tv_blocks tv t then Some False else ray_loop tv step z destination next_field)"

function jump_loop :: "tile_view \<Rightarrow> u16 \<Rightarrow> u16 \<Rightarrow> u8 \<Rightarrow> u8 \<Rightarrow> bool" where
  "jump_loop tv x y destination_z z =
     (if z = destination_z then True
      else if (case tv_tile tv x y z of None \<Rightarrow> False | Some t \<Rightarrow> tv_things tv t > 0) then False
      else jump_loop tv x y destination_z (z + 1))"
  by pat_completeness auto
termination
proof (relation "measure (\<lambda>(tv, x, y, d, z). unat (d - z))")
  fix tv :: tile_view and x y :: u16 and d z :: u8
  assume "z \<noteq> d"
  then have "d - z \<noteq> 0" by simp
  then have "unat (d - z - 1) < unat (d - z)" by (rule measure_unat)
  then show "((tv, x, y, d, z + 1), tv, x, y, d, z) \<in> measure (\<lambda>(tv, x, y, d, z). unat (d - z))"
    by (simp add: algebra_simps)
qed simp

declare jump_loop.simps [simp del]

definition checkSightLine :: "tile_view \<Rightarrow> position \<Rightarrow> position \<Rightarrow> bool option" where
  "checkSightLine tv fromPos toPos =
     (if fromPos = toPos then Some True
      else let start = (if pos_z fromPos > pos_z toPos then toPos else fromPos);
               destination = (if pos_z fromPos > pos_z toPos then fromPos else toPos);
               mx = sgn_step (pos_x start) (pos_x destination);
               my = sgn_step (pos_y start) (pos_y destination);
               A = getOffsetY destination start;
               B = getOffsetX start destination;
               C = - (A * getX destination + B * getY destination);
               d = (pos_x destination, pos_y destination)
           in do {
             clear \<leftarrow> ray_loop tv (ray_step mx my A B C d) (pos_z start) d (pos_x start, pos_y start);
             Some (clear \<and> jump_loop tv (pos_x destination) (pos_y destination) (pos_z destination) (pos_z start)) })"

definition isSightClear :: "tile_view \<Rightarrow> position \<Rightarrow> position \<Rightarrow> bool \<Rightarrow> bool option" where
  "isSightClear tv fromPos toPos floorCheck =
     (if floorCheck \<and> pos_z fromPos \<noteq> pos_z toPos then Some False
      else do { one \<leftarrow> checkSightLine tv fromPos toPos;
                if one then Some True else checkSightLine tv toPos fromPos })"

definition canThrowObjectTo :: "tile_view \<Rightarrow> position \<Rightarrow> position \<Rightarrow> bool \<Rightarrow> int \<Rightarrow> int \<Rightarrow> bool option" where
  "canThrowObjectTo tv fromPos toPos checkLineOfSight rangex rangey =
     (if pos_z fromPos \<ge> 8 \<and> pos_z toPos < 8 \<or> pos_z toPos \<ge> 8 \<and> pos_z fromPos < 8 then Some False
      else let deltaz = getDistanceZ fromPos toPos
           in if deltaz > 2 then Some False
              else if getDistanceX fromPos toPos - deltaz > rangex then Some False
              else if getDistanceY fromPos toPos - deltaz > rangey then Some False
              else if \<not> checkLineOfSight then Some True
              else isSightClear tv fromPos toPos False)"

text \<open>One of the two coordinates always moves, whatever the distance from the line is.\<close>

lemma ray_progress:
  fixes v p q :: int
  assumes "p < 0 \<and> 0 < q \<or> q < 0 \<and> 0 < p"
  shows "\<bar>v + p\<bar> > \<bar>v + q\<bar> \<or> \<bar>v + p\<bar> > \<bar>v + p + q\<bar> \<or> \<bar>v + q\<bar> > \<bar>v + p\<bar> \<or> \<bar>v + q\<bar> > \<bar>v + p + q\<bar>"
proof (rule ccontr)
  assume n: "\<not> ?thesis"
  then have "\<bar>v + p\<bar> = \<bar>v + q\<bar>" by linarith
  then have "v + p = - (v + q)" using assms by (auto simp: abs_eq_iff)
  then have "2 * v = - p - q" by linarith
  then show False using n assms by linarith
qed

definition heading :: "u16 \<Rightarrow> u16 \<Rightarrow> int \<Rightarrow> bool" where
  "heading x dx m \<longleftrightarrow> x = dx \<or> m = sgn_step x dx"

lemma heading_move:
  assumes "heading x dx m" and "x \<noteq> dx"
  shows "heading (x + of_int m) dx m" "uint (x + of_int m) = uint x + m"
    "\<bar>uint dx - uint (x + of_int m)\<bar> = \<bar>uint dx - uint x\<bar> - 1" "\<bar>m\<bar> = 1"
proof -
  have m: "m = (if uint x < uint dx then 1 else -1)"
    using assms by (auto simp: heading_def sgn_step_def word_less_alt)
  have ne: "uint x \<noteq> uint dx" using assms(2) by (simp only: word_uint_eq_iff) simp
  have b: "0 \<le> uint x + m" "uint x + m < 65536"
  proof -
    have r: "0 \<le> uint x" "0 \<le> uint dx" "uint x < 65536" "uint dx < 65536"
      using uint_bounded [of x] uint_bounded [of dx] by simp_all
    have "0 \<le> uint x + m \<and> uint x + m < 65536"
    proof (cases "uint x < uint dx")
      case True
      then have "m = 1" using m by simp
      then show ?thesis using r True by linarith
    next
      case False
      then have "m = -1" "uint dx < uint x" using m ne by simp_all
      then show ?thesis using r by linarith
    qed
    then show "0 \<le> uint x + m" "uint x + m < 65536" by simp_all
  qed
  show u: "uint (x + of_int m) = uint x + m"
  proof -
    have "x + of_int m = of_int (uint x + m)" by simp
    then show ?thesis using b by (simp only: word_of_int_inverse) (simp add: word_of_int_inverse)
  qed
  show "\<bar>uint dx - uint (x + of_int m)\<bar> = \<bar>uint dx - uint x\<bar> - 1" "\<bar>m\<bar> = 1"
    using m ne unfolding u by (auto split: if_splits)
  show "heading (x + of_int m) dx m"
    using m ne u by (auto simp: heading_def sgn_step_def word_less_alt word_uint_eq_iff [of _ dx] split: if_splits)
qed

definition adjacent :: "u16 \<times> u16 \<Rightarrow> u16 \<times> u16 \<Rightarrow> bool" where
  "adjacent f h \<longleftrightarrow> f \<noteq> h \<and> \<bar>uint (fst f) - uint (fst h)\<bar> \<le> 1 \<and> \<bar>uint (snd f) - uint (snd h)\<bar> \<le> 1"

definition remaining :: "u16 \<times> u16 \<Rightarrow> u16 \<times> u16 \<Rightarrow> int" where
  "remaining d f = \<bar>uint (fst d) - uint (fst f)\<bar> + \<bar>uint (snd d) - uint (snd f)\<bar>"

lemma ray_step_moves:
  assumes hx: "heading x dx mx" and hy: "heading y dy my" and ne: "(x, y) \<noteq> (dx, dy)"
    and opp: "x \<noteq> dx \<Longrightarrow> y \<noteq> dy \<Longrightarrow> A * mx < 0 \<and> 0 < B * my \<or> B * my < 0 \<and> 0 < A * mx"
    and r: "ray_step mx my A B C (dx, dy) (x, y) = (x', y')"
  shows "heading x' dx mx" "heading y' dy my" "adjacent (x, y) (x', y')"
    "remaining (dx, dy) (x', y') < remaining (dx, dy) (x, y)" "x = dx \<Longrightarrow> x' = dx" "y = dy \<Longrightarrow> y' = dy"
proof -
  let ?v = "A * uint x + B * uint y + C"
  let ?hor = "\<bar>?v + A * mx\<bar>" and ?ver = "\<bar>?v + B * my\<bar>" and ?cross = "\<bar>?v + A * mx + B * my\<bar>"
  define y1 where "y1 = (if y \<noteq> dy \<and> (x = dx \<or> ?hor > ?ver \<or> ?hor > ?cross) then y + of_int my else y)"
  define x1 where "x1 = (if x \<noteq> dx \<and> (y1 = dy \<or> ?ver > ?hor \<or> ?ver > ?cross) then x + of_int mx else x)"
  have eq: "A * (uint x + mx) + B * uint y + C = ?v + A * mx" "A * uint x + B * (uint y + my) + C = ?v + B * my"
    "A * (uint x + mx) + B * (uint y + my) + C = ?v + A * mx + B * my"
    by (simp_all add: algebra_simps)
  have "ray_step mx my A B C (dx, dy) (x, y) = (x1, y1)"
    unfolding ray_step_def prod.case Let_def eq y1_def x1_def ..
  then have x': "x' = x1" "y' = y1" using r by simp_all
  have X: "x1 = x \<or> x \<noteq> dx \<and> x1 = x + of_int mx" and Y: "y1 = y \<or> y \<noteq> dy \<and> y1 = y + of_int my"
    by (auto simp: x1_def y1_def)
  note mvx = heading_move [OF hx] and mvy = heading_move [OF hy]
  have "x1 \<noteq> x \<or> y1 \<noteq> y"
  proof (rule ccontr)
    assume "\<not> (x1 \<noteq> x \<or> y1 \<noteq> y)"
    then have s: "x1 = x" "y1 = y" by simp_all
    have nx: "x + of_int mx \<noteq> x" if "x \<noteq> dx" using mvx(3) [OF that] by auto
    have ny: "y + of_int my \<noteq> y" if "y \<noteq> dy" using mvy(3) [OF that] by auto
    have a: "\<not> (y \<noteq> dy \<and> (x = dx \<or> ?hor > ?ver \<or> ?hor > ?cross))" using s(2) ny unfolding y1_def by (auto split: if_splits)
    have b: "\<not> (x \<noteq> dx \<and> (y = dy \<or> ?ver > ?hor \<or> ?ver > ?cross))" using s nx unfolding x1_def by (auto split: if_splits)
    have d: "x \<noteq> dx" "y \<noteq> dy" using a b ne by auto
    show False using ray_progress [OF opp [OF d], of ?v] a b d by blast
  qed
  then show "remaining (dx, dy) (x', y') < remaining (dx, dy) (x, y)" "adjacent (x, y) (x', y')"
    using X Y mvx mvy unfolding x' by (auto simp: remaining_def adjacent_def)
  show "heading x' dx mx" "heading y' dy my" using X Y hx hy mvx(1) mvy(1) unfolding x' by auto
  show "x = dx \<Longrightarrow> x' = dx" "y = dy \<Longrightarrow> y' = dy" using X Y unfolding x' by auto
qed

text \<open>The fields the ray visits, and the ones the line between floors passes.\<close>

fun chain :: "u16 \<times> u16 \<Rightarrow> (u16 \<times> u16) list \<Rightarrow> u16 \<times> u16 \<Rightarrow> bool" where
  "chain f [] d \<longleftrightarrow> f = d"
| "chain f (h # hs) d \<longleftrightarrow> adjacent f h \<and> remaining d h < remaining d f \<and> chain h hs d"

definition blocked :: "tile_view \<Rightarrow> u8 \<Rightarrow> u16 \<times> u16 \<Rightarrow> bool" where
  "blocked tv z f \<longleftrightarrow> (case tv_tile tv (fst f) (snd f) z of None \<Rightarrow> False | Some t \<Rightarrow> tv_blocks tv t)"

definition occupied :: "tile_view \<Rightarrow> u16 \<times> u16 \<Rightarrow> u8 \<Rightarrow> bool" where
  "occupied tv f z \<longleftrightarrow> (case tv_tile tv (fst f) (snd f) z of None \<Rightarrow> False | Some t \<Rightarrow> tv_things tv t > 0)"

lemma ray_loop_chain:
  assumes hx: "heading (fst f) (fst d) mx" and hy: "heading (snd f) (snd d) my"
    and opp: "fst f \<noteq> fst d \<Longrightarrow> snd f \<noteq> snd d \<Longrightarrow> A * mx < 0 \<and> 0 < B * my \<or> B * my < 0 \<and> 0 < A * mx"
  shows "\<exists>fs. chain f fs d \<and> (\<forall>tv. ray_loop tv (ray_step mx my A B C d) z d f = Some (list_all (\<lambda>h. \<not> blocked tv z h) fs))"
  using assms
proof (induction "nat (remaining d f)" arbitrary: f rule: less_induct)
  case less
  show ?case
  proof (cases "f = d")
    case True
    then show ?thesis by (intro exI [of _ "[]"]) (simp add: ray_loop.simps)
  next
    case False
    obtain x y dx dy where f: "f = (x, y)" "d = (dx, dy)" by (cases f, cases d)
    obtain x' y' where h: "ray_step mx my A B C (dx, dy) (x, y) = (x', y')" by fastforce
    have s: "heading x' dx mx" "heading y' dy my" "adjacent (x, y) (x', y')"
      "remaining (dx, dy) (x', y') < remaining (dx, dy) (x, y)" "x = dx \<Longrightarrow> x' = dx" "y = dy \<Longrightarrow> y' = dy"
      using ray_step_moves [OF _ _ _ _ h] less.prems False unfolding f by simp_all
    have "0 \<le> remaining (dx, dy) (x', y')" by (simp add: remaining_def)
    then have m: "nat (remaining d (x', y')) < nat (remaining d f)" using s(4) by (simp add: f)
    have "\<exists>fs. chain (x', y') fs d
        \<and> (\<forall>tv. ray_loop tv (ray_step mx my A B C d) z d (x', y') = Some (list_all (\<lambda>h. \<not> blocked tv z h) fs))"
      by (rule less.hyps [OF m]) (use s less.prems(3) in \<open>auto simp: f\<close>)
    then obtain fs where fs: "chain (x', y') fs d"
      "\<And>tv. ray_loop tv (ray_step mx my A B C d) z d (x', y') = Some (list_all (\<lambda>h. \<not> blocked tv z h) fs)" by blast
    have "ray_loop tv (ray_step mx my A B C d) z d f = Some (list_all (\<lambda>h. \<not> blocked tv z h) ((x', y') # fs))" for tv
      using False fs(2) [of tv] h unfolding f
      by (subst ray_loop.simps) (auto simp: blocked_def split: option.splits)
    moreover have "chain f ((x', y') # fs) d" using s(3,4) fs(1) by (simp add: f)
    ultimately show ?thesis by blast
  qed
qed

lemma jump_loop_clear:
  "z \<le> d \<Longrightarrow> jump_loop tv x y d z \<longleftrightarrow> (\<forall>k. z \<le> k \<and> k < d \<longrightarrow> \<not> occupied tv (x, y) k)"
proof (induction tv x y d z rule: jump_loop.induct)
  case (1 tv x y d z)
  show ?case
  proof (cases "z = d")
    case True
    then show ?thesis by (subst jump_loop.simps) auto
  next
    case False
    then have "z < d" using "1.prems" by simp
    then have z: "z + 1 \<le> d" by (rule inc_le)
    have u: "unat (z + 1) = unat z + unat (1 :: u8)"
    proof (rule unat_plus_no_wrap)
      have "unat z < unat d" "unat d < 256" using \<open>z < d\<close> by (simp_all add: word_less_nat_alt)
      then have "unat z + 1 < 256" by linarith
      then show "unat z + unat (1 :: u8) < 2 ^ LENGTH(8)" by simp
    qed
    have range: "z \<le> k \<and> k < d \<longleftrightarrow> k = z \<or> z + 1 \<le> k \<and> k < d" for k
      using \<open>z < d\<close> u by (auto simp: word_le_nat_alt word_less_nat_alt word_unat_eq_iff)
    show ?thesis
    proof (cases "occupied tv (x, y) z")
      case True
      then show ?thesis using False \<open>z < d\<close> by (subst jump_loop.simps) (auto simp: occupied_def split: option.splits)
    next
      case empty: False
      then have "jump_loop tv x y d z = jump_loop tv x y d (z + 1)"
        using False by (subst jump_loop.simps) (simp add: occupied_def)
      also have "\<dots> \<longleftrightarrow> (\<forall>k. z + 1 \<le> k \<and> k < d \<longrightarrow> \<not> occupied tv (x, y) k)"
        by (rule "1.IH") (use False empty z in \<open>simp_all add: occupied_def\<close>)
      finally show ?thesis using empty by (auto simp: range)
    qed
  qed
qed

definition upper :: "position \<Rightarrow> position \<Rightarrow> position" where
  "upper p q = (if pos_z p > pos_z q then q else p)"

definition lower :: "position \<Rightarrow> position \<Rightarrow> position" where
  "lower p q = (if pos_z p > pos_z q then p else q)"

definition free_between :: "tile_view \<Rightarrow> u16 \<times> u16 \<Rightarrow> u8 \<Rightarrow> u8 \<Rightarrow> bool" where
  "free_between tv f a b \<longleftrightarrow> (\<forall>k. a \<le> k \<and> k < b \<longrightarrow> \<not> occupied tv f k)"

definition field :: "position \<Rightarrow> u16 \<times> u16" where
  "field p = (pos_x p, pos_y p)"

text \<open>C11: \<open>checkSightLine\<close> always returns, for any two positions and any map. The ray from the upper to the
  lower position is a chain of adjacent fields, each nearer to the end than the one before, that
  depends on the two positions only; the line is clear exactly when no field of the chain blocks
  projectiles and nothing lies in the column between the floors above the end of the ray.\<close>

theorem sight_line_is_a_chain:
  "\<exists>fs. chain (field (upper p q)) fs (field (lower p q))
     \<and> (\<forall>tv. checkSightLine tv p q =
            Some (list_all (\<lambda>f. \<not> blocked tv (pos_z (upper p q)) f) fs
                  \<and> free_between tv (field (lower p q)) (pos_z (upper p q)) (pos_z (lower p q))))"
proof (cases "p = q")
  case True
  then show ?thesis by (intro exI [of _ "[]"]) (auto simp: checkSightLine_def upper_def lower_def free_between_def)
next
  case False
  let ?s = "upper p q" and ?d = "lower p q"
  let ?mx = "sgn_step (pos_x ?s) (pos_x ?d)" and ?my = "sgn_step (pos_y ?s) (pos_y ?d)"
  let ?A = "getOffsetY ?d ?s" and ?B = "getOffsetX ?s ?d"
  let ?C = "- (?A * getX ?d + ?B * getY ?d)"
  have opp: "?A * ?mx < 0 \<and> 0 < ?B * ?my \<or> ?B * ?my < 0 \<and> 0 < ?A * ?mx"
    if "pos_x ?s \<noteq> pos_x ?d" "pos_y ?s \<noteq> pos_y ?d"
  proof -
    have "uint (pos_x ?s) \<noteq> uint (pos_x ?d)" "uint (pos_y ?s) \<noteq> uint (pos_y ?d)"
      using that by (simp_all only: word_uint_eq_iff) simp_all
    then show ?thesis
      by (auto simp: sgn_step_def word_less_alt coord_defs word_uint_eq_iff)
  qed
  obtain fs where c: "chain (field ?s) fs (field ?d)"
    and r: "\<And>tv. ray_loop tv (ray_step ?mx ?my ?A ?B ?C (field ?d)) (pos_z ?s) (field ?d) (field ?s)
              = Some (list_all (\<lambda>h. \<not> blocked tv (pos_z ?s) h) fs)"
    using ray_loop_chain [of "field ?s" "field ?d" ?mx ?my ?A ?B ?C "pos_z ?s"] opp
    by (auto simp: field_def heading_def)
  have z: "pos_z ?s \<le> pos_z ?d" by (auto simp: upper_def lower_def)
  have "checkSightLine tv p q = Some (list_all (\<lambda>h. \<not> blocked tv (pos_z ?s) h) fs
      \<and> jump_loop tv (pos_x ?d) (pos_y ?d) (pos_z ?d) (pos_z ?s))" for tv
    using False r [of tv] unfolding field_def
    by (simp add: checkSightLine_def Let_def upper_def [symmetric] lower_def [symmetric])
  then show ?thesis using c unfolding jump_loop_clear [OF z] field_def free_between_def by blast
qed

text \<open>
  The intermediate values of the ray fit in 32 bits when the two positions are at most 8191 fields
  apart.
\<close>

lemma ray_value_bound:
  fixes A B x y dx dy :: int
  assumes "\<bar>A\<bar> \<le> 8191" "\<bar>B\<bar> \<le> 8191" "0 \<le> x" "x \<le> 65536" "0 \<le> y" "y \<le> 65536"
  shows "\<bar>A * x\<bar> \<le> 536805376" "\<bar>A * x + B * y\<bar> \<le> 1073610752"
proof -
  have b: "\<bar>a * u\<bar> \<le> 536805376" if "\<bar>a\<bar> \<le> 8191" "0 \<le> u" "u \<le> 65536" for a u :: int
    using mult_mono [of "\<bar>a\<bar>" 8191 u 65536] that by (simp add: abs_mult)
  show "\<bar>A * x\<bar> \<le> 536805376" using assms by (intro b)
  have "\<bar>A * x + B * y\<bar> \<le> \<bar>A * x\<bar> + \<bar>B * y\<bar>" by simp
  also have "\<dots> \<le> 536805376 + 536805376" using assms by (intro add_mono b)
  finally show "\<bar>A * x + B * y\<bar> \<le> 1073610752" by simp
qed

end
