(* ===== verification/Tile.thy ===== *)
theory Tile
  imports Container Spectators
begin

text \<open>
  Tiles: \<open>src/src/items/tile.h\<close> and the queries, positions and flags of \<open>src/src/items/tile.cpp\<close>. A tile
  refers to its things; what it asks of them is read from the heap of items and from the creatures.
  The vectors of a static tile that have not been made behave as empty ones and are empty lists here.
\<close>

section \<open>State\<close>

abbreviation (input) "TILESTATE_FLOORCHANGE_DOWN \<equiv> (0x1 :: u32)"
abbreviation (input) "TILESTATE_FLOORCHANGE_NORTH \<equiv> (0x2 :: u32)"
abbreviation (input) "TILESTATE_FLOORCHANGE_SOUTH \<equiv> (0x4 :: u32)"
abbreviation (input) "TILESTATE_FLOORCHANGE_EAST \<equiv> (0x8 :: u32)"
abbreviation (input) "TILESTATE_FLOORCHANGE_WEST \<equiv> (0x10 :: u32)"
abbreviation (input) "TILESTATE_FLOORCHANGE_SOUTH_ALT \<equiv> (0x20 :: u32)"
abbreviation (input) "TILESTATE_FLOORCHANGE_EAST_ALT \<equiv> (0x40 :: u32)"
abbreviation (input) "TILESTATE_PROTECTIONZONE \<equiv> (0x80 :: u32)"
abbreviation (input) "TILESTATE_NOPVPZONE \<equiv> (0x100 :: u32)"
abbreviation (input) "TILESTATE_NOLOGOUT \<equiv> (0x200 :: u32)"
abbreviation (input) "TILESTATE_PVPZONE \<equiv> (0x400 :: u32)"
abbreviation (input) "TILESTATE_TELEPORT \<equiv> (0x800 :: u32)"
abbreviation (input) "TILESTATE_MAGICFIELD \<equiv> (0x1000 :: u32)"
abbreviation (input) "TILESTATE_MAILBOX \<equiv> (0x2000 :: u32)"
abbreviation (input) "TILESTATE_TRASHHOLDER \<equiv> (0x4000 :: u32)"
abbreviation (input) "TILESTATE_BED \<equiv> (0x8000 :: u32)"
abbreviation (input) "TILESTATE_DEPOT \<equiv> (0x10000 :: u32)"
abbreviation (input) "TILESTATE_BLOCKSOLID \<equiv> (0x20000 :: u32)"
abbreviation (input) "TILESTATE_BLOCKPATH \<equiv> (0x40000 :: u32)"
abbreviation (input) "TILESTATE_IMMOVABLEBLOCKSOLID \<equiv> (0x80000 :: u32)"
abbreviation (input) "TILESTATE_IMMOVABLEBLOCKPATH \<equiv> (0x100000 :: u32)"
abbreviation (input) "TILESTATE_IMMOVABLENOFIELDBLOCKPATH \<equiv> (0x200000 :: u32)"
abbreviation (input) "TILESTATE_NOFIELDBLOCKPATH \<equiv> (0x400000 :: u32)"
abbreviation (input) "TILESTATE_SUPPORTS_HANGABLE \<equiv> (0x800000 :: u32)"
abbreviation (input) "TILESTATE_FLOORCHANGE \<equiv> (0x7F :: u32)"

record tile =
  ground :: "nat option"
  t_items :: "nat list"
  downItemCount :: u32
  t_creatures :: "nat list"
  t_flags :: u32
  tilePos :: position
  t_house :: "nat option"

definition new_tile :: "u16 \<Rightarrow> u16 \<Rightarrow> u8 \<Rightarrow> tile" where
  "new_tile x y z = \<lparr>ground = None, t_items = [], downItemCount = 0, t_creatures = [], t_flags = 0,
     tilePos = Position x y z, t_house = None\<rparr>"

datatype creature_kind = Kind_Player | Kind_Monster | Kind_Npc

text \<open>
  What tiles read of creatures. \<open>cr_senses\<close> is \<open>canSeeInvisibility\<close> and \<open>cr_pushable\<close> is \<open>isPushable\<close>, which
  depend on the immunities, the group and the walk delay; \<open>cr_access\<close> is the access flag of the group.
  \<open>cr_tile\<close> is the parent of a creature, which stays set after it was removed. Reference counters are
  left out.
\<close>

record creature =
  cr_kind :: creature_kind
  cr_tile :: "nat option"
  cr_position :: position
  cr_ghost :: bool
  cr_invisible :: bool
  cr_senses :: bool
  cr_access :: bool
  cr_moveLocked :: bool
  cr_master :: "nat option"
  cr_attacked :: "nat option"
  cr_pushable :: bool
  cr_isPet :: bool
  cr_canPushCreatures :: bool
  cr_canPushItems :: bool
  cr_immune :: "u16 \<Rightarrow> bool"
  cr_walksOnEnergy :: bool
  cr_walksOnFire :: bool
  cr_walksOnPoison :: bool
  cr_ignoreFieldDamage :: bool
  cr_pzLocked :: bool
  cr_level :: u32
  cr_lastWalkthroughAttempt :: int
  cr_lastWalkthroughPosition :: position
  cr_lastPosition :: position
  cr_direction :: direction
  cr_summons :: "nat list"
  cr_summoned :: bool
  cr_removed :: bool
  cr_skillLoss :: bool

definition is_player :: "creature \<Rightarrow> bool" where "is_player c \<longleftrightarrow> cr_kind c = Kind_Player"
definition is_monster :: "creature \<Rightarrow> bool" where "is_monster c \<longleftrightarrow> cr_kind c = Kind_Monster"
definition isSummon :: "creature \<Rightarrow> bool" where "isSummon c \<longleftrightarrow> cr_master c \<noteq> None"

text \<open>\<open>Player::canSeeCreature\<close> and \<open>Creature::canSeeCreature\<close>.\<close>

definition canSeeCreature :: "(nat \<Rightarrow> creature) \<Rightarrow> nat \<Rightarrow> nat \<Rightarrow> bool" where
  "canSeeCreature cr p c =
     (if is_player (cr p)
      then (if c = p then True
            else if cr_ghost (cr c) \<and> \<not> cr_access (cr p) then False
            else if \<not> is_player (cr c) \<and> \<not> cr_senses (cr p) \<and> cr_invisible (cr c) then False
            else True)
      else (if \<not> cr_senses (cr p) \<and> cr_invisible (cr c) then False else True))"

section \<open>Items\<close>

datatype item_property = CONST_PROP_BLOCKSOLID | CONST_PROP_HASHEIGHT | CONST_PROP_BLOCKPROJECTILE
  | CONST_PROP_BLOCKPATH | CONST_PROP_ISVERTICAL | CONST_PROP_ISHORIZONTAL | CONST_PROP_MOVEABLE
  | CONST_PROP_IMMOVABLEBLOCKSOLID | CONST_PROP_IMMOVABLEBLOCKPATH
  | CONST_PROP_IMMOVABLENOFIELDBLOCKPATH | CONST_PROP_NOFIELDBLOCKPATH | CONST_PROP_SUPPORTHANGABLE

definition item_hasProperty :: "item_table \<Rightarrow> item_property \<Rightarrow> item \<Rightarrow> bool" where
  "item_hasProperty T prop i =
     (let t = type_of T i;
          fixed = (\<not> ty_moveable t \<or> hasAttribute ITEM_ATTRIBUTE_UNIQUEID (it_attrs i))
      in case prop of
           CONST_PROP_BLOCKSOLID \<Rightarrow> ty_blockSolid t
         | CONST_PROP_MOVEABLE \<Rightarrow> ty_moveable t \<and> \<not> hasAttribute ITEM_ATTRIBUTE_UNIQUEID (it_attrs i)
         | CONST_PROP_HASHEIGHT \<Rightarrow> ty_hasHeight t
         | CONST_PROP_BLOCKPROJECTILE \<Rightarrow> ty_blockProjectile t
         | CONST_PROP_BLOCKPATH \<Rightarrow> ty_blockPathFind t
         | CONST_PROP_ISVERTICAL \<Rightarrow> ty_isVertical t
         | CONST_PROP_ISHORIZONTAL \<Rightarrow> ty_isHorizontal t
         | CONST_PROP_IMMOVABLEBLOCKSOLID \<Rightarrow> ty_blockSolid t \<and> fixed
         | CONST_PROP_IMMOVABLEBLOCKPATH \<Rightarrow> ty_blockPathFind t \<and> fixed
         | CONST_PROP_IMMOVABLENOFIELDBLOCKPATH \<Rightarrow> \<not> isMagicField t \<and> ty_blockPathFind t \<and> fixed
         | CONST_PROP_NOFIELDBLOCKPATH \<Rightarrow> \<not> isMagicField t \<and> ty_blockPathFind t
         | CONST_PROP_SUPPORTHANGABLE \<Rightarrow> ty_isHorizontal t \<or> ty_isVertical t)"

definition isAlwaysOnTop :: "item_table \<Rightarrow> item \<Rightarrow> bool" where
  "isAlwaysOnTop T i \<longleftrightarrow> ty_alwaysOnTop (type_of T i)"

text \<open>The classes with a \<open>canRemove\<close> of their own are the bed, whose answer is the parameter, and the depot.\<close>

definition isCleanable :: "item_table \<Rightarrow> (nat \<Rightarrow> bool) \<Rightarrow> item_world \<Rightarrow> nat \<Rightarrow> bool" where
  "isCleanable T bedRemovable w i \<longleftrightarrow>
     \<not> it_loadedFromMap (heap w i)
     \<and> (case it_class (heap w i) of Class_Bed \<Rightarrow> bedRemovable i | Class_DepotLocker \<Rightarrow> False | _ \<Rightarrow> True)
     \<and> ty_pickupable (type_of T (heap w i))
     \<and> \<not> hasAttribute ITEM_ATTRIBUTE_UNIQUEID (it_attrs (heap w i))
     \<and> \<not> hasAttribute ITEM_ATTRIBUTE_ACTIONID (it_attrs (heap w i))"

section \<open>The item vector\<close>

text \<open>Down items come first, from the newest; top items follow, ordered by \<open>alwaysOnTopOrder\<close>.\<close>

definition down_items :: "tile \<Rightarrow> nat list" where
  "down_items t = take (unat (downItemCount t)) (t_items t)"

definition top_items :: "tile \<Rightarrow> nat list" where
  "top_items t = drop (unat (downItemCount t)) (t_items t)"

definition getTopItemCount :: "tile \<Rightarrow> u32" where
  "getTopItemCount t = of_nat (length (t_items t)) - downItemCount t"

definition getTopTopItem :: "tile \<Rightarrow> nat option" where
  "getTopTopItem t = (if getTopItemCount t = 0 then None else Some (last (t_items t)))"

definition getTopDownItem :: "tile \<Rightarrow> nat option" where
  "getTopDownItem t = (if downItemCount t = 0 then None else Some (hd (t_items t)))"

definition getThingCount :: "tile \<Rightarrow> nat" where
  "getThingCount t = length (t_creatures t) + length (t_items t) + (if ground t \<noteq> None then 1 else 0)"

section \<open>Flags and properties\<close>

definition hasFlag :: "u32 \<Rightarrow> tile \<Rightarrow> bool" where
  "hasFlag flag t \<longleftrightarrow> hasBitSet flag (t_flags t)"

definition setFlag :: "u32 \<Rightarrow> tile \<Rightarrow> tile" where
  "setFlag flag t = t\<lparr>t_flags := t_flags t OR flag\<rparr>"

definition resetFlag :: "u32 \<Rightarrow> tile \<Rightarrow> tile" where
  "resetFlag flag t = t\<lparr>t_flags := t_flags t AND NOT flag\<rparr>"

datatype zone = ZONE_PROTECTION | ZONE_NOPVP | ZONE_PVP | ZONE_NOLOGOUT | ZONE_NORMAL

definition getZone :: "tile \<Rightarrow> zone" where
  "getZone t =
     (if hasFlag TILESTATE_PROTECTIONZONE t then ZONE_PROTECTION
      else if hasFlag TILESTATE_NOPVPZONE t then ZONE_NOPVP
      else if hasFlag TILESTATE_PVPZONE t then ZONE_PVP
      else ZONE_NORMAL)"

definition t_hasProperty :: "item_table \<Rightarrow> item_world \<Rightarrow> item_property \<Rightarrow> tile \<Rightarrow> bool" where
  "t_hasProperty T w prop t =
     (if (case ground t of None \<Rightarrow> False | Some g \<Rightarrow> item_hasProperty T prop (heap w g)) then True
      else list_ex (\<lambda>i. item_hasProperty T prop (heap w i)) (t_items t))"

definition t_hasProperty_excl :: "item_table \<Rightarrow> item_world \<Rightarrow> nat \<Rightarrow> item_property \<Rightarrow> tile \<Rightarrow> bool" where
  "t_hasProperty_excl T w excluded prop t =
     (if (case ground t of None \<Rightarrow> False | Some g \<Rightarrow> excluded \<noteq> g \<and> item_hasProperty T prop (heap w g)) then True
      else list_ex (\<lambda>i. i \<noteq> excluded \<and> item_hasProperty T prop (heap w i)) (t_items t))"

fun height_loop :: "item_table \<Rightarrow> item_world \<Rightarrow> u32 \<Rightarrow> u32 \<Rightarrow> nat list \<Rightarrow> bool" where
  "height_loop T w n height [] = False"
| "height_loop T w n height (i # is) =
     (let height = (if item_hasProperty T CONST_PROP_HASHEIGHT (heap w i) then height + 1 else height)
      in if n = height then True else height_loop T w n height is)"

definition hasHeight :: "item_table \<Rightarrow> item_world \<Rightarrow> u32 \<Rightarrow> tile \<Rightarrow> bool" where
  "hasHeight T w n t =
     (case ground t of
        None \<Rightarrow> height_loop T w n 0 (t_items t)
      | Some g \<Rightarrow>
          let height = (if item_hasProperty T CONST_PROP_HASHEIGHT (heap w g) then 1 else 0)
          in if n = height then True else height_loop T w n height (t_items t))"

definition set_if :: "bool \<Rightarrow> u32 \<Rightarrow> tile \<Rightarrow> tile" where
  "set_if b flag t = (if b then setFlag flag t else t)"

definition reset_if :: "bool \<Rightarrow> u32 \<Rightarrow> tile \<Rightarrow> tile" where
  "reset_if b flag t = (if b then resetFlag flag t else t)"

definition setTileFlags :: "item_table \<Rightarrow> item_world \<Rightarrow> nat \<Rightarrow> tile \<Rightarrow> tile" where
  "setTileFlags T w i t =
     (let x = heap w i; P = (\<lambda>prop. item_hasProperty T prop x); fc = ty_floorChange (type_of T x);
          t = set_if (\<not> hasFlag TILESTATE_FLOORCHANGE t \<and> fc \<noteq> 0) (ucast fc) t;
          t = set_if (P CONST_PROP_IMMOVABLEBLOCKSOLID) TILESTATE_IMMOVABLEBLOCKSOLID t;
          t = set_if (P CONST_PROP_BLOCKPATH) TILESTATE_BLOCKPATH t;
          t = set_if (P CONST_PROP_NOFIELDBLOCKPATH) TILESTATE_NOFIELDBLOCKPATH t;
          t = set_if (P CONST_PROP_IMMOVABLENOFIELDBLOCKPATH) TILESTATE_IMMOVABLENOFIELDBLOCKPATH t;
          t = set_if (it_class x = Class_Teleport) TILESTATE_TELEPORT t;
          t = set_if (it_class x = Class_MagicField) TILESTATE_MAGICFIELD t;
          t = set_if (it_class x = Class_Mailbox) TILESTATE_MAILBOX t;
          t = set_if (it_class x = Class_TrashHolder) TILESTATE_TRASHHOLDER t;
          t = set_if (P CONST_PROP_BLOCKSOLID) TILESTATE_BLOCKSOLID t;
          t = set_if (it_class x = Class_Bed) TILESTATE_BED t;
          t = set_if (it_class x = Class_DepotLocker) TILESTATE_DEPOT t;
          t = set_if (P CONST_PROP_SUPPORTHANGABLE) TILESTATE_SUPPORTS_HANGABLE t
      in t)"

definition resetTileFlags :: "item_table \<Rightarrow> item_world \<Rightarrow> nat \<Rightarrow> tile \<Rightarrow> tile" where
  "resetTileFlags T w i t =
     (let x = heap w i; P = (\<lambda>prop. item_hasProperty T prop x);
          gone = (\<lambda>prop. P prop \<and> \<not> t_hasProperty_excl T w i prop t);
          t = reset_if (ty_floorChange (type_of T x) \<noteq> 0) TILESTATE_FLOORCHANGE t;
          t = reset_if (gone CONST_PROP_BLOCKSOLID) TILESTATE_BLOCKSOLID t;
          t = reset_if (gone CONST_PROP_IMMOVABLEBLOCKSOLID) TILESTATE_IMMOVABLEBLOCKSOLID t;
          t = reset_if (gone CONST_PROP_BLOCKPATH) TILESTATE_BLOCKPATH t;
          t = reset_if (gone CONST_PROP_NOFIELDBLOCKPATH) TILESTATE_NOFIELDBLOCKPATH t;
          t = reset_if (gone CONST_PROP_IMMOVABLEBLOCKPATH) TILESTATE_IMMOVABLEBLOCKPATH t;
          t = reset_if (gone CONST_PROP_IMMOVABLENOFIELDBLOCKPATH) TILESTATE_IMMOVABLENOFIELDBLOCKPATH t;
          t = reset_if (it_class x = Class_Teleport) TILESTATE_TELEPORT t;
          t = reset_if (it_class x = Class_MagicField) TILESTATE_MAGICFIELD t;
          t = reset_if (it_class x = Class_Mailbox) TILESTATE_MAILBOX t;
          t = reset_if (it_class x = Class_TrashHolder) TILESTATE_TRASHHOLDER t;
          t = reset_if (it_class x = Class_Bed) TILESTATE_BED t;
          t = reset_if (it_class x = Class_DepotLocker) TILESTATE_DEPOT t;
          t = reset_if (P CONST_PROP_SUPPORTHANGABLE) TILESTATE_SUPPORTS_HANGABLE t
      in t)"

definition isMoveableBlocking :: "tile \<Rightarrow> bool" where
  "isMoveableBlocking t \<longleftrightarrow> ground t = None \<or> hasFlag TILESTATE_BLOCKSOLID t"

section \<open>Things on a tile\<close>

text \<open>The items of a special class; a teleport is not looked for in the ground.\<close>

definition find_class :: "item_world \<Rightarrow> item_class \<Rightarrow> nat list \<Rightarrow> nat option" where
  "find_class w cls is = List.find (\<lambda>i. it_class (heap w i) = cls) is"

definition find_special :: "item_world \<Rightarrow> item_class \<Rightarrow> tile \<Rightarrow> nat option" where
  "find_special w cls t =
     (case ground t of
        Some g \<Rightarrow> if it_class (heap w g) = cls then Some g else find_class w cls (rev (t_items t))
      | None \<Rightarrow> find_class w cls (rev (t_items t)))"

definition getTeleportItem :: "item_world \<Rightarrow> tile \<Rightarrow> nat option" where
  "getTeleportItem w t =
     (if \<not> hasFlag TILESTATE_TELEPORT t then None else find_class w Class_Teleport (rev (t_items t)))"

definition getFieldItem :: "item_world \<Rightarrow> tile \<Rightarrow> nat option" where
  "getFieldItem w t =
     (if \<not> hasFlag TILESTATE_MAGICFIELD t then None else find_special w Class_MagicField t)"

definition getTrashHolder :: "item_world \<Rightarrow> tile \<Rightarrow> nat option" where
  "getTrashHolder w t =
     (if \<not> hasFlag TILESTATE_TRASHHOLDER t then None else find_special w Class_TrashHolder t)"

definition getMailbox :: "item_world \<Rightarrow> tile \<Rightarrow> nat option" where
  "getMailbox w t =
     (if \<not> hasFlag TILESTATE_MAILBOX t then None else find_special w Class_Mailbox t)"

definition getBedItem :: "item_world \<Rightarrow> tile \<Rightarrow> nat option" where
  "getBedItem w t =
     (if \<not> hasFlag TILESTATE_BED t then None else find_special w Class_Bed t)"

definition getTopCreature :: "tile \<Rightarrow> nat option" where
  "getTopCreature t = (if t_creatures t \<noteq> [] then Some (hd (t_creatures t)) else None)"

definition getBottomCreature :: "tile \<Rightarrow> nat option" where
  "getBottomCreature t = (if t_creatures t \<noteq> [] then Some (last (t_creatures t)) else None)"

text \<open>The first of the creatures that the viewer sees, or that anyone would.\<close>

definition first_visible :: "(nat \<Rightarrow> creature) \<Rightarrow> nat option \<Rightarrow> nat list \<Rightarrow> nat option" where
  "first_visible cr viewer cs =
     (case viewer of
        Some v \<Rightarrow>
          if is_player (cr v) \<and> cr_access (cr v) then (if cs \<noteq> [] then Some (hd cs) else None)
          else List.find (canSeeCreature cr v) cs
      | None \<Rightarrow> List.find (\<lambda>c. \<not> cr_invisible (cr c) \<and> (\<not> is_player (cr c) \<or> \<not> cr_ghost (cr c))) cs)"

definition getTopVisibleCreature :: "(nat \<Rightarrow> creature) \<Rightarrow> nat option \<Rightarrow> tile \<Rightarrow> nat option" where
  "getTopVisibleCreature cr viewer t = first_visible cr viewer (t_creatures t)"

definition getBottomVisibleCreature :: "(nat \<Rightarrow> creature) \<Rightarrow> nat option \<Rightarrow> tile \<Rightarrow> nat option" where
  "getBottomVisibleCreature cr viewer t = first_visible cr viewer (rev (t_creatures t))"

definition getItemByTopOrder :: "item_table \<Rightarrow> item_world \<Rightarrow> int \<Rightarrow> tile \<Rightarrow> nat option" where
  "getItemByTopOrder T w topOrder t =
     List.find (\<lambda>i. uint (ty_alwaysOnTopOrder (type_of T (heap w i))) = topOrder) (rev (top_items t))"

definition getTopVisibleThing ::
    "item_table \<Rightarrow> item_world \<Rightarrow> (nat \<Rightarrow> creature) \<Rightarrow> nat option \<Rightarrow> tile \<Rightarrow> thing option" where
  "getTopVisibleThing T w cr viewer t =
     (case getTopVisibleCreature cr viewer t of
        Some c \<Rightarrow> Some (TCreature c)
      | None \<Rightarrow>
          (case List.find (\<lambda>i. \<not> ty_lookThrough (type_of T (heap w i))) (down_items t) of
             Some i \<Rightarrow> Some (TItem i)
           | None \<Rightarrow>
               (case List.find (\<lambda>i. \<not> ty_lookThrough (type_of T (heap w i))) (rev (top_items t)) of
                  Some i \<Rightarrow> Some (TItem i)
                | None \<Rightarrow> map_option TItem (ground t))))"

section \<open>Positions on the tile\<close>

text \<open>
  \<open>getThingIndex\<close> and \<open>getThing\<close>: ground, top items, creatures from the top one, down items. The loops
  carry the position before the thing they look at, or \<open>Inr\<close> the position where they stopped.
\<close>

fun index_loop :: "'a \<Rightarrow> 'a list \<Rightarrow> int \<Rightarrow> int + int" where
  "index_loop x [] n = Inr n"
| "index_loop x (y # ys) n = (if y = x then Inl (n + 1) else index_loop x ys (n + 1))"

fun thing_creature :: "thing \<Rightarrow> nat option" where
  "thing_creature (TItem i) = None"
| "thing_creature (TCreature c) = Some c"

definition t_getThingIndex :: "item_table \<Rightarrow> item_world \<Rightarrow> thing \<Rightarrow> tile \<Rightarrow> int" where
  "t_getThingIndex T w thing t =
     (let n = -1 :: int in
      if ground t \<noteq> None \<and> map_option TItem (ground t) = Some thing then 0
      else
        let n = (if ground t \<noteq> None then n + 1 else n) in
        case (case thing_item thing of
                Some i \<Rightarrow> if isAlwaysOnTop T (heap w i) then index_loop i (top_items t) n
                          else Inr (n + uint (getTopItemCount t))
              | None \<Rightarrow> Inr (n + uint (getTopItemCount t))) of
          Inl r \<Rightarrow> r
        | Inr n \<Rightarrow>
            (case (case thing_creature thing of
                     Some c \<Rightarrow> index_loop c (t_creatures t) n
                   | None \<Rightarrow> Inr (n + int (length (t_creatures t)))) of
               Inl r \<Rightarrow> r
             | Inr n \<Rightarrow>
                 (case thing_item thing of
                    Some i \<Rightarrow>
                      if \<not> isAlwaysOnTop T (heap w i)
                      then (case index_loop i (down_items t) n of Inl r \<Rightarrow> r | Inr n \<Rightarrow> -1)
                      else -1
                  | None \<Rightarrow> -1)))"

definition t_getThing :: "nat \<Rightarrow> tile \<Rightarrow> thing option" where
  "t_getThing index t =
     (if ground t \<noteq> None \<and> index = 0 then map_option TItem (ground t)
      else
        let index = (if ground t \<noteq> None then index - 1 else index);
            topItemSize = unat (getTopItemCount t) in
        if index < topItemSize then Some (TItem (t_items t ! (unat (downItemCount t) + index)))
        else
          let index = index - topItemSize in
          if index < length (t_creatures t) then Some (TCreature (t_creatures t ! index))
          else
            let index = index - length (t_creatures t) in
            if index < unat (downItemCount t) then Some (TItem (t_items t ! index)) else None)"

text \<open>The position of a creature in the client's list of things, without the limit of ten and with it.\<close>

fun client_loop :: "(nat \<Rightarrow> bool) \<Rightarrow> nat \<Rightarrow> nat list \<Rightarrow> int \<Rightarrow> int" where
  "client_loop sees creature [] n = -1"
| "client_loop sees creature (c # cs) n =
     (if c = creature then n
      else if sees c then client_loop sees creature cs (n + 1)
      else client_loop sees creature cs n)"

definition getClientIndexOfCreature :: "(nat \<Rightarrow> creature) \<Rightarrow> nat \<Rightarrow> nat \<Rightarrow> tile \<Rightarrow> int" where
  "getClientIndexOfCreature cr player creature t =
     (let n = (if ground t \<noteq> None then 1 else 0) + uint (getTopItemCount t)
      in client_loop (canSeeCreature cr player) creature (rev (t_creatures t)) n)"

fun stackpos_creature_loop :: "(nat \<Rightarrow> bool) \<Rightarrow> nat \<Rightarrow> nat list \<Rightarrow> int \<Rightarrow> int" where
  "stackpos_creature_loop sees creature [] n = -1"
| "stackpos_creature_loop sees creature (c # cs) n =
     (if c = creature then n
      else if sees c
      then (if n + 1 \<ge> 10 then -1 else stackpos_creature_loop sees creature cs (n + 1))
      else stackpos_creature_loop sees creature cs n)"

definition getStackposOfCreature :: "(nat \<Rightarrow> creature) \<Rightarrow> nat \<Rightarrow> nat \<Rightarrow> tile \<Rightarrow> int" where
  "getStackposOfCreature cr player creature t =
     (let n = (if ground t \<noteq> None then 1 else 0) + uint (getTopItemCount t)
      in if n \<ge> 10 then -1
         else stackpos_creature_loop (canSeeCreature cr player) creature (rev (t_creatures t)) n)"

fun stackpos_items_loop :: "nat \<Rightarrow> nat list \<Rightarrow> int \<Rightarrow> int + int" where
  "stackpos_items_loop item [] n = Inr n"
| "stackpos_items_loop item (i # is) n =
     (if i = item then Inl n
      else if n + 1 \<ge> 10 then Inl (-1)
      else stackpos_items_loop item is (n + 1))"

fun stackpos_seen_loop :: "(nat \<Rightarrow> bool) \<Rightarrow> nat list \<Rightarrow> int \<Rightarrow> int + int" where
  "stackpos_seen_loop sees [] n = Inr n"
| "stackpos_seen_loop sees (c # cs) n =
     (if sees c then (if n + 1 \<ge> 10 then Inl (-1) else stackpos_seen_loop sees cs (n + 1))
      else stackpos_seen_loop sees cs n)"

definition getStackposOfItem ::
    "item_table \<Rightarrow> item_world \<Rightarrow> (nat \<Rightarrow> creature) \<Rightarrow> nat \<Rightarrow> nat \<Rightarrow> tile \<Rightarrow> int" where
  "getStackposOfItem T w cr player item t =
     (if ground t = Some item then 0
      else
        let n = (if ground t \<noteq> None then 1 else 0); top = isAlwaysOnTop T (heap w item) in
        case (if top then stackpos_items_loop item (top_items t) n
              else let n = n + uint (getTopItemCount t)
                   in if n \<ge> 10 then Inl (-1) else Inr n) of
          Inl r \<Rightarrow> r
        | Inr n \<Rightarrow>
            (case stackpos_seen_loop (canSeeCreature cr player) (t_creatures t) n of
               Inl r \<Rightarrow> r
             | Inr n \<Rightarrow>
                 if \<not> top
                 then (case stackpos_items_loop item (down_items t) n of Inl r \<Rightarrow> r | Inr n \<Rightarrow> -1)
                 else -1))"

definition t_getItemTypeCount :: "item_table \<Rightarrow> item_world \<Rightarrow> u16 \<Rightarrow> int \<Rightarrow> tile \<Rightarrow> u32" where
  "t_getItemTypeCount T w itemId subType t =
     (let count_item = (\<lambda>i. if it_id (heap w i) = itemId then countByType T (heap w i) subType else 0)
      in (case ground t of None \<Rightarrow> 0 | Some g \<Rightarrow> count_item g) + (\<Sum>i \<leftarrow> t_items t. count_item i))"

definition getUseItem :: "int \<Rightarrow> tile \<Rightarrow> nat option" where
  "getUseItem index t =
     (if t_items t = [] then ground t
      else case t_getThing (nat (uint (of_int index :: u64))) t of
             Some thing \<Rightarrow> thing_item thing
           | None \<Rightarrow> None)"

definition getDoorItem :: "item_table \<Rightarrow> item_world \<Rightarrow> tile \<Rightarrow> nat option" where
  "getDoorItem T w t =
     (if t_items t = [] then ground t
      else List.find (\<lambda>i. isDoor (type_of T (heap w i))) (t_items t))"

section \<open>The description sent to a client\<close>

text \<open>
  \<open>ProtocolGame::GetTileDescription\<close>: at most ten things; on the player's own tile the tenth place is
  kept for the player. A loop returns what it adds and the count, or \<open>None\<close> where the code returns.
\<close>

fun describe_top :: "bool \<Rightarrow> nat list \<Rightarrow> nat \<Rightarrow> thing list \<times> nat option" where
  "describe_top own [] n = ([], Some n)"
| "describe_top own (i # is) n =
     (let n = n + 1
      in if n = 9 \<and> own then ([TItem i], Some n)
         else if n = 10 then ([TItem i], None)
         else (let (ts, r) = describe_top own is n in (TItem i # ts, r)))"

fun describe_creatures ::
    "(nat \<Rightarrow> bool) \<Rightarrow> nat \<Rightarrow> bool \<Rightarrow> bool \<Rightarrow> nat list \<Rightarrow> nat \<Rightarrow> thing list \<times> nat option" where
  "describe_creatures sees player own playerAdded [] n = ([], Some n)"
| "describe_creatures sees player own playerAdded (c # cs) n =
     (if \<not> sees c then describe_creatures sees player own playerAdded cs n
      else let c = (if own \<and> n = 9 \<and> \<not> playerAdded then player else c);
               playerAdded = (playerAdded \<or> c = player);
               n = n + 1
           in if n = 10 then ([TCreature c], None)
              else (let (ts, r) = describe_creatures sees player own playerAdded cs n in (TCreature c # ts, r)))"

fun describe_down :: "nat list \<Rightarrow> nat \<Rightarrow> thing list" where
  "describe_down [] n = []"
| "describe_down (i # is) n = (if n + 1 = 10 then [TItem i] else TItem i # describe_down is (n + 1))"

definition getTileDescription :: "(nat \<Rightarrow> creature) \<Rightarrow> nat \<Rightarrow> tile \<Rightarrow> thing list" where
  "getTileDescription cr player t =
     (let own = (tilePos t = cr_position (cr player));
          first = (case ground t of Some g \<Rightarrow> [TItem g] | None \<Rightarrow> []);
          (tops, r) = describe_top own (top_items t) (length first)
      in case r of
           None \<Rightarrow> first @ tops
         | Some n \<Rightarrow>
             (let (cs, r) = describe_creatures (canSeeCreature cr player) player own False (rev (t_creatures t)) n
              in case r of
                   None \<Rightarrow> first @ tops @ cs
                 | Some n \<Rightarrow> first @ tops @ cs @ describe_down (down_items t) n))"

section \<open>A tile as the list of its things\<close>

definition tile_ok :: "item_table \<Rightarrow> item_world \<Rightarrow> tile \<Rightarrow> bool" where
  "tile_ok T w t \<longleftrightarrow>
     unat (downItemCount t) \<le> length (t_items t) \<and> length (t_items t) \<le> 0xFFFF
     \<and> distinct (t_items t) \<and> distinct (t_creatures t)
     \<and> (\<forall>g. ground t = Some g \<longrightarrow> g \<notin> set (t_items t))
     \<and> (\<forall>i \<in> set (down_items t). \<not> isAlwaysOnTop T (heap w i))
     \<and> (\<forall>i \<in> set (top_items t). isAlwaysOnTop T (heap w i))
     \<and> sorted (map (\<lambda>i. ty_alwaysOnTopOrder (type_of T (heap w i))) (top_items t))"

definition ground_list :: "tile \<Rightarrow> nat list" where
  "ground_list t = (case ground t of Some g \<Rightarrow> [g] | None \<Rightarrow> [])"

definition things :: "tile \<Rightarrow> thing list" where
  "things t = map TItem (ground_list t) @ map TItem (top_items t) @ map TCreature (t_creatures t)
              @ map TItem (down_items t)"

definition position_in :: "'a \<Rightarrow> 'a list \<Rightarrow> int" where
  "position_in x xs = (if x \<in> set xs then int (length (takeWhile ((\<noteq>) x) xs)) else -1)"

lemma position_in_simps [simp]:
  "position_in x [] = -1"
  "position_in x (y # ys) = (if x = y then 0 else if position_in x ys = -1 then -1 else position_in x ys + 1)"
  by (auto simp: position_in_def)

lemma position_in_append:
  "position_in x (xs @ ys) =
     (if x \<in> set xs then position_in x xs
      else if x \<in> set ys then int (length xs) + position_in x ys else -1)"
  by (induction xs) (auto simp: position_in_def)

lemma position_in_absent [simp]: "x \<notin> set xs \<Longrightarrow> position_in x xs = -1"
  by (simp add: position_in_def)

lemma position_in_map: "inj f \<Longrightarrow> position_in (f x) (map f xs) = position_in x xs"
  by (induction xs) (auto simp: inj_eq)

lemma position_in_nth: "x \<in> set xs \<Longrightarrow> xs ! nat (position_in x xs) = x"
  by (simp add: position_in_def nth_takeWhile_neq)

lemma nth_position_in: "distinct xs \<Longrightarrow> k < length xs \<Longrightarrow> position_in (xs ! k) xs = int k"
proof (induction xs arbitrary: k)
  case (Cons x xs)
  then show ?case by (cases k) (auto simp: nth_mem)
qed simp

lemma position_in_ge: "position_in x xs = -1 \<or> 0 \<le> position_in x xs"
  by (simp add: position_in_def)

lemma position_in_take: "position_in x (take n xs) = (if position_in x xs < int n then position_in x xs else -1)"
proof (induction xs arbitrary: n)
  case (Cons y ys)
  then show ?case using position_in_ge [of x ys] by (cases n) auto
qed simp

lemma index_loop_position:
  "index_loop x xs n = (if x \<in> set xs then Inl (n + 1 + position_in x xs) else Inr (n + int (length xs)))"
  by (induction xs arbitrary: n) (auto simp: position_in_def)

lemma split_items: "tile_ok T w t \<Longrightarrow>
    length (down_items t) = unat (downItemCount t) \<and> unat (getTopItemCount t) = length (top_items t)
    \<and> uint (getTopItemCount t) = int (length (top_items t)) \<and> t_items t = down_items t @ top_items t"
proof -
  assume "tile_ok T w t"
  then have l: "unat (downItemCount t) \<le> length (t_items t)" "length (t_items t) \<le> 0xFFFF"
    by (simp_all add: tile_ok_def)
  have "unat (of_nat (length (t_items t)) :: u32) = length (t_items t)"
    using l by (intro unat_of_nat_small) simp
  then have "unat (getTopItemCount t) = length (t_items t) - unat (downItemCount t)"
    using l by (simp add: getTopItemCount_def unat_sub word_le_nat_alt)
  moreover have "uint (getTopItemCount t) = int (unat (getTopItemCount t))" by simp
  ultimately show ?thesis using l by (simp add: down_items_def top_items_def)
qed

lemma thing_in_things [simp]:
  "TItem i \<in> set (things t) \<longleftrightarrow> ground t = Some i \<or> i \<in> set (top_items t) \<or> i \<in> set (down_items t)"
  "TCreature c \<in> set (things t) \<longleftrightarrow> c \<in> set (t_creatures t)"
  by (auto simp: things_def ground_list_def split: option.splits)

lemma inj_thing [simp]: "inj TItem" "inj TCreature"
  by (simp_all add: inj_def)

lemma TItem_creatures [simp]: "TItem i \<notin> TCreature ` A" "TCreature c \<notin> TItem ` B"
  by auto

lemma getThingIndex_things:
  assumes ok: "tile_ok T w t"
  shows "t_getThingIndex T w thing t = position_in thing (things t)"
proof (cases thing)
  case (TItem i)
  note s = split_items [OF ok]
  have kinds: "i \<in> set (down_items t) \<Longrightarrow> \<not> isAlwaysOnTop T (heap w i)"
    "i \<in> set (top_items t) \<Longrightarrow> isAlwaysOnTop T (heap w i)"
    using ok by (auto simp: tile_ok_def)
  have present: "x \<in> set xs \<Longrightarrow> 0 \<le> position_in x xs" for x :: nat and xs by (simp add: position_in_def)
  show ?thesis using kinds s present [of i "top_items t"] present [of i "down_items t"]
    by (cases "ground t")
      (auto simp: TItem t_getThingIndex_def Let_def index_loop_position things_def ground_list_def position_in_append
        position_in_map inj_image_mem_iff)
next
  case (TCreature c)
  note s = split_items [OF ok]
  have present: "c \<in> set xs \<Longrightarrow> 0 \<le> position_in c xs" for xs by (simp add: position_in_def)
  show ?thesis using s present [of "t_creatures t"]
    by (cases "ground t")
      (auto simp: TCreature t_getThingIndex_def Let_def index_loop_position things_def ground_list_def position_in_append
        position_in_map inj_image_mem_iff)
qed

lemma getThing_things:
  assumes ok: "tile_ok T w t"
  shows "t_getThing k t = (if k < length (things t) then Some (things t ! k) else None)"
proof -
  note s = split_items [OF ok]
  have top: "t_items t ! (unat (downItemCount t) + j) = top_items t ! j" for j
    using s by (metis nth_append_length_plus)
  have down: "j < unat (downItemCount t) \<Longrightarrow> t_items t ! j = down_items t ! j" for j
    by (simp add: down_items_def)
  show ?thesis
    by (cases "ground t"; cases k)
      (auto simp: t_getThing_def Let_def things_def ground_list_def nth_append s top down)
qed

lemma distinct_things:
  assumes ok: "tile_ok T w t"
  shows "distinct (things t)"
proof -
  have "distinct (down_items t @ top_items t)" "distinct (t_creatures t)"
    "\<And>g. ground t = Some g \<Longrightarrow> g \<notin> set (down_items t @ top_items t)"
    using ok split_items [OF ok] by (auto simp: tile_ok_def)
  then show ?thesis
    by (cases "ground t") (auto simp: things_def ground_list_def distinct_map inj_on_def)
qed

lemma length_things: "tile_ok T w t \<Longrightarrow> length (things t) = getThingCount t"
  using split_items [of T w t] arg_cong [of "t_items t" "down_items t @ top_items t" length]
  by (cases "ground t") (auto simp: things_def ground_list_def getThingCount_def)

text \<open>The client's list and the positions the server announces for it.\<close>

definition seen_things :: "(nat \<Rightarrow> creature) \<Rightarrow> nat \<Rightarrow> tile \<Rightarrow> thing list" where
  "seen_things cr p t = map TItem (ground_list t) @ map TItem (top_items t)
     @ map TCreature (filter (canSeeCreature cr p) (rev (t_creatures t))) @ map TItem (down_items t)"

lemma describe_top_foreign:
  "n < 10 \<Longrightarrow> describe_top False is n =
     (take (10 - n) (map TItem is), if n + length is \<ge> 10 then None else Some (n + length is))"
proof (induction "is" arbitrary: n)
  case (Cons i "is")
  then show ?case by (cases "n = 9") (auto simp: Let_def take_Cons' split: prod.split)
qed simp

lemma describe_creatures_foreign:
  "n < 10 \<Longrightarrow> describe_creatures sees p False a cs n =
     (take (10 - n) (map TCreature (filter sees cs)),
      if n + length (filter sees cs) \<ge> 10 then None else Some (n + length (filter sees cs)))"
proof (induction cs arbitrary: n a)
  case (Cons c cs)
  then show ?case by (cases "n = 9") (auto simp: Let_def take_Cons' split: prod.split)
qed simp

lemma describe_down_take: "n < 10 \<Longrightarrow> describe_down is n = take (10 - n) (map TItem is)"
proof (induction "is" arbitrary: n)
  case (Cons i "is")
  then show ?case by (cases "n = 9") (auto simp: take_Cons')
qed simp

lemma description_foreign:
  assumes "tilePos t \<noteq> cr_position (cr p)"
  shows "getTileDescription cr p t = take 10 (seen_things cr p t)"
proof -
  let ?g = "map TItem (ground_list t)" and ?cs = "filter (canSeeCreature cr p) (rev (t_creatures t))"
  have g: "(case ground t of Some g \<Rightarrow> [TItem g] | None \<Rightarrow> []) = ?g" "length ?g < 10"
    by (simp_all add: ground_list_def split: option.split)
  show ?thesis
  proof (cases "length ?g + length (top_items t) \<ge> 10")
    case True
    then show ?thesis using assms g
      by (simp add: getTileDescription_def g Let_def describe_top_foreign seen_things_def)
  next
    case False
    show ?thesis
    proof (cases "length ?g + length (top_items t) + length ?cs \<ge> 10")
      case True
      then show ?thesis using assms g False
        by (simp add: getTileDescription_def g Let_def describe_top_foreign describe_creatures_foreign seen_things_def)
    next
      case False
      then show ?thesis using assms g
        by (simp add: getTileDescription_def g Let_def describe_top_foreign describe_creatures_foreign
            describe_down_take seen_things_def)
    qed
  qed
qed

text \<open>The loops over the client's list.\<close>

lemma client_loop_position:
  "sees c \<Longrightarrow> client_loop sees c cs n = (if c \<in> set cs then n + position_in c (filter sees cs) else -1)"
  by (induction cs arbitrary: n) (auto simp: position_in_def)

lemma stackpos_creature_loop_position:
  "sees c \<Longrightarrow> 0 \<le> n \<Longrightarrow> n < 10 \<Longrightarrow> stackpos_creature_loop sees c cs n =
     (if c \<in> set cs \<and> n + position_in c (filter sees cs) < 10 then n + position_in c (filter sees cs) else -1)"
  by (induction cs arbitrary: n) (auto simp: position_in_def)

lemma stackpos_items_loop_position:
  "0 \<le> n \<Longrightarrow> n < 10 \<Longrightarrow> stackpos_items_loop i is n =
     (if i \<in> set is \<and> n + position_in i is < 10 then Inl (n + position_in i is)
      else if n + int (length is) \<ge> 10 then Inl (-1) else Inr (n + int (length is)))"
  by (induction "is" arbitrary: n) (auto simp: position_in_def)

lemma stackpos_seen_loop_position:
  "0 \<le> n \<Longrightarrow> n < 10 \<Longrightarrow> stackpos_seen_loop sees cs n =
     (if n + int (length (filter sees cs)) \<ge> 10 then Inl (-1) else Inr (n + int (length (filter sees cs))))"
  by (induction cs arbitrary: n) auto

lemma stackpos_creature_seen:
  assumes ok: "tile_ok T w t" and c: "c \<in> set (t_creatures t)" and sees: "canSeeCreature cr p c"
  shows "getClientIndexOfCreature cr p c t = position_in (TCreature c) (seen_things cr p t)"
    and "getStackposOfCreature cr p c t = position_in (TCreature c) (take 10 (seen_things cr p t))"
proof -
  note s = split_items [OF ok]
  let ?cs = "filter (canSeeCreature cr p) (rev (t_creatures t))"
  have seen: "c \<in> set ?cs" using c sees by simp
  have pos: "position_in (TCreature c) (seen_things cr p t) =
      int (length (ground_list t)) + int (length (top_items t)) + position_in c ?cs"
    using seen by (auto simp: seen_things_def position_in_append position_in_map inj_image_mem_iff)
  have g: "(if ground t \<noteq> None then 1 else 0 :: int) = int (length (ground_list t))"
    by (simp add: ground_list_def split: option.split)
  show "getClientIndexOfCreature cr p c t = position_in (TCreature c) (seen_things cr p t)"
    using c s unfolding getClientIndexOfCreature_def g pos by (simp add: client_loop_position [where sees = "canSeeCreature cr p" and c = c, OF sees])
  have "0 \<le> position_in c ?cs" using seen by (simp add: position_in_def)
  then show "getStackposOfCreature cr p c t = position_in (TCreature c) (take 10 (seen_things cr p t))"
    using c s unfolding getStackposOfCreature_def g position_in_take pos
    by (simp add: stackpos_creature_loop_position [where sees = "canSeeCreature cr p" and c = c, OF sees] Let_def)
qed

lemma stackpos_item_seen:
  assumes ok: "tile_ok T w t" and i: "ground t = Some i \<or> i \<in> set (t_items t)"
  shows "getStackposOfItem T w cr p i t = position_in (TItem i) (take 10 (seen_things cr p t))"
proof (cases "ground t = Some i")
  case True
  then show ?thesis by (simp add: getStackposOfItem_def seen_things_def ground_list_def)
next
  case False
  note s = split_items [OF ok]
  let ?cs = "filter (canSeeCreature cr p) (rev (t_creatures t))"
  let ?g = "int (length (ground_list t))"
  have g: "(if ground t \<noteq> None then 1 else 0 :: int) = ?g" "?g \<le> 1"
    by (simp_all add: ground_list_def split: option.split)
  have len: "length (filter (canSeeCreature cr p) (t_creatures t)) = length ?cs" by (simp add: rev_filter [symmetric])
  have notg: "TItem i \<notin> set (map TItem (ground_list t))" using False by (auto simp: ground_list_def split: option.splits)
  have kinds: "i \<in> set (down_items t) \<Longrightarrow> \<not> isAlwaysOnTop T (heap w i)"
    "i \<in> set (top_items t) \<Longrightarrow> isAlwaysOnTop T (heap w i)"
    using ok by (auto simp: tile_ok_def)
  consider "i \<in> set (top_items t)" "i \<notin> set (down_items t)" | "i \<in> set (down_items t)" "i \<notin> set (top_items t)"
    using i False kinds s by (metis Un_iff set_append)
  then show ?thesis
  proof cases
    case 1
    have "position_in (TItem i) (seen_things cr p t) = ?g + position_in i (top_items t)"
      using 1 notg by (auto simp: seen_things_def position_in_append position_in_map inj_image_mem_iff)
    moreover have "0 \<le> position_in i (top_items t)" using 1 by (simp add: position_in_def)
    ultimately show ?thesis
      using 1 kinds False g unfolding getStackposOfItem_def g(1) position_in_take
      by (auto simp: Let_def stackpos_items_loop_position position_in_def split: sum.splits dest: length_takeWhile_neq)
  next
    case 2
    have pos: "position_in (TItem i) (seen_things cr p t) =
        ?g + int (length (top_items t)) + int (length ?cs) + position_in i (down_items t)"
      using 2 notg by (auto simp: seen_things_def position_in_append position_in_map inj_image_mem_iff)
    have "0 \<le> position_in i (down_items t)" using 2 by (simp add: position_in_def)
    then show ?thesis
      using 2 kinds False g s unfolding getStackposOfItem_def g(1) position_in_take pos
      by (auto simp: Let_def stackpos_items_loop_position stackpos_seen_loop_position len)
  qed
qed

text \<open>C13: A tile behaves as one list of its things: ground, top items, creatures, down items. \<open>getThing\<close>
  reads that list, \<open>getThingIndex\<close> is the position in it and minus one for a thing that is not there,
  and so the two are inverse to each other.\<close>

theorem tile_is_a_list_of_things:
  assumes "tile_ok T w t"
  shows "t_getThing k t = (if k < getThingCount t then Some (things t ! k) else None)
    \<and> (t_getThing k t = Some thing) = (t_getThingIndex T w thing t = int k)
    \<and> (t_getThingIndex T w thing t = -1) = (thing \<notin> set (things t))"
proof (intro conjI)
  note l = length_things [OF assms] and d = distinct_things [OF assms]
  show g: "t_getThing k t = (if k < getThingCount t then Some (things t ! k) else None)"
    using getThing_things [OF assms] by (simp add: l)
  show "(t_getThingIndex T w thing t = -1) = (thing \<notin> set (things t))"
    unfolding getThingIndex_things [OF assms] by (simp add: position_in_def)
  show "(t_getThing k t = Some thing) = (t_getThingIndex T w thing t = int k)"
  proof
    assume "t_getThing k t = Some thing"
    then have "k < length (things t)" "thing = things t ! k" by (auto simp: getThing_things [OF assms] split: if_splits)
    then show "t_getThingIndex T w thing t = int k"
      using nth_position_in [OF d] by (simp add: getThingIndex_things [OF assms])
  next
    assume "t_getThingIndex T w thing t = int k"
    then have p: "position_in thing (things t) = int k" by (simp add: getThingIndex_things [OF assms])
    then have "thing \<in> set (things t)" by (simp add: position_in_def split: if_splits)
    moreover from this have "k < length (things t)"
      using p length_takeWhile_neq [of thing "things t"] by (simp add: position_in_def)
    ultimately show "t_getThing k t = Some thing"
      using position_in_nth [of thing "things t"] p by (simp add: getThing_things [OF assms])
  qed
qed

text \<open>A tile with a ground, a top item, two creatures and two down items.\<close>

definition demo_table :: item_table where
  "demo_table i = (default_type i)\<lparr>ty_alwaysOnTop := (i = 1), ty_moveable := (i \<noteq> 0)\<rparr>"

definition demo_things :: item_world where
  "demo_things = \<lparr>heap = (\<lambda>r. demo_item (of_nat r) None), tile_of = (\<lambda>_. None), item_events = []\<rparr>"

definition demo_creature :: "creature_kind \<Rightarrow> u16 \<Rightarrow> creature" where
  "demo_creature k x = \<lparr>cr_kind = k, cr_tile = None, cr_position = Position x 100 7, cr_ghost = False,
     cr_invisible = False, cr_senses = False, cr_access = False, cr_moveLocked = False, cr_master = None,
     cr_attacked = None, cr_pushable = True, cr_isPet = False, cr_canPushCreatures = False,
     cr_canPushItems = False, cr_immune = (\<lambda>_. False), cr_walksOnEnergy = False, cr_walksOnFire = False,
     cr_walksOnPoison = False, cr_ignoreFieldDamage = False, cr_pzLocked = False, cr_level = 8,
     cr_lastWalkthroughAttempt = 0, cr_lastWalkthroughPosition = Position 0 0 0, cr_lastPosition = Position 0 0 0, cr_direction = DIRECTION_SOUTH,
     cr_summons = [], cr_summoned = False, cr_removed = False, cr_skillLoss = True\<rparr>"

definition demo_creatures :: "nat \<Rightarrow> creature" where
  "demo_creatures c = demo_creature (if c = 0 then Kind_Player else Kind_Monster) (if c = 0 then 99 else 100)"

definition demo_tile :: tile where
  "demo_tile = (new_tile 100 100 7)\<lparr>ground := Some 0, t_items := [3, 2, 1], downItemCount := 2,
     t_creatures := [1, 2]\<rparr>"

lemma demo_tile_ok: "tile_ok demo_table demo_things demo_tile"
  by (simp add: tile_ok_def demo_tile_def new_tile_def down_items_def top_items_def isAlwaysOnTop_def type_of_def
      demo_table_def demo_things_def demo_item_def default_type_def)

theorem tile_is_a_list_of_things_witness:
  "t_getThing 3 demo_tile = Some (TCreature 2) \<and> t_getThing 6 demo_tile = None
     \<and> t_getThingIndex demo_table demo_things (TItem 9) demo_tile = -1"
  using tile_is_a_list_of_things [OF demo_tile_ok, of 3 "TCreature 2"]
    tile_is_a_list_of_things [OF demo_tile_ok, of 6] tile_is_a_list_of_things [OF demo_tile_ok, of 0 "TItem 9"]
  by (simp add: getThingCount_def things_def ground_list_def demo_tile_def new_tile_def down_items_def top_items_def)



text \<open>On the own tile the player is always sent, whatever lies on it.\<close>

lemma describe_top_own: "n < 9 \<Longrightarrow> \<exists>ts m. describe_top True is n = (ts, Some m) \<and> m \<le> 9"
proof (induction "is" arbitrary: n)
  case (Cons i "is")
  show ?case
  proof (cases "n = 8")
    case False
    then have "n + 1 < 9" using Cons.prems by simp
    from Cons.IH [OF this] show ?thesis using False Cons.prems by (auto simp: Let_def)
  qed (simp add: Let_def)
qed simp

lemma describe_creatures_own:
  "\<not> a \<and> p \<in> set cs \<or> a \<and> TCreature p \<in> A \<Longrightarrow> sees p \<Longrightarrow> n \<le> 9 \<Longrightarrow>
   TCreature p \<in> A \<union> set (fst (describe_creatures sees p True a cs n))"
proof (induction cs arbitrary: n a A)
  case (Cons c cs)
  show ?case
  proof (cases "sees c")
    case False
    then have "p \<noteq> c" using Cons.prems(2) by auto
    then show ?thesis using False Cons by simp
  next
    case sees: True
    define d where "d = (if n = 9 \<and> \<not> a then p else c)"
    show ?thesis
    proof (cases "n = 9")
      case True
      then show ?thesis using sees Cons.prems by (cases a) (auto simp: Let_def)
    next
      case False
      then have "TCreature p \<in> insert (TCreature c) A \<union> set (fst (describe_creatures sees p True (a \<or> c = p) cs (n + 1)))"
        using Cons.prems by (intro Cons.IH) auto
      then show ?thesis using sees False by (auto simp: Let_def split: prod.split)
    qed
  qed
qed auto

lemma description_own:
  assumes "tilePos t = cr_position (cr p)" and "p \<in> set (t_creatures t)" and "is_player (cr p)"
  shows "TCreature p \<in> set (getTileDescription cr p t)"
proof -
  have sees: "canSeeCreature cr p p" using assms(3) by (simp add: canSeeCreature_def)
  have "length (case ground t of Some g \<Rightarrow> [TItem g] | None \<Rightarrow> []) < 9" by (simp split: option.split)
  then obtain ts m where top: "describe_top True (top_items t) (length (case ground t of Some g \<Rightarrow> [TItem g] | None \<Rightarrow> [])) = (ts, Some m)"
    and m: "m \<le> 9" using describe_top_own by blast
  have "TCreature p \<in> {} \<union> set (fst (describe_creatures (canSeeCreature cr p) p True False (rev (t_creatures t)) m))"
    by (rule describe_creatures_own) (use assms sees m in auto)
  moreover obtain cs r where "describe_creatures (canSeeCreature cr p) p True False (rev (t_creatures t)) m = (cs, r)"
    by fastforce
  ultimately show ?thesis using assms(1) top by (cases r) (simp_all add: getTileDescription_def Let_def)
qed

section \<open>Flags that follow the items\<close>

text \<open>The flags that \<open>resetTileFlags\<close> clears only when no other item of the tile asks for them.\<close>

definition exact_flags :: "(item_property \<times> u32) list" where
  "exact_flags = [(CONST_PROP_BLOCKSOLID, TILESTATE_BLOCKSOLID),
     (CONST_PROP_IMMOVABLEBLOCKSOLID, TILESTATE_IMMOVABLEBLOCKSOLID),
     (CONST_PROP_BLOCKPATH, TILESTATE_BLOCKPATH),
     (CONST_PROP_NOFIELDBLOCKPATH, TILESTATE_NOFIELDBLOCKPATH),
     (CONST_PROP_IMMOVABLENOFIELDBLOCKPATH, TILESTATE_IMMOVABLENOFIELDBLOCKPATH)]"

definition flags_exact :: "item_table \<Rightarrow> item_world \<Rightarrow> tile \<Rightarrow> bool" where
  "flags_exact T w t \<longleftrightarrow> (\<forall>(prop, flag) \<in> set exact_flags. hasFlag flag t = t_hasProperty T w prop t)"

lemma hasFlag_set_if: "hasFlag f (set_if b g t) \<longleftrightarrow> b \<and> f AND g \<noteq> 0 \<or> hasFlag f t"
  by (auto simp: hasFlag_def hasBitSet_def set_if_def setFlag_def bit_eq_iff bit_and_iff bit_or_iff)

lemma hasFlag_reset_if_other: "f AND g = 0 \<Longrightarrow> hasFlag f (reset_if b g t) \<longleftrightarrow> hasFlag f t"
proof -
  assume d: "f AND g = 0"
  have "(x AND NOT g) AND f = x AND f" for x :: u32
  proof (rule bit_eqI)
    fix n
    have "\<not> (bit f n \<and> bit g n)" using arg_cong [OF d, of "\<lambda>x. bit x n"] by (simp add: bit_and_iff)
    then show "bit ((x AND NOT g) AND f) n = bit (x AND f) n"
      by (auto simp: bit_and_iff bit_not_iff dest: bit_imp_le_length)
  qed
  then show ?thesis by (simp add: hasFlag_def hasBitSet_def reset_if_def resetFlag_def)
qed

lemma hasFlag_reset_if_same: "hasFlag f (reset_if b f t) \<longleftrightarrow> \<not> b \<and> hasFlag f t"
proof -
  have "(x AND NOT f) AND f = 0" for x :: u32 by (rule bit_eqI) (auto simp: bit_and_iff bit_not_iff)
  then show ?thesis by (simp add: hasFlag_def hasBitSet_def reset_if_def resetFlag_def)
qed

lemma set_if_fields [simp]:
  "ground (set_if b f t) = ground t" "t_items (set_if b f t) = t_items t" "downItemCount (set_if b f t) = downItemCount t"
  "t_creatures (set_if b f t) = t_creatures t" "tilePos (set_if b f t) = tilePos t" "t_house (set_if b f t) = t_house t"
  by (simp_all add: set_if_def setFlag_def)

lemma reset_if_fields [simp]:
  "ground (reset_if b f t) = ground t" "t_items (reset_if b f t) = t_items t" "downItemCount (reset_if b f t) = downItemCount t"
  "t_creatures (reset_if b f t) = t_creatures t" "tilePos (reset_if b f t) = tilePos t" "t_house (reset_if b f t) = t_house t"
  by (simp_all add: reset_if_def resetFlag_def)

lemma tile_flags_fields [simp]:
  "ground (setTileFlags T w i t) = ground t" "t_items (setTileFlags T w i t) = t_items t"
  "downItemCount (setTileFlags T w i t) = downItemCount t" "t_creatures (setTileFlags T w i t) = t_creatures t"
  "tilePos (setTileFlags T w i t) = tilePos t" "t_house (setTileFlags T w i t) = t_house t"
  "ground (resetTileFlags T w i t) = ground t" "t_items (resetTileFlags T w i t) = t_items t"
  "downItemCount (resetTileFlags T w i t) = downItemCount t" "t_creatures (resetTileFlags T w i t) = t_creatures t"
  "tilePos (resetTileFlags T w i t) = tilePos t" "t_house (resetTileFlags T w i t) = t_house t"
  by (simp_all add: setTileFlags_def resetTileFlags_def Let_def)

lemma floorChange_low: "f AND ucast (fc :: u8) = (0 :: u32)" if low: "f AND 0xFF = 0" for f :: u32
proof (rule bit_eqI)
  fix n
  have m: "f AND mask 8 = 0" using low by (simp add: mask_eq_exp_minus_1)
  have "\<not> (bit f n \<and> n < 8)"
    using arg_cong [OF m, of "\<lambda>x. bit x n"] bit_imp_le_length [of f n]
    by (auto simp only: bit_and_iff bit_mask_iff bit_0_eq bot_apply) auto
  then show "bit (f AND ucast fc) n = bit (0 :: u32) n"
    by (auto simp: bit_and_iff bit_ucast_iff dest: bit_imp_le_length)
qed

text \<open>What setting and resetting the flags of an item does to a flag that follows a property.\<close>

lemma exact_flags_cases:
  assumes "(prop, flag) \<in> set exact_flags"
  obtains "prop = CONST_PROP_BLOCKSOLID" "flag = TILESTATE_BLOCKSOLID"
  | "prop = CONST_PROP_IMMOVABLEBLOCKSOLID" "flag = TILESTATE_IMMOVABLEBLOCKSOLID"
  | "prop = CONST_PROP_BLOCKPATH" "flag = TILESTATE_BLOCKPATH"
  | "prop = CONST_PROP_NOFIELDBLOCKPATH" "flag = TILESTATE_NOFIELDBLOCKPATH"
  | "prop = CONST_PROP_IMMOVABLENOFIELDBLOCKPATH" "flag = TILESTATE_IMMOVABLENOFIELDBLOCKPATH"
  using assms by (auto simp: exact_flags_def)

lemma setTileFlags_exact:
  assumes "(prop, flag) \<in> set exact_flags"
  shows "hasFlag flag (setTileFlags T w i t) \<longleftrightarrow> hasFlag flag t \<or> item_hasProperty T prop (heap w i)"
  using assms
  by (cases rule: exact_flags_cases; simp only: setTileFlags_def Let_def hasFlag_set_if; simp add: floorChange_low;
      blast)

lemma resetTileFlags_exact:
  assumes "(prop, flag) \<in> set exact_flags"
  shows "hasFlag flag (resetTileFlags T w i t) \<longleftrightarrow>
     hasFlag flag t \<and> \<not> (item_hasProperty T prop (heap w i) \<and> \<not> t_hasProperty_excl T w i prop t)"
  using assms
  by (cases rule: exact_flags_cases; simp only: resetTileFlags_def Let_def;
      simp add: hasFlag_reset_if_other hasFlag_reset_if_same; blast)

end
