(* ===== verification/TileOps.thy ===== *)
theory TileOps
  imports Tile
begin

text \<open>
  The operations of tiles: \<open>addThing\<close>, \<open>removeThing\<close>, \<open>updateThing\<close>, \<open>replaceThing\<close>, \<open>internalAddThing\<close> and the
  notifications of \<open>src/src/items/tile.cpp\<close>. The world joins the heap of items, the map index with its
  caches, the tiles and the creatures. What is sent to spectators and what scripts are called is
  collected as events; a set of spectators has no order, so an event carries the set.
  An operation of the browse field of a tile may fail as a container operation can.
\<close>

section \<open>State\<close>

datatype map_event =
    AddTileItem nat nat "nat set"                      \<comment> \<open>tile, item, spectators\<close>
  | UpdateTileItem nat nat nat "nat set"               \<comment> \<open>tile, old item, new item, spectators\<close>
  | RemoveTileItem nat nat "(nat \<times> int) set" "nat set" \<comment> \<open>tile, item, players with positions, spectators\<close>
  | UpdateTile nat "nat set"                           \<comment> \<open>tile, players\<close>
  | ThingAdded nat thing "nat set"                     \<comment> \<open>tile, thing, players near\<close>
  | ThingRemoved nat thing "nat set"
  | ItemReleased nat
  | ItemRemoved nat
  | HouseDoor nat nat                                  \<comment> \<open>house, door\<close>
  | HouseBed nat nat
  | StepIn nat nat                                     \<comment> \<open>creature, tile\<close>
  | StepOut nat nat
  | ItemMove nat nat bool                              \<comment> \<open>item, tile, added\<close>
  | TrashItem nat nat                                  \<comment> \<open>trash holder, item\<close>
  | MailItem nat nat
  | TeleportItem nat nat
  | CreatureMove nat position position "(nat \<times> int \<times> int) set" bool "nat set"
  | CreatureTurn nat direction "nat set"
  | MagicEffect position u8
  | CreatureAppear nat "nat set"
  | CreaturePlaced nat
  | RemoveTileThing nat "(nat \<times> int) set" bool "nat set" \<comment> \<open>creature, players with positions, logout, spectators\<close>
  | CheckAdded nat
  | CheckRemoved nat
  | ListAdded nat
  | ListRemoved nat
  | CreatureReleased nat
  | TeamFinderErased nat

record map_world =
  mw_items :: item_world
  mw_grid :: grid
  mw_tiles :: "nat \<Rightarrow> tile"
  mw_creatures :: "nat \<Rightarrow> creature"
  browseFields :: "nat \<Rightarrow> nat option"
  tilesToClean :: "nat set"
  teleportDest :: "nat \<Rightarrow> position"
  map_events :: "map_event list"

record map_env =
  me_items :: item_env
  me_cleanProtectionZones :: bool
  me_bedRemovable :: "nat \<Rightarrow> bool"
  me_protectionLevel :: u32
  me_noPvp :: bool
  me_now :: int
  me_rooted :: "nat \<Rightarrow> bool"
  me_isInvited :: "nat \<Rightarrow> nat option \<Rightarrow> bool"
  me_houseEntry :: "nat \<Rightarrow> position"
  me_temple :: "nat \<Rightarrow> position"
  me_nullTile :: nat

definition table :: "map_env \<Rightarrow> item_table" where
  "table e = env_items (me_items e)"

definition upd_tile :: "nat \<Rightarrow> (tile \<Rightarrow> tile) \<Rightarrow> map_world \<Rightarrow> map_world" where
  "upd_tile tr f w = w\<lparr>mw_tiles := (mw_tiles w)(tr := f (mw_tiles w tr))\<rparr>"

definition upd_creature :: "nat \<Rightarrow> (creature \<Rightarrow> creature) \<Rightarrow> map_world \<Rightarrow> map_world" where
  "upd_creature c f w = w\<lparr>mw_creatures := (mw_creatures w)(c := f (mw_creatures w c))\<rparr>"

definition upd_items :: "(item_world \<Rightarrow> item_world) \<Rightarrow> map_world \<Rightarrow> map_world" where
  "upd_items f w = w\<lparr>mw_items := f (mw_items w)\<rparr>"

definition upd_grid :: "(grid \<Rightarrow> grid) \<Rightarrow> map_world \<Rightarrow> map_world" where
  "upd_grid f w = w\<lparr>mw_grid := f (mw_grid w)\<rparr>"

definition emit_map :: "map_event list \<Rightarrow> map_world \<Rightarrow> map_world" where
  "emit_map es w = w\<lparr>map_events := map_events w @ es\<rparr>"

definition item_parent :: "nat \<Rightarrow> cylinder option \<Rightarrow> map_world \<Rightarrow> map_world" where
  "item_parent i p = upd_items (setParent p i)"

definition creature_setParent :: "nat \<Rightarrow> nat \<Rightarrow> map_world \<Rightarrow> map_world" where
  "creature_setParent c tr w =
     upd_creature c (\<lambda>x. x\<lparr>cr_tile := Some tr, cr_position := tilePos (mw_tiles w tr)\<rparr>) w"

definition view :: "map_world \<Rightarrow> creature_view" where
  "view w = \<lparr>cv_position = (\<lambda>c. cr_position (mw_creatures w c)), cv_isPlayer = (\<lambda>c. is_player (mw_creatures w c))\<rparr>"

text \<open>\<open>getSpectators\<close> with the default range, on several floors; it may fill a cache.\<close>

definition spectators_at :: "position \<Rightarrow> bool \<Rightarrow> map_world \<Rightarrow> map_world \<times> nat set" where
  "spectators_at p onlyPlayers w =
     (let (g, s) = getSpectators (view w) p True onlyPlayers 0 0 0 0 (mw_grid w, {})
      in (w\<lparr>mw_grid := g\<rparr>, s))"

definition players_of :: "map_world \<Rightarrow> nat set \<Rightarrow> nat set" where
  "players_of w s = {c \<in> s. is_player (mw_creatures w c)}"

section \<open>Notifications\<close>

text \<open>Whether the item shows up in a browse field.\<close>

definition browsable :: "map_env \<Rightarrow> map_world \<Rightarrow> nat \<Rightarrow> bool" where
  "browsable e w i \<longleftrightarrow>
     (let x = heap (mw_items w) i; P = (\<lambda>prop. item_hasProperty (table e) prop x)
      in P CONST_PROP_MOVEABLE \<or> cont (mw_items w) i \<noteq> None
         \<or> isWrapable (table e) x \<and> \<not> P CONST_PROP_MOVEABLE \<and> \<not> P CONST_PROP_BLOCKPATH)"

definition onAddTileItem :: "map_env \<Rightarrow> nat \<Rightarrow> nat \<Rightarrow> map_world \<Rightarrow> map_world option" where
  "onAddTileItem e tr i w =
     do { w \<leftarrow> (if browsable e w i
                then (case browseFields w tr of
                        None \<Rightarrow> Some w
                      | Some bf \<Rightarrow> do {
                          iw \<leftarrow> addItemBack (me_items e) bf i (mw_items w);
                          Some (item_parent i (Some (CTile tr)) (w\<lparr>mw_items := iw\<rparr>)) })
                else Some w);
          let w = upd_tile tr (setTileFlags (table e) (mw_items w) i) w;
          let (w, spectators) = spectators_at (tilePos (mw_tiles w tr)) False w;
          let w = emit_map [AddTileItem tr i spectators] w;
          Some (if (\<not> hasFlag TILESTATE_PROTECTIONZONE (mw_tiles w tr) \<or> me_cleanProtectionZones e)
                   \<and> isCleanable (table e) (me_bedRemovable e) (mw_items w) i
                   \<and> t_house (mw_tiles w tr) = None
                then w\<lparr>tilesToClean := insert tr (tilesToClean w)\<rparr> else w) }"

definition onUpdateTileItem :: "map_env \<Rightarrow> nat \<Rightarrow> nat \<Rightarrow> nat \<Rightarrow> map_world \<Rightarrow> map_world option" where
  "onUpdateTileItem e tr oldItem newItem w =
     do { let P = (\<lambda>i prop. item_hasProperty (table e) prop (heap (mw_items w) i));
          w \<leftarrow>
            (if P newItem CONST_PROP_MOVEABLE \<or> cont (mw_items w) newItem \<noteq> None
                \<or> isWrapable (table e) (heap (mw_items w) newItem) \<and> P newItem CONST_PROP_MOVEABLE
                  \<and> \<not> P oldItem CONST_PROP_BLOCKPATH
             then (case browseFields w tr of
                     None \<Rightarrow> Some w
                   | Some bf \<Rightarrow>
                       let index = getThingIndex (mw_items w) bf (TItem oldItem)
                       in if index \<noteq> -1
                          then do { iw \<leftarrow> replaceThing (me_items e) bf (of_int index) (TItem newItem) (mw_items w);
                                    Some (item_parent newItem (Some (CTile tr)) (w\<lparr>mw_items := iw\<rparr>)) }
                          else Some w)
             else if browsable e w oldItem
             then (case browseFields w tr of
                     None \<Rightarrow> Some w
                   | Some bf \<Rightarrow> do {
                       let oldParent = it_parent (heap (mw_items w) oldItem);
                       iw \<leftarrow> removeThing (me_items e) bf (TItem oldItem) (of_nat (count_of (mw_items w) oldItem)) (mw_items w);
                       Some (item_parent oldItem oldParent (w\<lparr>mw_items := iw\<rparr>)) })
             else Some w);
          let (w, spectators) = spectators_at (tilePos (mw_tiles w tr)) False w;
          Some (emit_map [UpdateTileItem tr oldItem newItem spectators] w) }"

definition onRemoveTileItem ::
    "map_env \<Rightarrow> nat set \<Rightarrow> (nat \<times> int) set \<Rightarrow> nat \<Rightarrow> nat \<Rightarrow> map_world \<Rightarrow> map_world option" where
  "onRemoveTileItem e spectators oldStackPos tr i w =
     do { w \<leftarrow> (if browsable e w i
                then (case browseFields w tr of
                        None \<Rightarrow> Some w
                      | Some bf \<Rightarrow> do {
                          iw \<leftarrow> removeThing (me_items e) bf (TItem i) (of_nat (count_of (mw_items w) i)) (mw_items w);
                          Some (w\<lparr>mw_items := iw\<rparr>) })
                else Some w);
          let w = upd_tile tr (resetTileFlags (table e) (mw_items w) i) w;
          let w = emit_map [RemoveTileItem tr i oldStackPos spectators] w;
          Some (if (\<not> hasFlag TILESTATE_PROTECTIONZONE (mw_tiles w tr) \<or> me_cleanProtectionZones e)
                   \<and> \<not> list_ex (isCleanable (table e) (me_bedRemovable e) (mw_items w)) (t_items (mw_tiles w tr))
                then w\<lparr>tilesToClean := tilesToClean w - {tr}\<rparr> else w) }"

definition t_postRemoveNotification :: "nat \<Rightarrow> thing \<Rightarrow> map_world \<Rightarrow> map_world" where
  "t_postRemoveNotification tr thing w =
     (let (w, spectators) = spectators_at (tilePos (mw_tiles w tr)) True w;
          w = (if getThingCount (mw_tiles w tr) > 8 then emit_map [UpdateTile tr spectators] w else w);
          w = emit_map [ThingRemoved tr thing spectators] w
      in case thing of
           TCreature c \<Rightarrow> emit_map [StepOut c tr] w
         | TItem i \<Rightarrow> emit_map [ItemMove i tr False] w)"

definition release :: "nat \<Rightarrow> map_world \<Rightarrow> map_world" where
  "release i = emit_map [ItemReleased i]"

text \<open>The positions announced to the players among the spectators before an item goes.\<close>

definition old_positions :: "map_env \<Rightarrow> nat \<Rightarrow> nat \<Rightarrow> nat set \<Rightarrow> map_world \<Rightarrow> (nat \<times> int) set" where
  "old_positions e tr i spectators w =
     (\<lambda>p. (p, getStackposOfItem (table e) (mw_items w) (mw_creatures w) p i (mw_tiles w tr))) ` players_of w spectators"

section \<open>Operations\<close>

definition erase_at :: "nat \<Rightarrow> 'a list \<Rightarrow> 'a list" where
  "erase_at n xs = take n xs @ drop (n + 1) xs"

definition insert_at :: "nat \<Rightarrow> 'a \<Rightarrow> 'a list \<Rightarrow> 'a list" where
  "insert_at n x xs = take n xs @ x # drop n xs"

definition find_index :: "('a \<Rightarrow> bool) \<Rightarrow> 'a list \<Rightarrow> nat" where
  "find_index P xs = length (takeWhile (\<lambda>x. \<not> P x) xs)"

text \<open>
  \<open>Tile::removeThing\<close>. A creature that is not on the tile and an item that is not leave it as it is; of a
  stack only the count may be reduced.
\<close>

definition t_removeThing :: "map_env \<Rightarrow> nat \<Rightarrow> thing \<Rightarrow> u32 \<Rightarrow> map_world \<Rightarrow> map_world option" where
  "t_removeThing e tr thing amount w =
     (case thing of
        TCreature c \<Rightarrow>
          Some (if c \<in> set (t_creatures (mw_tiles w tr))
                then upd_tile tr (\<lambda>t. t\<lparr>t_creatures := remove1 c (t_creatures t)\<rparr>) (upd_grid clearSpectatorCache w)
                else w)
      | TItem i \<Rightarrow>
          let t = mw_tiles w tr; x = heap (mw_items w) i in
          if t_getThingIndex (table e) (mw_items w) (TItem i) t = -1 then Some w
          else if ground t = Some i
          then do {
            let w = upd_tile tr (\<lambda>t. t\<lparr>ground := None\<rparr>) (item_parent i None w);
            let (w, spectators) = spectators_at (tilePos t) False w;
            onRemoveTileItem e spectators ((\<lambda>p. (p, 0)) ` players_of w spectators) tr i w }
          else if isAlwaysOnTop (table e) x
          then (if i \<notin> set (top_items t) then Some w
                else do {
                  let (w, spectators) = spectators_at (tilePos t) False w;
                  let oldStackPos = old_positions e tr i spectators w;
                  let w = item_parent i None w;
                  let w = upd_tile tr (\<lambda>t. t\<lparr>t_items := down_items t @ remove1 i (top_items t)\<rparr>) w;
                  onRemoveTileItem e spectators oldStackPos tr i w })
          else if i \<notin> set (down_items t) then Some w
          else if ty_stackable (type_of (table e) x) \<and> amount \<noteq> of_nat (count_of (mw_items w) i)
          then do {
            let newCount = of_int (max 0 (sint (of_nat (count_of (mw_items w) i) - amount)));
            let w = upd_items (setItemCount newCount i) w;
            onUpdateTileItem e tr i i w }
          else do {
            let (w, spectators) = spectators_at (tilePos t) False w;
            let oldStackPos = old_positions e tr i spectators w;
            let w = item_parent i None w;
            let w = upd_tile tr (\<lambda>t. t\<lparr>t_items := remove1 i (down_items t) @ top_items t,
                                        downItemCount := downItemCount t - 1\<rparr>) w;
            onRemoveTileItem e spectators oldStackPos tr i w })"

text \<open>Removing an old splash or field before the new one is added.\<close>

definition discard :: "map_env \<Rightarrow> nat \<Rightarrow> nat \<Rightarrow> map_world \<Rightarrow> map_world option" where
  "discard e tr i w =
     do { w \<leftarrow> t_removeThing e tr (TItem i) 1 w;
          Some (t_postRemoveNotification tr (TItem i) (release i (item_parent i None w))) }"

definition top_position :: "map_env \<Rightarrow> (u8 \<Rightarrow> u8 \<Rightarrow> bool) \<Rightarrow> nat \<Rightarrow> map_world \<Rightarrow> tile \<Rightarrow> nat" where
  "top_position e before i w t =
     (let order = (\<lambda>i. ty_alwaysOnTopOrder (type_of (table e) (heap (mw_items w) i)))
      in unat (downItemCount t) + find_index (\<lambda>j. before (order i) (order j)) (top_items t))"

text \<open>\<open>Tile::addThing\<close>, and \<open>HouseTile::updateHouse\<close>, which the tile of a house adds to it.\<close>

abbreviation "ITEM_ATTRIBUTE_DOORID \<equiv> (0x400000 :: u32)"

definition updateHouse :: "nat \<Rightarrow> thing \<Rightarrow> map_world \<Rightarrow> map_world" where
  "updateHouse tr thing w =
     (case (t_house (mw_tiles w tr), thing_item thing) of
        (Some h, Some i) \<Rightarrow>
          let x = heap (mw_items w) i in
          if it_parent x \<noteq> Some (CTile tr) then w
          else if it_class x = Class_Door
          then (if getIntAttr ITEM_ATTRIBUTE_DOORID (it_attrs x) \<noteq> 0 then emit_map [HouseDoor h i] w else w)
          else if it_class x = Class_Bed then emit_map [HouseBed h i] w else w
      | _ \<Rightarrow> w)"

definition tile_addThing :: "map_env \<Rightarrow> nat \<Rightarrow> thing \<Rightarrow> map_world \<Rightarrow> map_world option" where
  "tile_addThing e tr thing w =
     (case thing of
        TCreature c \<Rightarrow>
          Some (upd_tile tr (\<lambda>t. t\<lparr>t_creatures := c # t_creatures t\<rparr>)
                  (creature_setParent c tr (upd_grid clearSpectatorCache w)))
      | TItem i \<Rightarrow>
          if length (t_items (mw_tiles w tr)) \<ge> 0xFFFF then Some w
          else do {
            let w = item_parent i (Some (CTile tr)) w;
            let itemType = type_of (table e) (heap (mw_items w) i);
            (if isGroundTile itemType
             then (case ground (mw_tiles w tr) of
                     None \<Rightarrow> onAddTileItem e tr i (upd_tile tr (\<lambda>t. t\<lparr>ground := Some i\<rparr>) w)
                   | Some oldGround \<Rightarrow> do {
                       let w = release oldGround (item_parent oldGround None w);
                       let w = upd_tile tr (\<lambda>t. t\<lparr>ground := Some i\<rparr>) w;
                       let w = upd_tile tr (resetTileFlags (table e) (mw_items w) oldGround) w;
                       let w = upd_tile tr (setTileFlags (table e) (mw_items w) i) w;
                       w \<leftarrow> onUpdateTileItem e tr oldGround i w;
                       Some (t_postRemoveNotification tr (TItem oldGround) w) })
             else if ty_alwaysOnTop itemType
             then do {
               w \<leftarrow> (if isSplash itemType
                    then (case List.find (\<lambda>j. isSplash (type_of (table e) (heap (mw_items w) j))) (top_items (mw_tiles w tr)) of
                            None \<Rightarrow> Some w
                          | Some oldSplash \<Rightarrow> discard e tr oldSplash w)
                    else Some w);
               let n = top_position e (\<le>) i w (mw_tiles w tr);
               onAddTileItem e tr i (upd_tile tr (\<lambda>t. t\<lparr>t_items := insert_at n i (t_items t)\<rparr>) w) }
             else
               let oldField = (if isMagicField itemType
                               then List.find (\<lambda>j. it_class (heap (mw_items w) j) = Class_MagicField) (down_items (mw_tiles w tr))
                               else None)
               in if (case oldField of None \<Rightarrow> False
                      | Some f \<Rightarrow> \<not> ty_replaceable (type_of (table e) (heap (mw_items w) f)))
                  then Some (release i (item_parent i None w))
                  else do {
                    w \<leftarrow> (case oldField of None \<Rightarrow> Some w | Some f \<Rightarrow> discard e tr f w);
                    onAddTileItem e tr i
                      (upd_tile tr (\<lambda>t. t\<lparr>t_items := i # t_items t, downItemCount := downItemCount t + 1\<rparr>) w) }) })"

definition t_addThing :: "map_env \<Rightarrow> nat \<Rightarrow> thing \<Rightarrow> map_world \<Rightarrow> map_world option" where
  "t_addThing e tr thing w = map_option (updateHouse tr thing) (tile_addThing e tr thing w)"

definition tile_internalAddThing :: "map_env \<Rightarrow> nat \<Rightarrow> thing \<Rightarrow> map_world \<Rightarrow> map_world" where
  "tile_internalAddThing e tr thing w =
     (case thing of
        TCreature c \<Rightarrow>
          upd_tile tr (\<lambda>t. t\<lparr>t_creatures := c # t_creatures t\<rparr>)
            (upd_grid clearSpectatorCache (creature_setParent c tr w))
      | TItem i \<Rightarrow>
          let w = item_parent i (Some (CTile tr)) w;
              itemType = type_of (table e) (heap (mw_items w) i); t = mw_tiles w tr
          in if isGroundTile itemType
             then (if ground t = None
                   then upd_tile tr (\<lambda>t. setTileFlags (table e) (mw_items w) i (t\<lparr>ground := Some i\<rparr>)) w
                   else w)
             else if length (t_items t) \<ge> 0xFFFF then w
             else if ty_alwaysOnTop itemType
             then let n = top_position e (<) i w t
                  in upd_tile tr (\<lambda>t. setTileFlags (table e) (mw_items w) i (t\<lparr>t_items := insert_at n i (t_items t)\<rparr>)) w
             else upd_tile tr (\<lambda>t. setTileFlags (table e) (mw_items w) i
                     (t\<lparr>t_items := i # t_items t, downItemCount := downItemCount t + 1\<rparr>)) w)"

definition t_internalAddThing :: "map_env \<Rightarrow> nat \<Rightarrow> thing \<Rightarrow> map_world \<Rightarrow> map_world" where
  "t_internalAddThing e tr thing w = updateHouse tr thing (tile_internalAddThing e tr thing w)"

definition t_updateThing :: "map_env \<Rightarrow> nat \<Rightarrow> thing \<Rightarrow> u16 \<Rightarrow> u32 \<Rightarrow> map_world \<Rightarrow> map_world option" where
  "t_updateThing e tr thing itemId amount w =
     (if t_getThingIndex (table e) (mw_items w) thing (mw_tiles w tr) = -1 then Some w
      else case thing_item thing of
        None \<Rightarrow> Some w
      | Some i \<Rightarrow>
          let w = upd_tile tr (resetTileFlags (table e) (mw_items w) i) w;
              w = upd_items (upd_item i (setSubType (table e) (ucast amount) \<circ> setID (table e) itemId)) w;
              w = upd_tile tr (setTileFlags (table e) (mw_items w) i) w
          in onUpdateTileItem e tr i i w)"

text \<open>
  The place of a position among ground, top items, creatures and down items. A negative position
  reaches in front of the vector, which is undefined.
\<close>

datatype place = At_Ground | At_Item nat | At_Creature | At_Nothing | At_Undefined

definition place_of :: "int \<Rightarrow> tile \<Rightarrow> place" where
  "place_of pos t =
     (if ground t \<noteq> None \<and> pos = 0 then At_Ground
      else
        let pos = (if ground t \<noteq> None then pos - 1 else pos);
            topItemSize = uint (getTopItemCount t) in
        if pos < 0 then At_Undefined
        else if pos < topItemSize then At_Item (nat (uint (downItemCount t) + pos))
        else
          let pos = pos - topItemSize in
          if pos < int (length (t_creatures t)) then At_Creature
          else
            let pos = pos - int (length (t_creatures t)) in
            if pos < uint (downItemCount t) then At_Item (nat pos) else At_Nothing)"

definition replaced :: "map_env \<Rightarrow> nat \<Rightarrow> nat \<Rightarrow> nat \<Rightarrow> map_world \<Rightarrow> map_world option" where
  "replaced e tr oldItem i w =
     do { let w = item_parent i (Some (CTile tr)) w;
          let w = upd_tile tr (resetTileFlags (table e) (mw_items w) oldItem) w;
          let w = upd_tile tr (setTileFlags (table e) (mw_items w) i) w;
          w \<leftarrow> onUpdateTileItem e tr oldItem i w;
          Some (item_parent oldItem None w) }"

definition t_replaceThing :: "map_env \<Rightarrow> nat \<Rightarrow> u32 \<Rightarrow> thing \<Rightarrow> map_world \<Rightarrow> map_world option" where
  "t_replaceThing e tr index thing w =
     (case thing_item thing of
        None \<Rightarrow> Some w
      | Some i \<Rightarrow>
          let t = mw_tiles w tr in
          case place_of (sint index) t of
            At_Ground \<Rightarrow> replaced e tr (the (ground t)) i (upd_tile tr (\<lambda>t. t\<lparr>ground := Some i\<rparr>) w)
          | At_Item n \<Rightarrow> replaced e tr (t_items t ! n) i (upd_tile tr (\<lambda>t. t\<lparr>t_items := (t_items t)[n := i]\<rparr>) w)
          | At_Creature \<Rightarrow> Some w
          | At_Nothing \<Rightarrow> Some w
          | At_Undefined \<Rightarrow> None)"

text \<open>
  \<open>Tile::removeCreature\<close> also takes the creature out of the leaf of the tile. A missing leaf is a null
  pointer and fails.
\<close>

definition leaf_add :: "position \<Rightarrow> nat \<Rightarrow> map_world \<Rightarrow> map_world option" where
  "leaf_add p c w =
     (case getQTNode (mw_grid w) (pos_x p) (pos_y p) of
        None \<Rightarrow> None
      | Some l \<Rightarrow> Some (upd_grid (upd_leaf l (addCreature (is_player (mw_creatures w c)) c)) w))"

definition leaf_remove :: "position \<Rightarrow> nat \<Rightarrow> map_world \<Rightarrow> map_world option" where
  "leaf_remove p c w =
     (case getQTNode (mw_grid w) (pos_x p) (pos_y p) of
        None \<Rightarrow> None
      | Some l \<Rightarrow>
          map_option (\<lambda>lf. upd_grid (upd_leaf l (\<lambda>_. lf)) w)
            (removeCreature (is_player (mw_creatures w c)) c (leaf (mw_grid w) l)))"

definition t_removeCreature :: "map_env \<Rightarrow> nat \<Rightarrow> nat \<Rightarrow> map_world \<Rightarrow> map_world option" where
  "t_removeCreature e tr c w =
     do { w \<leftarrow> leaf_remove (tilePos (mw_tiles w tr)) c w;
          t_removeThing e tr (TCreature c) 0 w }"

end
