(* ===== verification/MapOps.thy ===== *)
theory MapOps
  imports TileOps
begin

text \<open>
  The map as a whole: \<open>Map::setTile\<close>, \<open>Map::moveCreature\<close> and the removal of creatures of
  \<open>src/src/map/map.cpp\<close> and \<open>game/game.cpp\<close>, the notification of added things of \<open>items/tile.cpp\<close>, and the
  teleports of \<open>game/movement/teleport.cpp\<close>. A creature that steps on a teleport is moved on from within the
  notification, so moving is a partial function; it ends when the chain of teleports does.
\<close>

section \<open>Tiles of the map\<close>

definition tile_at :: "map_world \<Rightarrow> position \<Rightarrow> nat option" where
  "tile_at w p = getTile (mw_grid w) (pos_x p) (pos_y p) (pos_z p)"

text \<open>
  \<open>Map::setTile\<close>: on an occupied field the items of the new tile are added to the old one, from the last
  to the first, then its ground; the new tile is deleted.
\<close>

fun merge_items :: "map_env \<Rightarrow> nat \<Rightarrow> nat list \<Rightarrow> map_world \<Rightarrow> map_world option" where
  "merge_items e tr [] w = Some w"
| "merge_items e tr (i # is) w = do { w \<leftarrow> t_addThing e tr (TItem i) w; merge_items e tr is w }"

definition setTile :: "map_env \<Rightarrow> position \<Rightarrow> nat \<Rightarrow> map_world \<Rightarrow> map_world option" where
  "setTile e p newTile w =
     (let (old, g) = setTile_slot (pos_x p) (pos_y p) (pos_z p) newTile (mw_grid w);
          w = w\<lparr>mw_grid := g\<rparr>
      in case old of
           None \<Rightarrow> Some w
         | Some tr \<Rightarrow> do {
             let t = mw_tiles w newTile;
             w \<leftarrow> merge_items e tr (rev (t_items t)) w;
             (case ground t of None \<Rightarrow> Some w | Some g \<Rightarrow> t_addThing e tr (TItem g) w) })"

section \<open>Teleports\<close>

text \<open>\<open>Teleport::checkInfinityLoop\<close>: the chain of teleports is followed until it ends or comes back.\<close>

partial_function (option) checkInfinityLoop :: "map_world \<Rightarrow> position \<Rightarrow> nat \<Rightarrow> bool option" where
  "checkInfinityLoop w origin destTile =
     (case getTeleportItem (mw_items w) (mw_tiles w destTile) of
        None \<Rightarrow> Some False
      | Some teleport \<Rightarrow>
          if origin = teleportDest w teleport then Some True
          else (case tile_at w (teleportDest w teleport) of
                  None \<Rightarrow> Some False
                | Some t \<Rightarrow> checkInfinityLoop w origin t))"

section \<open>Moving\<close>

definition moved_direction :: "position \<Rightarrow> position \<Rightarrow> direction \<Rightarrow> direction" where
  "moved_direction oldPos newPos d =
     (let d = (if pos_y oldPos > pos_y newPos then DIRECTION_NORTH
               else if pos_y oldPos < pos_y newPos then DIRECTION_SOUTH else d)
      in if pos_x oldPos < pos_x newPos then DIRECTION_EAST
         else if pos_x oldPos > pos_x newPos then DIRECTION_WEST else d)"

definition spectators_more :: "position \<Rightarrow> nat set \<Rightarrow> map_world \<Rightarrow> map_world \<times> nat set" where
  "spectators_more p s w =
     (let (g, s) = getSpectators (view w) p True False 0 0 0 0 (mw_grid w, s) in (w\<lparr>mw_grid := g\<rparr>, s))"

text \<open>\<open>Map::moveCreature\<close> up to the notifications.\<close>

definition move_core :: "map_env \<Rightarrow> nat \<Rightarrow> nat \<Rightarrow> nat \<Rightarrow> bool \<Rightarrow> map_world \<Rightarrow> map_world option" where
  "move_core e c oldTile newTile forceTeleport w =
     (let oldPos = tilePos (mw_tiles w oldTile);
          newPos = tilePos (mw_tiles w newTile);
          teleport = (forceTeleport \<or> ground (mw_tiles w newTile) = None \<or> \<not> areInRange3 1 1 0 oldPos newPos);
          (w, spectators) = spectators_more oldPos {} w;
          (w, spectators) = spectators_more newPos spectators w;
          oldStackPos = (\<lambda>p. if canSeeCreature (mw_creatures w) p c
                             then getClientIndexOfCreature (mw_creatures w) p c (mw_tiles w oldTile) else -1)
      in do {
        w \<leftarrow> t_removeThing e oldTile (TCreature c) 0 w;
        w \<leftarrow> (if getQTNode (mw_grid w) (pos_x oldPos) (pos_y oldPos) \<noteq> getQTNode (mw_grid w) (pos_x newPos) (pos_y newPos)
             then do { w \<leftarrow> leaf_remove oldPos c w; leaf_add newPos c w }
             else Some w);
        w \<leftarrow> t_addThing e newTile (TCreature c) w;
        let w = (if \<not> teleport
                 then upd_creature c (\<lambda>x. x\<lparr>cr_direction := moved_direction oldPos newPos (cr_direction x)\<rparr>) w
                 else w);
        Some (emit_map [CreatureMove c oldPos newPos
               ((\<lambda>p. (p, oldStackPos p, getStackposOfCreature (mw_creatures w) p c (mw_tiles w newTile)))
                  ` {p \<in> players_of w spectators. oldStackPos p \<noteq> -1})
               teleport spectators] w) })"

text \<open>
  \<open>Tile::postAddNotification\<close> for an item; what a teleport, a trash holder or a mailbox does with it is an
  event.
\<close>

definition post_add_players :: "nat \<Rightarrow> thing \<Rightarrow> map_world \<Rightarrow> map_world" where
  "post_add_players tr thing w =
     (let (w, spectators) = spectators_at (tilePos (mw_tiles w tr)) True w
      in emit_map [ThingAdded tr thing spectators] w)"

definition t_postAddNotification_item :: "nat \<Rightarrow> nat \<Rightarrow> bool \<Rightarrow> map_world \<Rightarrow> map_world" where
  "t_postAddNotification_item tr i linkOwner w =
     (let w = post_add_players tr (TItem i) w; t = mw_tiles w tr
      in if \<not> linkOwner then release i w
         else let special =
                    (if hasFlag TILESTATE_TELEPORT t
                     then map_option (\<lambda>s. TeleportItem s i) (getTeleportItem (mw_items w) t)
                     else if hasFlag TILESTATE_TRASHHOLDER t
                     then map_option (\<lambda>s. TrashItem s i) (getTrashHolder (mw_items w) t)
                     else if hasFlag TILESTATE_MAILBOX t
                     then map_option (\<lambda>s. MailItem s i) (getMailbox (mw_items w) t)
                     else None);
                  w = (case special of None \<Rightarrow> w | Some ev \<Rightarrow> emit_map [ev] w)
              in release i (emit_map [ItemMove i tr True] w))"

text \<open>
  The same for a creature that arrives, with \<open>Teleport::addThing\<close>: on a teleport it is turned and moved on
  to the destination, whose notification comes first. \<open>teleport_target\<close> is the teleport of a tile and
  the tile at its destination.
\<close>

definition teleport_target :: "map_world \<Rightarrow> nat \<Rightarrow> (nat \<times> nat) option" where
  "teleport_target w tr =
     (if hasFlag TILESTATE_TELEPORT (mw_tiles w tr)
      then (case getTeleportItem (mw_items w) (mw_tiles w tr) of
              None \<Rightarrow> None
            | Some teleport \<Rightarrow> map_option (Pair teleport) (tile_at w (teleportDest w teleport)))
      else None)"

definition internalCreatureTurn :: "nat \<Rightarrow> direction \<Rightarrow> map_world \<Rightarrow> map_world" where
  "internalCreatureTurn c dir w =
     (if cr_direction (mw_creatures w c) = dir then w
      else let w = upd_creature c (\<lambda>x. x\<lparr>cr_direction := dir\<rparr>) w;
               (w, spectators) = spectators_at (cr_position (mw_creatures w c)) True w
           in emit_map [CreatureTurn c dir spectators] w)"

definition leave_for :: "map_env \<Rightarrow> nat \<Rightarrow> nat \<Rightarrow> bool \<Rightarrow> map_world \<Rightarrow> map_world option" where
  "leave_for e c newTile forceTeleport w =
     do { oldTile \<leftarrow> cr_tile (mw_creatures w c);
          w \<leftarrow> move_core e c oldTile newTile forceTeleport w;
          Some (t_postRemoveNotification oldTile (TCreature c) w) }"

definition turn_to :: "nat \<Rightarrow> position \<Rightarrow> map_world \<Rightarrow> map_world" where
  "turn_to c dest w =
     internalCreatureTurn c
       (if pos_x (cr_position (mw_creatures w c)) > pos_x dest then DIRECTION_WEST else DIRECTION_EAST) w"

definition teleport_effects :: "map_env \<Rightarrow> nat \<Rightarrow> position \<Rightarrow> position \<Rightarrow> map_world \<Rightarrow> map_world" where
  "teleport_effects e teleport origPos destPos w =
     (let effect = ty_magicEffect (type_of (table e) (heap (mw_items w) teleport))
      in if effect \<noteq> 0 then emit_map [MagicEffect origPos effect, MagicEffect destPos effect] w else w)"

partial_function (option) t_postAddNotification_creature ::
    "map_env \<Rightarrow> nat \<Rightarrow> nat \<Rightarrow> map_world \<Rightarrow> map_world option" where
  "t_postAddNotification_creature e c tr w =
     do { let w = post_add_players tr (TCreature c) w;
          w \<leftarrow> (case teleport_target w tr of
                 None \<Rightarrow> Some w
               | Some (teleport, destTile) \<Rightarrow> do {
                   loop \<leftarrow> checkInfinityLoop w (tilePos (mw_tiles w tr)) destTile;
                   if loop then Some w
                   else do {
                     let origPos = cr_position (mw_creatures w c);
                     let w = turn_to c (teleportDest w teleport) w;
                     w \<leftarrow> leave_for e c destTile False w;
                     w \<leftarrow> t_postAddNotification_creature e c destTile w;
                     Some (teleport_effects e teleport origPos (tilePos (mw_tiles w destTile)) w) } });
          Some (emit_map [StepIn c tr, CreatureReleased c] w) }"

definition moveCreature :: "map_env \<Rightarrow> nat \<Rightarrow> nat \<Rightarrow> bool \<Rightarrow> map_world \<Rightarrow> map_world option" where
  "moveCreature e c newTile forceTeleport w =
     do { w \<leftarrow> leave_for e c newTile forceTeleport w;
          t_postAddNotification_creature e c newTile w }"

section \<open>Placing and removing creatures\<close>

text \<open>The end of \<open>Map::placeCreature\<close>, when the tile is found, and the notifications of \<open>Game::placeCreature\<close>.\<close>

definition put_creature :: "map_env \<Rightarrow> nat \<Rightarrow> nat \<Rightarrow> map_world \<Rightarrow> map_world option" where
  "put_creature e c tr w =
     leaf_add (tilePos (mw_tiles w tr)) c (t_internalAddThing e tr (TCreature c) w)"

definition announce_creature :: "map_env \<Rightarrow> nat \<Rightarrow> map_world \<Rightarrow> map_world option" where
  "announce_creature e c w =
     do { let w = emit_map [ListAdded c] w;
          let (w, spectators) = spectators_at (cr_position (mw_creatures w c)) False w;
          let w = emit_map [CreatureAppear c spectators] w;
          tr \<leftarrow> cr_tile (mw_creatures w c);
          w \<leftarrow> t_postAddNotification_creature e c tr w;
          Some (emit_map [CheckAdded c, CreaturePlaced c] w) }"

definition setMaster :: "nat \<Rightarrow> nat option \<Rightarrow> map_world \<Rightarrow> map_world" where
  "setMaster c newMaster w =
     (let w = upd_creature c (\<lambda>x. x\<lparr>cr_summoned := True\<rparr>) w; oldMaster = cr_master (mw_creatures w c)
      in if newMaster = None \<and> oldMaster = None then w
         else let w = (case newMaster of None \<Rightarrow> w
                       | Some m \<Rightarrow> upd_creature m (\<lambda>x. x\<lparr>cr_summons := cr_summons x @ [c]\<rparr>) w);
                  w = upd_creature c (\<lambda>x. x\<lparr>cr_master := newMaster\<rparr>) w
              in case oldMaster of None \<Rightarrow> w
                 | Some m \<Rightarrow> upd_creature m (\<lambda>x. x\<lparr>cr_summons := remove1 c (cr_summons x)\<rparr>) w)"

text \<open>
  \<open>Game::removeCreature\<close> up to the loop over the summons. The loop is unfolded to a list of removals that
  are left to do; what follows the loop is a task of its own.
\<close>

definition remove_one :: "map_env \<Rightarrow> nat \<Rightarrow> bool \<Rightarrow> map_world \<Rightarrow> map_world option" where
  "remove_one e c isLogout w =
     do { tr \<leftarrow> cr_tile (mw_creatures w c);
          let (w, spectators) = spectators_at (tilePos (mw_tiles w tr)) False w;
          let oldStackPos = (\<lambda>p. (p, if canSeeCreature (mw_creatures w) p c
                                  then getStackposOfCreature (mw_creatures w) p c (mw_tiles w tr) else -1))
                              ` players_of w spectators;
          w \<leftarrow> t_removeCreature e tr c w;
          let w = emit_map [RemoveTileThing c oldStackPos isLogout spectators] w;
          let w = (case cr_master (mw_creatures w c) of
                     Some m \<Rightarrow> if \<not> cr_removed (mw_creatures w m) then setMaster c None w else w
                   | None \<Rightarrow> w);
          let w = t_postRemoveNotification tr (TCreature c) w;
          let w = emit_map [ListRemoved c] w;
          let w = upd_creature c (\<lambda>x. x\<lparr>cr_removed := True\<rparr>) w;
          Some (emit_map [CreatureReleased c, CheckRemoved c] w) }"

datatype removal = Remove_Summon nat | Finish nat bool

definition finish_removal :: "nat \<Rightarrow> bool \<Rightarrow> map_world \<Rightarrow> map_world" where
  "finish_removal c isLogout w =
     (if is_player (mw_creatures w c) \<and> isLogout then emit_map [TeamFinderErased c] w else w)"

partial_function (option) removal_loop :: "map_env \<Rightarrow> removal list \<Rightarrow> map_world \<Rightarrow> map_world option" where
  "removal_loop e rs w =
     (if rs = [] then Some w
      else case hd rs of
        Finish c isLogout \<Rightarrow> removal_loop e (List.tl rs) (finish_removal c isLogout w)
      | Remove_Summon c \<Rightarrow>
          let w = upd_creature c (\<lambda>x. x\<lparr>cr_skillLoss := False\<rparr>) w in
          if cr_removed (mw_creatures w c) then removal_loop e (List.tl rs) w
          else do {
            w \<leftarrow> remove_one e c True w;
            removal_loop e (map Remove_Summon (cr_summons (mw_creatures w c)) @ Finish c True # List.tl rs) w })"

definition game_removeCreature :: "map_env \<Rightarrow> nat \<Rightarrow> bool \<Rightarrow> map_world \<Rightarrow> map_world option" where
  "game_removeCreature e c isLogout w =
     (if cr_removed (mw_creatures w c) then Some w
      else do {
        w \<leftarrow> remove_one e c isLogout w;
        removal_loop e (map Remove_Summon (cr_summons (mw_creatures w c)) @ [Finish c isLogout]) w })"

end
