(* ===== verification/TileQuery.thy ===== *)
theory TileQuery
  imports MapOps
begin

text \<open>
  Whether a thing may enter or leave a tile: \<open>queryAdd\<close>, \<open>queryMaxCount\<close>, \<open>queryRemove\<close> and
  \<open>queryDestination\<close> of \<open>src/src/items/tile.cpp\<close> and \<open>map/house/housetile.cpp\<close>, \<open>canWalkthrough\<close> of
  \<open>creatures/players/player.cpp\<close>, and the handlers built on them: \<open>Map::placeCreature\<close>,
  \<open>Game::placeCreature\<close>, \<open>Game::internalMoveCreature\<close> and \<open>Game::internalRemoveItem\<close> for an item on a tile.
  Asking has effects: a player remembers the attempt to walk through another, and a safe magic wall is
  removed.
\<close>

section \<open>Who may pass\<close>

text \<open>
  \<open>Player::canWalkthrough\<close>. Monsters that are pets let players through, other players do in zones where
  fights are off, but only at the second attempt within two seconds on the same field, npcs do in houses.
\<close>

definition walks_through_players :: "map_env \<Rightarrow> map_world \<Rightarrow> nat \<Rightarrow> bool" where
  "walks_through_players e w c =
     (case cr_tile (mw_creatures w c) of
        None \<Rightarrow> False
      | Some tr \<Rightarrow>
          let t = mw_tiles w tr in
          if \<not> hasFlag TILESTATE_NOPVPZONE t \<and> \<not> hasFlag TILESTATE_PROTECTIONZONE t
             \<and> cr_level (mw_creatures w c) > me_protectionLevel e \<and> \<not> me_noPvp e
          then False
          else (case ground t of
                  None \<Rightarrow> False
                | Some g \<Rightarrow> ty_walkStack (type_of (table e) (heap (mw_items w) g))))"

definition canWalkthrough :: "map_env \<Rightarrow> nat \<Rightarrow> nat \<Rightarrow> map_world \<Rightarrow> bool \<times> map_world" where
  "canWalkthrough e p c w =
     (let me = mw_creatures w p; other = mw_creatures w c in
      if cr_access me \<or> cr_ghost other then (True, w)
      else case cr_kind other of
        Kind_Monster \<Rightarrow> (cr_isPet other, w)
      | Kind_Player \<Rightarrow>
          if \<not> walks_through_players e w c then (False, w)
          else if me_now e - cr_lastWalkthroughAttempt me > 2000
          then (False, upd_creature p (\<lambda>x. x\<lparr>cr_lastWalkthroughAttempt := me_now e\<rparr>) w)
          else if cr_position other \<noteq> cr_lastWalkthroughPosition me
          then (False, upd_creature p (\<lambda>x. x\<lparr>cr_lastWalkthroughPosition := cr_position other\<rparr>) w)
          else (True, upd_creature p (\<lambda>x. x\<lparr>cr_lastWalkthroughPosition := cr_position other\<rparr>) w)
      | Kind_Npc \<Rightarrow>
          (case cr_tile other of None \<Rightarrow> False | Some tr \<Rightarrow> t_house (mw_tiles w tr) \<noteq> None, w))"

fun all_walkthrough :: "map_env \<Rightarrow> nat \<Rightarrow> nat list \<Rightarrow> map_world \<Rightarrow> bool \<times> map_world" where
  "all_walkthrough e p [] w = (True, w)"
| "all_walkthrough e p (c # cs) w =
     (let (b, w) = canWalkthrough e p c w
      in if \<not> b then (False, w) else all_walkthrough e p cs w)"

section \<open>Removing an item from a tile\<close>

definition queryRemove_tile :: "map_env \<Rightarrow> nat \<Rightarrow> thing \<Rightarrow> u32 \<Rightarrow> u32 \<Rightarrow> map_world \<Rightarrow> return_value" where
  "queryRemove_tile e tr thing amount tileFlags w =
     (if t_getThingIndex (table e) (mw_items w) thing (mw_tiles w tr) = -1 then RV_NOTPOSSIBLE
      else case thing_item thing of
        None \<Rightarrow> RV_NOTPOSSIBLE
      | Some i \<Rightarrow>
          let x = heap (mw_items w) i in
          if amount = 0 \<or> ty_stackable (type_of (table e) x) \<and> uint amount > int (count_of (mw_items w) i)
          then RV_NOTPOSSIBLE
          else if \<not> ty_moveable (type_of (table e) x) \<and> \<not> hasBitSet FLAG_IGNORENOTMOVEABLE tileFlags
          then RV_NOTMOVEABLE
          else RV_NOERROR)"

definition item_canRemove :: "map_env \<Rightarrow> item_world \<Rightarrow> nat \<Rightarrow> bool" where
  "item_canRemove e w i =
     (case it_class (heap w i) of Class_Bed \<Rightarrow> me_bedRemovable e i | Class_DepotLocker \<Rightarrow> False | _ \<Rightarrow> True)"

text \<open>\<open>Game::internalRemoveItem\<close> for an item whose parent is a tile; \<open>ItemRemoved\<close> stands for \<open>onRemoved\<close> and
  \<open>stopDecaying\<close>.\<close>

definition internalRemoveItem_tile :: "map_env \<Rightarrow> nat \<Rightarrow> nat \<Rightarrow> u32 \<Rightarrow> map_world \<Rightarrow> (return_value \<times> map_world) option" where
  "internalRemoveItem_tile e tr i amount w =
     (let ret = queryRemove_tile e tr (TItem i) amount FLAG_IGNORENOTMOVEABLE w in
      if ret \<noteq> RV_NOERROR then Some (ret, w)
      else if \<not> item_canRemove e (mw_items w) i then Some (RV_NOTPOSSIBLE, w)
      else do {
        w \<leftarrow> t_removeThing e tr (TItem i) amount w;
        let w = (if it_parent (heap (mw_items w) i) = None then release i (emit_map [ItemRemoved i] w) else w);
        Some (RV_NOERROR, t_postRemoveNotification tr (TItem i) w) })"

section \<open>Adding\<close>

abbreviation "ITEM_WALKABLE_SEA_START \<equiv> (4620 :: u16)"
abbreviation "ITEM_WALKABLE_SEA_END \<equiv> (4625 :: u16)"
abbreviation "ITEM_MAGICWALL_SAFE \<equiv> (20669 :: u16)"
abbreviation "ITEM_WILDGROWTH_SAFE \<equiv> (20670 :: u16)"
abbreviation (input) "COMBAT_ENERGYDAMAGE \<equiv> (2 :: u16)"
abbreviation (input) "COMBAT_EARTHDAMAGE \<equiv> (4 :: u16)"
abbreviation (input) "COMBAT_FIREDAMAGE \<equiv> (8 :: u16)"

definition canWalkOnFieldType :: "creature \<Rightarrow> u16 \<Rightarrow> bool" where
  "canWalkOnFieldType m combatType =
     (if combatType = COMBAT_ENERGYDAMAGE then cr_walksOnEnergy m
      else if combatType = COMBAT_FIREDAMAGE then cr_walksOnFire m
      else if combatType = COMBAT_EARTHDAMAGE then cr_walksOnPoison m
      else True)"

definition monster_blocked_by_creatures :: "map_world \<Rightarrow> nat \<Rightarrow> tile \<Rightarrow> return_value option" where
  "monster_blocked_by_creatures w m t =
     (let cr = mw_creatures w in
      if cr_canPushCreatures (cr m) \<and> \<not> isSummon (cr m)
      then (if list_ex (\<lambda>c. \<not> (is_player (cr c) \<and> cr_ghost (cr c))
                \<and> (\<not> is_monster (cr c) \<or> \<not> cr_pushable (cr c)
                   \<or> isSummon (cr c) \<and> (case cr_master (cr c) of Some q \<Rightarrow> is_player (cr q) | None \<Rightarrow> False))) (t_creatures t)
            then Some RV_NOTPOSSIBLE else None)
      else if list_ex (\<lambda>c. \<not> cr_ghost (cr c)) (t_creatures t) then Some RV_NOTENOUGHROOM else None)"

definition field_refuses :: "map_env \<Rightarrow> map_world \<Rightarrow> nat \<Rightarrow> tile \<Rightarrow> u32 \<Rightarrow> bool" where
  "field_refuses e w m t tileFlags =
     (case getFieldItem (mw_items w) t of
        None \<Rightarrow> False
      | Some f \<Rightarrow>
          let ty = type_of (table e) (heap (mw_items w) f); mon = mw_creatures w m in
          \<not> ty_blockSolid ty \<and> ty_fieldDamage ty \<noteq> 0 \<and> \<not> cr_immune mon (ty_combatType ty)
          \<and> (if hasBitSet FLAG_IGNOREFIELDDAMAGE tileFlags
             then \<not> (cr_ignoreFieldDamage mon \<or> canWalkOnFieldType mon (ty_combatType ty))
             else True))"

definition queryAdd_monster :: "map_env \<Rightarrow> nat \<Rightarrow> nat \<Rightarrow> u32 \<Rightarrow> map_world \<Rightarrow> return_value" where
  "queryAdd_monster e tr m tileFlags w =
     (let t = mw_tiles w tr; mon = mw_creatures w m;
          master_attacks = (case cr_master mon of Some q \<Rightarrow> cr_attacked (mw_creatures w q) \<noteq> None | None \<Rightarrow> False);
          gid = (case ground t of Some g \<Rightarrow> it_id (heap (mw_items w) g) | None \<Rightarrow> 0);
          pathfinding = hasBitSet FLAG_PATHFINDING tileFlags in
      if hasFlag (TILESTATE_PROTECTIONZONE OR TILESTATE_FLOORCHANGE OR TILESTATE_TELEPORT) t
         \<and> (\<not> cr_isPet mon \<or> cr_isPet mon \<and> master_attacks) then RV_NOTPOSSIBLE
      else if isSummon mon \<and> gid \<ge> ITEM_WALKABLE_SEA_START \<and> gid \<le> ITEM_WALKABLE_SEA_END then RV_NOTPOSSIBLE
      else case monster_blocked_by_creatures w m t of
        Some ret \<Rightarrow> ret
      | None \<Rightarrow>
          if hasFlag TILESTATE_IMMOVABLEBLOCKSOLID t then RV_NOTPOSSIBLE
          else if pathfinding \<and> hasFlag TILESTATE_IMMOVABLENOFIELDBLOCKPATH t then RV_NOTPOSSIBLE
          else if (hasFlag TILESTATE_BLOCKSOLID t \<or> pathfinding \<and> hasFlag TILESTATE_NOFIELDBLOCKPATH t)
                  \<and> \<not> (cr_canPushItems mon \<or> hasBitSet FLAG_IGNOREBLOCKITEM tileFlags) then RV_NOTPOSSIBLE
          else if field_refuses e w m t tileFlags then RV_NOTPOSSIBLE
          else RV_NOERROR)"

text \<open>The zones that a player who is locked by a fight may not enter or leave.\<close>

definition pz_refusal :: "map_world \<Rightarrow> nat \<Rightarrow> tile \<Rightarrow> return_value option" where
  "pz_refusal w p t =
     (case cr_tile (mw_creatures w p) of
        None \<Rightarrow> None
      | Some from \<Rightarrow>
          let f = mw_tiles w from in
          if \<not> cr_pzLocked (mw_creatures w p) then None
          else if \<not> hasFlag TILESTATE_PVPZONE f \<and> hasFlag TILESTATE_PVPZONE t
          then Some RV_PLAYERISPZLOCKEDENTERPVPZONE
          else if hasFlag TILESTATE_PVPZONE f \<and> \<not> hasFlag TILESTATE_PVPZONE t
          then Some RV_PLAYERISPZLOCKEDLEAVEPVPZONE
          else if \<not> hasFlag TILESTATE_NOPVPZONE f \<and> hasFlag TILESTATE_NOPVPZONE t
               \<or> \<not> hasFlag TILESTATE_PROTECTIONZONE f \<and> hasFlag TILESTATE_PROTECTIONZONE t
          then Some RV_PLAYERISPZLOCKED
          else None)"

text \<open>The items in the way of a player or an npc.\<close>

definition blocks_fixed :: "map_env \<Rightarrow> item_world \<Rightarrow> nat \<Rightarrow> bool" where
  "blocks_fixed e w i =
     (let x = heap w i; ty = type_of (table e) x
      in ty_blockSolid ty \<and> (\<not> ty_moveable ty \<or> hasAttribute ITEM_ATTRIBUTE_UNIQUEID (it_attrs x)))"

definition queryAdd_blocking ::
    "map_env \<Rightarrow> nat \<Rightarrow> nat \<Rightarrow> u32 \<Rightarrow> map_world \<Rightarrow> (return_value \<times> map_world) option" where
  "queryAdd_blocking e tr c tileFlags w =
     (let t = mw_tiles w tr; I = mw_items w in
      if \<not> hasBitSet FLAG_IGNOREBLOCKITEM tileFlags
      then (if \<not> hasFlag TILESTATE_BLOCKSOLID t then Some (RV_NOERROR, w)
            else case (if is_player (mw_creatures w c)
                       then List.find (\<lambda>i. it_id (heap I i) = ITEM_WILDGROWTH_SAFE \<or> it_id (heap I i) = ITEM_MAGICWALL_SAFE)
                              (t_items t)
                       else None) of
                   None \<Rightarrow> Some (RV_NOTENOUGHROOM, w)
                 | Some i \<Rightarrow>
                     if \<not> cr_ghost (mw_creatures w c)
                     then do { (ret, w) \<leftarrow> internalRemoveItem_tile e tr i 1 w; Some (RV_NOERROR, w) }
                     else Some (RV_NOERROR, w))
      else if (case ground t of None \<Rightarrow> False | Some g \<Rightarrow> blocks_fixed e I g) then Some (RV_NOTPOSSIBLE, w)
      else if list_ex (blocks_fixed e I) (t_items t) then Some (RV_NOTPOSSIBLE, w)
      else Some (RV_NOERROR, w))"

definition queryAdd_creature ::
    "map_env \<Rightarrow> nat \<Rightarrow> nat \<Rightarrow> u32 \<Rightarrow> map_world \<Rightarrow> (return_value \<times> map_world) option" where
  "queryAdd_creature e tr c tileFlags w =
     (let t = mw_tiles w tr; x = mw_creatures w c in
      if hasBitSet FLAG_NOLIMIT tileFlags then Some (RV_NOERROR, w)
      else if hasBitSet FLAG_PATHFINDING tileFlags \<and> hasFlag (TILESTATE_FLOORCHANGE OR TILESTATE_TELEPORT) t
      then Some (RV_NOTPOSSIBLE, w)
      else if cr_moveLocked x \<or> ground t = None then Some (RV_NOTPOSSIBLE, w)
      else if is_monster x then Some (queryAdd_monster e tr c tileFlags w, w)
      else if is_player x
      then (let (b, w) = (if t_creatures t \<noteq> [] \<and> \<not> hasBitSet FLAG_IGNOREBLOCKCREATURE tileFlags \<and> \<not> cr_access x
                          then all_walkthrough e c (t_creatures t) w else (True, w))
            in if \<not> b then Some (RV_NOTPOSSIBLE, w)
               else if cr_tile x = None \<and> hasFlag TILESTATE_NOLOGOUT t then Some (RV_NOTPOSSIBLE, w)
               else case pz_refusal w c t of
                 Some ret \<Rightarrow> Some (ret, w)
               | None \<Rightarrow> queryAdd_blocking e tr c tileFlags w)
      else if t_creatures t \<noteq> [] \<and> \<not> hasBitSet FLAG_IGNOREBLOCKCREATURE tileFlags
              \<and> list_ex (\<lambda>q. \<not> cr_ghost (mw_creatures w q)) (t_creatures t)
      then Some (RV_NOTENOUGHROOM, w)
      else queryAdd_blocking e tr c tileFlags w)"

text \<open>A blocking item of the tile against an item that is put there.\<close>

definition item_in_the_way :: "item_type \<Rightarrow> item_type \<Rightarrow> bool" where
  "item_in_the_way iiType ty \<longleftrightarrow>
     ty_blockSolid iiType
     \<and> (\<not> ty_allowPickupable iiType \<or> isMagicField ty \<or> ty_blockSolid ty)
     \<and> (\<not> ty_pickupable ty \<or> \<not> ty_hasHeight iiType \<or> ty_pickupable iiType \<or> isBed iiType)"

definition queryAdd_item :: "map_env \<Rightarrow> nat \<Rightarrow> nat \<Rightarrow> u32 \<Rightarrow> map_world \<Rightarrow> return_value" where
  "queryAdd_item e tr i tileFlags w =
     (let t = mw_tiles w tr; I = mw_items w; type = (\<lambda>i. type_of (table e) (heap I i));
          itemIsHangable = ty_isHangable (type i) in
      if length (t_items t) \<ge> 0x3E8 then RV_NOTPOSSIBLE
      else if hasBitSet FLAG_NOLIMIT tileFlags then RV_NOERROR
      else if ground t = None \<and> \<not> itemIsHangable then RV_NOTPOSSIBLE
      else if ty_blockSolid (type i) \<and> \<not> hasBitSet FLAG_IGNOREBLOCKCREATURE tileFlags
              \<and> list_ex (\<lambda>c. \<not> cr_ghost (mw_creatures w c)) (t_creatures t) then RV_NOTENOUGHROOM
      else if itemIsHangable \<and> hasFlag TILESTATE_SUPPORTS_HANGABLE t
      then (if list_ex (\<lambda>j. ty_isHangable (type j)) (t_items t) then RV_NEEDEXCHANGE else RV_NOERROR)
      else if (case ground t of None \<Rightarrow> False | Some g \<Rightarrow> item_in_the_way (type g) (type i)) then RV_NOTENOUGHROOM
      else if list_ex (\<lambda>j. item_in_the_way (type j) (type i)) (t_items t) then RV_NOTENOUGHROOM
      else RV_NOERROR)"

text \<open>
  \<open>HouseTile::queryAdd\<close> comes first on the tile of a house. Its path finding test reads the flags of the
  tile, not those of the query. \<open>me_isInvited\<close> is the access list of the house; \<open>None\<close> as a player is the
  null pointer, which counts as the owner.
\<close>

definition as_player :: "map_world \<Rightarrow> nat \<Rightarrow> nat option" where
  "as_player w c = (if is_player (mw_creatures w c) then Some c else None)"

definition t_queryAdd ::
    "map_env \<Rightarrow> nat \<Rightarrow> thing \<Rightarrow> u32 \<Rightarrow> nat option \<Rightarrow> map_world \<Rightarrow> (return_value \<times> map_world) option" where
  "t_queryAdd e tr thing tileFlags actor w =
     (let t = mw_tiles w tr;
          base = (case thing of TCreature c \<Rightarrow> queryAdd_creature e tr c tileFlags w
                  | TItem i \<Rightarrow> Some (queryAdd_item e tr i tileFlags w, w))
      in case t_house t of
           None \<Rightarrow> base
         | Some h \<Rightarrow>
             (case thing of
                TCreature c \<Rightarrow>
                  (case cr_kind (mw_creatures w c) of
                     Kind_Player \<Rightarrow> if \<not> me_isInvited e h (Some c) then Some (RV_PLAYERISNOTINVITED, w) else base
                   | Kind_Monster \<Rightarrow>
                       (case cr_master (mw_creatures w c) of
                          None \<Rightarrow> base
                        | Some m \<Rightarrow>
                            if \<not> me_isInvited e h (as_player w m) then Some (RV_NOTPOSSIBLE, w)
                            else if hasFlag TILESTATE_BLOCKSOLID t
                                    \<or> hasBitSet FLAG_PATHFINDING (t_flags t) \<and> hasFlag TILESTATE_NOFIELDBLOCKPATH t
                            then Some (RV_NOTPOSSIBLE, w)
                            else Some (RV_NOERROR, w))
                   | Kind_Npc \<Rightarrow> base)
              | TItem i \<Rightarrow>
                  (case actor of
                     None \<Rightarrow> base
                   | Some a \<Rightarrow> if \<not> me_isInvited e h (as_player w a) then Some (RV_CANNOTTHROW, w) else base)))"

definition queryMaxCount_tile :: "u32 \<Rightarrow> u32" where
  "queryMaxCount_tile amount = max 1 amount"

section \<open>Where a thing ends up\<close>

definition floor_shift :: "bool \<Rightarrow> tile \<Rightarrow> u16 \<times> u16 \<Rightarrow> u16 \<times> u16" where
  "floor_shift down t p =
     (let s = (if down then -1 else 1) :: u16; (dx, dy) = p;
          dy = (if hasFlag TILESTATE_FLOORCHANGE_NORTH t then dy - s else dy);
          dy = (if hasFlag TILESTATE_FLOORCHANGE_SOUTH t then dy + s else dy);
          dy = (if hasFlag TILESTATE_FLOORCHANGE_SOUTH_ALT t then dy + 2 * s else dy);
          dx = (if hasFlag TILESTATE_FLOORCHANGE_EAST t then dx + s else dx);
          dx = (if hasFlag TILESTATE_FLOORCHANGE_EAST_ALT t then dx + 2 * s else dx);
          dx = (if hasFlag TILESTATE_FLOORCHANGE_WEST t then dx - s else dx)
      in (dx, dy))"

definition has_flag_at :: "map_world \<Rightarrow> u32 \<Rightarrow> nat option \<Rightarrow> bool" where
  "has_flag_at w flag tr = (case tr of None \<Rightarrow> False | Some tr \<Rightarrow> hasFlag flag (mw_tiles w tr))"

definition floor_destination :: "map_world \<Rightarrow> tile \<Rightarrow> nat option" where
  "floor_destination w t =
     (let at = getTile (mw_grid w); dx = pos_x (tilePos t); dy = pos_y (tilePos t) in
      if hasFlag TILESTATE_FLOORCHANGE_DOWN t
      then let dz = pos_z (tilePos t) + 1 in
           if has_flag_at w TILESTATE_FLOORCHANGE_SOUTH_ALT (at dx (dy - 1) dz) then at dx (dy - 2) dz
           else if has_flag_at w TILESTATE_FLOORCHANGE_EAST_ALT (at (dx - 1) dy dz) then at (dx - 2) dy dz
           else (case at dx dy dz of
                   None \<Rightarrow> None
                 | Some down \<Rightarrow> let (dx, dy) = floor_shift True (mw_tiles w down) (dx, dy) in at dx dy dz)
      else if hasFlag TILESTATE_FLOORCHANGE t
      then let (dx, dy) = floor_shift False t (dx, dy) in at dx dy (pos_z (tilePos t) - 1)
      else None)"

text \<open>The tile, the down item that an added item may join, and the flags.\<close>

definition queryDestination_tile :: "map_world \<Rightarrow> nat \<Rightarrow> u32 \<Rightarrow> nat \<times> nat option \<times> u32" where
  "queryDestination_tile w tr tileFlags =
     (case floor_destination w (mw_tiles w tr) of
        None \<Rightarrow> (tr, getTopDownItem (mw_tiles w tr), tileFlags)
      | Some dest \<Rightarrow> (dest, getTopDownItem (mw_tiles w dest), tileFlags OR FLAG_NOLIMIT))"

text \<open>
  In a house a player who is not invited is sent to the entry, or to his temple; the last resort is a
  tile outside the map, which is a parameter.
\<close>

definition t_queryDestination :: "map_env \<Rightarrow> nat \<Rightarrow> thing \<Rightarrow> u32 \<Rightarrow> map_world \<Rightarrow> nat \<times> nat option \<times> u32" where
  "t_queryDestination e tr thing tileFlags w =
     (case (t_house (mw_tiles w tr), thing_creature thing) of
        (Some h, Some c) \<Rightarrow>
          if is_player (mw_creatures w c) \<and> \<not> me_isInvited e h (Some c)
          then (case tile_at w (me_houseEntry e h) of
                  Some d \<Rightarrow> d
                | None \<Rightarrow> (case tile_at w (me_temple e c) of Some d \<Rightarrow> d | None \<Rightarrow> me_nullTile e), None, tileFlags)
          else queryDestination_tile w tr tileFlags
      | _ \<Rightarrow> queryDestination_tile w tr tileFlags)"

section \<open>Placing a creature\<close>

text \<open>
  \<open>Map::placeCreature\<close>. The offsets around the position come in the order of a random shuffle, which is
  the parameter \<open>relList\<close>.
\<close>

definition ignore_fields :: "nat \<Rightarrow> bool \<Rightarrow> map_world \<Rightarrow> map_world" where
  "ignore_fields c b w =
     (if is_monster (mw_creatures w c) then upd_creature c (\<lambda>x. x\<lparr>cr_ignoreFieldDamage := b\<rparr>) w else w)"

definition place_view :: "map_env \<Rightarrow> map_world \<Rightarrow> tile_view" where
  "place_view e w =
     \<lparr>tv_tile = getTile (mw_grid w),
      tv_blocks = (\<lambda>tr. t_hasProperty (table e) (mw_items w) CONST_PROP_BLOCKPROJECTILE (mw_tiles w tr)),
      tv_things = (\<lambda>tr. getThingCount (mw_tiles w tr))\<rparr>"

fun find_place ::
    "map_env \<Rightarrow> position \<Rightarrow> nat \<Rightarrow> bool \<Rightarrow> bool \<Rightarrow> (int \<times> int) list \<Rightarrow> map_world \<Rightarrow> (nat option \<times> map_world) option" where
  "find_place e centerPos c extendedPos placeInPZ [] w = Some (None, w)"
| "find_place e centerPos c extendedPos placeInPZ ((rx, ry) # rels) w =
     (let tryPos = Position (pos_x centerPos + of_int rx) (pos_y centerPos + of_int ry) (pos_z centerPos) in
      case tile_at w tryPos of
        None \<Rightarrow> find_place e centerPos c extendedPos placeInPZ rels w
      | Some tr \<Rightarrow>
          if placeInPZ \<and> \<not> hasFlag TILESTATE_PROTECTIONZONE (mw_tiles w tr)
          then find_place e centerPos c extendedPos placeInPZ rels w
          else do {
            let w = ignore_fields c True w;
            (ret, w) \<leftarrow> t_queryAdd e tr (TCreature c) (FLAG_IGNOREBLOCKITEM OR FLAG_IGNOREFIELDDAMAGE) None w;
            clear \<leftarrow> (if ret \<noteq> RV_NOERROR then Some False
                      else if \<not> extendedPos then Some True
                      else isSightClear (place_view e w) centerPos tryPos False);
            if clear then Some (Some tr, w)
            else find_place e centerPos c extendedPos placeInPZ rels w })"

definition map_placeCreature ::
    "map_env \<Rightarrow> (int \<times> int) list \<Rightarrow> position \<Rightarrow> nat \<Rightarrow> bool \<Rightarrow> bool \<Rightarrow> map_world \<Rightarrow> (bool \<times> map_world) option" where
  "map_placeCreature e relList centerPos c extendedPos forceLogin w =
     do { let w = ignore_fields c True w;
          (placeInPZ, found, w) \<leftarrow>
            (case tile_at w centerPos of
               None \<Rightarrow> Some (False, None, w)
             | Some tr \<Rightarrow> do {
                 let placeInPZ = hasFlag TILESTATE_PROTECTIONZONE (mw_tiles w tr);
                 (ret, w) \<leftarrow> t_queryAdd e tr (TCreature c) (FLAG_IGNOREBLOCKITEM OR FLAG_IGNOREFIELDDAMAGE) None w;
                 Some (placeInPZ, if forceLogin \<or> ret = RV_NOERROR \<or> ret = RV_PLAYERISNOTINVITED then Some tr else None,
                       ignore_fields c False w) });
          (found, w) \<leftarrow>
            (case found of
               Some tr \<Rightarrow> Some (Some tr, w)
             | None \<Rightarrow> do {
                 (found, w) \<leftarrow> find_place e centerPos c extendedPos placeInPZ relList w;
                 Some (found, if found = None then w else ignore_fields c False w) });
          (case found of
             None \<Rightarrow> Some (False, w)
           | Some tr \<Rightarrow> do {
               let (toCylinder, toItem, flags) = t_queryDestination e tr (TCreature c) 0 w;
               w \<leftarrow> put_creature e c toCylinder w;
               Some (True, w) }) }"

definition game_placeCreature ::
    "map_env \<Rightarrow> (int \<times> int) list \<Rightarrow> position \<Rightarrow> nat \<Rightarrow> bool \<Rightarrow> bool \<Rightarrow> map_world \<Rightarrow> (bool \<times> map_world) option" where
  "game_placeCreature e relList pos c extendedPos forced w =
     (if cr_tile (mw_creatures w c) \<noteq> None then Some (False, w)
      else do {
        (placed, w) \<leftarrow> map_placeCreature e relList pos c extendedPos forced w;
        if \<not> placed then Some (False, w)
        else do { w \<leftarrow> announce_creature e c w; Some (True, w) } })"

section \<open>Walking\<close>

text \<open>
  \<open>Game::internalMoveCreature\<close> to a tile. Floor changes are followed at most sixteen times, the number of
  floors; the loop also ends when a notification has moved the creature elsewhere.
\<close>

fun follow_floors ::
    "nat \<Rightarrow> map_env \<Rightarrow> nat \<Rightarrow> nat option \<Rightarrow> nat \<Rightarrow> u32 \<Rightarrow> map_world \<Rightarrow> (nat option \<times> nat \<times> map_world) option" where
  "follow_floors n e c fromCylinder toCylinder flags w =
     (let (subCylinder, toItem, flags) = t_queryDestination e toCylinder (TCreature c) flags w in
      if subCylinder = toCylinder then Some (fromCylinder, toCylinder, w)
      else do {
        w \<leftarrow> moveCreature e c subCylinder False w;
        if cr_tile (mw_creatures w c) \<noteq> Some subCylinder then Some (None, toCylinder, w)
        else case n of
          0 \<Rightarrow> Some (Some toCylinder, subCylinder, w)
        | Suc n \<Rightarrow> follow_floors n e c (Some toCylinder) subCylinder 0 w })"

fun is_diagonal :: "direction \<Rightarrow> bool" where
  "is_diagonal DIRECTION_SOUTHWEST = True"
| "is_diagonal DIRECTION_SOUTHEAST = True"
| "is_diagonal DIRECTION_NORTHWEST = True"
| "is_diagonal DIRECTION_NORTHEAST = True"
| "is_diagonal _ = False"

definition turn_after_stairs :: "nat \<Rightarrow> position \<Rightarrow> position \<Rightarrow> map_world \<Rightarrow> map_world" where
  "turn_after_stairs c from to w =
     (if pos_z from \<noteq> pos_z to \<and> (pos_x from \<noteq> pos_x to \<or> pos_y from \<noteq> pos_y to)
      then let dir = getDirectionTo from to
           in if is_diagonal dir then w else internalCreatureTurn c dir w
      else w)"

definition internalMoveCreature_tile ::
    "map_env \<Rightarrow> nat \<Rightarrow> nat \<Rightarrow> u32 \<Rightarrow> map_world \<Rightarrow> (return_value \<times> map_world) option" where
  "internalMoveCreature_tile e c toTile flags w =
     (if me_rooted e c then Some (RV_NOTPOSSIBLE, w)
      else do {
        (ret, w) \<leftarrow> t_queryAdd e toTile (TCreature c) flags None w;
        if ret \<noteq> RV_NOERROR then Some (ret, w)
        else do {
          w \<leftarrow> moveCreature e c toTile False w;
          if cr_tile (mw_creatures w c) \<noteq> Some toTile then Some (RV_NOERROR, w)
          else do {
            (fromCylinder, toCylinder, w) \<leftarrow> follow_floors 15 e c None toTile flags w;
            Some (RV_NOERROR,
                  case fromCylinder of
                    None \<Rightarrow> w
                  | Some f \<Rightarrow> turn_after_stairs c (tilePos (mw_tiles w f)) (tilePos (mw_tiles w toCylinder)) w) } } })"

text \<open>
  \<open>Game::internalMoveCreature\<close> in a direction: players climb on a stack of three or down from one. Only the
  low byte of a floor reaches \<open>getTile\<close>.
\<close>

definition no_floor :: "map_world \<Rightarrow> nat option \<Rightarrow> bool" where
  "no_floor w tr =
     (case tr of None \<Rightarrow> True
      | Some tr \<Rightarrow> ground (mw_tiles w tr) = None \<and> \<not> hasFlag TILESTATE_BLOCKSOLID (mw_tiles w tr))"

definition climb :: "map_env \<Rightarrow> nat \<Rightarrow> direction \<Rightarrow> position \<Rightarrow> position \<Rightarrow> u32 \<Rightarrow> map_world \<Rightarrow> position \<times> u32 \<times> map_world" where
  "climb e c direction currentPos destPos flags w =
     (let at = getTile (mw_grid w); high = (\<lambda>tr. hasHeight (table e) (mw_items w) 3 (mw_tiles w tr));
          ignore = FLAG_IGNOREBLOCKITEM OR FLAG_IGNOREBLOCKCREATURE;
          (destPos, flags, w) =
            (if pos_z currentPos \<noteq> 8 \<and> (case cr_tile (mw_creatures w c) of None \<Rightarrow> False | Some tr \<Rightarrow> high tr)
                \<and> no_floor w (at (pos_x currentPos) (pos_y currentPos) (pos_z currentPos - 1))
             then (case at (pos_x destPos) (pos_y destPos) (pos_z destPos - 1) of
                     None \<Rightarrow> (destPos, flags, w)
                   | Some tr \<Rightarrow>
                       if ground (mw_tiles w tr) \<noteq> None \<and> \<not> hasFlag TILESTATE_BLOCKSOLID (mw_tiles w tr)
                       then (if \<not> hasFlag TILESTATE_FLOORCHANGE (mw_tiles w tr)
                             then (Position (pos_x destPos) (pos_y destPos) (pos_z destPos - 1), flags OR ignore,
                                   upd_creature c (\<lambda>x. x\<lparr>cr_direction := direction\<rparr>) w)
                             else (destPos, flags OR ignore, w))
                       else (destPos, flags, w))
             else (destPos, flags, w))
      in if pos_z currentPos \<noteq> 7 \<and> pos_z currentPos = pos_z destPos
            \<and> no_floor w (at (pos_x destPos) (pos_y destPos) (pos_z destPos))
         then (case at (pos_x destPos) (pos_y destPos) (pos_z destPos + 1) of
                 None \<Rightarrow> (destPos, flags, w)
               | Some tr \<Rightarrow>
                   if high tr
                   then (Position (pos_x destPos) (pos_y destPos) (pos_z destPos + 1), flags OR ignore,
                         upd_creature c (\<lambda>x. x\<lparr>cr_direction := direction\<rparr>) w)
                   else (destPos, flags, w))
         else (destPos, flags, w))"

definition internalMoveCreature ::
    "map_env \<Rightarrow> nat \<Rightarrow> direction \<Rightarrow> u32 \<Rightarrow> map_world \<Rightarrow> (return_value \<times> map_world) option" where
  "internalMoveCreature e c direction flags w =
     (let currentPos = cr_position (mw_creatures w c);
          w = upd_creature c (\<lambda>x. x\<lparr>cr_lastPosition := currentPos\<rparr>) w;
          destPos = getNextPosition direction currentPos;
          (destPos, flags, w) =
            (if is_player (mw_creatures w c) \<and> \<not> is_diagonal direction
             then climb e c direction currentPos destPos flags w else (destPos, flags, w))
      in case tile_at w destPos of
           None \<Rightarrow> Some (RV_NOTPOSSIBLE, w)
         | Some toTile \<Rightarrow> internalMoveCreature_tile e c toTile flags w)"

end
