(* ===== verification/MapInv.thy ===== *)
theory MapInv
  imports TileQuery
begin

text \<open>
  The invariant of the map: every creature that a tile of the map lists is on that tile, the leaves list
  exactly these creatures by their positions, and the caches hold what a search would find. Operations
  on items and queries are \<open>quiet\<close>: they leave the creatures where they are.
\<close>

section \<open>Creatures in the leaves\<close>

definition crowd :: "grid \<Rightarrow> u16 \<Rightarrow> u16 \<Rightarrow> nat list" where
  "crowd g x y = (case cell g x y of None \<Rightarrow> [] | Some c \<Rightarrow> creature_list c)"

definition player_crowd :: "grid \<Rightarrow> u16 \<Rightarrow> u16 \<Rightarrow> nat list" where
  "player_crowd g x y = (case cell g x y of None \<Rightarrow> [] | Some c \<Rightarrow> player_list c)"

definition near :: "creature_view \<Rightarrow> nat \<Rightarrow> u16 \<Rightarrow> u16 \<Rightarrow> bool" where
  "near v c x y \<longleftrightarrow> same_leaf (pos_x (cv_position v c)) (pos_y (cv_position v c)) x y"

definition listed :: "creature_view \<Rightarrow> grid \<Rightarrow> nat set \<Rightarrow> bool" where
  "listed v g S \<longleftrightarrow>
     (\<forall>x y. distinct (crowd g x y) \<and> distinct (player_crowd g x y)
            \<and> set (crowd g x y) = {c \<in> S. near v c x y}
            \<and> set (player_crowd g x y) = {c \<in> S. cv_isPlayer v c \<and> near v c x y})"

lemma listed_indexed: "listed v g S \<Longrightarrow> indexed v g S"
proof -
  have a: "(case cell g x y of None \<Rightarrow> {} | Some c \<Rightarrow> set (creature_list c)) = set (crowd g x y)" for x y
    by (simp add: crowd_def split: option.split)
  have b: "(case cell g x y of None \<Rightarrow> {} | Some c \<Rightarrow> set (player_list c)) = set (player_crowd g x y)" for x y
    by (simp add: player_crowd_def split: option.split)
  show "listed v g S \<Longrightarrow> indexed v g S" unfolding indexed_def listed_def a b by (simp add: near_def)
qed

lemma crowd_upd_leaf:
  assumes "grid_ok g" and "getQTNode g x y = Some l"
    and "leafS lf = leafS (leaf g l)" "leafE lf = leafE (leaf g l)"
  shows "crowd (upd_leaf l (\<lambda>_. lf) g) a b = (if same_leaf a b x y then creature_list lf else crowd g a b)"
    and "player_crowd (upd_leaf l (\<lambda>_. lf) g) a b = (if same_leaf a b x y then player_list lf else player_crowd g a b)"
  using upd_leaf_ok(2) [of g x y l "\<lambda>_. lf" a b] assms by (simp_all add: crowd_def player_crowd_def)

lemma crowd_leaf:
  assumes "getQTNode g x y = Some l"
  shows "creature_list (leaf g l) = crowd g x y" "player_list (leaf g l) = player_crowd g x y"
  using assms by (simp_all add: crowd_def player_crowd_def cell_def)

lemma near_trans: "same_leaf a b x y \<Longrightarrow> near v c a b = near v c x y"
  unfolding near_def using same_leaf_sym same_leaf_trans by metis

lemma crowd_cong: "grid_ok g \<Longrightarrow> same_leaf a b x y \<Longrightarrow> crowd g a b = crowd g x y \<and> player_crowd g a b = player_crowd g x y"
  by (simp add: crowd_def player_crowd_def cell_same_leaf [of g a b x y])

lemma upd_leaf_const: "upd_leaf l f g = upd_leaf l (\<lambda>_. f (leaf g l)) g"
  by (simp add: upd_leaf_def leaf_def)

lemma links_add: "leafS (addCreature b c l) = leafS l" "leafE (addCreature b c l) = leafE l"
  by (simp_all add: addCreature_def Let_def)

text \<open>A creature that is moved in the view.\<close>

definition move_view :: "nat \<Rightarrow> position \<Rightarrow> creature_view \<Rightarrow> creature_view" where
  "move_view c p v = v\<lparr>cv_position := (cv_position v)(c := p)\<rparr>"

lemma move_view_simps [simp]:
  "cv_isPlayer (move_view c p v) = cv_isPlayer v"
  "near (move_view c p v) q x y = (if q = c then same_leaf (pos_x p) (pos_y p) x y else near v q x y)"
  by (simp_all add: move_view_def near_def)

lemma listed_add:
  assumes ok: "grid_ok g" and l: "getQTNode g (pos_x p) (pos_y p) = Some l"
    and idx: "listed v g S" and c: "c \<notin> S"
  shows "listed (move_view c p v) (upd_leaf l (addCreature (cv_isPlayer v c) c) g) (insert c S)"
proof -
  let ?lf = "addCreature (cv_isPlayer v c) c (leaf g l)"
  let ?v = "move_view c p v"
  note u = crowd_upd_leaf [OF ok l links_add(1) links_add(2), folded upd_leaf_const]
  have lf: "creature_list ?lf = crowd g (pos_x p) (pos_y p) @ [c]"
    "player_list ?lf = (if cv_isPlayer v c then player_crowd g (pos_x p) (pos_y p) @ [c] else player_crowd g (pos_x p) (pos_y p))"
    using crowd_leaf [OF l] by (simp_all add: addCreature_def Let_def)
  have "distinct (if same_leaf x y (pos_x p) (pos_y p) then creature_list ?lf else crowd g x y)
      \<and> distinct (if same_leaf x y (pos_x p) (pos_y p) then player_list ?lf else player_crowd g x y)
      \<and> set (if same_leaf x y (pos_x p) (pos_y p) then creature_list ?lf else crowd g x y) = {q \<in> insert c S. near ?v q x y}
      \<and> set (if same_leaf x y (pos_x p) (pos_y p) then player_list ?lf else player_crowd g x y)
          = {q \<in> insert c S. cv_isPlayer ?v q \<and> near ?v q x y}" for x y
  proof (cases "same_leaf x y (pos_x p) (pos_y p)")
    case True
    note g = crowd_cong [OF ok True, THEN conjunct1] crowd_cong [OF ok True, THEN conjunct2]
    have s: "same_leaf (pos_x p) (pos_y p) x y" using True same_leaf_sym by blast
    have "set (crowd g x y) = {q \<in> S. near v q x y}" "set (player_crowd g x y) = {q \<in> S. cv_isPlayer v q \<and> near v q x y}"
      "distinct (crowd g x y)" "distinct (player_crowd g x y)" using idx unfolding listed_def by blast+
    then show ?thesis using True c s unfolding lf by (auto simp: g [symmetric])
  next
    case False
    then have s: "\<not> same_leaf (pos_x p) (pos_y p) x y" using same_leaf_sym by blast
    then show ?thesis using False idx c unfolding listed_def by auto
  qed
  then show ?thesis unfolding listed_def u by blast
qed

lemma listed_remove:
  assumes ok: "grid_ok g" and l: "getQTNode g (pos_x (cv_position v c)) (pos_y (cv_position v c)) = Some l"
    and idx: "listed v g S" and c: "c \<in> S"
  obtains lf where "removeCreature (cv_isPlayer v c) c (leaf g l) = Some lf"
    and "leafS lf = leafS (leaf g l)" "leafE lf = leafE (leaf g l)" "floors lf = floors (leaf g l)"
    and "listed v (upd_leaf l (\<lambda>_. lf) g) (S - {c})"
proof -
  let ?x = "pos_x (cv_position v c)" and ?y = "pos_y (cv_position v c)"
  have n: "near v c ?x ?y" by (simp add: near_def)
  have sets: "set (crowd g a b) = {q \<in> S. near v q a b}" "set (player_crowd g a b) = {q \<in> S. cv_isPlayer v q \<and> near v q a b}"
    "distinct (crowd g a b)" "distinct (player_crowd g a b)" for a b using idx unfolding listed_def by blast+
  have m: "c \<in> set (creature_list (leaf g l))" "cv_isPlayer v c \<Longrightarrow> c \<in> set (player_list (leaf g l))"
    unfolding crowd_leaf [OF l] sets using c n by simp_all
  define lf where "lf = (let k = (leaf g l)\<lparr>creature_list := swap_pop (creature_list (leaf g l)) c\<rparr>
    in if cv_isPlayer v c then k\<lparr>player_list := swap_pop (player_list (leaf g l)) c\<rparr> else k)"
  have r: "removeCreature (cv_isPlayer v c) c (leaf g l) = Some lf"
    using m by (simp add: removeCreature_def lf_def Let_def)
  have links: "leafS lf = leafS (leaf g l)" "leafE lf = leafE (leaf g l)" "floors lf = floors (leaf g l)"
    by (simp_all add: lf_def Let_def)
  note u = crowd_upd_leaf [OF ok l links(1,2)]
  have d: "distinct (creature_list lf)" "distinct (player_list lf)"
    using sets(3,4) [of ?x ?y] m by (simp_all add: lf_def Let_def crowd_leaf [OF l] distinct_swap_pop)
  have s: "set (creature_list lf) = set (crowd g ?x ?y) - {c}"
    "set (player_list lf) = (if cv_isPlayer v c then set (player_crowd g ?x ?y) - {c} else set (player_crowd g ?x ?y))"
    using sets(3,4) [of ?x ?y] m by (simp_all add: lf_def Let_def crowd_leaf [OF l] set_swap_pop)
  have "distinct (crowd (upd_leaf l (\<lambda>_. lf) g) x y) \<and> distinct (player_crowd (upd_leaf l (\<lambda>_. lf) g) x y)
      \<and> set (crowd (upd_leaf l (\<lambda>_. lf) g) x y) = {q \<in> S - {c}. near v q x y}
      \<and> set (player_crowd (upd_leaf l (\<lambda>_. lf) g) x y) = {q \<in> S - {c}. cv_isPlayer v q \<and> near v q x y}" for x y
  proof (cases "same_leaf x y ?x ?y")
    case True
    then show ?thesis using d s sets unfolding u by (auto simp: near_trans [OF True])
  next
    case False
    then have "\<not> near v c x y" unfolding near_def using same_leaf_sym by blast
    then show ?thesis using False sets unfolding u by auto
  qed
  then have "listed v (upd_leaf l (\<lambda>_. lf) g) (S - {c})" unfolding listed_def by blast
  then show ?thesis using that r links by blast
qed

lemma listed_move_inside:
  assumes "listed v g S" and "same_leaf (pos_x (cv_position v c)) (pos_y (cv_position v c)) (pos_x p) (pos_y p)"
  shows "listed (move_view c p v) g S"
proof -
  have "near (move_view c p v) q x y = near v q x y" for q x y
    unfolding move_view_simps using near_trans [OF assms(2), of v c] same_leaf_sym same_leaf_trans assms(2)
    by (metis near_def)
  then show ?thesis using assms(1) unfolding listed_def by simp
qed

lemma listed_grid: "cell g' = cell g \<Longrightarrow> listed v g' S = listed v g S"
  by (simp add: listed_def crowd_def player_crowd_def)

lemma listed_crowd: "crowd g' = crowd g \<Longrightarrow> player_crowd g' = player_crowd g \<Longrightarrow> listed v g' S = listed v g S"
  by (simp add: listed_def)

section \<open>The invariant\<close>

definition placed :: "map_world \<Rightarrow> nat set" where
  "placed w = {c. \<exists>p tr. tile_at w p = Some tr \<and> c \<in> set (t_creatures (mw_tiles w tr))}"

definition tile_settled :: "map_world \<Rightarrow> position \<Rightarrow> nat \<Rightarrow> bool" where
  "tile_settled w p tr \<longleftrightarrow>
     tilePos (mw_tiles w tr) = p \<and> distinct (t_creatures (mw_tiles w tr))
     \<and> (\<forall>c \<in> set (t_creatures (mw_tiles w tr)). cr_tile (mw_creatures w c) = Some tr \<and> cr_position (mw_creatures w c) = p)"

definition map_ok :: "map_world \<Rightarrow> bool" where
  "map_ok w \<longleftrightarrow>
     grid_ok (mw_grid w)
     \<and> (\<forall>p tr. tile_at w p = Some tr \<longrightarrow> tile_settled w p tr)
     \<and> listed (view w) (mw_grid w) (placed w)
     \<and> cache_ok (view w) (placed w) (mw_grid w)"

lemma map_okD:
  assumes "map_ok w"
  shows "grid_ok (mw_grid w)" "tile_at w p = Some tr \<Longrightarrow> tilePos (mw_tiles w tr) = p"
    "tile_at w p = Some tr \<Longrightarrow> distinct (t_creatures (mw_tiles w tr))"
    "tile_at w p = Some tr \<Longrightarrow> c \<in> set (t_creatures (mw_tiles w tr)) \<Longrightarrow>
       cr_tile (mw_creatures w c) = Some tr \<and> cr_position (mw_creatures w c) = p"
    "listed (view w) (mw_grid w) (placed w)" "cache_ok (view w) (placed w) (mw_grid w)"
  using assms by (auto simp: map_ok_def tile_settled_def)

lemma placedD:
  assumes "map_ok w" and "c \<in> placed w"
  obtains p tr where "tile_at w p = Some tr" "c \<in> set (t_creatures (mw_tiles w tr))" "cr_tile (mw_creatures w c) = Some tr"
    "cr_position (mw_creatures w c) = p"
  using assms map_okD(4) by (auto simp: placed_def)

lemma tile_at_leaf:
  assumes "tile_at w p = Some tr"
  obtains l where "getQTNode (mw_grid w) (pos_x p) (pos_y p) = Some l" "\<not> pos_z p \<ge> MAP_MAX_LAYERS"
  using assms by (auto simp: tile_at_def getTile_cell cell_def split: if_splits option.splits)

text \<open>What a step that moves, places or removes one creature has to do.\<close>

definition view_of :: "(nat \<Rightarrow> creature) \<Rightarrow> creature_view" where
  "view_of cr = \<lparr>cv_position = (\<lambda>c. cr_position (cr c)), cv_isPlayer = (\<lambda>c. is_player (cr c))\<rparr>"

lemma view_view_of: "view w = view_of (mw_creatures w)"
  by (simp add: view_def view_of_def)

lemma view_moved:
  assumes "\<And>x. cr_kind (mw_creatures w' x) = cr_kind (mw_creatures w x)"
    and "\<And>x. cr_position (mw_creatures w' x) = (if x = c then q else cr_position (mw_creatures w x))"
  shows "view w' = move_view c q (view w)"
  using assms by (simp add: view_def move_view_def is_player_def fun_eq_iff)

lemma settle_ok:
  assumes ok: "map_ok w" and new: "tile_at w q = Some new"
    and g: "grid_ok (mw_grid w')" "getTile (mw_grid w') = getTile (mw_grid w)"
    and idx: "listed (move_view c q (view w)) (mw_grid w') (insert c (placed w))"
    and cache: "cache_ok (view w') (insert c (placed w)) (mw_grid w')"
    and pos: "\<And>tr. tilePos (mw_tiles w' tr) = tilePos (mw_tiles w tr)"
    and cs: "\<And>p tr. tile_at w p = Some tr \<Longrightarrow> t_creatures (mw_tiles w' tr)
        = (if tr = new then [c] else []) @ remove1 c (t_creatures (mw_tiles w tr))"
    and kind: "\<And>x. cr_kind (mw_creatures w' x) = cr_kind (mw_creatures w x)"
    and tile: "\<And>x. cr_tile (mw_creatures w' x) = (if x = c then Some new else cr_tile (mw_creatures w x))"
    and cpos: "\<And>x. cr_position (mw_creatures w' x) = (if x = c then q else cr_position (mw_creatures w x))"
  shows "map_ok w'" and "placed w' = insert c (placed w)" and "cr_tile (mw_creatures w' c) = Some new"
proof -
  have at: "tile_at w' = tile_at w" by (simp add: tile_at_def fun_eq_iff g(2))
  have mem: "x \<in> set (t_creatures (mw_tiles w' tr)) \<longleftrightarrow>
      (if x = c then tr = new else x \<in> set (t_creatures (mw_tiles w tr)))" if "tile_at w p = Some tr" for x p tr
    using cs [OF that] map_okD(3) [OF ok that] by auto
  have "x \<in> placed w' \<longleftrightarrow> x \<in> insert c (placed w)" for x
  proof -
    have "x \<in> placed w' \<longleftrightarrow> (\<exists>p tr. tile_at w p = Some tr
        \<and> (if x = c then tr = new else x \<in> set (t_creatures (mw_tiles w tr))))"
      unfolding placed_def at mem_Collect_eq using mem [of _ _ x] by (metis (no_types))
    then show ?thesis using new by (cases "x = c") (auto simp: placed_def)
  qed
  then show pl: "placed w' = insert c (placed w)" by blast
  have "tile_settled w' p tr" if t: "tile_at w' p = Some tr" for p tr
    unfolding tile_settled_def
  proof (intro conjI ballI)
    have t': "tile_at w p = Some tr" using t by (simp add: at)
    show "tilePos (mw_tiles w' tr) = p" using map_okD(2) [OF ok t'] pos by simp
    show "distinct (t_creatures (mw_tiles w' tr))" using map_okD(3) [OF ok t'] cs [OF t'] by simp
    fix x assume "x \<in> set (t_creatures (mw_tiles w' tr))"
    then have x: "if x = c then tr = new else x \<in> set (t_creatures (mw_tiles w tr))" using mem [OF t'] by simp
    have "p = q" if "tr = new" using that map_okD(2) [OF ok t'] map_okD(2) [OF ok new] by simp
    then show "cr_tile (mw_creatures w' x) = Some tr" "cr_position (mw_creatures w' x) = p"
      using x map_okD(4) [OF ok t', of x] tile cpos by (auto split: if_splits)
  qed
  then show "map_ok w'"
    unfolding map_ok_def pl view_moved [OF kind cpos, symmetric] using g idx cache view_moved [OF kind cpos] by simp
  show "cr_tile (mw_creatures w' c) = Some new" using tile by simp
qed

lemma unsettle_ok:
  assumes ok: "map_ok w"
    and g: "grid_ok (mw_grid w')" "getTile (mw_grid w') = getTile (mw_grid w)"
    and idx: "listed (view w) (mw_grid w') (placed w - {c})" and cache: "cache_ok (view w) (placed w - {c}) (mw_grid w')"
    and pos: "\<And>tr. tilePos (mw_tiles w' tr) = tilePos (mw_tiles w tr)"
    and cs: "\<And>p tr. tile_at w p = Some tr \<Longrightarrow> t_creatures (mw_tiles w' tr) = remove1 c (t_creatures (mw_tiles w tr))"
    and cr: "mw_creatures w' = mw_creatures w"
  shows "map_ok w'" and "placed w' = placed w - {c}"
proof -
  have at: "tile_at w' = tile_at w" by (simp add: tile_at_def fun_eq_iff g(2))
  have mem: "set (t_creatures (mw_tiles w' tr)) = set (t_creatures (mw_tiles w tr)) - {c}"
    if "tile_at w p = Some tr" for p tr using cs [OF that] map_okD(3) [OF ok that] by simp
  have "x \<in> placed w' \<longleftrightarrow> x \<in> placed w \<and> x \<noteq> c" for x
    unfolding placed_def at mem_Collect_eq using mem by (metis Diff_iff singletonD singletonI)
  then show pl: "placed w' = placed w - {c}" by blast
  have "view w' = view w" by (simp add: view_def cr)
  moreover have "tile_settled w' p tr" if t: "tile_at w' p = Some tr" for p tr
    using map_okD(2-4) [OF ok, of p tr] cs [of p tr] pos that unfolding tile_settled_def at cr by auto
  ultimately show "map_ok w'" unfolding map_ok_def pl using g idx cache by simp
qed

section \<open>Operations that leave the creatures alone\<close>

definition same_creatures :: "map_world \<Rightarrow> map_world \<Rightarrow> bool" where
  "same_creatures w w' \<longleftrightarrow>
     (\<forall>c. cr_kind (mw_creatures w' c) = cr_kind (mw_creatures w c) \<and> cr_tile (mw_creatures w' c) = cr_tile (mw_creatures w c)
          \<and> cr_position (mw_creatures w' c) = cr_position (mw_creatures w c))
     \<and> (\<forall>tr. t_creatures (mw_tiles w' tr) = t_creatures (mw_tiles w tr) \<and> tilePos (mw_tiles w' tr) = tilePos (mw_tiles w tr))"

definition quiet :: "map_world \<Rightarrow> map_world \<Rightarrow> bool" where
  "quiet w w' \<longleftrightarrow>
     same_creatures w w'
     \<and> (map_ok w \<longrightarrow> grid_ok (mw_grid w') \<and> crowd (mw_grid w') = crowd (mw_grid w)
          \<and> player_crowd (mw_grid w') = player_crowd (mw_grid w) \<and> getTile (mw_grid w') = getTile (mw_grid w)
          \<and> cache_ok (view w) (placed w) (mw_grid w'))"

lemma same_creatures_view: "same_creatures w w' \<Longrightarrow> view w' = view w"
  by (simp add: same_creatures_def view_def is_player_def)

lemma quiet_ok:
  assumes ok: "map_ok w" and q: "quiet w w'"
  shows "map_ok w'" "placed w' = placed w" "tile_at w' = tile_at w" "view w' = view w"
proof -
  have s: "same_creatures w w'" and g: "grid_ok (mw_grid w')" "crowd (mw_grid w') = crowd (mw_grid w)"
    "player_crowd (mw_grid w') = player_crowd (mw_grid w)"
    "getTile (mw_grid w') = getTile (mw_grid w)" "cache_ok (view w) (placed w) (mw_grid w')"
    using ok q by (auto simp: quiet_def)
  show at: "tile_at w' = tile_at w" by (simp add: tile_at_def fun_eq_iff g(4))
  show pl: "placed w' = placed w" using s by (simp add: placed_def at same_creatures_def)
  show v: "view w' = view w" by (rule same_creatures_view [OF s])
  have "tile_settled w' p tr" if "tile_at w p = Some tr" for p tr
    using ok that s by (simp add: map_ok_def tile_settled_def same_creatures_def)
  then show "map_ok w'"
    unfolding map_ok_def at pl v using g map_okD(5) [OF ok] listed_crowd [OF g(2,3)] by blast
qed

lemma quiet_creature:
  "quiet w w' \<Longrightarrow> cr_tile (mw_creatures w' c) = cr_tile (mw_creatures w c)"
  "quiet w w' \<Longrightarrow> cr_position (mw_creatures w' c) = cr_position (mw_creatures w c)"
  by (simp_all add: quiet_def same_creatures_def)

lemma quiet_refl [simp]: "quiet w w"
  by (simp add: quiet_def same_creatures_def map_ok_def)

lemma quiet_trans: "quiet w w1 \<Longrightarrow> quiet w1 w2 \<Longrightarrow> quiet w w2"
  using quiet_ok [of w w1] by (auto simp: quiet_def same_creatures_def)

end
