(* ===== verification/MapQuiet.thy ===== *)
theory MapQuiet
  imports MapInv
begin

text \<open>
  Rules that carry \<open>quiet\<close> through the constructs of the model, one rule for each, and the operations on
  items, the queries and the notifications, which are quiet by these rules.
\<close>

named_theorems quiets

text \<open>Every result satisfies the predicate.\<close>

definition post :: "('a \<Rightarrow> bool) \<Rightarrow> 'a option \<Rightarrow> bool" where
  "post P r \<longleftrightarrow> (\<forall>x. r = Some x \<longrightarrow> P x)"

lemma postD: "post P r \<Longrightarrow> r = Some x \<Longrightarrow> P x"
  by (simp add: post_def)

section \<open>Rules\<close>

lemma post_Some [quiets]: "P x \<Longrightarrow> post P (Some x)"
  by (simp add: post_def)

lemma post_None [quiets]: "post P None"
  by (simp add: post_def)

lemma post_if [quiets]: "(b \<Longrightarrow> post P x) \<Longrightarrow> (\<not> b \<Longrightarrow> post P y) \<Longrightarrow> post P (if b then x else y)"
  by simp

lemma post_option [quiets]:
  "(r = None \<Longrightarrow> post P x) \<Longrightarrow> (\<And>v. r = Some v \<Longrightarrow> post P (f v)) \<Longrightarrow> post P (case r of None \<Rightarrow> x | Some v \<Rightarrow> f v)"
  by (cases r) simp_all

lemma post_Let [quiets]: "post P (f x) \<Longrightarrow> post P (Let x f)"
  by simp

lemma post_items [quiets]: "(\<And>iw :: item_world. post P (f iw)) \<Longrightarrow> post P (Option.bind r f)"
  by (cases r) (simp_all add: post_def)

lemma post_bind [quiets]:
  "post (quiet w) r \<Longrightarrow> (\<And>w1. quiet w w1 \<Longrightarrow> post P (f w1)) \<Longrightarrow> post P (Option.bind r f)"
  by (cases r) (simp_all add: post_def)

lemma post_map_option [quiets]: "post (\<lambda>x. P (f x)) r \<Longrightarrow> post P (map_option f r)"
  by (cases r) (simp_all add: post_def)

lemma quiet_if [quiets]: "(b \<Longrightarrow> quiet w x) \<Longrightarrow> (\<not> b \<Longrightarrow> quiet w y) \<Longrightarrow> quiet w (if b then x else y)"
  by simp

lemma quiet_option [quiets]:
  "(r = None \<Longrightarrow> quiet w x) \<Longrightarrow> (\<And>v. r = Some v \<Longrightarrow> quiet w (f v)) \<Longrightarrow> quiet w (case r of None \<Rightarrow> x | Some v \<Rightarrow> f v)"
  by (cases r) simp_all

lemma quiet_Let [quiets]: "quiet w (f x) \<Longrightarrow> quiet w (Let x f)"
  by simp

section \<open>Basic operations\<close>

text \<open>An update that leaves the grid, the creatures' places and the tiles' creatures.\<close>

lemma quiet_plain:
  assumes "quiet w w1" and "mw_grid w2 = mw_grid w1" and "same_creatures w1 w2"
  shows "quiet w w2"
proof (rule quiet_trans [OF assms(1)])
  show "quiet w1 w2" using assms(2,3) by (simp add: quiet_def map_ok_def)
qed

lemma quiet_emit [quiets]: "quiet w w1 \<Longrightarrow> quiet w (emit_map es w1)"
  by (erule quiet_plain) (simp_all add: emit_map_def same_creatures_def)

lemma quiet_release [quiets]: "quiet w w1 \<Longrightarrow> quiet w (release i w1)"
  unfolding release_def by (rule quiet_emit)

lemma quiet_items [quiets]: "quiet w w1 \<Longrightarrow> quiet w (w1\<lparr>mw_items := iw\<rparr>)"
  by (erule quiet_plain) (simp_all add: same_creatures_def)

lemma quiet_upd_items [quiets]: "quiet w w1 \<Longrightarrow> quiet w (upd_items f w1)"
  unfolding upd_items_def by (rule quiet_items)

lemma quiet_item_parent [quiets]: "quiet w w1 \<Longrightarrow> quiet w (item_parent i p w1)"
  unfolding item_parent_def by (rule quiet_upd_items)

lemma quiet_clean [quiets]: "quiet w w1 \<Longrightarrow> quiet w (w1\<lparr>tilesToClean := A\<rparr>)"
  by (erule quiet_plain) (simp_all add: same_creatures_def)

lemma quiet_upd_tile [quiets]:
  "quiet w w1 \<Longrightarrow> t_creatures (f (mw_tiles w1 tr)) = t_creatures (mw_tiles w1 tr) \<Longrightarrow>
   tilePos (f (mw_tiles w1 tr)) = tilePos (mw_tiles w1 tr) \<Longrightarrow> quiet w (upd_tile tr f w1)"
  by (erule quiet_plain) (simp_all add: upd_tile_def same_creatures_def)

lemma quiet_upd_creature [quiets]:
  "quiet w w1 \<Longrightarrow> cr_kind (f (mw_creatures w1 c)) = cr_kind (mw_creatures w1 c) \<Longrightarrow>
   cr_tile (f (mw_creatures w1 c)) = cr_tile (mw_creatures w1 c) \<Longrightarrow>
   cr_position (f (mw_creatures w1 c)) = cr_position (mw_creatures w1 c) \<Longrightarrow> quiet w (upd_creature c f w1)"
  by (erule quiet_plain) (simp_all add: upd_creature_def same_creatures_def)

text \<open>A search that starts from the empty set keeps the caches right.\<close>

lemma quiet_search:
  assumes "getSpectators (view w) p multifloor onlyPlayers a b c d (mw_grid w, {}) = (g, s)"
  shows "quiet w (w\<lparr>mw_grid := g\<rparr>)"
proof -
  have same: "same_creatures w (w\<lparr>mw_grid := g\<rparr>)" by (simp add: same_creatures_def)
  show ?thesis
  proof (cases "pos_z p \<ge> MAP_MAX_LAYERS")
    case True
    then have "g = mw_grid w" using assms by (simp add: getSpectators_def)
    then show ?thesis by simp
  next
    case False
    have "grid_ok g \<and> crowd g = crowd (mw_grid w) \<and> player_crowd g = player_crowd (mw_grid w) \<and> getTile g = getTile (mw_grid w) \<and> cache_ok (view w) (placed w) g"
      if ok: "map_ok w"
      using getSpectators_spec [OF map_okD(1) [OF ok] listed_indexed [OF map_okD(5) [OF ok]] map_okD(6) [OF ok] False assms]
      by (simp add: crowd_def player_crowd_def fun_eq_iff)
    then show ?thesis using same by (simp add: quiet_def)
  qed
qed

lemma quiet_spectators_at:
  assumes "quiet w w1" and "spectators_at p b w1 = (w2, s)" shows "quiet w w2"
proof (rule quiet_trans [OF assms(1)])
  show "quiet w1 w2" using assms(2) quiet_search [of w1] by (auto simp: spectators_at_def split: prod.splits)
qed

lemma post_spectators [quiets]:
  assumes "quiet w w1" and "\<And>w2 s. quiet w w2 \<Longrightarrow> post P (f w2 s)"
  shows "post P (case spectators_at p b w1 of (w2, s) \<Rightarrow> f w2 s)"
  using assms(2) quiet_spectators_at [OF assms(1)] by (simp split: prod.split)

lemma quiet_spectators [quiets]:
  assumes "quiet w w1" and "\<And>w2 s. quiet w w2 \<Longrightarrow> quiet w (f w2 s)"
  shows "quiet w (case spectators_at p b w1 of (w2, s) \<Rightarrow> f w2 s)"
  using assms(2) quiet_spectators_at [OF assms(1)] by (simp split: prod.split)

lemma post_from: "(\<And>v. post (quiet v) (f v)) \<Longrightarrow> quiet w w1 \<Longrightarrow> post (quiet w) (f w1)"
  unfolding post_def using quiet_trans by blast

lemma quiet_from: "(\<And>v. quiet v (f v)) \<Longrightarrow> quiet w w1 \<Longrightarrow> quiet w (f w1)"
  using quiet_trans by blast

section \<open>Operations on items\<close>

lemma onAddTileItem_quiet [quiets]:
  assumes "quiet w w1" shows "post (quiet w) (onAddTileItem e tr i w1)"
  using assms unfolding onAddTileItem_def by (intro quiets) (simp_all | assumption)+

lemma onUpdateTileItem_quiet [quiets]:
  assumes "quiet w w1" shows "post (quiet w) (onUpdateTileItem e tr i j w1)"
  using assms unfolding onUpdateTileItem_def by (intro quiets) (simp_all | assumption)+

lemma onRemoveTileItem_quiet [quiets]:
  assumes "quiet w w1" shows "post (quiet w) (onRemoveTileItem e s ps tr i w1)"
  using assms unfolding onRemoveTileItem_def by (intro quiets) (simp_all | assumption)+

lemma postRemove_quiet [quiets]:
  assumes "quiet w w1" shows "quiet w (t_postRemoveNotification tr thing w1)"
  using assms unfolding t_postRemoveNotification_def by (cases thing) (simp_all, (intro quiets; (simp | assumption))+)

lemma removeThing_item_quiet [quiets]:
  assumes "quiet w w1" shows "post (quiet w) (t_removeThing e tr (TItem i) n w1)"
  using assms unfolding t_removeThing_def thing.case by (intro quiets) (simp_all | assumption)+

lemma discard_quiet [quiets]:
  assumes "quiet w w1" shows "post (quiet w) (discard e tr i w1)"
  using assms unfolding discard_def by (intro quiets) (simp_all | assumption)+

lemma addThing_base_quiet [quiets]:
  assumes "quiet w w1" shows "post (quiet w) (tile_addThing e tr (TItem i) w1)"
  using assms unfolding tile_addThing_def thing.case by (intro quiets) (simp_all | assumption)+

lemma updateHouse_quiet [quiets]:
  assumes "quiet w w1" shows "quiet w (updateHouse tr thing w1)"
  unfolding updateHouse_def prod.case by (intro quiets assms)

lemma addThing_item_quiet [quiets]:
  assumes "quiet w w1" shows "post (quiet w) (t_addThing e tr (TItem i) w1)"
  unfolding t_addThing_def
  by (rule post_map_option) (use addThing_base_quiet [OF assms] updateHouse_quiet in \<open>auto simp: post_def\<close>)

lemma internalAddThing_item_quiet [quiets]:
  assumes "quiet w w1" shows "quiet w (t_internalAddThing e tr (TItem i) w1)"
  using assms unfolding t_internalAddThing_def tile_internalAddThing_def thing.case
  by (intro quiets) (simp_all | assumption)+

lemma updateThing_quiet [quiets]:
  assumes "quiet w w1" shows "post (quiet w) (t_updateThing e tr thing newId n w1)"
  using assms unfolding t_updateThing_def by (intro quiets) (simp_all | assumption)+

lemma replaced_quiet [quiets]:
  assumes "quiet w w1" shows "post (quiet w) (replaced e tr i j w1)"
  using assms unfolding replaced_def by (intro quiets) (simp_all | assumption)+

lemma replaceThing_quiet [quiets]:
  assumes w1: "quiet w w1" shows "post (quiet w) (t_replaceThing e tr index thing w1)"
proof -
  have place: "post P (case x of At_Ground \<Rightarrow> a | At_Item n \<Rightarrow> b n | At_Creature \<Rightarrow> d | At_Nothing \<Rightarrow> d' | At_Undefined \<Rightarrow> None)"
    if "post P a" "\<And>n. post P (b n)" "post P d" "post P d'" for P :: "map_world \<Rightarrow> bool" and x a b d d'
    using that by (cases x) (simp_all add: post_None)
  show ?thesis unfolding t_replaceThing_def Let_def
    by (intro post_option post_Some place replaced_quiet quiet_upd_tile w1) (simp_all add: w1)
qed

lemma merge_items_quiet [quiets]:
  "quiet w w1 \<Longrightarrow> post (quiet w) (merge_items e tr is w1)"
proof (induction "is" arbitrary: w1)
  case (Cons i "is")
  show ?case unfolding merge_items.simps
    by (rule post_bind [OF addThing_item_quiet [OF Cons.prems] Cons.IH])
qed (simp add: post_Some)

lemma post_add_players_quiet [quiets]:
  assumes "quiet w w1" shows "quiet w (post_add_players tr thing w1)"
  unfolding post_add_players_def by (intro quiets assms) assumption

lemma postAdd_item_quiet [quiets]:
  assumes "quiet w w1" shows "quiet w (t_postAddNotification_item tr i linkOwner w1)"
  using assms unfolding t_postAddNotification_item_def by (intro quiets)

lemma turn_quiet [quiets]:
  assumes "quiet w w1" shows "quiet w (internalCreatureTurn c dir w1)"
  using assms unfolding internalCreatureTurn_def by (intro quiets) (simp_all | assumption)+

lemma turn_to_quiet [quiets]:
  "quiet w w1 \<Longrightarrow> quiet w (turn_to c dest w1)"
  unfolding turn_to_def by (rule turn_quiet)

lemma effects_quiet [quiets]:
  "quiet w w1 \<Longrightarrow> quiet w (teleport_effects e teleport p q w1)"
  unfolding teleport_effects_def by (intro quiets)

lemma finish_quiet [quiets]:
  "quiet w w1 \<Longrightarrow> quiet w (finish_removal c b w1)"
  unfolding finish_removal_def by (intro quiets)

lemma setMaster_quiet [quiets]:
  assumes "quiet w w1" shows "quiet w (setMaster c m w1)"
  using assms unfolding setMaster_def by (intro quiets) (simp_all | assumption)+

section \<open>Queries\<close>

abbreviation "quiet_result w \<equiv> (\<lambda>(r, w1). quiet w w1)"

lemma quiet_pair [quiets]: "quiet w w1 \<Longrightarrow> quiet_result w (r, w1)"
  by simp

lemma post_bind_result:
  "post (quiet w) r \<Longrightarrow> (\<And>w1. quiet w w1 \<Longrightarrow> post (quiet_result w) (f w1)) \<Longrightarrow> post (quiet_result w) (Option.bind r f)"
  by (rule post_bind)

lemma canWalkthrough_quiet [quiets]:
  assumes "quiet w w1" shows "quiet w (snd (canWalkthrough e p c w1))"
proof -
  have if_rule: "quiet w (snd (if b then x else y))" if "quiet w (snd x)" "quiet w (snd y)" for b and x y :: "bool \<times> map_world"
    using that by simp
  show ?thesis using assms unfolding canWalkthrough_def Let_def
    by (cases "cr_kind (mw_creatures w1 c)") (simp_all only: creature_kind.case, (intro if_rule; simp only: snd_conv; (intro quiets; simp)?)+)
qed

lemma all_walkthrough_quiet:
  "quiet w w1 \<Longrightarrow> quiet w (snd (all_walkthrough e p cs w1))"
proof (induction cs arbitrary: w1)
  case (Cons c cs)
  then show ?case using canWalkthrough_quiet [OF Cons.prems, of e p c] by (auto split: prod.split)
qed simp

lemma remove_item_quiet:
  assumes "quiet w w1" shows "post (quiet_result w) (internalRemoveItem_tile e tr i n w1)"
  unfolding internalRemoveItem_tile_def Let_def
  by (intro post_if post_bind_result removeThing_item_quiet post_Some quiet_pair postRemove_quiet quiet_if quiet_release
      quiet_emit assms) assumption+

lemma post_result [quiets]:
  assumes "post (quiet_result w) r" and "\<And>x w1. quiet w w1 \<Longrightarrow> post P (f x w1)"
  shows "post P (Option.bind r (\<lambda>(x, w1). f x w1))"
  using assms by (cases r) (auto simp: post_def)

lemma queryAdd_blocking_quiet:
  assumes "quiet w w1" shows "post (quiet_result w) (queryAdd_blocking e tr c flags w1)"
  using assms unfolding queryAdd_blocking_def Let_def
  by (intro post_if post_option) (intro post_result remove_item_quiet | simp add: post_def)+

lemma post_walk:
  assumes "quiet w w1" and "\<And>b w2. quiet w w2 \<Longrightarrow> post P (f b w2)"
  shows "post P (case (if x then all_walkthrough e p cs w1 else (True, w1)) of (b, w2) \<Rightarrow> f b w2)"
  using assms all_walkthrough_quiet [OF assms(1), of e p cs] by (cases "all_walkthrough e p cs w1") simp

lemma queryAdd_creature_quiet:
  assumes "quiet w w1" shows "post (quiet_result w) (queryAdd_creature e tr c flags w1)"
  unfolding queryAdd_creature_def Let_def
  by (intro post_if post_option post_walk queryAdd_blocking_quiet post_Some assms; simp add: assms)

lemma queryAdd_quiet:
  assumes "quiet w w1" shows "post (quiet_result w) (t_queryAdd e tr thing flags actor w1)"
proof -
  have base: "post (quiet_result w) (case thing of TCreature c \<Rightarrow> queryAdd_creature e tr c flags w1
      | TItem i \<Rightarrow> Some (queryAdd_item e tr i flags w1, w1))"
    using queryAdd_creature_quiet [OF assms, of e tr _ flags] assms by (cases thing) (simp_all add: post_Some)
  have ret: "post (quiet_result w) (Some (r, w1))" for r :: return_value by (simp add: post_def assms)
  show ?thesis
  proof (cases thing)
    case (TItem i)
    then show ?thesis using base ret unfolding t_queryAdd_def Let_def
      by (simp split: option.split)
  next
    case (TCreature c)
    then show ?thesis using base [unfolded TCreature thing.case] ret unfolding t_queryAdd_def Let_def
      by (cases "cr_kind (mw_creatures w1 c)") (simp_all split: option.split)
  qed
qed

lemma ignore_fields_quiet [quiets]: "quiet w w1 \<Longrightarrow> quiet w (ignore_fields c b w1)"
  unfolding ignore_fields_def by (intro quiets) simp_all

lemma find_place_quiet:
  "quiet w w1 \<Longrightarrow> post (quiet_result w) (find_place e p c ext pz rels w1)"
proof (induction rels arbitrary: w1)
  case (Cons r rels)
  obtain rx ry where r: "r = (rx, ry)" by (cases r)
  have bool: "post P (Option.bind r f)" if "\<And>b. post P (f b)" for P and r :: "bool option" and f :: "bool \<Rightarrow> 'b option"
    using that by (cases r) (simp_all add: post_def)
  show ?case unfolding r find_place.simps Let_def
    by (intro post_option post_if post_result queryAdd_quiet bool ignore_fields_quiet Cons.IH post_Some quiet_pair; (rule Cons.prems | assumption))
qed (simp add: post_def)

lemma climb_quiet:
  assumes "quiet w w1" shows "quiet w (snd (snd (climb e c d p q flags w1)))"
proof -
  have option: "quiet w (snd (snd (case r of None \<Rightarrow> x | Some v \<Rightarrow> f v)))"
    if "quiet w (snd (snd x))" "\<And>v. quiet w (snd (snd (f v)))" for r :: "nat option" and x :: "position \<times> u32 \<times> map_world" and f
    using that by (cases r) simp_all
  have cond: "quiet w (snd (snd (if b then x else y)))" if "quiet w (snd (snd x))" "quiet w (snd (snd y))"
    for b and x y :: "position \<times> u32 \<times> map_world" using that by simp
  have split: "quiet w (snd (snd (case x of (p, fl, v) \<Rightarrow> f p fl v)))"
    if "quiet w (snd (snd x))" "\<And>p fl v. quiet w v \<Longrightarrow> quiet w (snd (snd (f p fl v)))"
    for x :: "position \<times> u32 \<times> map_world" and f :: "position \<Rightarrow> u32 \<Rightarrow> map_world \<Rightarrow> position \<times> u32 \<times> map_world"
    using that by (cases x) simp
  have up: "quiet w v \<Longrightarrow> quiet w (snd (snd (p, fl, upd_creature c (\<lambda>x. x\<lparr>cr_direction := d\<rparr>) v)))"
    and id: "quiet w v \<Longrightarrow> quiet w (snd (snd (p, fl, v)))" for p :: position and fl :: u32 and v
    by (simp_all add: quiet_upd_creature)
  show ?thesis unfolding climb_def Let_def by (intro split cond option up id assms)
qed

end
