(* ===== verification/MapMoves.thy ===== *)
theory MapMoves
  imports MapQuiet
begin

text \<open>
  Moving, placing and removing creatures: each keeps the invariant of the map and cannot fail on a tile of
  the map but for a chain of teleports without end. \<open>map_step\<close> collects the operations; in every world
  they reach, a search finds exactly the creatures of the area.
\<close>

section \<open>The grid and the tiles under the steps\<close>

lemma getTile_upd_leaf:
  assumes "grid_ok g" and "getQTNode g x y = Some l"
    and "leafS lf = leafS (leaf g l)" "leafE lf = leafE (leaf g l)" "floors lf = floors (leaf g l)"
  shows "getTile (upd_leaf l (\<lambda>_. lf) g) = getTile g"
proof (intro ext)
  fix a b z
  have "map_option floors (cell (upd_leaf l (\<lambda>_. lf) g) a b) = map_option floors (cell g a b)"
  proof (cases "same_leaf a b x y")
    case True
    then have "getQTNode g a b = Some l" using grid_okD(6) [OF assms(1)] assms(2) by simp
    then show ?thesis using upd_leaf_ok(2) [of g x y l "\<lambda>_. lf" a b] assms True by (simp add: cell_def)
  next
    case False
    then show ?thesis using upd_leaf_ok(2) [of g x y l "\<lambda>_. lf" a b] assms by simp
  qed
  then show "getTile (upd_leaf l (\<lambda>_. lf) g) a b z = getTile g a b z"
    by (cases "cell (upd_leaf l (\<lambda>_. lf) g) a b"; cases "cell g a b") (simp_all add: getTile_cell)
qed

lemma floors_add [simp]: "floors (addCreature b c l) = floors l"
  by (simp add: addCreature_def Let_def)

lemma clear_cache_simps [simp]:
  "g_root (clearSpectatorCache g) = g_root g" "getQTNode (clearSpectatorCache g) = getQTNode g"
  "leaf (clearSpectatorCache g) = leaf g" "cell (clearSpectatorCache g) = cell g"
  "getTile (clearSpectatorCache g) = getTile g" "grid_ok (clearSpectatorCache g) = grid_ok g"
  by (simp_all add: clearSpectatorCache_def getQTNode_def fun_eq_iff)

lemma cache_ok_empty: "spectatorCache g = [] \<Longrightarrow> playersSpectatorCache g = [] \<Longrightarrow> cache_ok v S g"
  by (simp add: cache_ok_def)

lemma clear_cache_empty [simp]:
  "spectatorCache (clearSpectatorCache g) = []" "playersSpectatorCache (clearSpectatorCache g) = []"
  by (simp_all add: clearSpectatorCache_def)

lemma leaf_add_Some:
  "getQTNode (mw_grid w) (pos_x p) (pos_y p) = Some l \<Longrightarrow>
   leaf_add p c w = Some (upd_grid (upd_leaf l (addCreature (is_player (mw_creatures w c)) c)) w)"
  by (simp add: leaf_add_def)

lemma upd_simps [simp]:
  "mw_grid (upd_grid f w) = f (mw_grid w)" "mw_tiles (upd_grid f w) = mw_tiles w" "mw_creatures (upd_grid f w) = mw_creatures w"
  "mw_grid (upd_tile tr h w) = mw_grid w" "mw_creatures (upd_tile tr h w) = mw_creatures w"
  "mw_tiles (upd_tile tr h w) = (mw_tiles w)(tr := h (mw_tiles w tr))"
  "mw_grid (upd_creature c k w) = mw_grid w" "mw_tiles (upd_creature c k w) = mw_tiles w"
  "mw_creatures (upd_creature c k w) = (mw_creatures w)(c := k (mw_creatures w c))"
  "mw_grid (emit_map es w) = mw_grid w" "mw_tiles (emit_map es w) = mw_tiles w" "mw_creatures (emit_map es w) = mw_creatures w"
  "mw_items (upd_grid f w) = mw_items w" "mw_items (upd_tile tr h w) = mw_items w" "mw_items (upd_creature c k w) = mw_items w"
  "mw_items (emit_map es w) = mw_items w"
  "teleportDest (upd_grid f w) = teleportDest w" "teleportDest (upd_tile tr h w) = teleportDest w"
  "teleportDest (upd_creature c k w) = teleportDest w" "teleportDest (emit_map es w) = teleportDest w"
  by (simp_all add: upd_grid_def upd_tile_def upd_creature_def emit_map_def)

lemma addThing_creature:
  "t_addThing e tr (TCreature c) w =
   Some (upd_tile tr (\<lambda>t. t\<lparr>t_creatures := c # t_creatures t\<rparr>) (creature_setParent c tr (upd_grid clearSpectatorCache w)))"
  by (simp add: t_addThing_def tile_addThing_def updateHouse_def split: option.split)

lemma internalAddThing_creature:
  "t_internalAddThing e tr (TCreature c) w =
   upd_tile tr (\<lambda>t. t\<lparr>t_creatures := c # t_creatures t\<rparr>) (upd_grid clearSpectatorCache (creature_setParent c tr w))"
  by (simp add: t_internalAddThing_def tile_internalAddThing_def updateHouse_def split: option.split)

lemma view_player: "cv_isPlayer (view w) c = is_player (mw_creatures w c)"
  "cv_position (view w) c = cr_position (mw_creatures w c)"
  by (simp_all add: view_def)

text \<open>What the chains depend on does not change when creatures move.\<close>

definition same_map :: "map_world \<Rightarrow> map_world \<Rightarrow> bool" where
  "same_map w w' \<longleftrightarrow>
     mw_items w' = mw_items w \<and> teleportDest w' = teleportDest w \<and> tile_at w' = tile_at w
     \<and> (\<forall>tr. t_flags (mw_tiles w' tr) = t_flags (mw_tiles w tr) \<and> t_items (mw_tiles w' tr) = t_items (mw_tiles w tr)
           \<and> tilePos (mw_tiles w' tr) = tilePos (mw_tiles w tr))"

lemma same_map_refl [simp]: "same_map w w"
  and same_map_sym: "same_map w w' \<Longrightarrow> same_map w' w"
  and same_map_trans: "same_map w w' \<Longrightarrow> same_map w' w'' \<Longrightarrow> same_map w w''"
  by (auto simp: same_map_def)

section \<open>Placing\<close>

lemma put_creature_ok:
  assumes ok: "map_ok w" and at: "tile_at w p = Some tr" and c: "c \<notin> placed w"
  obtains w' where "put_creature e c tr w = Some w'" "map_ok w'" "placed w' = insert c (placed w)"
    "cr_tile (mw_creatures w' c) = Some tr" "same_map w w'"
proof -
  have p: "tilePos (mw_tiles w tr) = p" by (rule map_okD(2) [OF ok at])
  obtain l where l: "getQTNode (mw_grid w) (pos_x p) (pos_y p) = Some l" using tile_at_leaf [OF at] by blast
  define w1 where "w1 = t_internalAddThing e tr (TCreature c) w"
  define add where "add = addCreature (is_player (mw_creatures w c)) c"
  have w1: "mw_grid w1 = clearSpectatorCache (mw_grid w)" "is_player (mw_creatures w1 c) = is_player (mw_creatures w c)"
    "mw_creatures w1 = (mw_creatures w)(c := (mw_creatures w c)\<lparr>cr_tile := Some tr, cr_position := p\<rparr>)"
    "mw_tiles w1 = (mw_tiles w)(tr := (mw_tiles w tr)\<lparr>t_creatures := c # t_creatures (mw_tiles w tr)\<rparr>)"
    unfolding w1_def internalAddThing_creature by (simp_all add: creature_setParent_def is_player_def p)
  define w' where "w' = upd_grid (upd_leaf l add) w1"
  have r: "put_creature e c tr w = Some w'"
    using leaf_add_Some [of w1 p l c] l w1(1,2) by (simp add: put_creature_def p w1_def [symmetric] w'_def add_def)
  have ok_c: "grid_ok (clearSpectatorCache (mw_grid w))" using map_okD(1) [OF ok] by simp
  have l_c: "getQTNode (clearSpectatorCache (mw_grid w)) (pos_x p) (pos_y p) = Some l" using l by simp
  have g: "mw_grid w' = upd_leaf l (\<lambda>_. add (leaf (mw_grid w) l)) (clearSpectatorCache (mw_grid w))"
    using upd_leaf_const [of l add "clearSpectatorCache (mw_grid w)"] by (simp add: w'_def w1)
  have not_there: "c \<notin> set (t_creatures (mw_tiles w t))" if "tile_at w q = Some t" for q t
    using c that unfolding placed_def by blast
  have idx: "listed (move_view c p (view w)) (mw_grid w') (insert c (placed w))"
  proof -
    have "listed (view w) (clearSpectatorCache (mw_grid w)) (placed w)"
      using map_okD(5) [OF ok] listed_grid [of "clearSpectatorCache (mw_grid w)" "mw_grid w"] by simp
    from listed_add [OF ok_c l_c this c] show ?thesis by (simp add: w'_def w1 add_def view_player)
  qed
  have cell: "grid_ok (mw_grid w')"
    unfolding g by (rule upd_leaf_ok(1) [OF ok_c l_c]) (simp_all add: add_def links_add)
  have tiles: "getTile (mw_grid w') = getTile (mw_grid w)"
    unfolding g by (subst getTile_upd_leaf [OF ok_c l_c]) (simp_all add: add_def links_add)
  have fields: "\<And>t. tilePos (mw_tiles w' t) = tilePos (mw_tiles w t)"
    "\<And>q t. tile_at w q = Some t \<Longrightarrow> t_creatures (mw_tiles w' t) = (if t = tr then [c] else []) @ remove1 c (t_creatures (mw_tiles w t))"
    "\<And>x. cr_kind (mw_creatures w' x) = cr_kind (mw_creatures w x)"
    "\<And>x. cr_tile (mw_creatures w' x) = (if x = c then Some tr else cr_tile (mw_creatures w x))"
    "\<And>x. cr_position (mw_creatures w' x) = (if x = c then p else cr_position (mw_creatures w x))"
    using not_there by (auto simp: w'_def w1 remove1_idem)
  have cache: "cache_ok (view w') (insert c (placed w)) (mw_grid w')"
    by (rule cache_ok_empty) (simp_all add: g)
  note s = settle_ok [OF ok at cell tiles idx cache fields]
  have "tile_at w' = tile_at w" using tiles by (simp add: tile_at_def fun_eq_iff)
  then have "same_map w w'"
    by (simp add: same_map_def w'_def w1) (simp add: w1_def internalAddThing_creature creature_setParent_def)
  show ?thesis by (rule that [OF r s]) (assumption | fact)+
qed

section \<open>Removing\<close>

text \<open>Taking a creature out of its leaf, as \<open>removeCreature\<close> and a move do.\<close>

lemma leaf_remove_ok:
  assumes ok: "grid_ok (mw_grid w)" and l: "getQTNode (mw_grid w) (pos_x p) (pos_y p) = Some l"
    and idx: "listed (view w) (mw_grid w) S" and c: "c \<in> S" and p: "cr_position (mw_creatures w c) = p"
  obtains lf where "leaf_remove p c w = Some (upd_grid (upd_leaf l (\<lambda>_. lf)) w)"
    "grid_ok (upd_leaf l (\<lambda>_. lf) (mw_grid w))" "getTile (upd_leaf l (\<lambda>_. lf) (mw_grid w)) = getTile (mw_grid w)"
    "listed (view w) (upd_leaf l (\<lambda>_. lf) (mw_grid w)) (S - {c})"
proof -
  have l': "getQTNode (mw_grid w) (pos_x (cv_position (view w) c)) (pos_y (cv_position (view w) c)) = Some l"
    using l p by (simp add: view_player)
  obtain lf where lf: "removeCreature (cv_isPlayer (view w) c) c (leaf (mw_grid w) l) = Some lf"
    "leafS lf = leafS (leaf (mw_grid w) l)" "leafE lf = leafE (leaf (mw_grid w) l)" "floors lf = floors (leaf (mw_grid w) l)"
    "listed (view w) (upd_leaf l (\<lambda>_. lf) (mw_grid w)) (S - {c})"
    using listed_remove [OF ok l' idx c] .
  have "leaf_remove p c w = Some (upd_grid (upd_leaf l (\<lambda>_. lf)) w)"
    using lf(1) l by (simp add: leaf_remove_def view_player)
  then show ?thesis
    using that upd_leaf_ok(1) [OF ok l, of "\<lambda>_. lf"] getTile_upd_leaf [OF ok l lf(2-4)] lf by blast
qed

lemma removeCreature_ok:
  assumes ok: "map_ok w" and c: "c \<in> placed w" and tr: "cr_tile (mw_creatures w c) = Some tr"
  obtains w' where "t_removeCreature e tr c w = Some w'" "map_ok w'" "placed w' = placed w - {c}"
    "mw_creatures w' = mw_creatures w" "tile_at w' = tile_at w"
proof -
  obtain p where at: "tile_at w p = Some tr" and mem: "c \<in> set (t_creatures (mw_tiles w tr))"
    and p: "cr_position (mw_creatures w c) = p" using placedD [OF ok c] tr by (metis option.inject)
  have tp: "tilePos (mw_tiles w tr) = p" by (rule map_okD(2) [OF ok at])
  obtain l where l: "getQTNode (mw_grid w) (pos_x p) (pos_y p) = Some l" using tile_at_leaf [OF at] by blast
  obtain lf where r: "leaf_remove p c w = Some (upd_grid (upd_leaf l (\<lambda>_. lf)) w)"
    and g: "grid_ok (upd_leaf l (\<lambda>_. lf) (mw_grid w))" "getTile (upd_leaf l (\<lambda>_. lf) (mw_grid w)) = getTile (mw_grid w)"
      "listed (view w) (upd_leaf l (\<lambda>_. lf) (mw_grid w)) (placed w - {c})"
    using leaf_remove_ok [OF map_okD(1) [OF ok] l map_okD(5) [OF ok] c p] .
  define w' where "w' = upd_tile tr (\<lambda>t. t\<lparr>t_creatures := remove1 c (t_creatures t)\<rparr>)
    (upd_grid clearSpectatorCache (upd_grid (upd_leaf l (\<lambda>_. lf)) w))"
  have res: "t_removeCreature e tr c w = Some w'"
    using r mem by (simp add: t_removeCreature_def tp t_removeThing_def w'_def)
  have others: "c \<notin> set (t_creatures (mw_tiles w t))" if "tile_at w q = Some t" "t \<noteq> tr" for q t
    using map_okD(4) [OF ok that(1), of c] tr that(2) by auto
  have grid: "mw_grid w' = clearSpectatorCache (upd_leaf l (\<lambda>_. lf) (mw_grid w))" by (simp add: w'_def)
  have fields: "\<And>t. tilePos (mw_tiles w' t) = tilePos (mw_tiles w t)"
    "\<And>q t. tile_at w q = Some t \<Longrightarrow> t_creatures (mw_tiles w' t) = remove1 c (t_creatures (mw_tiles w t))"
    "mw_creatures w' = mw_creatures w"
    using others by (auto simp: w'_def remove1_idem)
  have idx: "listed (view w) (mw_grid w') (placed w - {c})"
    using g(3) listed_grid [of "mw_grid w'" "upd_leaf l (\<lambda>_. lf) (mw_grid w)"] by (simp add: grid)
  have cache: "cache_ok (view w) (placed w - {c}) (mw_grid w')" by (rule cache_ok_empty) (simp_all add: grid)
  have "grid_ok (mw_grid w')" "getTile (mw_grid w') = getTile (mw_grid w)" using g by (simp_all add: grid)
  from unsettle_ok [OF ok this idx cache fields] this(2) show ?thesis
    using that [OF res] fields(3) by (simp add: tile_at_def fun_eq_iff)
qed

section \<open>Moving\<close>

lemma spectators_more_grid:
  fixes v w :: map_world
  assumes g: "grid_ok (mw_grid v)" "cell (mw_grid v) = cell (mw_grid w)" "getTile (mw_grid v) = getTile (mw_grid w)"
      "g_root (mw_grid v) = g_root (mw_grid w)" "g_leaves (mw_grid v) = g_leaves (mw_grid w)"
    and same: "mw_tiles v = mw_tiles w" "mw_creatures v = mw_creatures w" "mw_items v = mw_items w"
      "teleportDest v = teleportDest w"
    and r: "spectators_more p s v = (v', s')"
  shows "grid_ok (mw_grid v')" "cell (mw_grid v') = cell (mw_grid w)" "getTile (mw_grid v') = getTile (mw_grid w)"
    "g_root (mw_grid v') = g_root (mw_grid w)" "g_leaves (mw_grid v') = g_leaves (mw_grid w)"
    "mw_tiles v' = mw_tiles w" "mw_creatures v' = mw_creatures w" "mw_items v' = mw_items w"
    "teleportDest v' = teleportDest w"
proof -
  have v: "view v = view w" by (simp add: view_def same)
  obtain g' s'' where q: "getSpectators (view v) p True False 0 0 0 0 (mw_grid v, s) = (g', s'')" by fastforce
  then have v': "v' = v\<lparr>mw_grid := g'\<rparr>" using r by (simp add: spectators_more_def)
  have "grid_ok g' \<and> cell g' = cell (mw_grid v) \<and> getTile g' = getTile (mw_grid v) \<and> g_root g' = g_root (mw_grid v)
      \<and> g_leaves g' = g_leaves (mw_grid v)"
    using q g(1) unfolding getSpectators_def prod.case Let_def
    by (auto split: if_splits option.splits simp: Let_def)
  then show "grid_ok (mw_grid v')" "cell (mw_grid v') = cell (mw_grid w)" "getTile (mw_grid v') = getTile (mw_grid w)"
    "g_root (mw_grid v') = g_root (mw_grid w)" "g_leaves (mw_grid v') = g_leaves (mw_grid w)"
    "mw_tiles v' = mw_tiles w" "mw_creatures v' = mw_creatures w" "mw_items v' = mw_items w"
    "teleportDest v' = teleportDest w"
    using g same by (simp_all add: v')
qed

text \<open>The change of the leaf.\<close>

definition change_leaf :: "position \<Rightarrow> position \<Rightarrow> nat \<Rightarrow> map_world \<Rightarrow> map_world option" where
  "change_leaf p q c v =
     (if getQTNode (mw_grid v) (pos_x p) (pos_y p) \<noteq> getQTNode (mw_grid v) (pos_x q) (pos_y q)
      then do { v \<leftarrow> leaf_remove p c v; leaf_add q c v } else Some v)"

lemma change_leaf_ok:
  assumes ok: "grid_ok (mw_grid v)" and idx: "listed (view v) (mw_grid v) S" and c: "c \<in> S"
    and p: "cr_position (mw_creatures v c) = p"
    and l: "getQTNode (mw_grid v) (pos_x p) (pos_y p) = Some l" and k: "getQTNode (mw_grid v) (pos_x q) (pos_y q) = Some k"
  obtains v' g where "change_leaf p q c v = Some v'" "v' = v\<lparr>mw_grid := g\<rparr>" "grid_ok g" "getTile g = getTile (mw_grid v)"
    "listed (move_view c q (view v)) g S" "g_root g = g_root (mw_grid v)"
    "spectatorCache g = spectatorCache (mw_grid v)" "playersSpectatorCache g = playersSpectatorCache (mw_grid v)"
proof (cases "l = k")
  case True
  have "same_leaf (pos_x p) (pos_y p) (pos_x q) (pos_y q)" using grid_okD(3) [OF ok l] k True by simp
  then have "listed (move_view c q (view v)) (mw_grid v) S"
    by (intro listed_move_inside [OF idx]) (simp add: view_player p)
  moreover have "change_leaf p q c v = Some v" using l k True by (simp add: change_leaf_def)
  ultimately show ?thesis using that [of v "mw_grid v"] ok by simp
next
  case False
  obtain lf where r: "leaf_remove p c v = Some (upd_grid (upd_leaf l (\<lambda>_. lf)) v)"
    and g: "grid_ok (upd_leaf l (\<lambda>_. lf) (mw_grid v))" "getTile (upd_leaf l (\<lambda>_. lf) (mw_grid v)) = getTile (mw_grid v)"
      "listed (view v) (upd_leaf l (\<lambda>_. lf) (mw_grid v)) (S - {c})"
    using leaf_remove_ok [OF ok l idx c p] .
  let ?g1 = "upd_leaf l (\<lambda>_. lf) (mw_grid v)" and ?add = "addCreature (is_player (mw_creatures v c)) c"
  let ?g = "upd_leaf k (\<lambda>_. ?add (leaf ?g1 k)) ?g1"
  have k1: "getQTNode ?g1 (pos_x q) (pos_y q) = Some k" using k by simp
  have e: "upd_leaf k ?add ?g1 = ?g" by (rule upd_leaf_const)
  have "change_leaf p q c v = Some (upd_grid (upd_leaf k ?add) (upd_grid (upd_leaf l (\<lambda>_. lf)) v))"
    using False l k k1 by (simp add: change_leaf_def r leaf_add_Some)
  moreover have "upd_grid (upd_leaf k ?add) (upd_grid (upd_leaf l (\<lambda>_. lf)) v) = v\<lparr>mw_grid := ?g\<rparr>"
    by (simp add: upd_grid_def e)
  moreover have "listed (move_view c q (view v)) ?g S"
    using listed_add [OF g(1) k1 g(3), of c] c insert_absorb [OF c] unfolding e [symmetric] by (simp add: view_player)
  moreover have "grid_ok ?g" by (rule upd_leaf_ok(1) [OF g(1) k1]) (simp_all add: links_add)
  moreover have "getTile ?g = getTile (mw_grid v)"
    using getTile_upd_leaf [OF g(1) k1, of "?add (leaf ?g1 k)"] g(2) by (simp add: links_add)
  ultimately show ?thesis using that [of "v\<lparr>mw_grid := ?g\<rparr>" ?g] by simp
qed

text \<open>A move succeeds and keeps the invariant.\<close>

lemma move_core_ok:
  assumes ok: "map_ok w" and c: "c \<in> placed w" and old: "cr_tile (mw_creatures w c) = Some oldTile"
    and at: "tile_at w q = Some newTile"
  obtains w' where "move_core e c oldTile newTile force w = Some w'" "map_ok w'" "placed w' = placed w"
    "cr_tile (mw_creatures w' c) = Some newTile" "tile_at w' = tile_at w" "mw_items w' = mw_items w"
    "teleportDest w' = teleportDest w"
    "\<And>tr. t_flags (mw_tiles w' tr) = t_flags (mw_tiles w tr)" "\<And>tr. t_items (mw_tiles w' tr) = t_items (mw_tiles w tr)"
    "\<And>tr. ground (mw_tiles w' tr) = ground (mw_tiles w tr)" "\<And>tr. tilePos (mw_tiles w' tr) = tilePos (mw_tiles w tr)"
proof -
  obtain p where atp: "tile_at w p = Some oldTile" and mem: "c \<in> set (t_creatures (mw_tiles w oldTile))"
    and p: "cr_position (mw_creatures w c) = p" using placedD [OF ok c] old by (metis option.inject)
  have tp: "tilePos (mw_tiles w oldTile) = p" and tq: "tilePos (mw_tiles w newTile) = q"
    using map_okD(2) [OF ok atp] map_okD(2) [OF ok at] by simp_all
  obtain l where l: "getQTNode (mw_grid w) (pos_x p) (pos_y p) = Some l" using tile_at_leaf [OF atp] by blast
  obtain k where k: "getQTNode (mw_grid w) (pos_x q) (pos_y q) = Some k" using tile_at_leaf [OF at] by blast
  obtain w1 s1 where w1: "spectators_more p {} w = (w1, s1)" by fastforce
  obtain w2 s2 where w2: "spectators_more q s1 w1 = (w2, s2)" by fastforce
  note g1 = spectators_more_grid [OF map_okD(1) [OF ok] refl refl refl refl refl refl refl refl w1]
  note g2 = spectators_more_grid [OF g1 w2]
  define w3 where "w3 = upd_tile oldTile (\<lambda>t. t\<lparr>t_creatures := remove1 c (t_creatures t)\<rparr>) (upd_grid clearSpectatorCache w2)"
  have r3: "t_removeThing e oldTile (TCreature c) 0 w2 = Some w3"
    using mem by (simp add: t_removeThing_def w3_def g2)
  have grid3: "mw_grid w3 = clearSpectatorCache (mw_grid w2)" by (simp add: w3_def)
  have v3: "view w3 = view w" by (simp add: view_def w3_def g2)
  have q3: "getQTNode (mw_grid w3) = getQTNode (mw_grid w)" using g2(4) by (simp add: grid3 getQTNode_def fun_eq_iff)
  have ok3: "grid_ok (mw_grid w3)" using g2(1) by (simp add: grid3)
  have idx3: "listed (view w3) (mw_grid w3) (placed w)"
    using map_okD(5) [OF ok] listed_grid [of "mw_grid w3" "mw_grid w"] g2(2) by (simp add: v3 grid3)
  have p3: "cr_position (mw_creatures w3 c) = p" using p by (simp add: w3_def g2)
  obtain w4 g where w4: "change_leaf p q c w3 = Some w4" "w4 = w3\<lparr>mw_grid := g\<rparr>" and g: "grid_ok g"
    "getTile g = getTile (mw_grid w3)" "listed (move_view c q (view w3)) g (placed w)" "g_root g = g_root (mw_grid w3)"
    "spectatorCache g = spectatorCache (mw_grid w3)" "playersSpectatorCache g = playersSpectatorCache (mw_grid w3)"
    using change_leaf_ok [OF ok3 idx3 c p3] l k unfolding q3 by metis
  define w5 where "w5 = upd_tile newTile (\<lambda>t. t\<lparr>t_creatures := c # t_creatures t\<rparr>)
    (creature_setParent c newTile (upd_grid clearSpectatorCache w4))"
  define tele where "tele = (force \<or> ground (mw_tiles w newTile) = None \<or> \<not> areInRange3 1 1 0 p q)"
  define w6 where "w6 = (if \<not> tele then upd_creature c (\<lambda>x. x\<lparr>cr_direction := moved_direction p q (cr_direction x)\<rparr>) w5 else w5)"
  have "\<exists>es. move_core e c oldTile newTile force w = Some (emit_map es w6)"
    unfolding move_core_def Let_def tp tq w1 w2 prod.case r3 bind.bind_lunit w4(1) [unfolded change_leaf_def]
      addThing_creature w5_def [symmetric] tele_def [symmetric] w6_def [symmetric]
    by (intro exI) (rule refl)
  then obtain es where r: "move_core e c oldTile newTile force w = Some (emit_map es w6)" by blast
  define w' where "w' = emit_map es w6"
  have "mw_grid w' = clearSpectatorCache g"
    by (simp add: w'_def w6_def w5_def creature_setParent_def w4(2))
  then have grid: "grid_ok (mw_grid w')" "getTile (mw_grid w') = getTile (mw_grid w)"
    "listed (move_view c q (view w)) (mw_grid w') (insert c (placed w))"
    "cache_ok (view w') (insert c (placed w)) (mw_grid w')"
    using g g2(3) c listed_grid [of "clearSpectatorCache g" g] by (simp_all add: v3 grid3 insert_absorb cache_ok_empty)
  have tiles: "mw_tiles w' tr = (mw_tiles w tr)\<lparr>t_creatures := (if tr = newTile then [c] else [])
      @ (if tr = oldTile then remove1 c (t_creatures (mw_tiles w tr)) else t_creatures (mw_tiles w tr))\<rparr>" for tr
    by (simp add: w'_def w6_def w5_def creature_setParent_def w4(2) w3_def g2)
  have creatures: "cr_kind (mw_creatures w' x) = cr_kind (mw_creatures w x)"
    "cr_tile (mw_creatures w' x) = (if x = c then Some newTile else cr_tile (mw_creatures w x))"
    "cr_position (mw_creatures w' x) = (if x = c then q else cr_position (mw_creatures w x))" for x
    using tq by (auto simp: w'_def w6_def w5_def creature_setParent_def w4(2) w3_def g2)
  have cs: "t_creatures (mw_tiles w' tr) = (if tr = newTile then [c] else []) @ remove1 c (t_creatures (mw_tiles w tr))"
    if t: "tile_at w r = Some tr" for r tr
  proof -
    have "c \<notin> set (t_creatures (mw_tiles w tr))" if "tr \<noteq> oldTile" using map_okD(4) [OF ok t, of c] old that by auto
    then show ?thesis by (simp add: tiles remove1_idem)
  qed
  have "tilePos (mw_tiles w' tr) = tilePos (mw_tiles w tr)" for tr by (simp add: tiles)
  note s = settle_ok [OF ok at grid this cs creatures]
  have "tile_at w' = tile_at w" by (simp add: tile_at_def fun_eq_iff grid(2))
  moreover have "mw_items w' = mw_items w" "teleportDest w' = teleportDest w"
    by (simp_all add: w'_def w6_def w5_def creature_setParent_def w4(2) w3_def g2)
  ultimately show ?thesis using that [OF r [folded w'_def] s(1)] s(2,3) c tiles by (simp add: insert_absorb)
qed

section \<open>Chains of teleports\<close>

text \<open>
  The chain that \<open>checkInfinityLoop\<close> follows from a tile, as an inductive relation: it comes back to the
  origin or it ends.
\<close>

inductive leads :: "map_world \<Rightarrow> position \<Rightarrow> nat \<Rightarrow> bool \<Rightarrow> bool" for w origin where
  no_teleport: "getTeleportItem (mw_items w) (mw_tiles w t) = None \<Longrightarrow> leads w origin t False"
| comes_back: "getTeleportItem (mw_items w) (mw_tiles w t) = Some i \<Longrightarrow> origin = teleportDest w i \<Longrightarrow> leads w origin t True"
| off_map: "getTeleportItem (mw_items w) (mw_tiles w t) = Some i \<Longrightarrow> origin \<noteq> teleportDest w i \<Longrightarrow>
    tile_at w (teleportDest w i) = None \<Longrightarrow> leads w origin t False"
| hop: "getTeleportItem (mw_items w) (mw_tiles w t) = Some i \<Longrightarrow> origin \<noteq> teleportDest w i \<Longrightarrow>
    tile_at w (teleportDest w i) = Some t' \<Longrightarrow> leads w origin t' b \<Longrightarrow> leads w origin t b"

lemma checkInfinityLoop_leads: "checkInfinityLoop w origin t = Some b \<longleftrightarrow> leads w origin t b"
proof
  show "checkInfinityLoop w origin t = Some b \<Longrightarrow> leads w origin t b"
    by (induction rule: checkInfinityLoop.raw_induct [rotated, consumes 1, case_names loop])
      (auto split: option.splits if_splits intro: leads.intros)
  show "leads w origin t b \<Longrightarrow> checkInfinityLoop w origin t = Some b"
    by (induction rule: leads.induct) (subst checkInfinityLoop.simps; simp)+
qed

text \<open>A chain that ends, ends for every origin, or comes back to it first.\<close>

lemma leads_other: "leads w origin t False \<Longrightarrow> \<exists>b. leads w origin' t b"
proof (induction "t" False rule: leads.induct)
  case (off_map t i)
  then show ?case by (cases "origin' = teleportDest w i") (blast intro: leads.intros)+
next
  case (hop t i t')
  then show ?case by (cases "origin' = teleportDest w i") (blast intro: leads.intros)+
qed (auto intro: leads.intros)

text \<open>A cycle that does not contain the origin is followed for ever.\<close>

lemma leads_stuck:
  assumes "leads w origin t b" and "t \<in> S"
    and "\<And>t. t \<in> S \<Longrightarrow> \<exists>i t'. getTeleportItem (mw_items w) (mw_tiles w t) = Some i \<and> origin \<noteq> teleportDest w i
           \<and> tile_at w (teleportDest w i) = Some t' \<and> t' \<in> S"
  shows False
  using assms by (induction rule: leads.induct) fastforce+

theorem teleport_cycle_undetected:
  assumes "t \<in> S"
    and "\<And>t. t \<in> S \<Longrightarrow> \<exists>i t'. getTeleportItem (mw_items w) (mw_tiles w t) = Some i \<and> origin \<noteq> teleportDest w i
           \<and> tile_at w (teleportDest w i) = Some t' \<and> t' \<in> S"
  shows "checkInfinityLoop w origin t = None"
proof (rule ccontr)
  assume "checkInfinityLoop w origin t \<noteq> None"
  then obtain b where "leads w origin t b" by (auto simp: checkInfinityLoop_leads)
  then show False by (rule leads_stuck [OF _ assms])
qed

lemma same_map_teleport:
  assumes "same_map w w'"
  shows "getTeleportItem (mw_items w') (mw_tiles w' t) = getTeleportItem (mw_items w) (mw_tiles w t)"
    and "teleport_target w' t = teleport_target w t"
proof -
  show g: "getTeleportItem (mw_items w') (mw_tiles w' t) = getTeleportItem (mw_items w) (mw_tiles w t)"
    using assms by (simp add: same_map_def getTeleportItem_def hasFlag_def)
  show "teleport_target w' t = teleport_target w t"
  proof -
    have "hasFlag TILESTATE_TELEPORT (mw_tiles w' t) = hasFlag TILESTATE_TELEPORT (mw_tiles w t)" "tile_at w' = tile_at w"
      "teleportDest w' = teleportDest w" using assms by (simp_all add: same_map_def hasFlag_def)
    then show ?thesis unfolding teleport_target_def g by (simp split: option.split)
  qed
qed

lemma same_map_at: "same_map w w' \<Longrightarrow> tile_at w' = tile_at w" "same_map w w' \<Longrightarrow> teleportDest w' = teleportDest w"
  by (simp_all add: same_map_def)

lemma same_map_leads: "leads w origin t b \<Longrightarrow> same_map w w' \<Longrightarrow> leads w' origin t b"
proof (induction rule: leads.induct)
  case (no_teleport t)
  then show ?case by (intro leads.no_teleport) (simp only: same_map_teleport)
next
  case (comes_back t i)
  then show ?case by (intro leads.comes_back [where i = i]) (simp_all only: same_map_teleport same_map_at)
next
  case (off_map t i)
  then show ?case by (intro leads.off_map [where i = i]) (simp_all only: same_map_teleport same_map_at, blast+)
next
  case (hop t i t' b)
  show ?case
  proof (rule leads.hop)
    show "getTeleportItem (mw_items w') (mw_tiles w' t) = Some i" using hop by (simp only: same_map_teleport)
    show "origin \<noteq> teleportDest w' i" "tile_at w' (teleportDest w' i) = Some t'"
      using hop.hyps(2,3) same_map_at [OF hop.prems] by simp_all
    show "leads w' origin t' b" using hop by blast
  qed
qed

lemma same_map_loop: "same_map w w' \<Longrightarrow> checkInfinityLoop w' = checkInfinityLoop w"
proof (intro ext)
  fix origin t
  assume s: "same_map w w'"
  have "checkInfinityLoop w' origin t = Some b \<longleftrightarrow> checkInfinityLoop w origin t = Some b" for b
    unfolding checkInfinityLoop_leads using same_map_leads same_map_sym s by metis
  then show "checkInfinityLoop w' origin t = checkInfinityLoop w origin t"
    by (cases "checkInfinityLoop w origin t"; cases "checkInfinityLoop w' origin t") auto
qed

section \<open>Notifications of a creature that arrives\<close>

lemma quiet_same_map:
  assumes "map_ok w" and "quiet w w'" and "mw_items w' = mw_items w" "teleportDest w' = teleportDest w"
    and "\<And>tr. t_flags (mw_tiles w' tr) = t_flags (mw_tiles w tr)" "\<And>tr. t_items (mw_tiles w' tr) = t_items (mw_tiles w tr)"
  shows "same_map w w'"
  using assms quiet_ok(3) [OF assms(1,2)] by (simp add: same_map_def quiet_def same_creatures_def)

text \<open>A world to which creatures have been moved: the same map, the same creatures on it.\<close>

definition continues :: "map_world \<Rightarrow> map_world \<Rightarrow> bool" where
  "continues w w' \<longleftrightarrow> map_ok w' \<and> placed w' = placed w \<and> same_map w w'"

lemma continuesI:
  assumes "map_ok w" and "quiet w w'" and "mw_items w' = mw_items w" "teleportDest w' = teleportDest w"
    and "\<And>tr. t_flags (mw_tiles w' tr) = t_flags (mw_tiles w tr)" "\<And>tr. t_items (mw_tiles w' tr) = t_items (mw_tiles w tr)"
  shows "continues w w'"
  using quiet_same_map [OF assms] quiet_ok [OF assms(1,2)] by (simp add: continues_def)

lemma continues_trans: "continues w w1 \<Longrightarrow> continues w1 w2 \<Longrightarrow> continues w w2"
  unfolding continues_def using same_map_trans by blast

lemma spectators_at_fields:
  assumes "spectators_at p b w = (w', s)"
  shows "mw_items w' = mw_items w" "teleportDest w' = teleportDest w" "mw_tiles w' = mw_tiles w" "mw_creatures w' = mw_creatures w"
  using assms by (auto simp: spectators_at_def split: prod.splits)

lemma postRemove_continues:
  assumes "map_ok w" shows "continues w (t_postRemoveNotification tr (TCreature c) w)"
    and "mw_creatures (t_postRemoveNotification tr (TCreature c) w) = mw_creatures w"
proof -
  obtain w1 s where s: "spectators_at (tilePos (mw_tiles w tr)) True w = (w1, s)" by fastforce
  note f = spectators_at_fields [OF s]
  show "continues w (t_postRemoveNotification tr (TCreature c) w)"
    by (rule continuesI [OF assms postRemove_quiet [OF quiet_refl]])
      (simp_all add: t_postRemoveNotification_def s f Let_def)
  show "mw_creatures (t_postRemoveNotification tr (TCreature c) w) = mw_creatures w"
    by (simp add: t_postRemoveNotification_def s f Let_def)
qed

lemma post_add_continues:
  assumes "map_ok w" shows "continues w (post_add_players tr thing w)"
    and "mw_creatures (post_add_players tr thing w) = mw_creatures w"
proof -
  obtain w1 s where s: "spectators_at (tilePos (mw_tiles w tr)) True w = (w1, s)" by fastforce
  note f = spectators_at_fields [OF s]
  show "continues w (post_add_players tr thing w)"
    by (rule continuesI [OF assms post_add_players_quiet [OF quiet_refl]]) (simp_all add: post_add_players_def s f)
  show "mw_creatures (post_add_players tr thing w) = mw_creatures w" by (simp add: post_add_players_def s f)
qed

lemma turn_continues:
  assumes "map_ok w" shows "continues w (turn_to c dest w)"
    and "cr_tile (mw_creatures (turn_to c dest w) x) = cr_tile (mw_creatures w x)"
proof -
  define d where "d = (if pos_x (cr_position (mw_creatures w c)) > pos_x dest then DIRECTION_WEST else DIRECTION_EAST)"
  have t: "turn_to c dest w = internalCreatureTurn c d w" by (simp add: turn_to_def d_def)
  let ?v = "upd_creature c (\<lambda>x. x\<lparr>cr_direction := d\<rparr>) w"
  obtain w1 s where s: "spectators_at (cr_position (mw_creatures ?v c)) True ?v = (w1, s)" by fastforce
  note f = spectators_at_fields [OF s]
  have fields: "mw_items (turn_to c dest w) = mw_items w" "teleportDest (turn_to c dest w) = teleportDest w"
    "mw_tiles (turn_to c dest w) = mw_tiles w"
    using f s unfolding t internalCreatureTurn_def Let_def by (simp_all split: prod.split)
  show "continues w (turn_to c dest w)"
    by (rule continuesI [OF assms turn_to_quiet [OF quiet_refl]]) (simp_all add: fields)
  show "cr_tile (mw_creatures (turn_to c dest w) x) = cr_tile (mw_creatures w x)"
    by (rule quiet_creature(1) [OF turn_to_quiet [OF quiet_refl]])
qed

lemma effects_continues:
  assumes "map_ok w" shows "continues w (teleport_effects e tp p q w)"
    and "mw_creatures (teleport_effects e tp p q w) = mw_creatures w"
  by (rule continuesI [OF assms effects_quiet [OF quiet_refl]], simp_all add: teleport_effects_def Let_def)

lemma emit_continues: "map_ok w \<Longrightarrow> continues w (emit_map es w)"
  by (rule continuesI [OF _ quiet_emit [OF quiet_refl]]) simp_all

text \<open>Leaving a tile for another tile of the map succeeds.\<close>

lemma leave_for_ok:
  assumes ok: "map_ok w" and c: "c \<in> placed w" and at: "tile_at w q = Some newTile"
  obtains w' where "leave_for e c newTile force w = Some w'" "continues w w'" "cr_tile (mw_creatures w' c) = Some newTile"
proof -
  obtain oldTile where old: "cr_tile (mw_creatures w c) = Some oldTile" using placedD [OF ok c] by blast
  obtain w1 where w1: "move_core e c oldTile newTile force w = Some w1" "continues w w1" "cr_tile (mw_creatures w1 c) = Some newTile"
  proof (rule move_core_ok [OF ok c old at, of e force], rule that)
  qed (auto simp: continues_def same_map_def)
  have ok1: "map_ok w1" using w1(2) by (simp add: continues_def)
  show ?thesis
    using that [of "t_postRemoveNotification oldTile (TCreature c) w1"] w1 old
      continues_trans [OF w1(2) postRemove_continues(1) [OF ok1, of oldTile c]] postRemove_continues(2) [OF ok1, of oldTile c]
    by (simp add: leave_for_def)
qed

text \<open>The tile where a creature that steps on a tile ends up, if the chains are decided.\<close>

inductive arrives :: "map_world \<Rightarrow> nat \<Rightarrow> nat \<Rightarrow> bool" for w where
  stay: "teleport_target w t = None \<Longrightarrow> arrives w t t"
| loop: "teleport_target w t = Some (i, d) \<Longrightarrow> leads w (tilePos (mw_tiles w t)) d True \<Longrightarrow> arrives w t t"
| carried: "teleport_target w t = Some (i, d) \<Longrightarrow> leads w (tilePos (mw_tiles w t)) d False \<Longrightarrow> arrives w d t' \<Longrightarrow> arrives w t t'"

definition decided :: "map_world \<Rightarrow> nat \<Rightarrow> bool" where
  "decided w t \<longleftrightarrow> (case teleport_target w t of None \<Rightarrow> True
     | Some (i, d) \<Rightarrow> checkInfinityLoop w (tilePos (mw_tiles w t)) d \<noteq> None)"

lemma teleport_target_Some:
  "teleport_target w t = Some (i, d) \<longleftrightarrow>
   getTeleportItem (mw_items w) (mw_tiles w t) = Some i \<and> tile_at w (teleportDest w i) = Some d"
  by (auto simp: teleport_target_def getTeleportItem_def split: option.splits)

lemma arrives_from:
  assumes t: "teleport_target w t = Some (i, d)" and l: "leads w (tilePos (mw_tiles w t)) d b"
    and n: "leads w (tilePos (mw_tiles w t)) d False \<Longrightarrow> \<exists>t'. arrives w d t'"
  shows "\<exists>t'. arrives w t t'"
proof (cases b)
  case True
  then show ?thesis using arrives.loop [OF t] l by auto
next
  case False
  then have f: "leads w (tilePos (mw_tiles w t)) d False" using l by simp
  then show ?thesis using arrives.carried [OF t f] n by blast
qed

lemma leads_arrives: "leads w origin t False \<Longrightarrow> \<exists>t'. arrives w t t'"
proof (induction "t" False rule: leads.induct)
  case (no_teleport t)
  then have "teleport_target w t = None" by (simp add: teleport_target_def)
  then show ?case by (blast intro: arrives.stay)
next
  case (off_map t i)
  then have "teleport_target w t = None" by (simp add: teleport_target_def)
  then show ?case by (blast intro: arrives.stay)
next
  case (hop t i t1)
  have target: "teleport_target w t = Some (i, t1)" using hop by (simp add: teleport_target_Some)
  obtain b where "leads w (tilePos (mw_tiles w t)) t1 b" using leads_other [OF hop(4)] by blast
  then show ?case by (rule arrives_from [OF target]) (use hop(5) in blast)
qed simp

lemma decided_arrives: "decided w t \<Longrightarrow> \<exists>t'. arrives w t t'"
proof (cases "teleport_target w t")
  case (Some r)
  assume "decided w t"
  then obtain i d b where r: "teleport_target w t = Some (i, d)" "leads w (tilePos (mw_tiles w t)) d b"
    using Some by (cases r) (auto simp: decided_def checkInfinityLoop_leads)
  then show ?thesis by (rule arrives_from) (rule leads_arrives)
qed (blast intro: arrives.stay)

lemma same_map_decided: "same_map w w' \<Longrightarrow> decided w' t = decided w t"
proof -
  assume s: "same_map w w'"
  have p: "tilePos (mw_tiles w' t) = tilePos (mw_tiles w t)" using s by (simp add: same_map_def)
  show ?thesis unfolding decided_def same_map_teleport(2) [OF s] same_map_loop [OF s] p ..
qed

lemma notify_ok:
  assumes "arrives w t t'"
  shows "same_map w v \<Longrightarrow> map_ok v \<Longrightarrow> c \<in> placed v \<Longrightarrow> cr_tile (mw_creatures v c) = Some t \<Longrightarrow>
    \<exists>v'. t_postAddNotification_creature e c t v = Some v' \<and> continues v v' \<and> cr_tile (mw_creatures v' c) = Some t'"
  using assms
proof (induction arbitrary: v rule: arrives.induct)
  case (stay t)
  let ?v1 = "post_add_players t (TCreature c) v"
  note p = post_add_continues [OF stay.prems(2), of t "TCreature c"]
  have s: "same_map w ?v1" using same_map_trans stay.prems(1) p(1) by (auto simp: continues_def)
  have "teleport_target ?v1 t = None" using stay.hyps same_map_teleport(2) [OF s] by simp
  then have "t_postAddNotification_creature e c t v = Some (emit_map [StepIn c t, CreatureReleased c] ?v1)"
    by (subst t_postAddNotification_creature.simps) (simp add: Let_def)
  moreover have "continues v (emit_map [StepIn c t, CreatureReleased c] ?v1)"
    using continues_trans [OF p(1) emit_continues] p(1) by (simp add: continues_def)
  ultimately show ?case using stay.prems(4) p(2) by simp
next
  case (loop t i d)
  let ?v1 = "post_add_players t (TCreature c) v"
  note p = post_add_continues [OF loop.prems(2), of t "TCreature c"]
  have s: "same_map w ?v1" using same_map_trans loop.prems(1) p(1) by (auto simp: continues_def)
  have "teleport_target ?v1 t = Some (i, d)" using loop.hyps same_map_teleport(2) [OF s] by simp
  moreover have "checkInfinityLoop ?v1 (tilePos (mw_tiles ?v1 t)) d = Some True"
    using loop.hyps(2) same_map_loop [OF s] s by (simp add: checkInfinityLoop_leads same_map_def)
  ultimately have "t_postAddNotification_creature e c t v = Some (emit_map [StepIn c t, CreatureReleased c] ?v1)"
    by (subst t_postAddNotification_creature.simps) (simp add: Let_def)
  moreover have "continues v (emit_map [StepIn c t, CreatureReleased c] ?v1)"
    using continues_trans [OF p(1) emit_continues] p(1) by (simp add: continues_def)
  ultimately show ?case using loop.prems(4) p(2) by simp
next
  case (carried t i d t')
  let ?v1 = "post_add_players t (TCreature c) v"
  note p = post_add_continues [OF carried.prems(2), of t "TCreature c"]
  have s1: "same_map w ?v1" using same_map_trans carried.prems(1) p(1) by (auto simp: continues_def)
  have ok1: "map_ok ?v1" "placed ?v1 = placed v" using p(1) by (simp_all add: continues_def)
  have target: "teleport_target ?v1 t = Some (i, d)" using carried.hyps(1) same_map_teleport(2) [OF s1] by simp
  have check: "checkInfinityLoop ?v1 (tilePos (mw_tiles ?v1 t)) d = Some False"
    using carried.hyps(2) same_map_loop [OF s1] s1 by (simp add: checkInfinityLoop_leads same_map_def)
  define v2 where "v2 = turn_to c (teleportDest ?v1 i) ?v1"
  note q = turn_continues [OF ok1(1), of c "teleportDest ?v1 i", folded v2_def]
  have ok2: "map_ok v2" "c \<in> placed v2" using q(1) ok1(2) carried.prems(3) by (simp_all add: continues_def)
  have "tile_at v2 (teleportDest v2 i) = Some d"
    using target q(1) by (simp add: teleport_target_Some continues_def same_map_def)
  then obtain v3 where v3: "leave_for e c d False v2 = Some v3" "continues v2 v3" "cr_tile (mw_creatures v3 c) = Some d"
    using leave_for_ok [OF ok2] by blast
  have c3: "continues v v3" using continues_trans p(1) q(1) v3(2) by blast
  then have "same_map w v3" "map_ok v3" "c \<in> placed v3"
    using same_map_trans carried.prems by (auto simp: continues_def)
  then obtain v4 where v4: "t_postAddNotification_creature e c d v3 = Some v4" "continues v3 v4"
    "cr_tile (mw_creatures v4 c) = Some t'" using carried.IH v3(3) by blast
  define v5 where "v5 = teleport_effects e i (cr_position (mw_creatures ?v1 c)) (tilePos (mw_tiles v4 d)) v4"
  have ok4: "map_ok v4" using v4(2) by (simp add: continues_def)
  note f = effects_continues [OF ok4, of e i "cr_position (mw_creatures ?v1 c)" "tilePos (mw_tiles v4 d)", folded v5_def]
  have "t_postAddNotification_creature e c t v = Some (emit_map [StepIn c t, CreatureReleased c] v5)"
    using target check v3(1) v4(1)
    by (subst t_postAddNotification_creature.simps) (simp add: Let_def v2_def v5_def)
  moreover have "continues v (emit_map [StepIn c t, CreatureReleased c] v5)"
    using continues_trans [OF continues_trans [OF c3 continues_trans [OF v4(2) f(1)]] emit_continues] f(1)
    by (simp add: continues_def)
  ultimately show ?case using v4(3) f(2) by simp
qed

lemma notify_decided:
  assumes "t_postAddNotification_creature e c t v = Some v'" and "map_ok v"
  shows "decided v t"
proof -
  let ?v1 = "post_add_players t (TCreature c) v"
  have "decided ?v1 t"
    using assms(1) by (subst (asm) t_postAddNotification_creature.simps)
      (auto simp: decided_def Let_def bind_eq_Some_conv split: option.splits prod.splits)
  moreover have "same_map v ?v1" using post_add_continues(1) [OF assms(2)] by (simp add: continues_def)
  ultimately show ?thesis using same_map_decided by blast
qed

text \<open>What a notification or a move that returns has done.\<close>

lemma notify_result:
  assumes "t_postAddNotification_creature e c t v = Some v'" and "map_ok v" and "c \<in> placed v"
    and "cr_tile (mw_creatures v c) = Some t"
  shows "continues v v'"
  using notify_ok [OF _ same_map_refl assms(2-4)] decided_arrives [OF notify_decided [OF assms(1,2)]] assms(1)
  by (metis option.inject)

lemma moveCreature_result:
  assumes r: "moveCreature e c newTile force w = Some w'" and ok: "map_ok w" and c: "c \<in> placed w"
    and at: "tile_at w q = Some newTile"
  shows "continues w w'"
proof -
  obtain v where v: "leave_for e c newTile force w = Some v" "continues w v" "cr_tile (mw_creatures v c) = Some newTile"
    using leave_for_ok [OF ok c at] by blast
  have "t_postAddNotification_creature e c newTile v = Some w'" using r v(1) by (simp add: moveCreature_def)
  from notify_result [OF this _ _ v(3)] v(2) c have "continues v w'" by (simp add: continues_def)
  then show ?thesis by (rule continues_trans [OF v(2)])
qed

end
