(* ===== verification/MapWorld.thy ===== *)
theory MapWorld
  imports MapMoves
begin

text \<open>
  The world of the map as a transition system: tiles are set, items added, changed and removed, creatures
  placed, moved and removed, and every query may be asked in between. \<open>map_ok\<close> holds in every world that
  these steps reach, and so a search for spectators finds exactly the creatures of its area.
\<close>

section \<open>Setting a tile\<close>

lemma setTile_result:
  assumes ok: "map_ok w" and fresh: "\<And>q. tile_at w q \<noteq> Some n" and n: "t_creatures (mw_tiles w n) = []" "tilePos (mw_tiles w n) = p"
    and r: "setTile e p n w = Some w'"
  shows "map_ok w'"
proof (cases "pos_z p \<ge> MAP_MAX_LAYERS")
  case True
  then have "w' = w" using r by (simp add: setTile_def setTile_slot_def)
  then show ?thesis using ok by simp
next
  case False
  obtain old g where g: "setTile_slot (pos_x p) (pos_y p) (pos_z p) n (mw_grid w) = (old, g)" by fastforce
  note s = setTile_slot_spec [OF map_okD(1) [OF ok] False g]
  define w1 where "w1 = w\<lparr>mw_grid := g\<rparr>"
  have crowd: "crowd g a b = crowd (mw_grid w) a b" for a b
    using s(4) [of a b] by (cases "cell g a b"; cases "cell (mw_grid w) a b") (auto simp: crowd_def split: if_splits)
  have player_crowd: "player_crowd g a b = player_crowd (mw_grid w) a b" for a b
    using s(5) [of a b] by (cases "cell g a b"; cases "cell (mw_grid w) a b") (auto simp: player_crowd_def split: if_splits)
  have cache: "cache_ok v S g = cache_ok v S (mw_grid w)" for v S by (simp add: cache_ok_def s(6,7))
  have same: "view w1 = view w" "mw_tiles w1 = mw_tiles w" "mw_creatures w1 = mw_creatures w" "mw_grid w1 = g"
    by (simp_all add: w1_def view_def)
  have at: "tile_at w1 q = (if q = p \<and> old = None then Some n else tile_at w q)" for q
    using s(3) [of "pos_x q" "pos_y q" "pos_z q"] by (cases q; cases p) (auto simp: tile_at_def w1_def)
  have ok1: "map_ok w1"
  proof -
    have "placed w1 = placed w"
      using n(1) s(2) unfolding placed_def at same by (auto simp: tile_at_def)
    moreover have "listed (view w) g (placed w)"
      using map_okD(5) [OF ok] listed_crowd [of g "mw_grid w"] crowd player_crowd by (simp add: fun_eq_iff)
    moreover have "tile_settled w1 q tr" if "tile_at w1 q = Some tr" for q tr
    proof (cases "q = p \<and> old = None")
      case True
      then show ?thesis using that n by (simp add: at tile_settled_def same)
    next
      case False
      then show ?thesis using that ok by (auto simp: at tile_settled_def same map_ok_def)
    qed
    ultimately show ?thesis using s(1) map_okD(6) [OF ok] unfolding map_ok_def same cache by simp
  qed
  show ?thesis
  proof (cases old)
    case None
    then show ?thesis using r ok1 by (simp add: setTile_def g w1_def)
  next
    case (Some tr)
    have "post (quiet w1) (do {
        v \<leftarrow> merge_items e tr (rev (t_items (mw_tiles w1 n))) w1;
        (case ground (mw_tiles w1 n) of None \<Rightarrow> Some v | Some gr \<Rightarrow> t_addThing e tr (TItem gr) v) })"
      by (intro post_bind merge_items_quiet post_option post_Some addThing_item_quiet)
        (assumption | rule quiet_refl)+
    then show ?thesis using r Some quiet_ok(1) [OF ok1] by (simp add: setTile_def g w1_def post_def Let_def)
  qed
qed

section \<open>Walking\<close>

text \<open>Where a thing is sent is on the map, when every house has an entry or every player a temple there.\<close>

definition sheltered :: "map_env \<Rightarrow> map_world \<Rightarrow> bool" where
  "sheltered e w \<longleftrightarrow> (\<forall>h c. tile_at w (me_houseEntry e h) \<noteq> None \<or> tile_at w (me_temple e c) \<noteq> None)"

lemma floor_destination_at: "floor_destination w t = Some d \<Longrightarrow> \<exists>q. tile_at w q = Some d"
proof -
  have at: "getTile (mw_grid w) x y z = Some d \<Longrightarrow> \<exists>q. tile_at w q = Some d" for x y z
    by (intro exI [of _ "Position x y z"]) (simp add: tile_at_def)
  assume "floor_destination w t = Some d"
  then show ?thesis using at
    unfolding floor_destination_def Let_def by (simp split: if_splits option.splits prod.splits)
qed

lemma queryDestination_at:
  assumes "tile_at w q = Some tr" and "sheltered e w" and "t_queryDestination e tr thing flags w = (d, i, fl)"
  shows "\<exists>q. tile_at w q = Some d"
proof -
  have base: "\<exists>q. tile_at w q = Some d" if "queryDestination_tile w tr flags = (d, i, fl)"
    using that assms(1) floor_destination_at [of w "mw_tiles w tr"]
    by (auto simp: queryDestination_tile_def split: option.splits)
  show ?thesis
  proof (cases "\<exists>h c. t_house (mw_tiles w tr) = Some h \<and> thing_creature thing = Some c
      \<and> is_player (mw_creatures w c) \<and> \<not> me_isInvited e h (Some c)")
    case True
    then obtain h c where hc: "t_house (mw_tiles w tr) = Some h" "thing_creature thing = Some c"
      "is_player (mw_creatures w c)" "\<not> me_isInvited e h (Some c)" by blast
    have "tile_at w (me_houseEntry e h) \<noteq> None \<or> tile_at w (me_temple e c) \<noteq> None"
      using assms(2) unfolding sheltered_def by blast
    then show ?thesis using assms(3) hc by (auto simp: t_queryDestination_def split: option.splits)
  next
    case False
    then have "t_queryDestination e tr thing flags w = queryDestination_tile w tr flags"
      by (auto simp: t_queryDestination_def split: option.split)
    then show ?thesis using base assms(3) by simp
  qed
qed

lemma continues_at: "continues w w' \<Longrightarrow> tile_at w' = tile_at w"
  by (simp add: continues_def same_map_def)

lemma sheltered_at: "tile_at w' = tile_at w \<Longrightarrow> sheltered e w' = sheltered e w"
  by (simp add: sheltered_def)

lemma follow_floors_result:
  "follow_floors n e c f t flags w = Some (f', t', w') \<Longrightarrow> map_ok w \<Longrightarrow> c \<in> placed w \<Longrightarrow> sheltered e w \<Longrightarrow>
   tile_at w q = Some t \<Longrightarrow> map_ok w' \<and> placed w' = placed w \<and> tile_at w' = tile_at w"
proof (induction n arbitrary: f t flags w q)
  case 0
  obtain d i fl where d: "t_queryDestination e t (TCreature c) flags w = (d, i, fl)" by (metis prod_cases3)
  obtain q' where q': "tile_at w q' = Some d" using queryDestination_at [OF "0.prems"(5,4) d] by blast
  show ?case
  proof (cases "d = t")
    case False
    then obtain v where v: "moveCreature e c d False w = Some v" "w' = v"
      using "0.prems"(1) d by (auto simp: Let_def bind_eq_Some_conv split: if_splits)
    show ?thesis using moveCreature_result [OF v(1) "0.prems"(2,3) q'] by (simp add: v continues_def same_map_def)
  qed (use 0 d in \<open>simp add: Let_def\<close>)
next
  case (Suc n)
  obtain d i fl where d: "t_queryDestination e t (TCreature c) flags w = (d, i, fl)" by (metis prod_cases3)
  obtain q' where q': "tile_at w q' = Some d" using queryDestination_at [OF Suc.prems(5,4) d] by blast
  show ?case
  proof (cases "d = t")
    case False
    then obtain v where v: "moveCreature e c d False w = Some v"
      and rest: "w' = v \<or> follow_floors n e c (Some t) d 0 v = Some (f', t', w')"
      using Suc.prems(1) d by (auto simp: Let_def bind_eq_Some_conv split: if_splits)
    have c: "continues w v" by (rule moveCreature_result [OF v Suc.prems(2,3) q'])
    then have v': "map_ok v" "c \<in> placed v" "placed v = placed w" "tile_at v = tile_at w"
      using Suc.prems(3) by (simp_all add: continues_def same_map_def)
    then have "sheltered e v" using Suc.prems(4) sheltered_at by blast
    then show ?thesis using rest Suc.IH [of "Some t" d 0 v q'] v' q' by auto
  qed (use Suc.prems d in \<open>simp add: Let_def\<close>)
qed

lemma walk_tile_result:
  assumes r: "internalMoveCreature_tile e c t flags w = Some (ret, w')" and ok: "map_ok w" and c: "c \<in> placed w"
    and sh: "sheltered e w" and at: "tile_at w q = Some t"
  shows "map_ok w' \<and> placed w' = placed w \<and> tile_at w' = tile_at w"
proof (cases "me_rooted e c")
  case False
  obtain ret1 w1 where q1: "t_queryAdd e t (TCreature c) flags None w = Some (ret1, w1)"
    using r False by (auto simp: internalMoveCreature_tile_def bind_eq_Some_conv)
  have "quiet w w1" using postD [OF queryAdd_quiet [OF quiet_refl] q1] by simp
  note k = quiet_ok [OF ok this]
  show ?thesis
  proof (cases "ret1 = RV_NOERROR")
    case True
    then obtain w2 where w2: "moveCreature e c t False w1 = Some w2"
      using r False q1 by (auto simp: internalMoveCreature_tile_def bind_eq_Some_conv)
    have c2: "continues w1 w2" by (rule moveCreature_result [OF w2 k(1)]) (use c at k in simp_all)
    then have w2': "map_ok w2" "placed w2 = placed w" "tile_at w2 = tile_at w"
      using k by (simp_all add: continues_def same_map_def)
    show ?thesis
    proof (cases "cr_tile (mw_creatures w2 c) = Some t")
      case False
      then show ?thesis using r \<open>\<not> me_rooted e c\<close> q1 True w2 w2' by (simp add: internalMoveCreature_tile_def)
    next
      case there: True
      obtain f t' w3 where f: "follow_floors 15 e c None t flags w2 = Some (f, t', w3)"
        and w': "w' = (case f of None \<Rightarrow> w3
          | Some f \<Rightarrow> turn_after_stairs c (tilePos (mw_tiles w3 f)) (tilePos (mw_tiles w3 t')) w3)"
        using r False q1 True w2 there by (auto simp: internalMoveCreature_tile_def bind_eq_Some_conv)
      have w3: "map_ok w3" "placed w3 = placed w2" "tile_at w3 = tile_at w2"
        using follow_floors_result [OF f w2'(1)] c at w2' sh sheltered_at [OF w2'(3)] by simp_all
      have "quiet w3 w'" unfolding w' turn_after_stairs_def Let_def by (intro quiet_option quiet_if turn_quiet quiet_refl)
      from quiet_ok [OF w3(1) this] show ?thesis using w3 w2' by simp
    qed
  next
    case False
    then show ?thesis using r \<open>\<not> me_rooted e c\<close> q1 k by (simp add: internalMoveCreature_tile_def)
  qed
qed (use r ok in \<open>simp add: internalMoveCreature_tile_def\<close>)

lemma walk_result:
  assumes r: "internalMoveCreature e c d flags w = Some (ret, w')" and ok: "map_ok w" and c: "c \<in> placed w" and sh: "sheltered e w"
  shows "map_ok w'"
proof -
  define p where "p = cr_position (mw_creatures w c)"
  define w0 where "w0 = upd_creature c (\<lambda>x. x\<lparr>cr_lastPosition := p\<rparr>) w"
  define r1 where "r1 = (if is_player (mw_creatures w0 c) \<and> \<not> is_diagonal d
     then climb e c d p (getNextPosition d p) flags w0 else (getNextPosition d p, flags, w0))"
  obtain dest fl w1 where r1: "r1 = (dest, fl, w1)" by (cases r1)
  have q0: "quiet w w0" unfolding w0_def by (intro quiet_upd_creature quiet_refl) simp_all
  have "quiet w (snd (snd r1))"
    unfolding r1_def by (split if_split, intro conjI impI climb_quiet [OF q0]) (simp only: snd_conv, rule q0)
  then have "quiet w w1" unfolding r1 by (simp only: snd_conv)
  note k = quiet_ok [OF ok this]
  have "(case tile_at w1 dest of None \<Rightarrow> Some (RV_NOTPOSSIBLE, w1)
      | Some t \<Rightarrow> internalMoveCreature_tile e c t fl w1) = Some (ret, w')"
  proof -
    have "internalMoveCreature e c d flags w = (case r1 of (dest, fl, w1) \<Rightarrow>
        case tile_at w1 dest of None \<Rightarrow> Some (RV_NOTPOSSIBLE, w1) | Some t \<Rightarrow> internalMoveCreature_tile e c t fl w1)"
      unfolding internalMoveCreature_def Let_def p_def [symmetric] w0_def [symmetric] r1_def [symmetric] ..
    then show ?thesis unfolding r1 prod.case using r by (simp only:)
  qed
  moreover have "sheltered e w1" "c \<in> placed w1" using sh c k sheltered_at [OF k(3)] by simp_all
  ultimately show ?thesis using walk_tile_result [of e c _ fl w1 ret w' dest] k(1) by (cases "tile_at w1 dest") auto
qed

section \<open>Placing and removing\<close>

lemma find_place_at:
  "find_place e p c ext pz rels w = Some (Some tr, w') \<Longrightarrow> map_ok w \<Longrightarrow> \<exists>q. tile_at w q = Some tr"
proof (induction rels arbitrary: w)
  case (Cons r rels)
  obtain rx ry where r: "r = (rx, ry)" by (cases r)
  define q where "q = Position (pos_x p + of_int rx) (pos_y p + of_int ry) (pos_z p)"
  show ?case
  proof (cases "tile_at w q")
    case None
    then show ?thesis using Cons by (simp add: r q_def)
  next
    case (Some t)
    show ?thesis
    proof (cases "pz \<and> \<not> hasFlag TILESTATE_PROTECTIONZONE (mw_tiles w t)")
      case True
      then show ?thesis using Cons Some by (simp add: r q_def)
    next
      case False
      let ?w = "ignore_fields c True w"
      define test where "test = (\<lambda>ret v. if ret \<noteq> RV_NOERROR then Some False else if \<not> ext then Some True
          else isSightClear (place_view e v) p q False)"
      have "(do { (ret, v) \<leftarrow> t_queryAdd e t (TCreature c) (FLAG_IGNOREBLOCKITEM OR FLAG_IGNOREFIELDDAMAGE) None ?w;
                 clear \<leftarrow> test ret v;
                 if clear then Some (Some t, v) else find_place e p c ext pz rels v }) = Some (Some tr, w')"
        using Cons.prems(1) Some False unfolding r find_place.simps Let_def q_def [symmetric] test_def by simp
      then obtain ret v where v: "t_queryAdd e t (TCreature c) (FLAG_IGNOREBLOCKITEM OR FLAG_IGNOREFIELDDAMAGE) None ?w = Some (ret, v)"
        and rest: "test ret v \<bind> (\<lambda>clear. if clear then Some (Some t, v) else find_place e p c ext pz rels v) = Some (Some tr, w')"
        by (cases "t_queryAdd e t (TCreature c) (FLAG_IGNOREBLOCKITEM OR FLAG_IGNOREFIELDDAMAGE) None ?w") auto
      obtain b where b: "(if b then Some (Some t, v) else find_place e p c ext pz rels v) = Some (Some tr, w')"
        using rest by (cases "test ret v") auto
      have "quiet w v" using postD [OF queryAdd_quiet [OF ignore_fields_quiet [OF quiet_refl]] v] by simp
      note k = quiet_ok [OF Cons.prems(2) this]
      show ?thesis
      proof (cases b)
        case True
        then show ?thesis using b Some by auto
      next
        case False
        then have "find_place e p c ext pz rels v = Some (Some tr, w')" using b by simp
        from Cons.IH [OF this k(1)] show ?thesis by (simp only: k(3))
      qed
    qed
  qed
qed simp

lemma announce_continues:
  assumes r: "announce_creature e c w = Some w'" and ok: "map_ok w" and c: "c \<in> placed w"
  shows "continues w w'"
proof -
  obtain w1 s where s: "spectators_at (cr_position (mw_creatures (emit_map [ListAdded c] w) c)) False (emit_map [ListAdded c] w) = (w1, s)"
    by fastforce
  note f = spectators_at_fields [OF s]
  define v where "v = emit_map [CreatureAppear c s] w1"
  have v: "continues w v"
    by (rule continuesI [OF ok]) (auto simp: v_def f intro!: quiet_emit quiet_spectators_at [OF _ s])
  obtain tr w2 where t: "cr_tile (mw_creatures w1 c) = Some tr" and n: "t_postAddNotification_creature e c tr v = Some w2"
    and w': "w' = emit_map [CheckAdded c, CreaturePlaced c] w2"
    using r s by (auto simp: announce_creature_def Let_def bind_eq_Some_conv v_def)
  have c2: "continues v w2"
    by (rule notify_result [OF n]) (use v c t in \<open>simp_all add: continues_def v_def\<close>)
  then have "map_ok w2" by (simp add: continues_def)
  from continues_trans [OF continues_trans [OF v c2] emit_continues [OF this]] show ?thesis unfolding w' .
qed

lemmas announce_result = announce_continues [THEN iffD1 [OF continues_def], THEN conjunct1]

lemma map_place_result:
  assumes r: "map_placeCreature e rels p c ext forced w = Some (b, w')" and ok: "map_ok w" and c: "c \<notin> placed w"
    and sh: "sheltered e w"
  shows "map_ok w' \<and> (if b then c \<in> placed w' else placed w' = placed w)"
proof -
  define w0 where "w0 = ignore_fields c True w"
  have q0: "quiet w w0" unfolding w0_def by (rule ignore_fields_quiet [OF quiet_refl])
  obtain pz found w1 where f: "(case tile_at w0 p of None \<Rightarrow> Some (False, None, w0)
      | Some tr \<Rightarrow> do {
          (ret, v) \<leftarrow> t_queryAdd e tr (TCreature c) (FLAG_IGNOREBLOCKITEM OR FLAG_IGNOREFIELDDAMAGE) None w0;
          Some (hasFlag TILESTATE_PROTECTIONZONE (mw_tiles w0 tr),
            if forced \<or> ret = RV_NOERROR \<or> ret = RV_PLAYERISNOTINVITED then Some tr else None, ignore_fields c False v) })
      = Some (pz, found, w1)"
    using r unfolding map_placeCreature_def Let_def w0_def [symmetric] by (auto simp: bind_eq_Some_conv)
  have q1: "quiet w w1 \<and> (\<forall>tr. found = Some tr \<longrightarrow> tile_at w p = Some tr)"
  proof (cases "tile_at w0 p")
    case None
    then show ?thesis using f q0 by auto
  next
    case (Some tr)
    then obtain ret v where v: "t_queryAdd e tr (TCreature c) (FLAG_IGNOREBLOCKITEM OR FLAG_IGNOREFIELDDAMAGE) None w0 = Some (ret, v)"
      "w1 = ignore_fields c False v" "\<forall>t. found = Some t \<longrightarrow> t = tr"
      using f by (auto simp: bind_eq_Some_conv split: if_splits)
    have "quiet w v" using postD [OF queryAdd_quiet [OF q0] v(1)] by simp
    then show ?thesis using ignore_fields_quiet v(2,3) Some quiet_ok(3) [OF ok q0] by auto
  qed
  note k1 = quiet_ok [OF ok conjunct1 [OF q1]]
  obtain found2 w2 where f2: "(case found of Some tr \<Rightarrow> Some (Some tr, w1)
      | None \<Rightarrow> do { (found, v) \<leftarrow> find_place e p c ext pz rels w1;
                    Some (found, if found = None then v else ignore_fields c False v) }) = Some (found2, w2)"
    and rest: "(case found2 of None \<Rightarrow> Some (False, w2)
      | Some tr \<Rightarrow> do { let (d, i, fl) = t_queryDestination e tr (TCreature c) 0 w2;
                       v \<leftarrow> put_creature e c d w2; Some (True, v) }) = Some (b, w')"
    using r unfolding map_placeCreature_def Let_def w0_def [symmetric] f [unfolded Let_def] bind.bind_lunit prod.case
    by (auto simp: bind_eq_Some_conv)
  have q2: "quiet w w2 \<and> (\<forall>tr. found2 = Some tr \<longrightarrow> (\<exists>q. tile_at w q = Some tr))"
  proof (cases found)
    case None
    then obtain v where v: "find_place e p c ext pz rels w1 = Some (found2, v)"
      "w2 = (if found2 = None then v else ignore_fields c False v)"
      using f2 by (auto simp: bind_eq_Some_conv)
    have "quiet w v" using postD [OF find_place_quiet [OF conjunct1 [OF q1]] v(1)] by simp
    then have "quiet w w2" using ignore_fields_quiet by (simp add: v(2))
    moreover have "\<exists>q. tile_at w q = Some tr" if "found2 = Some tr" for tr
      using find_place_at [of e p c ext pz rels w1 tr v] v(1) k1(1) that by (simp only: k1(3))
    ultimately show ?thesis by blast
  qed (use f2 q1 in auto)
  note k2 = quiet_ok [OF ok conjunct1 [OF q2]]
  show ?thesis
  proof (cases found2)
    case None
    then show ?thesis using rest k2 by auto
  next
    case (Some tr)
    obtain d i fl where d: "t_queryDestination e tr (TCreature c) 0 w2 = (d, i, fl)" by (metis prod_cases3)
    obtain q where "tile_at w2 q = Some tr" using q2 Some k2(3) by auto
    then obtain q' where q': "tile_at w2 q' = Some d"
      using queryDestination_at [OF _ _ d] sh sheltered_at [OF k2(3)] by blast
    have "c \<notin> placed w2" using c k2(2) by simp
    then obtain v where v: "put_creature e c d w2 = Some v" "map_ok v" "placed v = insert c (placed w2)"
      by (rule put_creature_ok [OF k2(1) q'])
    then have "w' = v" "b" using rest Some d by auto
    then show ?thesis using v by simp
  qed
qed

lemma place_result:
  assumes r: "game_placeCreature e rels p c ext forced w = Some (b, w')" and ok: "map_ok w" and sh: "sheltered e w"
  shows "map_ok w'"
proof (cases "cr_tile (mw_creatures w c) = None")
  case True
  have c: "c \<notin> placed w"
  proof
    assume "c \<in> placed w"
    then obtain p tr where "cr_tile (mw_creatures w c) = Some tr" by (rule placedD [OF ok])
    then show False using True by simp
  qed
  obtain b1 w1 where p: "map_placeCreature e rels p c ext forced w = Some (b1, w1)"
    and rest: "(if \<not> b1 then Some (False, w1) else do { v \<leftarrow> announce_creature e c w1; Some (True, v) }) = Some (b, w')"
    using r True by (auto simp: game_placeCreature_def bind_eq_Some_conv)
  note k = map_place_result [OF p ok c sh]
  show ?thesis using rest k announce_result [of e c w1] by (auto simp: bind_eq_Some_conv split: if_splits)
qed (use r ok in \<open>simp add: game_placeCreature_def\<close>)

lemma remove_one_result:
  assumes r: "remove_one e c b w = Some w'" and ok: "map_ok w"
  shows "map_ok w'"
proof -
  obtain tr where tr: "cr_tile (mw_creatures w c) = Some tr" using r by (auto simp: remove_one_def bind_eq_Some_conv)
  obtain w1 s where s: "spectators_at (tilePos (mw_tiles w tr)) False w = (w1, s)" by fastforce
  have q1: "quiet w w1" by (rule quiet_spectators_at [OF quiet_refl s])
  note k1 = quiet_ok [OF ok q1]
  obtain w2 where w2: "t_removeCreature e tr c w1 = Some w2" using r tr s by (auto simp: remove_one_def bind_eq_Some_conv)
  have f: "mw_creatures w1 = mw_creatures w" "mw_tiles w1 = mw_tiles w" using spectators_at_fields [OF s] by simp_all
  have "c \<in> placed w1"
  proof -
    obtain l where l: "getQTNode (mw_grid w1) (pos_x (tilePos (mw_tiles w1 tr))) (pos_y (tilePos (mw_tiles w1 tr))) = Some l"
      "c \<in> set (creature_list (leaf (mw_grid w1) l))"
      using w2 by (auto simp: t_removeCreature_def leaf_remove_def removeCreature_def bind_eq_Some_conv split: option.splits if_splits)
    then show ?thesis using map_okD(5) [OF k1(1)] crowd_leaf(1) [OF l(1)] by (simp add: listed_def)
  qed
  then obtain v where "t_removeCreature e tr c w1 = Some v" "map_ok v"
    using removeCreature_ok [OF k1(1)] tr f(1) by metis
  then have ok2: "map_ok w2" using w2 by simp
  have "post (quiet w2) (Some w')"
    using r unfolding remove_one_def tr s w2 bind.bind_lunit Let_def prod.case
    by (simp only: option.inject) (auto intro!: quiets)
  then show ?thesis using quiet_ok(1) [OF ok2] by (simp add: post_def)
qed

lemma removal_loop_result:
  "removal_loop e rs w = Some w' \<Longrightarrow> map_ok w \<longrightarrow> map_ok w'"
proof (induction rule: removal_loop.raw_induct [rotated, consumes 1, case_names loop])
  case (loop f e rs w w')
  show ?case
  proof (intro impI)
    assume ok: "map_ok w"
    consider "rs = []" "w' = w" | c b where "rs \<noteq> []" "hd rs = Finish c b" | c where "rs \<noteq> []" "hd rs = Remove_Summon c"
      using loop(2) by (cases rs; cases "hd rs") auto
    then show "map_ok w'"
    proof cases
      case 2
      then have "f e (List.tl rs) (finish_removal c b w) = Some w'" using loop(2) by simp
      then show ?thesis using loop(1) quiet_ok(1) [OF ok finish_quiet [OF quiet_refl]] by blast
    next
      case 3
      define v where "v = upd_creature c (\<lambda>x. x\<lparr>cr_skillLoss := False\<rparr>) w"
      have "quiet w v" unfolding v_def by (intro quiet_upd_creature quiet_refl) simp_all
      then have okv: "map_ok v" by (rule quiet_ok(1) [OF ok])
      show ?thesis
      proof (cases "cr_removed (mw_creatures v c)")
        case True
        then have "f e (List.tl rs) v = Some w'" using loop(2) 3 by (simp add: v_def Let_def)
        then show ?thesis using loop(1) okv by blast
      next
        case False
        then obtain v1 where v1: "remove_one e c True v = Some v1"
          "f e (map Remove_Summon (cr_summons (mw_creatures v1 c)) @ Finish c True # List.tl rs) v1 = Some w'"
          using loop(2) 3 by (auto simp: v_def [symmetric] Let_def bind_eq_Some_conv)
        then show ?thesis using loop(1) remove_one_result [OF v1(1) okv] by blast
      qed
    qed (simp add: ok)
  qed
qed

lemma remove_result:
  assumes "game_removeCreature e c b w = Some w'" and "map_ok w"
  shows "map_ok w'"
  using assms removal_loop_result remove_one_result
  by (auto simp: game_removeCreature_def bind_eq_Some_conv split: if_splits)

section \<open>Reachable worlds\<close>

text \<open>
  One step of the game on the map. A new tile is not on the map yet, has no creatures and knows its
  position, as the map loader makes it; a creature that walks stands on the map.
\<close>

inductive map_step :: "map_env \<Rightarrow> map_world \<Rightarrow> map_world \<Rightarrow> bool" for e where
  set_tile: "\<forall>q. tile_at w q \<noteq> Some n \<Longrightarrow> t_creatures (mw_tiles w n) = [] \<Longrightarrow> tilePos (mw_tiles w n) = p \<Longrightarrow>
    setTile e p n w = Some w' \<Longrightarrow> map_step e w w'"
| add_item: "t_addThing e tr (TItem i) w = Some w' \<Longrightarrow> map_step e w w'"
| load_item: "map_step e w (t_internalAddThing e tr (TItem i) w)"
| remove_item: "t_removeThing e tr (TItem i) n w = Some w' \<Longrightarrow> map_step e w w'"
| update_item: "t_updateThing e tr thing newId n w = Some w' \<Longrightarrow> map_step e w w'"
| replace_item: "t_replaceThing e tr index thing w = Some w' \<Longrightarrow> map_step e w w'"
| notify_item: "map_step e w (t_postAddNotification_item tr i linkOwner w)"
| notify_removed: "map_step e w (t_postRemoveNotification tr thing w)"
| ask: "t_queryAdd e tr thing flags actor w = Some (ret, w') \<Longrightarrow> map_step e w w'"
| search: "spectators_at p b w = (w', s) \<Longrightarrow> map_step e w w'"
| turn: "map_step e w (internalCreatureTurn c d w)"
| place: "sheltered e w \<Longrightarrow> game_placeCreature e rels p c ext forced w = Some (b, w') \<Longrightarrow> map_step e w w'"
| walk: "sheltered e w \<Longrightarrow> c \<in> placed w \<Longrightarrow> internalMoveCreature e c d flags w = Some (ret, w') \<Longrightarrow> map_step e w w'"
| teleport: "c \<in> placed w \<Longrightarrow> tile_at w q = Some tr \<Longrightarrow> moveCreature e c tr force w = Some w' \<Longrightarrow> map_step e w w'"
| remove: "game_removeCreature e c isLogout w = Some w' \<Longrightarrow> map_step e w w'"

lemma map_step_ok: "map_step e w w' \<Longrightarrow> map_ok w \<Longrightarrow> map_ok w'"
proof (induction rule: map_step.induct)
  case (set_tile w n p w')
  show ?case by (rule setTile_result [OF set_tile.prems _ set_tile.hyps(2-4)]) (use set_tile.hyps(1) in blast)
next
  case (add_item tr i w w')
  show ?case by (rule quiet_ok(1) [OF add_item.prems postD [OF addThing_item_quiet [OF quiet_refl] add_item.hyps]])
next
  case (load_item w tr i)
  show ?case by (rule quiet_ok(1) [OF load_item internalAddThing_item_quiet [OF quiet_refl]])
next
  case (remove_item tr i n w w')
  show ?case by (rule quiet_ok(1) [OF remove_item.prems postD [OF removeThing_item_quiet [OF quiet_refl] remove_item.hyps]])
next
  case (update_item tr thing newId n w w')
  show ?case by (rule quiet_ok(1) [OF update_item.prems postD [OF updateThing_quiet [OF quiet_refl] update_item.hyps]])
next
  case (replace_item tr index thing w w')
  show ?case by (rule quiet_ok(1) [OF replace_item.prems postD [OF replaceThing_quiet [OF quiet_refl] replace_item.hyps]])
next
  case (notify_item w tr i linkOwner)
  show ?case by (rule quiet_ok(1) [OF notify_item postAdd_item_quiet [OF quiet_refl]])
next
  case (notify_removed w tr thing)
  show ?case by (rule quiet_ok(1) [OF notify_removed postRemove_quiet [OF quiet_refl]])
next
  case (ask tr thing flags actor w ret w')
  show ?case using postD [OF queryAdd_quiet [OF quiet_refl] ask.hyps] quiet_ok(1) [OF ask.prems] by simp
next
  case (search p b w w' s)
  show ?case by (rule quiet_ok(1) [OF search.prems quiet_spectators_at [OF quiet_refl search.hyps]])
next
  case (turn w c d)
  show ?case by (rule quiet_ok(1) [OF turn turn_quiet [OF quiet_refl]])
next
  case (place w rels p c ext forced b w')
  show ?case by (rule place_result [OF place.hyps(2) place.prems place.hyps(1)])
next
  case (walk w c d flags ret w')
  show ?case by (rule walk_result [OF walk.hyps(3) walk.prems walk.hyps(2,1)])
next
  case (teleport c w q tr force w')
  show ?case using moveCreature_result [OF teleport.hyps(3) teleport.prems teleport.hyps(1,2)] by (simp add: continues_def)
next
  case (remove c isLogout w w')
  show ?case by (rule remove_result [OF remove.hyps remove.prems])
qed

definition empty_map :: "map_world \<Rightarrow> bool" where
  "empty_map w \<longleftrightarrow> mw_grid w = new_grid"

lemma empty_map_ok: "empty_map w \<Longrightarrow> map_ok w"
proof -
  assume e: "empty_map w"
  have none: "getTile new_grid x y z = None" "cell new_grid x y = None" for x y z by (simp_all add: getTile_cell cell_def)
  have "placed w = {}" using e none by (simp add: placed_def tile_at_def empty_map_def)
  moreover have "cache_ok v S new_grid" for v S by (rule cache_ok_empty) (simp_all add: new_grid_def)
  ultimately show ?thesis using e none grid_ok_new
    by (simp add: map_ok_def empty_map_def tile_at_def listed_def crowd_def player_crowd_def)
qed

lemma reachable_map_ok: "(map_step e)\<^sup>*\<^sup>* w0 w \<Longrightarrow> map_ok w0 \<Longrightarrow> map_ok w"
  by (induction rule: rtranclp_induct) (auto intro: map_step_ok)

section \<open>A small world\<close>

lemma announce_returns:
  assumes ok: "map_ok w" and c: "c \<in> placed w" and t: "cr_tile (mw_creatures w c) = Some t" and d: "decided w t"
  shows "announce_creature e c w \<noteq> None"
proof -
  obtain w1 s where s: "spectators_at (cr_position (mw_creatures (emit_map [ListAdded c] w) c)) False (emit_map [ListAdded c] w) = (w1, s)"
    by fastforce
  note f = spectators_at_fields [OF s]
  define v where "v = emit_map [CreatureAppear c s] w1"
  have "continues w v"
    by (rule continuesI [OF ok]) (auto simp: v_def f intro!: quiet_emit quiet_spectators_at [OF _ s])
  then have v: "map_ok v" "c \<in> placed v" "same_map w v" "cr_tile (mw_creatures v c) = Some t"
    using c t f by (simp_all add: continues_def v_def)
  obtain t' where "arrives v t t'" using decided_arrives same_map_decided [OF v(3)] d by blast
  from notify_ok [OF this same_map_refl v(1,2,4)] obtain v' where
    "t_postAddNotification_creature e c t v = Some v'" by blast
  then show ?thesis using s v(4) by (simp add: announce_creature_def Let_def v_def)
qed

definition demo_position :: position where "demo_position = Position 100 100 7"

definition demo_map :: map_world where
  "demo_map = \<lparr>mw_items = demo_things, mw_grid = new_grid, mw_tiles = (\<lambda>_. new_tile 100 100 7),
     mw_creatures = (\<lambda>_. demo_creature Kind_Player 99), browseFields = (\<lambda>_. None), tilesToClean = {},
     teleportDest = (\<lambda>_. demo_position), map_events = []\<rparr>"

definition demo_map_env :: map_env where
  "demo_map_env = \<lparr>me_items = demo_env, me_cleanProtectionZones = False, me_bedRemovable = (\<lambda>_. True),
     me_protectionLevel = 1, me_noPvp = False, me_now = 0, me_rooted = (\<lambda>_. False), me_isInvited = (\<lambda>_ _. True),
     me_houseEntry = (\<lambda>_. demo_position), me_temple = (\<lambda>_. demo_position), me_nullTile = 0\<rparr>"

lemma demo_world_reached:
  "\<exists>w. (map_step demo_map_env)\<^sup>*\<^sup>* demo_map w \<and> 0 \<in> placed w \<and> tile_at w demo_position = Some 0
     \<and> 0 \<in> set (t_creatures (mw_tiles w 0)) \<and> teleport_target w 0 = None"
proof -
  have e: "empty_map demo_map" by (simp add: empty_map_def demo_map_def)
  note ok0 = empty_map_ok [OF e]
  have none: "getTile new_grid x y z = None" for x y z by (simp add: getTile_cell cell_def)
  obtain old g where g: "setTile_slot 100 100 7 0 new_grid = (old, g)" by fastforce
  have z: "\<not> (7 :: u8) \<ge> MAP_MAX_LAYERS" by simp
  note s = setTile_slot_spec [OF grid_ok_new z g]
  define w1 where "w1 = demo_map\<lparr>mw_grid := g\<rparr>"
  have r1: "setTile demo_map_env demo_position 0 demo_map = Some w1"
    using g s(2) none by (simp add: setTile_def demo_map_def demo_position_def w1_def)
  have step1: "map_step demo_map_env demo_map w1"
    by (rule set_tile [OF _ _ _ r1])
      (simp_all add: demo_map_def tile_at_def none new_tile_def demo_position_def)
  have ok1: "map_ok w1" by (rule map_step_ok [OF step1 ok0])
  have at1: "tile_at w1 demo_position = Some 0"
    using s(2,3) none by (simp add: tile_at_def w1_def demo_position_def)
  have tiles: "mw_tiles w1 t = new_tile 100 100 7" and creatures: "mw_creatures w1 c = demo_creature Kind_Player 99" for t c
    by (simp_all add: w1_def demo_map_def)
  have c1: "0 \<notin> placed w1" by (simp add: placed_def tiles new_tile_def)
  have sh: "sheltered demo_map_env w1" by (simp add: sheltered_def demo_map_env_def at1)
  obtain w2 where w2: "put_creature demo_map_env 0 0 w1 = Some w2" "map_ok w2" "placed w2 = insert 0 (placed w1)"
    "cr_tile (mw_creatures w2 0) = Some 0" "same_map w1 w2" by (rule put_creature_ok [OF ok1 at1 c1])
  have fl: "\<not> hasFlag f (mw_tiles w1 0)" for f by (simp add: tiles new_tile_def hasFlag_def hasBitSet_def)
  have ign: "ignore_fields 0 b w1 = w1" for b
    by (simp add: ignore_fields_def is_monster_def creatures demo_creature_def)
  have q: "t_queryAdd demo_map_env 0 (TCreature 0) 34 None w1
      = Some (RV_NOTPOSSIBLE, w1)"
    by (simp add: t_queryAdd_def queryAdd_creature_def tiles new_tile_def Let_def hasBitSet_def)
  have d: "t_queryDestination demo_map_env 0 (TCreature 0) 0 w1 = (0, None, 0)"
    using fl by (simp add: t_queryDestination_def queryDestination_tile_def floor_destination_def tiles getTopDownItem_def
        new_tile_def hasFlag_def hasBitSet_def)
  have place: "map_placeCreature demo_map_env [] demo_position 0 False True w1 = Some (True, w2)"
    by (simp add: map_placeCreature_def ign at1 q d w2(1) Let_def)
  have tp: "teleport_target w1 0 = None" using fl by (simp add: teleport_target_def)
  then have "decided w2 0" by (simp add: decided_def same_map_teleport(2) [OF w2(5)])
  then obtain w3 where w3: "announce_creature demo_map_env 0 w2 = Some w3"
    using announce_returns [OF w2(2) _ w2(4)] w2(3) by fastforce
  have "game_placeCreature demo_map_env [] demo_position 0 False True w1 = Some (True, w3)"
    by (simp add: game_placeCreature_def creatures demo_creature_def place w3)
  then have step2: "map_step demo_map_env w1 w3" by (rule map_step.place [OF sh])
  have c3: "continues w2 w3" using announce_continues [OF w3 w2(2)] w2(3) by simp
  then have p3: "0 \<in> placed w3" using w2(3) by (simp add: continues_def)
  have at3: "tile_at w3 = tile_at w1" 
    using same_map_at(1) [of w2 w3] same_map_at(1) [OF w2(5)] c3 by (simp add: continues_def)
  obtain p t where t: "tile_at w3 p = Some t" "0 \<in> set (t_creatures (mw_tiles w3 t))"
    using p3 by (auto simp: placed_def)
  have "getTile g (pos_x p) (pos_y p) (pos_z p) = Some t" using t(1) unfolding at3 by (simp add: tile_at_def w1_def)
  then have "t = 0" unfolding s(3) none by (simp split: if_splits)
  moreover have "(map_step demo_map_env)\<^sup>*\<^sup>* demo_map w3"
    by (rule rtranclp.rtrancl_into_rtrancl [OF r_into_rtranclp [of "map_step demo_map_env", OF step1] step2])
  moreover have "tile_at w3 demo_position = Some 0" unfolding at3 by (rule at1)
  moreover have "teleport_target w3 0 = None"
    using tp c3 same_map_teleport(2) [OF same_map_trans [OF w2(5)]] by (simp add: continues_def)
  ultimately show ?thesis using p3 t(2) \<open>t = 0\<close> by blast
qed

text \<open>C14: In every world that can be reached from an empty map, by setting tiles, by item operations, by
  placing, moving and removing creatures and by queries in any order, a search for spectators that
  starts from the empty set finds exactly the creatures of its area that tiles of the map list, by the
  positions they have now, although it reads the leaves and two caches.\<close>

theorem search_finds_exactly_those_in_range:
  assumes "empty_map w0" and "(map_step e)\<^sup>*\<^sup>* w0 w" and "\<not> pos_z p \<ge> MAP_MAX_LAYERS"
  shows "snd (getSpectators (view w) p multifloor onlyPlayers a b c d (mw_grid w, {}))
    = watchers (view w) (placed w) p (asked_range p multifloor a b c d) onlyPlayers"
proof -
  note ok = reachable_map_ok [OF assms(2) empty_map_ok [OF assms(1)]]
  obtain g s where r: "getSpectators (view w) p multifloor onlyPlayers a b c d (mw_grid w, {}) = (g, s)" by fastforce
  show ?thesis
    using getSpectators_spec(1) [OF map_okD(1) [OF ok] listed_indexed [OF map_okD(5) [OF ok]] map_okD(6) [OF ok] assms(3) r]
    by (simp add: r)
qed

theorem search_finds_exactly_those_in_range_witness:
  "\<exists>w. 0 \<in> placed w \<and> snd (getSpectators (view w) demo_position True True 0 0 0 0 (mw_grid w, {}))
     = watchers (view w) (placed w) demo_position (asked_range demo_position True 0 0 0 0) True"
proof -
  obtain w where w: "(map_step demo_map_env)\<^sup>*\<^sup>* demo_map w" "0 \<in> placed w" using demo_world_reached by blast
  have "empty_map demo_map" by (simp add: empty_map_def demo_map_def)
  from search_finds_exactly_those_in_range [OF this w(1), of demo_position True True 0 0 0 0] w(2) show ?thesis
    by (simp add: demo_position_def) blast
qed

text \<open>C15: In every reachable world a creature stands on at most one tile of the map, once, and on the tile
  its parent pointer names, with that tile's position; a tile knows its position.\<close>

theorem creatures_stand_on_their_tile:
  assumes "empty_map w0" and "(map_step e)\<^sup>*\<^sup>* w0 w"
    and "tile_at w p = Some tr" and "c \<in> set (t_creatures (mw_tiles w tr))"
  shows "tilePos (mw_tiles w tr) = p \<and> cr_tile (mw_creatures w c) = Some tr \<and> cr_position (mw_creatures w c) = p
    \<and> distinct (t_creatures (mw_tiles w tr))
    \<and> {q. \<exists>t. tile_at w q = Some t \<and> c \<in> set (t_creatures (mw_tiles w t))} = {p}"
proof -
  note ok = reachable_map_ok [OF assms(2) empty_map_ok [OF assms(1)]]
  note f = map_okD(2-4) [OF ok]
  have "q = p" if "tile_at w q = Some t" "c \<in> set (t_creatures (mw_tiles w t))" for q t
    using f(3) [OF that] f(3) [OF assms(3,4)] by simp
  then show ?thesis using f [OF assms(3)] f(3) [OF assms(3,4)] assms(3,4) by blast
qed

theorem creatures_stand_on_their_tile_witness:
  "\<exists>w. 0 \<in> placed w \<and> cr_tile (mw_creatures w 0) = Some 0 \<and> cr_position (mw_creatures w 0) = demo_position"
proof -
  obtain w where w: "(map_step demo_map_env)\<^sup>*\<^sup>* demo_map w" "0 \<in> placed w" "tile_at w demo_position = Some 0"
    "0 \<in> set (t_creatures (mw_tiles w 0))" using demo_world_reached by blast
  have "empty_map demo_map" by (simp add: empty_map_def demo_map_def)
  from creatures_stand_on_their_tile [OF this w(1,3,4)] w(2) show ?thesis by blast
qed

text \<open>C16: Moving a creature to a tile of the map returns exactly when the chain of teleports from that tile is
  decided, that is, when the check for loops returns; then the creature ends on the tile where the chain
  ends, or before the teleport whose chain would come back to it. A chain that runs into a cycle without
  its origin is not decided.\<close>

theorem moves_end_where_teleports_do:
  assumes ok: "map_ok w" and c: "c \<in> placed w" and at: "tile_at w q = Some newTile"
  shows "(moveCreature e c newTile force w \<noteq> None) = decided w newTile
    \<and> (arrives w newTile t \<longrightarrow> map_option (\<lambda>w'. cr_tile (mw_creatures w' c)) (moveCreature e c newTile force w) = Some (Some t))"
proof -
  obtain v where v: "leave_for e c newTile force w = Some v" "continues w v" "cr_tile (mw_creatures v c) = Some newTile"
    using leave_for_ok [OF ok c at] by blast
  have m: "moveCreature e c newTile force w = t_postAddNotification_creature e c newTile v"
    using v(1) by (simp add: moveCreature_def)
  have v': "same_map w v" "map_ok v" "c \<in> placed v" using v(2) c by (simp_all add: continues_def)
  have "decided w newTile" if "moveCreature e c newTile force w \<noteq> None"
    using that notify_decided [OF _ v'(2)] same_map_decided [OF v'(1)] unfolding m by auto
  moreover have a: "\<exists>v'. t_postAddNotification_creature e c newTile v = Some v' \<and> cr_tile (mw_creatures v' c) = Some t'"
    if "arrives w newTile t'" for t'
    using notify_ok [OF that v' v(3)] by blast
  moreover have "moveCreature e c newTile force w \<noteq> None" if "decided w newTile"
    using a decided_arrives [OF that] unfolding m by blast
  ultimately show ?thesis unfolding m by auto
qed

theorem moves_end_where_teleports_do_witness:
  "\<exists>w w'. moveCreature demo_map_env 0 0 True w = Some w' \<and> cr_tile (mw_creatures w' 0) = Some 0"
proof -
  obtain w where w: "(map_step demo_map_env)\<^sup>*\<^sup>* demo_map w" "0 \<in> placed w" "tile_at w demo_position = Some 0"
    "teleport_target w 0 = None" using demo_world_reached by blast
  have ok: "map_ok w" by (rule reachable_map_ok [OF w(1) empty_map_ok]) (simp add: empty_map_def demo_map_def)
  show ?thesis
    using moves_end_where_teleports_do [OF ok w(2,3), of demo_map_env True 0] arrives.stay [OF w(4)] by auto
qed

end
