(* ===== verification/Spec2Isabelle.thy ===== *)
theory Spec2Isabelle
  imports Position Sha1 Connection PartyProps Chat Scheduling Wildcard Waitlist Ban FileLoader Pathfind MapWorld
begin

text \<open>
  The core of the game server under \<open>src/src\<close>, translated to HOL definitions and verified.

  Parts of the program and the theories that model them:

  \<^item> \<open>Prelude\<close>, \<open>StdMap\<close>: machine integers, little-endian images, decimal printing, and \<open>std::map\<close> as
    a sorted association list behind the locale \<open>assoc_store\<close>.
  \<^item> \<open>Position\<close>: \<open>game/movement/position.h\<close>, \<open>position.cpp\<close> and the direction functions of
    \<open>utils/tools.cpp\<close>; coordinates keep their widths.
  \<^item> \<open>NetMessage\<close>: \<open>server/network/message/networkmessage.h\<close>, \<open>.cpp\<close>. The record \<open>netmsg\<close> is the buffer
    with \<open>info.length\<close>, \<open>info.position\<close>, \<open>info.overrun\<close>; an access outside the array is \<open>None\<close>. The locale
    \<open>message_codec\<close> lifts the round trip of one field to sequences.
  \<^item> \<open>Xtea\<close>: \<open>security/xtea.cpp\<close>, through the locale \<open>block_cipher\<close>. \<open>Checksum\<close>: \<open>adlerChecksum\<close>.
    \<open>Sha1\<close>: \<open>transformToSHA1\<close> and \<open>generateToken\<close>, all of \<open>utils/tools.cpp\<close>.
  \<^item> \<open>Protocol\<close>: \<open>server/network/message/outputmessage.h\<close> and \<open>server/network/protocol/protocol.cpp\<close>: headers,
    padding, encryption and the frame on the wire.
  \<^item> \<open>Connection\<close>: \<open>server/network/connection/connection.cpp\<close> and the service ports of \<open>server/server.cpp\<close>:
    one operation per handler, and \<open>conn_step\<close> as their interleavings with the socket and the timers.
  \<^item> \<open>Party\<close>, \<open>PartyInv\<close>, \<open>PartyProps\<close>: \<open>creatures/players/grouping/party.cpp\<close>, the party handlers of
    \<open>game/game.cpp\<close> and the party functions of \<open>creatures/players/player.cpp\<close>. Parties are a store
    from references to records, so that the pointers between players and parties are explicit
    and following a dead one is \<open>None\<close>. \<open>PartyInv\<close> projects the world to the link structure
    \<open>net\<close>, gives each operation its abstract counterpart on it and shows the simulation.
  \<^item> \<open>Chat\<close>: \<open>creatures/interactions/chat.cpp\<close> and the channel handlers of \<open>game/game.cpp\<close>.
  \<^item> \<open>Scheduling\<close>: \<open>game/scheduling\<close>: the dispatcher and scheduler loops, one pass at a time, and their
    interleavings; the event list behind the locale \<open>priority_queue\<close>.
  \<^item> \<open>Wildcard\<close>: \<open>utils/wildcardtree.cpp\<close> and the player tables of \<open>game/game.cpp\<close>; the prefix tree is
    shown to be a set of names through the locale \<open>name_index\<close>.
  \<^item> \<open>Waitlist\<close>, \<open>Ban\<close>: \<open>creatures/players/management\<close>: the login queue and the throttle of connections.
  \<^item> \<open>FileLoader\<close>: \<open>io/fileloader.h\<close>, \<open>.cpp\<close>: the node tree of map and item files and property streams.
  \<^item> \<open>Pathfind\<close>: the path search of \<open>map/map.cpp\<close> with the path condition of \<open>creatures/creature.cpp\<close>.

  \<^item> \<open>Items\<close>, \<open>Container\<close>: the attributes, kinds and weights of \<open>items/item.h\<close>, \<open>item.cpp\<close>, and
    \<open>items/containers/container.cpp\<close>. Containers are a store from references to records whose parent
    pointers and item lists are explicit; \<open>forest_ok\<close> says that both agree and that no container holds
    itself. The classes derived from \<open>Container\<close> are a field of the record; what other cylinders
    and houses answer is the parameter \<open>item_env\<close>.

  \<^item> \<open>MapGrid\<close>, \<open>Spectators\<close>: the quadtree of \<open>map/map.h\<close>, \<open>map.cpp\<close> that indexes tiles and creatures,
    the search for the creatures around a position with its two caches, and the lines of sight.
    Leaves are a store from references to records with explicit links to their neighbours;
    \<open>grid_ok\<close> says that the links agree with the tree.

  \<^item> \<open>Tile\<close>: the tiles of \<open>items/tile.h\<close>, \<open>tile.cpp\<close>: the item vector in its two parts, the flags, the
    positions of things and the description that \<open>protocolgame.cpp\<close> sends of a tile. \<open>tile_ok\<close> says
    that the vector is split and ordered as the code keeps it.

  \<^item> \<open>TileOps\<close>, \<open>MapOps\<close>, \<open>TileQuery\<close>: the operations and queries of \<open>tile.cpp\<close> and \<open>map/house/housetile.cpp\<close>,
    \<open>Map::setTile\<close>, \<open>moveCreature\<close> and \<open>placeCreature\<close>, the teleports of \<open>game/movement/teleport.cpp\<close>, and placing,
    walking and removing of \<open>game/game.cpp\<close>. One record \<open>map_world\<close> joins the items, the map index with its
    caches, the tiles and the creatures; what is sent, what is called in scripts and what other parts
    of the game are told is a list of events \<open>map_event\<close>; what houses, beds and the configuration
    answer is \<open>map_env\<close>. Reference counts are left out.
  \<^item> \<open>MapInv\<close>, \<open>MapQuiet\<close>, \<open>MapMoves\<close>, \<open>MapWorld\<close>: \<open>map_ok\<close> ties the creatures, their tiles, the index and the
    caches together. Operations that touch none of these are \<open>quiet\<close>; \<open>MapMoves\<close> follows a creature through
    teleports and \<open>MapWorld\<close> shows that every step \<open>map_step\<close> keeps \<open>map_ok\<close>. A step that may send a
    creature to the last resort of a house, a tile outside the map, assumes \<open>sheltered\<close>: that
    houses have an entry or the players a temple on the map.

  How they interact: a connection queues output messages and hands each to its protocol when its
  turn comes; the protocol pads, encrypts and frames it with the message, cipher and checksum
  operations; incoming frames go the reverse way and end in handlers such as those of parties
  and chat, which the dispatcher runs one at a time. Handlers emit the packets and messages
  they send as values of an output list.

  Lua scripts, the database, the configuration and the random generator are parameters: arguments
  of the definitions that use them. Recursion is structural or has a proved measure; the search
  loop of \<open>Pathfind\<close>, the client loops over it and the loops of \<open>Container\<close> that climb the parents
  or walk the contents are \<open>partial_function (option)\<close>, and that they
  return is part of the properties; so are the walk along a chain of teleports, the check of such a
  chain and the removal of summons in \<open>MapOps\<close>. The only counted loop is \<open>follow_floors\<close>, whose bound of
  sixteen floors (\<open>MAP_MAX_LAYERS\<close>) is the code's own.

  Not modelled: the Lua bindings, the database layer, item and map loading, combat, monsters, the
  game protocol parser and everything that only forwards to them.
\<close>

end
